(* ===== verification/Prelude.thy ===== *)
theory Prelude
  imports Main "HOL-Library.Word" "HOL-Library.Code_Target_Nat"
begin

text \<open>
  Shared vocabulary of the development: the C integer types as words, the loops that assemble
  and split little-endian values, and the generic facts on words, bits and lists that the
  component theories use. Collections: \<open>byte_simps\<close> (bits of assembled and split
  values), \<open>flag_simps\<close> (tests of a single bit with a mask).
\<close>

unbundle bit_operations_syntax

section \<open>C integer types\<close>

type_synonym u8 = "8 word"
type_synonym u16 = "16 word"
type_synonym u32 = "32 word"
type_synonym u64 = "64 word"

text \<open>Memory contents: the byte at every index of an array.\<close>

type_synonym bytes = "nat \<Rightarrow> u8"

named_theorems byte_simps
named_theorems flag_simps

text \<open>\<open>SIZE_MAX\<close> and \<open>UINT64_MAX\<close> of a 64-bit host.\<close>

definition SIZE_MAX :: nat where
  "SIZE_MAX = 2 ^ 64 - 1"

definition UINT64_MAX :: u64 where
  "UINT64_MAX = - 1"

text \<open>\<open>UINT64_C(1) << n\<close>\<close>

definition BIT :: "nat \<Rightarrow> u64" where
  "BIT n = push_bit n 1"

section \<open>Little-endian loops\<close>

text \<open>
  \<^verbatim>\<open>for (i = 0; i < width; ++i) result |= (uint64_t)source[i] << (i * 8);\<close>
\<close>

definition assemble_le :: "bytes \<Rightarrow> nat \<Rightarrow> u64" where
  "assemble_le source width =
     fold (\<lambda>i result. result OR push_bit (i * 8) (ucast (source i))) [0..<width] 0"

text \<open>
  \<^verbatim>\<open>for (i = 0; i < width; ++i) destination[i] = (uint8_t)(value >> (i * 8));\<close>
\<close>

definition byte_of :: "u64 \<Rightarrow> nat \<Rightarrow> u8" where
  "byte_of value i = ucast (drop_bit (i * 8) value)"

definition scatter_le :: "bytes \<Rightarrow> nat \<Rightarrow> nat \<Rightarrow> u64 \<Rightarrow> bytes" where
  "scatter_le destination start width value =
     fold (\<lambda>i d. d(start + i := byte_of value i)) [0..<width] destination"

section \<open>Facts on bits and flags\<close>

text \<open>Code equations with which concrete runs of the model evaluate quickly.\<close>

lemma BIT_code [code]: "BIT n = word_of_int (2 ^ n)"
  by (simp add: BIT_def push_bit_eq_mult)

lemma SIZE_MAX_code [code]: "SIZE_MAX = 18446744073709551615"
  by (simp add: SIZE_MAX_def)

lemma push_bit_word_code [code]: "push_bit n w = word_of_int (uint w * 2 ^ n)" for w :: "'a::len word"
  by (simp add: push_bit_eq_mult)

lemma take_bit_int_code [code]: "take_bit n k = k mod 2 ^ n" for k :: int
  by (rule take_bit_eq_mod)

lemma bit_BIT [flag_simps]: "bit (BIT n) m \<longleftrightarrow> m = n \<and> n < 64"
  by (auto simp: BIT_def bit_simps)

lemma BIT_test [flag_simps]: "n < 64 \<Longrightarrow> x AND BIT n = 0 \<longleftrightarrow> \<not> bit x n"
proof
  assume n: "n < 64" and "x AND BIT n = 0"
  then have "\<not> bit (x AND BIT n) n" by simp
  with n show "\<not> bit x n" by (simp add: bit_simps bit_BIT)
next
  assume "n < 64" and "\<not> bit x n"
  then show "x AND BIT n = 0"
    by (intro bit_word_eqI) (auto simp: bit_simps bit_BIT)
qed

lemma bit_u64_less: "bit (x :: u64) n \<Longrightarrow> n < 64"
  using bit_imp_le_length by fastforce

lemma bit_u8_less: "bit (x :: u8) n \<Longrightarrow> n < 8"
  using bit_imp_le_length by fastforce

lemma UINT64_MAX_unat [simp]: "unat UINT64_MAX = 2 ^ 64 - 1"
  by (simp add: UINT64_MAX_def unsigned_minus_1_eq_mask mask_eq_exp_minus_1)

lemma u64_le_max [simp]: "x \<le> UINT64_MAX"
  by (simp add: UINT64_MAX_def)

lemma unat_u64_bound [simp]: "unat (x :: u64) < 18446744073709551616"
  using unsigned_less [of x, where 'a = nat] by simp

lemma le_UINT64_MAX_minus: "(a :: u64) \<le> UINT64_MAX - b \<longleftrightarrow> unat a + unat b < 2 ^ 64"
proof -
  have "unat (UINT64_MAX - b) = 2 ^ 64 - 1 - unat b" using unat_sub [of b UINT64_MAX] by simp
  then show ?thesis using unat_u64_bound [of b] by (auto simp: word_le_nat_alt simp del: unat_u64_bound)
qed

lemma SIZE_MAX_u64 [simp]: "\<not> SIZE_MAX < unat (x :: u64)"
  using unat_u64_bound [of x] by (simp add: SIZE_MAX_def del: unat_u64_bound)

section \<open>Facts on the little-endian loops\<close>

lemma assemble_le_0 [simp]: "assemble_le s 0 = 0"
  by (simp add: assemble_le_def)

lemma assemble_le_Suc:
  "assemble_le s (Suc w) = assemble_le s w OR push_bit (w * 8) (ucast (s w))"
  by (simp add: assemble_le_def)

lemma bit_assemble_le [byte_simps]:
  "bit (assemble_le s w) n \<longleftrightarrow> n < 64 \<and> n div 8 < w \<and> bit (s (n div 8)) (n mod 8)"
proof (induction w)
  case 0
  then show ?case by simp
next
  case (Suc w)
  have "bit (push_bit (w * 8) (ucast (s w)) :: u64) n
          \<longleftrightarrow> n < 64 \<and> n div 8 = w \<and> bit (s w) (n mod 8)"
  proof (cases "n div 8 = w")
    case True
    then have "w * 8 \<le> n" "n - w * 8 = n mod 8" by (auto simp: minus_mult_div_eq_mod [symmetric])
    with True show ?thesis by (auto simp: bit_simps)
  next
    case False
    then have "n < w * 8 \<or> 8 \<le> n - w * 8" by auto
    with False show ?thesis
      by (auto simp: bit_simps dest: bit_u8_less)
  qed
  with Suc show ?case by (auto simp: assemble_le_Suc bit_simps less_Suc_eq)
qed

lemma assemble_le_cong:
  "(\<And>i. i < w \<Longrightarrow> s i = t i) \<Longrightarrow> assemble_le s w = assemble_le t w"
  by (intro bit_word_eqI) (auto simp: bit_assemble_le)

lemma bit_byte_of [byte_simps]: "bit (byte_of v i) n \<longleftrightarrow> n < 8 \<and> bit v (i * 8 + n)"
  by (auto simp: byte_of_def bit_simps add.commute dest: bit_u64_less)

text \<open>Splitting and assembling are inverse to each other.\<close>

lemma byte_of_assemble_le:
  assumes "i < w" "w \<le> 8"
  shows "byte_of (assemble_le s w) i = s i"
proof (intro bit_word_eqI)
  fix n assume n: "n < LENGTH(8)"
  with assms show "bit (byte_of (assemble_le s w) i) n = bit (s i) n"
    by (simp add: bit_byte_of bit_assemble_le)
qed

lemma assemble_byte_of: "assemble_le (byte_of v) w = take_bit (8 * w) v"
proof (intro bit_word_eqI)
  fix n assume "n < LENGTH(64)"
  moreover have "n div 8 * 8 + n mod 8 = n" by simp
  moreover have "n div 8 < w \<longleftrightarrow> n < 8 * w" by auto
  ultimately show "bit (assemble_le (byte_of v) w) n = bit (take_bit (8 * w) v) n"
    by (simp add: bit_assemble_le bit_byte_of bit_take_bit_iff)
qed

lemma assemble_le_split:
  assumes "a + b \<le> 8"
  shows "assemble_le s (a + b) =
     assemble_le s a OR push_bit (a * 8) (assemble_le (\<lambda>i. s (a + i)) b)"
proof (intro bit_word_eqI)
  fix n assume n: "n < LENGTH(64)"
  show "bit (assemble_le s (a + b)) n =
        bit (assemble_le s a OR push_bit (a * 8) (assemble_le (\<lambda>i. s (a + i)) b)) n"
  proof (cases "n < a * 8")
    case True
    with n show ?thesis by (auto simp: bit_simps bit_assemble_le)
  next
    case False
    then obtain m where m: "n = m + a * 8" by (metis add.commute le_add_diff_inverse not_less)
    with n show ?thesis
      by (auto simp: bit_simps bit_assemble_le dest: bit_u8_less)
  qed
qed

lemma scatter_le_0 [simp]: "scatter_le d a 0 v = d"
  by (simp add: scatter_le_def)

lemma scatter_le_Suc: "scatter_le d a (Suc w) v = (scatter_le d a w v)(a + w := byte_of v w)"
  by (simp add: scatter_le_def)

lemma scatter_le_apply [byte_simps]:
  "scatter_le d a w v j = (if a \<le> j \<and> j < a + w then byte_of v (j - a) else d j)"
  by (induction w) (auto simp: scatter_le_Suc)

end
