(* ===== verification/Memory.thy ===== *)
theory Memory
  imports Prelude
begin

text \<open>
  The contract between a memory that is read and written in words of 1 to 8 bytes and its
  clients. The provider promises when an access succeeds, that a write keeps the accessible
  addresses, that a read returns what was written there and that it is unaffected by a write
  to a disjoint range. The clients proved here are frames: two or three 64-bit cells written
  at consecutive addresses, as the trap entry of the CPU does.
\<close>

section \<open>The interface\<close>

definition disjoint_access :: "u64 \<Rightarrow> nat \<Rightarrow> u64 \<Rightarrow> nat \<Rightarrow> bool" where
  "disjoint_access a w b u \<longleftrightarrow> unat a + w \<le> unat b \<or> unat b + u \<le> unat a"

locale word_memory =
  fixes rd :: "'m \<Rightarrow> u64 \<Rightarrow> nat \<Rightarrow> u64 option"
    and wr :: "'m \<Rightarrow> u64 \<Rightarrow> nat \<Rightarrow> u64 \<Rightarrow> 'm option"
    and ok :: "'m \<Rightarrow> u64 \<Rightarrow> nat \<Rightarrow> bool"
  assumes rd_ok: "rd m a w \<noteq> None \<longleftrightarrow> ok m a w"
    and wr_ok: "wr m a w v \<noteq> None \<longleftrightarrow> ok m a w"
    and wr_keeps_ok: "wr m a w v = Some m' \<Longrightarrow> ok m' b u = ok m b u"
    and rd_wr_same: "wr m a w v = Some m' \<Longrightarrow> rd m' a w = Some (take_bit (8 * w) v)"
    and rd_wr_other:
      "wr m a w v = Some m' \<Longrightarrow> disjoint_access a w b u \<Longrightarrow> rd m' b u = rd m b u"
begin

lemma wr_Some: "ok m a w \<Longrightarrow> \<exists>m'. wr m a w v = Some m'"
  using wr_ok [of m a w v] by auto

lemma rd_wr_same64: "wr m a 8 v = Some m' \<Longrightarrow> rd m' a 8 = Some v"
  using rd_wr_same [of m a 8 v m'] by (simp add: take_bit_word_eq_self)

lemma frame2_written:
  assumes "ok m a 8" "ok m b 8" "disjoint_access b 8 a 8"
  obtains m1 m2 where "wr m a 8 x = Some m1" "wr m1 b 8 y = Some m2"
    "rd m2 a 8 = Some x" "rd m2 b 8 = Some y"
proof -
  obtain m1 where m1: "wr m a 8 x = Some m1" using assms(1) wr_Some by blast
  have "ok m1 b 8" using wr_keeps_ok [OF m1] assms(2) by simp
  then obtain m2 where m2: "wr m1 b 8 y = Some m2" using wr_Some by blast
  show ?thesis
    using that [OF m1 m2] rd_wr_same64 [OF m1] rd_wr_same64 [OF m2] rd_wr_other [OF m2 assms(3)]
    by simp
qed

lemma frame3_written:
  assumes "ok m a 8" "ok m b 8" "ok m c 8"
    and "disjoint_access b 8 a 8" "disjoint_access c 8 a 8" "disjoint_access c 8 b 8"
  obtains m1 m2 m3 where "wr m a 8 x = Some m1" "wr m1 b 8 y = Some m2" "wr m2 c 8 z = Some m3"
    "rd m3 a 8 = Some x" "rd m3 b 8 = Some y" "rd m3 c 8 = Some z"
proof -
  obtain m1 m2 where m: "wr m a 8 x = Some m1" "wr m1 b 8 y = Some m2"
    "rd m2 a 8 = Some x" "rd m2 b 8 = Some y"
    using frame2_written [OF assms(1,2,4)] by blast
  have "ok m2 c 8" using wr_keeps_ok [OF m(2)] wr_keeps_ok [OF m(1)] assms(3) by simp
  then obtain m3 where m3: "wr m2 c 8 z = Some m3" using wr_Some by blast
  show ?thesis
    using that [OF m(1,2) m3] m(3,4) rd_wr_same64 [OF m3] rd_wr_other [OF m3 assms(5)]
      rd_wr_other [OF m3 assms(6)] by simp
qed

end

section \<open>Compare-and-swap on top of a memory\<close>

text \<open>
  A memory with a compare-and-swap on 64-bit cells. The client is the spin lock of the guest:
  a cell is taken by swapping 0 for a non-zero owner, and only one owner can win.
\<close>

locale cas_memory = word_memory +
  fixes cas :: "'m \<Rightarrow> u64 \<Rightarrow> u64 \<Rightarrow> u64 \<Rightarrow> (u64 \<times> 'm) option"
    and cas_ok :: "'m \<Rightarrow> u64 \<Rightarrow> bool"
  assumes cas_defined: "cas m a e d \<noteq> None \<longleftrightarrow> cas_ok m a"
    and cas_ok_ok: "cas_ok m a \<Longrightarrow> ok m a 8"
    and cas_step: "cas m a e d = Some (x, m') \<Longrightarrow>
      rd m a 8 = Some x \<and> (if x = e then wr m a 8 d = Some m' else m' = m)"
begin

lemma cas_success:
  "cas m a e d = Some (e, m') \<Longrightarrow> rd m' a 8 = Some d"
  using cas_step rd_wr_same64 by (metis (full_types))

lemma cas_failure:
  "cas m a e d = Some (x, m') \<Longrightarrow> x \<noteq> e \<Longrightarrow> m' = m \<and> rd m a 8 = Some x"
  using cas_step by (metis (full_types))

lemma cas_lock_exclusive:
  assumes "cas m a 0 p = Some (x, m')" "cas m' a 0 q = Some (y, m'')" "p \<noteq> 0" "x = 0"
  shows "y \<noteq> 0 \<and> m'' = m'"
proof -
  have "rd m' a 8 = Some p" using assms(1,4) cas_success by blast
  moreover have "rd m' a 8 = Some y" using cas_step [OF assms(2)] by simp
  ultimately have "y = p" by simp
  with assms(3) show ?thesis using cas_failure [OF assms(2)] by simp
qed

end

end
