(* ===== verification/Ram.thy ===== *)
theory Ram
  imports Memory
begin

text \<open>
  The guest RAM (\<^verbatim>\<open>src/ram.c\<close>): range checks, little-endian reads and writes of 1 to
  8 bytes with the aligned fast path and the byte loop, block copies in naturally aligned
  chunks, the three 64-bit atomic operations and the parser of RAM sizes.

  A RAM is the byte array \<open>ram_data\<close> and its size. The array is a total function on
  indices, so that a store outside \<open>[0, ram_size)\<close> would be visible in the model. The
  stripe locks are not part of this record; the lock protocol is the subject of the theory
  \<open>Ram_Locks\<close>. Pointer arguments are values, so the tests against \<open>NULL\<close> have
  no counterpart. The fast path is the one of a little-endian host with GCC or Clang.
\<close>

section \<open>State and range checks\<close>

record ram =
  ram_data :: bytes
  ram_size :: nat

definition ram_range_valid :: "ram \<Rightarrow> u64 \<Rightarrow> nat \<Rightarrow> bool" where
  "ram_range_valid ram address width \<longleftrightarrow>
     (if width = 0 \<or> width > 8 \<or> unat address > SIZE_MAX then False
      else unat address \<le> ram_size ram \<and> width \<le> ram_size ram - unat address)"

definition naturally_aligned :: "u64 \<Rightarrow> nat \<Rightarrow> bool" where
  "naturally_aligned address width \<longleftrightarrow> address AND (of_nat width - 1) = 0"

section \<open>Reads and writes\<close>

text \<open>
  \<^verbatim>\<open>__atomic_load_n\<close> and \<^verbatim>\<open>__atomic_store_n\<close> on a \<^verbatim>\<open>uintN_t\<close> object at index
  \<open>a\<close>; \<open>None\<close> when the \<^verbatim>\<open>switch (width)\<close> has no case for the width.
\<close>

definition native_load :: "bytes \<Rightarrow> nat \<Rightarrow> nat \<Rightarrow> u64 option" where
  "native_load d a width =
     (if width = 1 then Some (ucast (d a))
      else if width = 2 then Some (ucast (word_cat (d (a + 1)) (d a) :: u16))
      else if width = 4 then
        Some (ucast (word_cat (word_cat (d (a + 3)) (d (a + 2)) :: u16)
                              (word_cat (d (a + 1)) (d a) :: u16) :: u32))
      else if width = 8 then
        Some (word_cat
          (word_cat (word_cat (d (a + 7)) (d (a + 6)) :: u16)
                    (word_cat (d (a + 5)) (d (a + 4)) :: u16) :: u32)
          (word_cat (word_cat (d (a + 3)) (d (a + 2)) :: u16)
                    (word_cat (d (a + 1)) (d a) :: u16) :: u32))
      else None)"

definition native_store :: "bytes \<Rightarrow> nat \<Rightarrow> nat \<Rightarrow> u64 \<Rightarrow> bytes option" where
  "native_store d a width value =
     (if width = 1 then Some (d(a := ucast value))
      else if width = 2 then
        (let v = ucast value :: u16
         in Some (d(a := ucast v, a + 1 := ucast (drop_bit 8 v))))
      else if width = 4 then
        (let v = ucast value :: u32
         in Some (d(a := ucast v, a + 1 := ucast (drop_bit 8 v),
                    a + 2 := ucast (drop_bit 16 v), a + 3 := ucast (drop_bit 24 v))))
      else if width = 8 then
        Some (d(a := ucast value, a + 1 := ucast (drop_bit 8 value),
                a + 2 := ucast (drop_bit 16 value), a + 3 := ucast (drop_bit 24 value),
                a + 4 := ucast (drop_bit 32 value), a + 5 := ucast (drop_bit 40 value),
                a + 6 := ucast (drop_bit 48 value), a + 7 := ucast (drop_bit 56 value)))
      else None)"

definition ram_read :: "ram \<Rightarrow> u64 \<Rightarrow> nat \<Rightarrow> u64 option" where
  "ram_read ram address width =
     (if \<not> ram_range_valid ram address width then None
      else
        let fast = (if naturally_aligned address width
                    then native_load (ram_data ram) (unat address) width else None)
        in case fast of
             Some value \<Rightarrow> Some value
           | None \<Rightarrow> Some (assemble_le (\<lambda>i. ram_data ram (unat address + i)) width))"

definition ram_write :: "ram \<Rightarrow> u64 \<Rightarrow> nat \<Rightarrow> u64 \<Rightarrow> ram option" where
  "ram_write ram address width value =
     (if \<not> ram_range_valid ram address width then None
      else
        let fast = (if naturally_aligned address width
                    then native_store (ram_data ram) (unat address) width value else None)
        in case fast of
             Some d \<Rightarrow> Some (ram\<lparr>ram_data := d\<rparr>)
           | None \<Rightarrow>
               Some (ram\<lparr>ram_data := scatter_le (ram_data ram) (unat address) width value\<rparr>))"

section \<open>Block copies\<close>

definition ram_block_range_valid :: "ram \<Rightarrow> u64 \<Rightarrow> nat \<Rightarrow> bool" where
  "ram_block_range_valid ram address sz \<longleftrightarrow>
     (if unat address > SIZE_MAX then False
      else unat address \<le> ram_size ram \<and> sz \<le> ram_size ram - unat address)"

definition block_chunk_width :: "u64 \<Rightarrow> nat \<Rightarrow> nat" where
  "block_chunk_width address remaining =
     (if remaining \<ge> 8 \<and> address AND 7 = 0 then 8
      else if remaining \<ge> 4 \<and> address AND 3 = 0 then 4
      else if remaining \<ge> 2 \<and> address AND 1 = 0 then 2
      else 1)"

lemma block_chunk_width_pos [simp]: "0 < block_chunk_width address remaining"
  by (simp add: block_chunk_width_def)

text \<open>
  The loops return the C result together with the buffer or the RAM, which a failing
  iteration leaves partly written.
\<close>

function ram_read_block_loop ::
  "ram \<Rightarrow> u64 \<Rightarrow> nat \<Rightarrow> nat \<Rightarrow> bytes \<Rightarrow> bool \<times> bytes" where
  "ram_read_block_loop ram address sz copied destination =
     (if copied < sz then
        let cursor = address + of_nat copied;
            width = block_chunk_width cursor (sz - copied)
        in case ram_read ram cursor width of
             None \<Rightarrow> (False, destination)
           | Some value \<Rightarrow>
               ram_read_block_loop ram address sz (copied + width)
                 (scatter_le destination copied width value)
      else (True, destination))"
  by pat_completeness auto
termination
  by (relation "measure (\<lambda>(ram, address, sz, copied, destination). sz - copied)")
     (auto simp: Let_def intro!: diff_less_mono2)

definition ram_read_block :: "ram \<Rightarrow> u64 \<Rightarrow> bytes \<Rightarrow> nat \<Rightarrow> bool \<times> bytes" where
  "ram_read_block ram address buffer sz =
     (if \<not> ram_block_range_valid ram address sz then (False, buffer)
      else ram_read_block_loop ram address sz 0 buffer)"

function ram_write_block_loop ::
  "ram \<Rightarrow> u64 \<Rightarrow> bytes \<Rightarrow> nat \<Rightarrow> nat \<Rightarrow> bool \<times> ram" where
  "ram_write_block_loop ram address source sz copied =
     (if copied < sz then
        let cursor = address + of_nat copied;
            width = block_chunk_width cursor (sz - copied);
            value = assemble_le (\<lambda>i. source (copied + i)) width
        in case ram_write ram cursor width value of
             None \<Rightarrow> (False, ram)
           | Some ram' \<Rightarrow> ram_write_block_loop ram' address source sz (copied + width)
      else (True, ram))"
  by pat_completeness auto
termination
  by (relation "measure (\<lambda>(ram, address, source, sz, copied). sz - copied)")
     (auto simp: Let_def intro!: diff_less_mono2)

definition ram_write_block :: "ram \<Rightarrow> u64 \<Rightarrow> bytes \<Rightarrow> nat \<Rightarrow> bool \<times> ram" where
  "ram_write_block ram address buffer sz =
     (if \<not> ram_block_range_valid ram address sz then (False, ram)
      else ram_write_block_loop ram address buffer sz 0)"

section \<open>Atomic operations\<close>

definition atomic64_address_valid :: "ram \<Rightarrow> u64 \<Rightarrow> bool" where
  "atomic64_address_valid ram address \<longleftrightarrow>
     naturally_aligned address 8 \<and> ram_range_valid ram address 8"

text \<open>The object the atomic built-ins work on, \<^verbatim>\<open>*(uint64_t *)(ram->data + address)\<close>.\<close>

definition atomic_object :: "ram \<Rightarrow> u64 \<Rightarrow> u64" where
  "atomic_object ram address = the (native_load (ram_data ram) (unat address) 8)"

definition set_atomic_object :: "ram \<Rightarrow> u64 \<Rightarrow> u64 \<Rightarrow> ram" where
  "set_atomic_object ram address value =
     ram\<lparr>ram_data := the (native_store (ram_data ram) (unat address) 8 value)\<rparr>"

text \<open>
  Result: \<open>None\<close> when the C function returns 0, otherwise the new value of the in/out
  argument and the RAM.
\<close>

definition ram_compare_exchange64 :: "ram \<Rightarrow> u64 \<Rightarrow> u64 \<Rightarrow> u64 \<Rightarrow> (u64 \<times> ram) option" where
  "ram_compare_exchange64 ram address expected desired =
     (if \<not> atomic64_address_valid ram address then None
      else
        let current = atomic_object ram address
        in if current = expected then Some (expected, set_atomic_object ram address desired)
           else Some (current, ram))"

definition ram_exchange64 :: "ram \<Rightarrow> u64 \<Rightarrow> u64 \<Rightarrow> (u64 \<times> ram) option" where
  "ram_exchange64 ram address value =
     (if \<not> atomic64_address_valid ram address then None
      else Some (atomic_object ram address, set_atomic_object ram address value))"

definition ram_fetch_add64 :: "ram \<Rightarrow> u64 \<Rightarrow> u64 \<Rightarrow> (u64 \<times> ram) option" where
  "ram_fetch_add64 ram address value =
     (if \<not> atomic64_address_valid ram address then None
      else
        let current = atomic_object ram address
        in Some (current, set_atomic_object ram address (current + value)))"

section \<open>Parsing a RAM size\<close>

definition is_digit :: "char \<Rightarrow> bool" where
  "is_digit c \<longleftrightarrow> (of_char CHR ''0'' :: nat) \<le> of_char c \<and> (of_char c :: nat) \<le> of_char CHR ''9''"

definition digit_value :: "char \<Rightarrow> nat" where
  "digit_value c = of_char c - of_char CHR ''0''"

text \<open>The digit loop: the value read and the rest of the text, \<open>None\<close> on overflow.\<close>

fun parse_digits :: "string \<Rightarrow> nat \<Rightarrow> (nat \<times> string) option" where
  "parse_digits [] value = Some (value, [])"
| "parse_digits (c # cursor) value =
     (if is_digit c then
        let digit = digit_value c
        in if value > (SIZE_MAX - digit) div 10 then None
           else parse_digits cursor (value * 10 + digit)
      else Some (value, c # cursor))"

definition lower_unit :: "char \<Rightarrow> char" where
  "lower_unit unit =
     (if (of_char CHR ''A'' :: nat) \<le> of_char unit \<and> (of_char unit :: nat) \<le> of_char CHR ''Z''
      then char_of (of_char unit - of_char CHR ''A'' + of_char CHR ''a'' :: nat) else unit)"

definition unit_multiplier :: "char \<Rightarrow> nat option" where
  "unit_multiplier unit =
     (let unit = lower_unit unit
      in if unit = CHR ''b'' then Some 1
         else if unit = CHR ''k'' then Some 1024
         else if unit = CHR ''m'' then Some (1024 * 1024)
         else if unit = CHR ''g'' then Some (1024 * 1024 * 1024)
         else None)"

definition parse_ram_size :: "string \<Rightarrow> nat option" where
  "parse_ram_size text =
     (if text = [] then None
      else case parse_digits text 0 of
             None \<Rightarrow> None
           | Some (value, cursor) \<Rightarrow>
               if cursor = text \<or> value = 0 then None
               else
                 (case (case cursor of
                          [] \<Rightarrow> Some 1
                        | unit # rest \<Rightarrow>
                            if rest \<noteq> [] then None else unit_multiplier unit) of
                    None \<Rightarrow> None
                  | Some multiplier \<Rightarrow>
                      if value > SIZE_MAX div multiplier then None
                      else Some (value * multiplier)))"

section \<open>The fast path agrees with the byte loop\<close>

lemma ucast_word_cat_u16:
  "ucast (word_cat (x :: u8) (y :: u8) :: u16) = (ucast y OR push_bit 8 (ucast x) :: u64)"
  by (rule bit_word_eqI) (auto simp: bit_simps dest: bit_u8_less)

lemma ucast_word_cat_u32:
  "ucast (word_cat (x :: u16) (y :: u16) :: u32) = (ucast y OR push_bit 16 (ucast x) :: u64)"
  by (rule bit_word_eqI) (auto simp: bit_simps dest: bit_imp_le_length)

lemma word_cat_u64:
  "(word_cat (x :: u32) (y :: u32) :: u64) = ucast y OR push_bit 32 (ucast x)"
  by (rule bit_word_eqI) (auto simp: bit_simps dest: bit_imp_le_length)

lemma assemble_le_1: "assemble_le s (Suc 0) = ucast (s 0)"
  by (simp add: assemble_le_def)

lemma assemble_le_2: "assemble_le s 2 = ucast (word_cat (s 1) (s 0) :: u16)"
  using assemble_le_split [of 1 1 s] by (simp add: assemble_le_1 ucast_word_cat_u16 flip: numeral_2_eq_2)

lemma assemble_le_4:
  "assemble_le s 4 =
     ucast (word_cat (word_cat (s 3) (s 2) :: u16) (word_cat (s 1) (s 0) :: u16) :: u32)"
  using assemble_le_split [of 2 2 s]
  by (simp add: assemble_le_2 ucast_word_cat_u32 flip: numeral_2_eq_2 numeral_3_eq_3)

lemma native_load_eq:
  assumes "width \<in> {1, 2, 4, 8}"
  shows "native_load d a width = Some (assemble_le (\<lambda>i. d (a + i)) width)"
proof -
  have "assemble_le s 8 =
      word_cat (word_cat (word_cat (s 7) (s 6) :: u16) (word_cat (s 5) (s 4) :: u16) :: u32)
               (word_cat (word_cat (s 3) (s 2) :: u16) (word_cat (s 1) (s 0) :: u16) :: u32)" for s
    using assemble_le_split [of 4 4 s] by (simp add: assemble_le_4 word_cat_u64)
  with assms show ?thesis
    by (auto simp: native_load_def assemble_le_1 assemble_le_2 assemble_le_4)
qed

lemma ucast_drop_bit_u16: "i < 2 \<Longrightarrow> ucast (drop_bit (i * 8) (ucast v :: u16)) = byte_of v i"
  by (rule bit_word_eqI) (auto simp: bit_simps byte_simps ac_simps)

lemma ucast_drop_bit_u32: "i < 4 \<Longrightarrow> ucast (drop_bit (i * 8) (ucast v :: u32)) = byte_of v i"
  by (rule bit_word_eqI) (auto simp: bit_simps byte_simps ac_simps)

lemma native_store_eq:
  assumes "width \<in> {1, 2, 4, 8}"
  shows "native_store d a width value = Some (scatter_le d a width value)"
proof -
  have "[0..<2] = [0, 1 :: nat]" "[0..<4] = [0, 1, 2, 3 :: nat]"
    "[0..<8] = [0, 1, 2, 3, 4, 5, 6, 7 :: nat]"
    by (simp_all add: upt_rec)
  with assms show ?thesis
    using ucast_drop_bit_u16 [of 0 "value"] ucast_drop_bit_u16 [of 1 "value"]
      ucast_drop_bit_u32 [of 0 "value"] ucast_drop_bit_u32 [of 1 "value"]
      ucast_drop_bit_u32 [of 2 "value"] ucast_drop_bit_u32 [of 3 "value"]
    by (auto simp: native_store_def scatter_le_def byte_of_def Let_def)
qed

lemma native_load_None: "native_load d a width = None \<longleftrightarrow> width \<notin> {1, 2, 4, 8}"
  by (simp add: native_load_def)

lemma native_store_None: "native_store d a width value = None \<longleftrightarrow> width \<notin> {1, 2, 4, 8}"
  by (simp add: native_store_def Let_def)

lemma ram_read_eq:
  "ram_read ram address width =
     (if ram_range_valid ram address width
      then Some (assemble_le (\<lambda>i. ram_data ram (unat address + i)) width) else None)"
  by (cases "width \<in> {1, 2, 4, 8}")
     (simp_all add: ram_read_def native_load_eq native_load_None [THEN iffD2])

lemma ram_write_eq:
  "ram_write ram address width value =
     (if ram_range_valid ram address width
      then Some (ram\<lparr>ram_data := scatter_le (ram_data ram) (unat address) width value\<rparr>) else None)"
  by (cases "width \<in> {1, 2, 4, 8}")
     (simp_all add: ram_write_def native_store_eq native_store_None [THEN iffD2])

section \<open>Reads, writes and ranges\<close>

text \<open>\<open>size\<close> is a \<^verbatim>\<open>size_t\<close>.\<close>

definition ram_wf :: "ram \<Rightarrow> bool" where
  "ram_wf ram \<longleftrightarrow> ram_size ram \<le> SIZE_MAX"

lemma ram_range_valid_iff:
  "ram_range_valid ram address width \<longleftrightarrow>
     0 < width \<and> width \<le> 8 \<and> unat address + width \<le> ram_size ram"
  by (auto simp: ram_range_valid_def)

lemma ram_block_range_valid_iff:
  "ram_block_range_valid ram address sz \<longleftrightarrow> unat address + sz \<le> ram_size ram"
  by (auto simp: ram_block_range_valid_def)

lemma ram_range_valid_update [simp]:
  "ram_range_valid (ram\<lparr>ram_data := d\<rparr>) address width = ram_range_valid ram address width"
  by (simp add: ram_range_valid_def)

lemma ram_write_Some:
  "ram_write ram address width value = Some ram' \<longleftrightarrow>
     ram_range_valid ram address width \<and>
     ram' = ram\<lparr>ram_data := scatter_le (ram_data ram) (unat address) width value\<rparr>"
  by (auto simp: ram_write_eq)

lemma ram_write_size: "ram_write ram address width value = Some ram' \<Longrightarrow> ram_size ram' = ram_size ram"
  by (auto simp: ram_write_Some)

lemma ram_read_write_same:
  assumes "ram_write ram address width value = Some ram'"
  shows "ram_read ram' address width = Some (take_bit (8 * width) value)"
proof -
  have "assemble_le (\<lambda>i. scatter_le (ram_data ram) (unat address) width value (unat address + i)) width
      = assemble_le (byte_of value) width"
    by (rule assemble_le_cong) (simp add: scatter_le_apply)
  with assms show ?thesis by (simp add: ram_write_Some ram_read_eq assemble_byte_of)
qed

lemma ram_read_write_other:
  assumes "ram_write ram address width value = Some ram'"
    and "disjoint_access address width b u"
  shows "ram_read ram' b u = ram_read ram b u"
proof -
  have "assemble_le (\<lambda>i. scatter_le (ram_data ram) (unat address) width value (unat b + i)) u
      = assemble_le (\<lambda>i. ram_data ram (unat b + i)) u"
    using assms(2) by (intro assemble_le_cong) (auto simp: scatter_le_apply disjoint_access_def)
  with assms show ?thesis by (simp add: ram_write_Some ram_read_eq)
qed

interpretation ram_mem: word_memory ram_read ram_write ram_range_valid
proof
  show "ram_read m a w \<noteq> None \<longleftrightarrow> ram_range_valid m a w" for m a w
    by (simp add: ram_read_eq)
  show "ram_write m a w v \<noteq> None \<longleftrightarrow> ram_range_valid m a w" for m a w v
    by (simp add: ram_write_eq)
  show "ram_write m a w v = Some m' \<Longrightarrow> ram_range_valid m' b u = ram_range_valid m b u"
    for m a w v m' b u
    by (auto simp: ram_write_Some)
qed (fact ram_read_write_same ram_read_write_other)+

section \<open>Block copies are byte copies\<close>

declare ram_read_block_loop.simps [simp del] ram_write_block_loop.simps [simp del]

lemma block_chunk_width_le: "0 < remaining \<Longrightarrow> block_chunk_width address remaining \<le> remaining"
  by (simp add: block_chunk_width_def)

lemma block_chunk_width_le8: "block_chunk_width address remaining \<le> 8"
  by (simp add: block_chunk_width_def)

lemma unat_cursor:
  assumes "ram_wf ram" "unat address + sz \<le> ram_size ram" "copied < sz"
  shows "unat (address + of_nat copied :: u64) = unat address + copied"
proof -
  have "unat address + copied < 2 ^ 64"
    using assms by (simp add: ram_wf_def SIZE_MAX_def)
  moreover from this have "unat (of_nat copied :: u64) = copied"
    by (simp add: unat_of_nat take_bit_eq_mod)
  ultimately show ?thesis by (simp add: unat_word_ariths)
qed

lemma chunk_valid:
  assumes "ram_wf ram" "unat address + sz \<le> ram_size ram" "copied < sz"
  shows "ram_range_valid ram (address + of_nat copied)
           (block_chunk_width (address + of_nat copied) (sz - copied))"
  using assms block_chunk_width_le [of "sz - copied" "address + of_nat copied"]
  by (simp add: ram_range_valid_iff unat_cursor block_chunk_width_le8)

text \<open>One more chunk extends the copied prefix.\<close>

lemma scatter_assemble:
  assumes "w \<le> 8"
  shows "scatter_le dest c w (assemble_le (\<lambda>i. src (a + i)) w) =
     (\<lambda>j. if c \<le> j \<and> j < c + w then src (a + (j - c)) else dest j)"
  using assms by (auto simp: fun_eq_iff scatter_le_apply byte_of_assemble_le)

lemma ram_read_block_loop_copies:
  assumes "ram_wf ram" "unat address + sz \<le> ram_size ram" "copied \<le> sz"
  shows "ram_read_block_loop ram address sz copied dest =
     (True, \<lambda>j. if copied \<le> j \<and> j < sz then ram_data ram (unat address + j) else dest j)"
  using assms
proof (induction ram address sz copied dest rule: ram_read_block_loop.induct)
  case (1 ram address sz copied dest)
  show ?case
  proof (cases "copied < sz")
    case False
    then show ?thesis by (auto simp: ram_read_block_loop.simps [of ram address sz copied dest] fun_eq_iff)
  next
    case True
    define w where "w = block_chunk_width (address + of_nat copied) (sz - copied)"
    define v where "v = assemble_le (\<lambda>i. ram_data ram (unat address + copied + i)) w"
    have rd: "ram_read ram (address + of_nat copied) w = Some v"
      using chunk_valid [of ram address sz copied] True "1.prems"
      by (simp add: ram_read_eq w_def v_def unat_cursor)
    have w: "w \<le> sz - copied" "w \<le> 8"
      using True block_chunk_width_le block_chunk_width_le8 by (simp_all add: w_def)
    then have "ram_read_block_loop ram address sz (copied + w) (scatter_le dest copied w v) =
       (True, \<lambda>j. if copied + w \<le> j \<and> j < sz then ram_data ram (unat address + j)
                  else scatter_le dest copied w v j)"
      using "1.IH" [OF True refl refl rd [unfolded w_def], folded w_def] "1.prems" True by simp
    with True rd w show ?thesis
      by (auto simp: ram_read_block_loop.simps [of ram address sz copied dest] Let_def
          w_def [symmetric] v_def scatter_assemble fun_eq_iff)
  qed
qed

lemma ram_write_block_loop_copies:
  assumes "ram_wf ram" "unat address + sz \<le> ram_size ram" "copied \<le> sz"
  shows "ram_write_block_loop ram address src sz copied =
     (True, ram\<lparr>ram_data := \<lambda>j. if unat address + copied \<le> j \<and> j < unat address + sz
                 then src (j - unat address) else ram_data ram j\<rparr>)"
  using assms
proof (induction ram address src sz copied rule: ram_write_block_loop.induct)
  case (1 ram address src sz copied)
  show ?case
  proof (cases "copied < sz")
    case False
    then show ?thesis
      by (auto simp: ram_write_block_loop.simps [of ram address src sz copied] fun_eq_iff
          intro!: ram.equality)
  next
    case True
    define w where "w = block_chunk_width (address + of_nat copied) (sz - copied)"
    define v where "v = assemble_le (\<lambda>i. src (copied + i)) w"
    define ram' where
      "ram' = ram\<lparr>ram_data := scatter_le (ram_data ram) (unat address + copied) w v\<rparr>"
    have wr: "ram_write ram (address + of_nat copied) w v = Some ram'"
      using chunk_valid [of ram address sz copied] True "1.prems"
      by (simp add: ram_write_eq w_def ram'_def unat_cursor)
    have w: "w \<le> sz - copied" "w \<le> 8"
      using True block_chunk_width_le block_chunk_width_le8 by (simp_all add: w_def)
    have "ram_wf ram'" "ram_size ram' = ram_size ram"
      using "1.prems" by (simp_all add: ram'_def ram_wf_def)
    then have "ram_write_block_loop ram' address src sz (copied + w) =
      (True, ram'\<lparr>ram_data := \<lambda>j. if unat address + (copied + w) \<le> j \<and> j < unat address + sz
                 then src (j - unat address) else ram_data ram' j\<rparr>)"
      using "1.IH" [OF True refl refl refl wr [unfolded v_def w_def], folded w_def] "1.prems" w True
      by simp
    with True wr w show ?thesis
      by (auto simp: ram_write_block_loop.simps [of ram address src sz copied] Let_def
          w_def [symmetric] v_def ram'_def scatter_assemble fun_eq_iff
          intro!: ram.equality)
  qed
qed

section \<open>Atomic operations\<close>

lemma atomic_object_read:
  "atomic64_address_valid ram address \<Longrightarrow> ram_read ram address 8 = Some (atomic_object ram address)"
  by (simp add: atomic64_address_valid_def atomic_object_def ram_read_eq native_load_eq)

lemma set_atomic_object_write:
  "atomic64_address_valid ram address \<Longrightarrow>
     ram_write ram address 8 value = Some (set_atomic_object ram address value)"
  by (simp add: atomic64_address_valid_def set_atomic_object_def ram_write_eq native_store_eq)

interpretation ram_cas:
  cas_memory ram_read ram_write ram_range_valid ram_compare_exchange64 atomic64_address_valid
proof
  show "ram_compare_exchange64 m a e d \<noteq> None \<longleftrightarrow> atomic64_address_valid m a" for m a e d
    by (simp add: ram_compare_exchange64_def Let_def)
  show "atomic64_address_valid m a \<Longrightarrow> ram_range_valid m a 8" for m a
    by (simp add: atomic64_address_valid_def)
  show "ram_compare_exchange64 m a e d = Some (x, m') \<Longrightarrow>
      ram_read m a 8 = Some x \<and> (if x = e then ram_write m a 8 d = Some m' else m' = m)"
    for m a e d x m'
    by (auto simp: ram_compare_exchange64_def Let_def atomic_object_read set_atomic_object_write
        split: if_splits)
qed

section \<open>RAM sizes\<close>

text \<open>What a size text means: a decimal number and the multiplier of its unit.\<close>

definition decimal :: "nat \<Rightarrow> string \<Rightarrow> nat" where
  "decimal = foldl (\<lambda>value c. value * 10 + digit_value c)"

definition suffix_multiplier :: "string \<Rightarrow> nat option" where
  "suffix_multiplier suffix =
     (case suffix of [] \<Rightarrow> Some 1 | [unit] \<Rightarrow> unit_multiplier unit | _ \<Rightarrow> None)"

lemma decimal_simps [simp]:
  "decimal v [] = v"
  "decimal v (c # cs) = decimal (v * 10 + digit_value c) cs"
  by (simp_all add: decimal_def)

lemma decimal_ge: "v \<le> decimal v ds"
proof (induction ds arbitrary: v)
  case (Cons c ds)
  from Cons.IH [of "v * 10 + digit_value c"] show ?case by simp
qed simp

lemma digit_value_le: "is_digit c \<Longrightarrow> digit_value c \<le> 9"
  by (auto simp: is_digit_def digit_value_def)

lemma digit_overflow:
  "is_digit c \<Longrightarrow> (SIZE_MAX - digit_value c) div 10 < v \<longleftrightarrow> SIZE_MAX < v * 10 + digit_value c"
  using digit_value_le [of c] by (simp add: SIZE_MAX_def div_less_iff_less_mult) arith

lemma parse_digits_eq:
  "v \<le> SIZE_MAX \<Longrightarrow> parse_digits text v =
     (if decimal v (takeWhile is_digit text) \<le> SIZE_MAX
      then Some (decimal v (takeWhile is_digit text), dropWhile is_digit text) else None)"
proof (induction "text" v rule: parse_digits.induct)
  case (1 v)
  then show ?case by simp
next
  case (2 c cursor v)
  show ?case
  proof (cases "is_digit c \<and> v * 10 + digit_value c \<le> SIZE_MAX")
    case True
    with "2.IH" [of "digit_value c"] show ?thesis
      by (simp add: Let_def digit_overflow)
  next
    case False
    with "2.prems" show ?thesis
      using decimal_ge [of "v * 10 + digit_value c" "takeWhile is_digit cursor"]
      by (auto simp: Let_def digit_overflow)
  qed
qed

lemma unit_not_digit: "unit_multiplier c = Some m \<Longrightarrow> \<not> is_digit c"
  by (auto simp: unit_multiplier_def lower_unit_def is_digit_def Let_def split: if_splits)

lemma unit_multiplier_pos: "unit_multiplier c = Some m \<Longrightarrow> 0 < m"
  by (auto simp: unit_multiplier_def Let_def split: if_splits)

lemma suffix_multiplier_pos: "suffix_multiplier u = Some m \<Longrightarrow> 0 < m"
  by (auto simp: suffix_multiplier_def unit_multiplier_pos split: list.splits)

lemma suffix_no_digit:
  assumes "suffix_multiplier u = Some m" "list_all is_digit ds"
  shows "takeWhile is_digit (ds @ u) = ds \<and> dropWhile is_digit (ds @ u) = u"
proof -
  have "u = [] \<or> \<not> is_digit (hd u)"
    using assms(1) unit_not_digit by (auto simp: suffix_multiplier_def split: list.splits)
  then have "takeWhile is_digit u = [] \<and> dropWhile is_digit u = u"
    by (cases u) auto
  with assms(2) show ?thesis
    by (simp add: takeWhile_append dropWhile_append list_all_iff)
qed

lemma parse_ram_size_eq:
  "parse_ram_size text =
     (let ds = takeWhile is_digit text; value = decimal 0 ds
      in case suffix_multiplier (dropWhile is_digit text) of
           None \<Rightarrow> None
         | Some m \<Rightarrow> if ds = [] \<or> value = 0 \<or> SIZE_MAX < value * m then None
                     else Some (value * m))"
proof -
  let ?ds = "takeWhile is_digit text" and ?u = "dropWhile is_digit text"
  have nil: "?u = text \<longleftrightarrow> ?ds = []"
    by (metis append_self_conv2 takeWhile_dropWhile_id)
  have suffix: "(case u of [] \<Rightarrow> Some 1 | unit # rest \<Rightarrow>
        if rest \<noteq> [] then None else unit_multiplier unit) = suffix_multiplier u" for u
    by (simp add: suffix_multiplier_def split: list.splits)
  have mult: "SIZE_MAX div m < v \<longleftrightarrow> SIZE_MAX < v * m" if "0 < m" for m v
    using that by (simp add: div_less_iff_less_mult)
  have le: "v \<le> v * m" if "0 < m" for v m :: nat using that by simp
  show ?thesis
    using nil by (auto simp: parse_ram_size_def parse_digits_eq Let_def suffix mult
        split: option.splits dest!: suffix_multiplier_pos) (meson le order_trans not_le)+
qed

section \<open>Properties\<close>

text \<open>
  C6: the aligned fast path of \<open>ram_read\<close> and \<open>ram_write\<close> (one native load or
  store of the whole object) has the same effect as the locked byte loop: for every width and
  alignment the value read is the little-endian composition of the bytes and the value
  written is split into them, and an access fails exactly when its range does not fit.
\<close>

theorem ram_access_is_bytewise:
  "ram_read ram address width =
     (if 0 < width \<and> width \<le> 8 \<and> unat address + width \<le> ram_size ram
      then Some (assemble_le (\<lambda>i. ram_data ram (unat address + i)) width) else None) \<and>
   ram_write ram address width value =
     (if 0 < width \<and> width \<le> 8 \<and> unat address + width \<le> ram_size ram
      then Some (ram\<lparr>ram_data := scatter_le (ram_data ram) (unat address) width value\<rparr>) else None)"
  by (simp add: ram_read_eq ram_write_eq ram_range_valid_iff)

text \<open>
  C7: a successful write is read back, cut to the width of the access; a read of a disjoint
  range is unaffected; and every byte the write changes lies both in the accessed range and
  inside the RAM.
\<close>

theorem ram_write_then_read:
  assumes "ram_write ram address width value = Some ram'"
  shows "ram_read ram' address width = Some (take_bit (8 * width) value) \<and>
    (disjoint_access address width b u \<longrightarrow> ram_read ram' b u = ram_read ram b u) \<and>
    (ram_data ram' j \<noteq> ram_data ram j \<longrightarrow>
      unat address \<le> j \<and> j < unat address + width \<and> j < ram_size ram) \<and>
    ram_size ram' = ram_size ram"
  using ram_mem.rd_wr_same [OF assms] ram_mem.rd_wr_other [OF assms, of b u] assms
  by (auto simp: ram_write_Some ram_range_valid_iff scatter_le_apply split: if_splits)

definition sample_ram :: ram where
  "sample_ram = \<lparr>ram_data = (\<lambda>i. of_nat i), ram_size = 16\<rparr>"

theorem ram_write_then_read_witness:
  "\<exists>ram'. ram_write sample_ram 3 4 0x1AABBCCDD = Some ram' \<and>
     ram_read ram' 3 4 = Some 0xAABBCCDD \<and> ram_read ram' 7 2 = Some 0x0807 \<and>
     ram_data ram' 4 = 0xCC \<and> ram_size ram' = 16"
proof -
  obtain ram' where w: "ram_write sample_ram 3 4 0x1AABBCCDD = Some ram'"
    by (simp add: ram_write_eq ram_range_valid_iff sample_ram_def)
  have "ram_read sample_ram 7 2 = Some 0x0807"
    by (simp add: ram_read_eq ram_range_valid_iff sample_ram_def assemble_le_def upt_rec)
  moreover have "ram_data ram' 4 = 0xCC"
    using w by (auto simp: ram_write_Some sample_ram_def scatter_le_apply byte_of_def)
  moreover have "ram_size sample_ram = 16" by (simp add: sample_ram_def)
  ultimately show ?thesis
    using w ram_write_then_read [OF w, of 7 2 4] by (simp add: disjoint_access_def)
qed

text \<open>
  C8: the block copies, which walk the range in naturally aligned chunks of 8, 4, 2 and 1
  bytes, terminate and copy exactly the bytes of the range, in both directions; they fail
  without touching anything when the range does not fit into the RAM.
\<close>

theorem ram_block_copies:
  assumes "ram_wf ram"
  shows "ram_read_block ram address buffer sz =
     (if unat address + sz \<le> ram_size ram
      then (True, \<lambda>j. if j < sz then ram_data ram (unat address + j) else buffer j)
      else (False, buffer)) \<and>
    ram_write_block ram address buffer sz =
     (if unat address + sz \<le> ram_size ram
      then (True, ram\<lparr>ram_data := \<lambda>j. if unat address \<le> j \<and> j < unat address + sz
                        then buffer (j - unat address) else ram_data ram j\<rparr>)
      else (False, ram))"
  using assms
  by (simp_all add: ram_read_block_def ram_write_block_def ram_block_range_valid_iff
      ram_read_block_loop_copies ram_write_block_loop_copies)

theorem ram_block_copies_witness:
  "ram_read_block sample_ram 3 (\<lambda>_. 0) 13 =
     (True, \<lambda>j. if j < 13 then of_nat (3 + j) else 0) \<and>
   ram_write_block sample_ram 9 (\<lambda>_. 0xFF) 8 = (False, sample_ram)"
  using ram_block_copies [of sample_ram 3 "\<lambda>_. 0" 13]
    ram_block_copies [of sample_ram 9 "\<lambda>_. 0xFF" 8]
  by (simp add: ram_wf_def sample_ram_def SIZE_MAX_def cong: if_cong)

text \<open>
  C9: a lock word in RAM that is taken by a compare-and-swap of 0 for a non-zero owner is
  exclusive: after one successful swap every other attempt reports a non-zero owner and
  leaves the RAM alone.
\<close>

theorem ram_compare_exchange_exclusive:
  assumes "ram_compare_exchange64 ram address 0 p = Some (0, ram')"
    and "ram_compare_exchange64 ram' address 0 q = Some (owner, ram'')" and "p \<noteq> 0"
  shows "owner \<noteq> 0 \<and> ram'' = ram'"
  using ram_cas.cas_lock_exclusive [OF assms(1,2,3)] by simp

theorem ram_compare_exchange_exclusive_witness:
  "\<exists>ram' ram''. ram_compare_exchange64 (sample_ram\<lparr>ram_data := \<lambda>_. 0\<rparr>) 8 0 5 = Some (0, ram') \<and>
     ram_compare_exchange64 ram' 8 0 7 = Some (5, ram'') \<and> ram'' = ram'"
proof -
  let ?r = "sample_ram\<lparr>ram_data := \<lambda>_. 0\<rparr>"
  define r1 where "r1 = set_atomic_object ?r 8 5"
  have a: "ram_compare_exchange64 ?r 8 0 5 = Some (0, r1)"
    by (simp add: ram_compare_exchange64_def atomic64_address_valid_def naturally_aligned_def
        ram_range_valid_iff sample_ram_def atomic_object_def native_load_def word_cat_eq r1_def)
  have b: "ram_compare_exchange64 r1 8 0 7 = Some (5, r1)"
    by (simp add: ram_compare_exchange64_def atomic64_address_valid_def naturally_aligned_def
        ram_range_valid_iff sample_ram_def atomic_object_def native_load_def word_cat_eq r1_def
        set_atomic_object_def native_store_def)
  show ?thesis using a b ram_compare_exchange_exclusive [OF a b] by blast
qed

text \<open>
  C10: a RAM size text is accepted exactly when it is a non-empty run of decimal digits with a
  non-zero value followed by nothing or one unit letter in either case, and value times unit
  fits a \<^verbatim>\<open>size_t\<close>; the result is then that product.
\<close>

theorem parse_ram_size_iff:
  "parse_ram_size text = Some n \<longleftrightarrow>
     (\<exists>digits suffix multiplier. text = digits @ suffix \<and> digits \<noteq> [] \<and>
        list_all is_digit digits \<and> suffix_multiplier suffix = Some multiplier \<and>
        decimal 0 digits \<noteq> 0 \<and> n = decimal 0 digits * multiplier \<and> n \<le> SIZE_MAX)"
    (is "?l \<longleftrightarrow> ?r")
proof
  assume ?l
  then have "takeWhile is_digit text \<noteq> [] \<and> list_all is_digit (takeWhile is_digit text) \<and>
      text = takeWhile is_digit text @ dropWhile is_digit text \<and>
      (\<exists>m. suffix_multiplier (dropWhile is_digit text) = Some m \<and>
        decimal 0 (takeWhile is_digit text) \<noteq> 0 \<and>
        n = decimal 0 (takeWhile is_digit text) * m \<and> n \<le> SIZE_MAX)"
    by (auto simp: parse_ram_size_eq Let_def list_all_iff dest: set_takeWhileD
        split: option.splits if_splits)
  then show ?r by blast
next
  assume ?r
  then obtain digits suffix m where "text = digits @ suffix" "digits \<noteq> []"
    "list_all is_digit digits" "suffix_multiplier suffix = Some m" "decimal 0 digits \<noteq> 0"
    "n = decimal 0 digits * m" "n \<le> SIZE_MAX" by blast
  then show ?l using suffix_no_digit [of suffix m digits]
    by (simp add: parse_ram_size_eq Let_def)
qed

end
