(* ===== verification/Mmu.thy ===== *)
theory Mmu
  imports Ram
begin

text \<open>
  Address translation (\<^verbatim>\<open>src/mmu.c\<close>): a walk of at most three levels of 512-entry tables in
  RAM, with leaves of 1 GiB, 2 MiB and 4 KiB, permissions for read, write, execute and atomic
  accesses and a user bit. \<open>MMU_RESULT_OK\<close> carries the physical address the C code stores
  through its pointer.
\<close>

section \<open>Constants and types\<close>

definition MMU_PAGE_SHIFT :: nat where "MMU_PAGE_SHIFT = 12"
definition MMU_LARGE_PAGE_SHIFT :: nat where "MMU_LARGE_PAGE_SHIFT = 21"
definition MMU_GIGA_PAGE_SHIFT :: nat where "MMU_GIGA_PAGE_SHIFT = 30"
definition MMU_VIRTUAL_ADDRESS_BITS :: nat where "MMU_VIRTUAL_ADDRESS_BITS = 39"

definition MMU_PAGE_SIZE :: u64 where "MMU_PAGE_SIZE = BIT MMU_PAGE_SHIFT"
definition MMU_PAGE_MASK :: u64 where "MMU_PAGE_MASK = MMU_PAGE_SIZE - 1"
definition MMU_TABLE_ENTRY_SIZE :: u64 where "MMU_TABLE_ENTRY_SIZE = 8"
definition MMU_VIRTUAL_ADDRESS_LIMIT :: u64 where
  "MMU_VIRTUAL_ADDRESS_LIMIT = BIT MMU_VIRTUAL_ADDRESS_BITS"

definition MMU_PTE_VALID :: u64 where "MMU_PTE_VALID = BIT 0"
definition MMU_PTE_READ :: u64 where "MMU_PTE_READ = BIT 1"
definition MMU_PTE_WRITE :: u64 where "MMU_PTE_WRITE = BIT 2"
definition MMU_PTE_EXECUTE :: u64 where "MMU_PTE_EXECUTE = BIT 3"
definition MMU_PTE_USER :: u64 where "MMU_PTE_USER = BIT 4"

definition MMU_PTE_PERMISSION_MASK :: u64 where
  "MMU_PTE_PERMISSION_MASK = MMU_PTE_READ OR MMU_PTE_WRITE OR MMU_PTE_EXECUTE"

definition MMU_PTE_ADDRESS_MASK :: u64 where
  "MMU_PTE_ADDRESS_MASK = NOT MMU_PAGE_MASK"

definition MMU_PTE_RESERVED_LOW_MASK :: u64 where
  "MMU_PTE_RESERVED_LOW_MASK =
     MMU_PAGE_MASK AND NOT (MMU_PTE_VALID OR MMU_PTE_PERMISSION_MASK OR MMU_PTE_USER)"

datatype mmu_access =
  MMU_ACCESS_READ | MMU_ACCESS_WRITE | MMU_ACCESS_EXECUTE | MMU_ACCESS_ATOMIC

datatype mmu_result =
    MMU_RESULT_OK u64
  | MMU_RESULT_INVALID_VIRTUAL_ADDRESS
  | MMU_RESULT_INVALID_ROOT
  | MMU_RESULT_NOT_PRESENT
  | MMU_RESULT_MALFORMED_ENTRY
  | MMU_RESULT_PERMISSION_DENIED

section \<open>The walk\<close>

definition physical_range_valid :: "ram \<Rightarrow> u64 \<Rightarrow> nat \<Rightarrow> bool" where
  "physical_range_valid ram address width \<longleftrightarrow>
     (if unat address > SIZE_MAX then False
      else unat address \<le> ram_size ram \<and> width \<le> ram_size ram - unat address)"

definition mmu_root_valid :: "ram \<Rightarrow> u64 \<Rightarrow> bool" where
  "mmu_root_valid ram root_address \<longleftrightarrow>
     root_address AND MMU_PAGE_MASK = 0 \<and>
     physical_range_valid ram root_address (unat MMU_PAGE_SIZE)"

fun permission_granted :: "u64 \<Rightarrow> bool \<Rightarrow> mmu_access \<Rightarrow> bool" where
  "permission_granted pte user_mode access =
     (if user_mode \<and> pte AND MMU_PTE_USER = 0 then False
      else case access of
          MMU_ACCESS_READ \<Rightarrow> pte AND MMU_PTE_READ \<noteq> 0
        | MMU_ACCESS_WRITE \<Rightarrow> pte AND MMU_PTE_WRITE \<noteq> 0
        | MMU_ACCESS_EXECUTE \<Rightarrow> pte AND MMU_PTE_EXECUTE \<noteq> 0
        | MMU_ACCESS_ATOMIC \<Rightarrow>
            pte AND (MMU_PTE_READ OR MMU_PTE_WRITE) = MMU_PTE_READ OR MMU_PTE_WRITE)"

text \<open>The loop over the three levels: the list holds the shifts still to come, so
  \<^verbatim>\<open>level == 2\<close> is the test that nothing follows.\<close>

fun mmu_walk :: "ram \<Rightarrow> bool \<Rightarrow> u64 \<Rightarrow> mmu_access \<Rightarrow> u64 \<Rightarrow> nat list \<Rightarrow> mmu_result" where
  "mmu_walk ram user_mode virtual_address access table_address [] = MMU_RESULT_MALFORMED_ENTRY"
| "mmu_walk ram user_mode virtual_address access table_address (shift # shifts) =
     (let index = drop_bit shift virtual_address AND 0x1FF;
          entry_address = table_address + index * MMU_TABLE_ENTRY_SIZE
      in case ram_read ram entry_address (unat MMU_TABLE_ENTRY_SIZE) of
           None \<Rightarrow> MMU_RESULT_INVALID_ROOT
         | Some pte \<Rightarrow>
             if pte AND MMU_PTE_VALID = 0 then MMU_RESULT_NOT_PRESENT
             else if pte AND MMU_PTE_RESERVED_LOW_MASK \<noteq> 0 \<or>
                     (pte AND MMU_PTE_WRITE \<noteq> 0 \<and> pte AND MMU_PTE_READ = 0)
                  then MMU_RESULT_MALFORMED_ENTRY
             else
               let permissions = pte AND MMU_PTE_PERMISSION_MASK;
                   next_address = pte AND MMU_PTE_ADDRESS_MASK
               in if permissions = 0 then
                    if shifts = [] \<or> pte AND MMU_PTE_USER \<noteq> 0 \<or> \<not> mmu_root_valid ram next_address
                    then MMU_RESULT_MALFORMED_ENTRY
                    else mmu_walk ram user_mode virtual_address access next_address shifts
                  else
                    let leaf_size = BIT shift;
                        leaf_mask = leaf_size - 1
                    in if next_address AND leaf_mask \<noteq> 0 then MMU_RESULT_MALFORMED_ENTRY
                       else if \<not> permission_granted pte user_mode access
                            then MMU_RESULT_PERMISSION_DENIED
                       else if next_address < of_nat (ram_size ram) \<and>
                               \<not> physical_range_valid ram next_address (unat leaf_size)
                            then MMU_RESULT_MALFORMED_ENTRY
                       else MMU_RESULT_OK (next_address OR (virtual_address AND leaf_mask)))"

definition mmu_translate :: "ram \<Rightarrow> u64 \<Rightarrow> bool \<Rightarrow> u64 \<Rightarrow> mmu_access \<Rightarrow> mmu_result" where
  "mmu_translate ram root_address user_mode virtual_address access =
     (if virtual_address \<ge> MMU_VIRTUAL_ADDRESS_LIMIT then MMU_RESULT_INVALID_VIRTUAL_ADDRESS
      else if \<not> mmu_root_valid ram root_address then MMU_RESULT_INVALID_ROOT
      else mmu_walk ram user_mode virtual_address access root_address
             [MMU_GIGA_PAGE_SHIFT, MMU_LARGE_PAGE_SHIFT, MMU_PAGE_SHIFT])"

section \<open>Bits of addresses and entries\<close>

lemma bit_page_mask [bit_simps]: "bit (BIT n - 1) k \<longleftrightarrow> k < n" if "n < 64"
proof -
  have "BIT n - 1 = mask n" by (simp add: BIT_def mask_eq_exp_minus_1)
  then show ?thesis using that by (auto simp: bit_mask_iff)
qed

lemma bit_MMU_PAGE_MASK [bit_simps]: "bit MMU_PAGE_MASK k \<longleftrightarrow> k < 12"
  by (simp add: MMU_PAGE_MASK_def MMU_PAGE_SIZE_def MMU_PAGE_SHIFT_def bit_page_mask)

lemma unat_BIT: "n < 64 \<Longrightarrow> unat (BIT n) = 2 ^ n"
proof -
  assume "n < 64"
  then have "(2 :: nat) ^ n < 2 ^ 64" by (intro power_strict_increasing) auto
  moreover have "BIT n = of_nat (2 ^ n)" by (simp add: BIT_def push_bit_eq_mult)
  ultimately show ?thesis by (simp only: unat_of_nat) simp
qed

lemma unat_page_size [simp]: "unat MMU_PAGE_SIZE = 4096"
  by (simp add: MMU_PAGE_SIZE_def MMU_PAGE_SHIFT_def unat_BIT)

lemma unat_entry_size [simp]: "unat MMU_TABLE_ENTRY_SIZE = 8"
  by (simp add: MMU_TABLE_ENTRY_SIZE_def)

text \<open>Same page: equal above the low 12 bits.\<close>

definition same_page :: "u64 \<Rightarrow> u64 \<Rightarrow> bool" where
  "same_page a b \<longleftrightarrow> a AND MMU_PTE_ADDRESS_MASK = b AND MMU_PTE_ADDRESS_MASK"

lemma same_page_iff: "same_page a b \<longleftrightarrow> (\<forall>k \<ge> 12. bit a k = bit b k)"
proof
  assume *: "same_page a b"
  show "\<forall>k \<ge> 12. bit a k = bit b k"
  proof (intro allI impI)
    fix k :: nat assume k: "12 \<le> k"
    have "bit (a AND MMU_PTE_ADDRESS_MASK) k = bit (b AND MMU_PTE_ADDRESS_MASK) k"
      using * by (simp add: same_page_def)
    then show "bit a k = bit b k" using k bit_u64_less [of a k] bit_u64_less [of b k]
      by (auto simp: MMU_PTE_ADDRESS_MASK_def bit_simps)
  qed
next
  assume *: "\<forall>k \<ge> 12. bit a k = bit b k"
  show "same_page a b" unfolding same_page_def
    by (rule bit_word_eqI) (use * in \<open>auto simp: MMU_PTE_ADDRESS_MASK_def bit_simps\<close>)
qed

lemma same_page_drop_bit: "same_page a b \<Longrightarrow> 12 \<le> n \<Longrightarrow> drop_bit n a = drop_bit n b"
  by (rule bit_word_eqI) (simp add: bit_drop_bit_eq same_page_iff)

text \<open>The physical address of another byte of the same page.\<close>

definition page_offset :: "u64 \<Rightarrow> u64 \<Rightarrow> u64" where
  "page_offset pa va = (pa AND MMU_PTE_ADDRESS_MASK) OR (va AND MMU_PAGE_MASK)"

lemma bit_page_offset: "bit (page_offset pa va) k \<longleftrightarrow> (if k < 12 then bit va k else bit pa k)"
  using bit_u64_less [of pa k]
  by (auto simp: page_offset_def MMU_PTE_ADDRESS_MASK_def bit_simps)

section \<open>Lookup and check\<close>

text \<open>
  The walk is a lookup of the leaf entry, which depends on the tables and the address only,
  followed by the check of that entry against the access.
\<close>

fun find_leaf :: "ram \<Rightarrow> u64 \<Rightarrow> u64 \<Rightarrow> nat list \<Rightarrow> mmu_result + u64 \<times> nat" where
  "find_leaf ram va table [] = Inl MMU_RESULT_MALFORMED_ENTRY"
| "find_leaf ram va table (s # shifts) =
     (case ram_read ram (table + (drop_bit s va AND 0x1FF) * 8) 8 of
        None \<Rightarrow> Inl MMU_RESULT_INVALID_ROOT
      | Some pte \<Rightarrow>
          if pte AND MMU_PTE_VALID = 0 then Inl MMU_RESULT_NOT_PRESENT
          else if pte AND MMU_PTE_RESERVED_LOW_MASK \<noteq> 0 \<or>
                  (pte AND MMU_PTE_WRITE \<noteq> 0 \<and> pte AND MMU_PTE_READ = 0)
               then Inl MMU_RESULT_MALFORMED_ENTRY
          else if pte AND MMU_PTE_PERMISSION_MASK \<noteq> 0 then Inr (pte, s)
          else if shifts = [] \<or> pte AND MMU_PTE_USER \<noteq> 0 \<or>
                  \<not> mmu_root_valid ram (pte AND MMU_PTE_ADDRESS_MASK)
               then Inl MMU_RESULT_MALFORMED_ENTRY
          else find_leaf ram va (pte AND MMU_PTE_ADDRESS_MASK) shifts)"

definition leaf_result :: "ram \<Rightarrow> bool \<Rightarrow> mmu_access \<Rightarrow> u64 \<Rightarrow> u64 \<Rightarrow> nat \<Rightarrow> mmu_result" where
  "leaf_result ram user acc va pte s =
     (let frame = pte AND MMU_PTE_ADDRESS_MASK
      in if frame AND (BIT s - 1) \<noteq> 0 then MMU_RESULT_MALFORMED_ENTRY
         else if \<not> permission_granted pte user acc then MMU_RESULT_PERMISSION_DENIED
         else if frame < of_nat (ram_size ram) \<and> \<not> physical_range_valid ram frame (unat (BIT s))
              then MMU_RESULT_MALFORMED_ENTRY
         else MMU_RESULT_OK (frame OR (va AND (BIT s - 1))))"

abbreviation mmu_shifts :: "nat list" where
  "mmu_shifts \<equiv> [MMU_GIGA_PAGE_SHIFT, MMU_LARGE_PAGE_SHIFT, MMU_PAGE_SHIFT]"

lemma mmu_walk_eq:
  "mmu_walk ram user va acc table shifts =
     (case find_leaf ram va table shifts of
        Inl r \<Rightarrow> r | Inr (pte, s) \<Rightarrow> leaf_result ram user acc va pte s)"
proof (induction shifts arbitrary: table)
  case (Cons s shifts)
  let ?a = "table + (drop_bit s va AND 0x1FF) * 8"
  show ?case
  proof (cases "ram_read ram ?a 8")
    case (Some pte)
    show ?thesis
    proof (cases "pte AND MMU_PTE_PERMISSION_MASK = 0")
      case True
      with Some Cons.IH show ?thesis
        by (simp add: Let_def MMU_TABLE_ENTRY_SIZE_def del: permission_granted.simps)
    next
      case False
      with Some show ?thesis
        by (simp add: leaf_result_def Let_def MMU_TABLE_ENTRY_SIZE_def del: permission_granted.simps)
    qed
  qed (simp add: Let_def MMU_TABLE_ENTRY_SIZE_def)
qed simp

lemma find_leaf_ok:
  assumes "find_leaf ram va table shifts = Inr (pte, s)"
  shows "s \<in> set shifts" "pte AND MMU_PTE_WRITE \<noteq> 0 \<Longrightarrow> pte AND MMU_PTE_READ \<noteq> 0"
  using assms
  by (induction shifts arbitrary: table) (auto split: option.splits if_splits)

lemma find_leaf_not_ok: "find_leaf ram va table shifts \<noteq> Inl (MMU_RESULT_OK pa)"
  by (induction shifts arbitrary: table) (auto split: option.splits)

lemma find_leaf_same_page:
  assumes "same_page va vb" "\<forall>s \<in> set shifts. 12 \<le> s"
  shows "find_leaf ram vb table shifts = find_leaf ram va table shifts"
  using assms(2)
proof (induction shifts arbitrary: table)
  case (Cons s shifts)
  have "drop_bit s vb = drop_bit s va" using same_page_drop_bit [OF assms(1)] Cons.prems by simp
  moreover have "find_leaf ram vb t shifts = find_leaf ram va t shifts" for t using Cons by simp
  ultimately show ?case by (simp only: find_leaf.simps)
qed simp

lemma leaf_frame_bits:
  assumes "s < 64" "(pte AND MMU_PTE_ADDRESS_MASK) AND (BIT s - 1) = 0" "k < s"
  shows "\<not> bit (pte AND MMU_PTE_ADDRESS_MASK) k"
proof -
  have "\<not> bit ((pte AND MMU_PTE_ADDRESS_MASK) AND (BIT s - 1)) k" using assms(2) by simp
  then show ?thesis using assms(1,3) bit_page_mask [OF assms(1), of k] by (simp add: bit_and_iff)
qed

lemma leaf_same_page:
  assumes "same_page va vb" "12 \<le> s" "s < 64"
  shows "leaf_result ram user acc vb pte s =
    (case leaf_result ram user acc va pte s of
       MMU_RESULT_OK pa \<Rightarrow> MMU_RESULT_OK (page_offset pa vb) | r \<Rightarrow> r)"
proof -
  have "frame OR (vb AND (BIT s - 1)) = page_offset (frame OR (va AND (BIT s - 1))) vb"
    if frame: "frame = pte AND MMU_PTE_ADDRESS_MASK" "frame AND (BIT s - 1) = 0" for frame
  proof (rule bit_word_eqI)
    fix k assume "k < LENGTH(64)"
    have "k < s \<Longrightarrow> \<not> bit frame k" using leaf_frame_bits [OF assms(3)] frame by blast
    then show "bit (frame OR (vb AND (BIT s - 1))) k =
        bit (page_offset (frame OR (va AND (BIT s - 1))) vb) k"
      using assms by (auto simp: bit_page_offset bit_or_iff bit_and_iff bit_page_mask same_page_iff)
  qed
  then show ?thesis by (simp add: leaf_result_def Let_def del: permission_granted.simps)
qed

lemma mmu_shifts_range: "\<forall>s \<in> set mmu_shifts. 12 \<le> s \<and> s < 64"
  by (simp add: MMU_GIGA_PAGE_SHIFT_def MMU_LARGE_PAGE_SHIFT_def MMU_PAGE_SHIFT_def)

lemma same_page_limit:
  "same_page a b \<Longrightarrow> MMU_VIRTUAL_ADDRESS_LIMIT \<le> a \<longleftrightarrow> MMU_VIRTUAL_ADDRESS_LIMIT \<le> b"
proof -
  assume "same_page a b"
  then have d: "drop_bit 39 a = drop_bit 39 b" by (rule same_page_drop_bit) simp
  have "MMU_VIRTUAL_ADDRESS_LIMIT \<le> x \<longleftrightarrow> drop_bit 39 x \<noteq> 0" for x
  proof -
    have "MMU_VIRTUAL_ADDRESS_LIMIT \<le> x \<longleftrightarrow> 2 ^ 39 \<le> unat x"
      by (simp add: MMU_VIRTUAL_ADDRESS_LIMIT_def MMU_VIRTUAL_ADDRESS_BITS_def word_le_nat_alt unat_BIT)
    also have "\<dots> \<longleftrightarrow> unat (drop_bit 39 x) \<noteq> 0"
      by (simp add: unat_div drop_bit_eq_div div_greater_zero_iff)
    finally show ?thesis by (simp add: unat_gt_0)
  qed
  with d show ?thesis by simp
qed

lemma mmu_translate_eq:
  "mmu_translate ram root user va acc =
     (if va \<ge> MMU_VIRTUAL_ADDRESS_LIMIT then MMU_RESULT_INVALID_VIRTUAL_ADDRESS
      else if \<not> mmu_root_valid ram root then MMU_RESULT_INVALID_ROOT
      else case find_leaf ram va root mmu_shifts of
             Inl r \<Rightarrow> r | Inr (pte, s) \<Rightarrow> leaf_result ram user acc va pte s)"
  by (simp add: mmu_translate_def mmu_walk_eq)

lemma mmu_translate_OK:
  "mmu_translate ram root user va acc = MMU_RESULT_OK pa \<longleftrightarrow>
     va < MMU_VIRTUAL_ADDRESS_LIMIT \<and> mmu_root_valid ram root \<and>
     (\<exists>pte s. find_leaf ram va root mmu_shifts = Inr (pte, s) \<and>
        leaf_result ram user acc va pte s = MMU_RESULT_OK pa)"
  unfolding mmu_translate_eq using find_leaf_not_ok [of ram va root mmu_shifts pa]
  by (auto split: sum.split prod.split)

lemma mmu_translate_same_page:
  assumes "same_page va vb"
  shows "mmu_translate ram root user vb acc =
    (case mmu_translate ram root user va acc of
       MMU_RESULT_OK pa \<Rightarrow> MMU_RESULT_OK (page_offset pa vb) | r \<Rightarrow> r)"
proof (cases "find_leaf ram va root mmu_shifts")
  case (Inl r)
  then have "r \<noteq> MMU_RESULT_OK pa" for pa using find_leaf_not_ok by metis
  then show ?thesis
    using Inl find_leaf_same_page [OF assms, of mmu_shifts ram root] mmu_shifts_range
      same_page_limit [OF assms]
    by (auto simp: mmu_translate_eq split: mmu_result.split)
next
  case (Inr p)
  obtain pte s where p: "p = (pte, s)" by (cases p)
  then have "12 \<le> s" "s < 64" using find_leaf_ok(1) Inr mmu_shifts_range by blast+
  with Inr p show ?thesis
    using find_leaf_same_page [OF assms, of mmu_shifts ram root] mmu_shifts_range
      same_page_limit [OF assms] leaf_same_page [OF assms, of s ram user acc pte]
    by (simp add: mmu_translate_eq)
qed

text \<open>A leaf that starts in RAM lies in RAM, so a translated address in RAM has its page there.\<close>

lemma unat_page_base: "unat (x AND MMU_PTE_ADDRESS_MASK) = 4096 * (unat x div 4096)"
proof -
  let ?b = "take_bit 12 x"
  have "(x AND MMU_PTE_ADDRESS_MASK) + ?b = (x AND MMU_PTE_ADDRESS_MASK) OR ?b"
    by (rule disjunctive_add_eq_or, rule bit_word_eqI)
       (auto simp: MMU_PTE_ADDRESS_MASK_def bit_simps)
  also have "\<dots> = x"
    by (rule bit_word_eqI) (auto simp: MMU_PTE_ADDRESS_MASK_def bit_simps)
  finally have "x AND MMU_PTE_ADDRESS_MASK = x - ?b" by (simp add: eq_diff_eq)
  moreover have b: "unat ?b = unat x mod 4096" by (simp add: take_bit_eq_mod unat_mod)
  then have "?b \<le> x" by (simp add: word_le_nat_alt)
  ultimately have "unat (x AND MMU_PTE_ADDRESS_MASK) = unat x - unat x mod 4096"
    using b by (simp add: unat_sub)
  then show ?thesis by (simp add: minus_mod_eq_mult_div)
qed

lemma leaf_window:
  assumes "12 \<le> s" "s < 64" "(pte AND MMU_PTE_ADDRESS_MASK) AND (BIT s - 1) = 0"
    and "frame = pte AND MMU_PTE_ADDRESS_MASK" "pa = frame OR (va AND (BIT s - 1))"
  shows "unat frame \<le> unat pa" "unat (pa AND MMU_PTE_ADDRESS_MASK) + 4096 \<le> unat frame + 2 ^ s"
proof -
  have low: "\<not> bit frame k" if "k < s" for k using leaf_frame_bits assms(2-4) that by blast
  have eq: "drop_bit s pa = drop_bit s frame"
    by (rule bit_word_eqI) (use assms(2,5) in \<open>auto simp: bit_simps\<close>)
  have "take_bit s frame = 0" by (rule bit_word_eqI) (use low in \<open>auto simp: bit_take_bit_iff\<close>)
  moreover have "unat (take_bit s frame) = unat frame mod 2 ^ s"
    unfolding unsigned_take_bit_eq by (rule take_bit_eq_mod)
  ultimately have "unat frame mod 2 ^ s = 0" by simp
  moreover have "unat pa div 2 ^ s = unat frame div 2 ^ s"
    using eq [THEN arg_cong [of _ _ unat]] unfolding unat_drop_bit_eq unfolding drop_bit_eq_div .
  ultimately have frame: "unat frame = 2 ^ s * (unat pa div 2 ^ s)"
    using mult_div_mod_eq [of "2 ^ s" "unat frame"] by simp
  then show "unat frame \<le> unat pa" by simp
  obtain e where "s = 12 + e" using assms(1) le_Suc_ex by blast
  then have s: "(2 :: nat) ^ s = 4096 * 2 ^ e" by (simp add: power_add)
  have "unat pa < 2 ^ s * (unat pa div 2 ^ s) + 2 ^ s" 
    using dividend_less_div_times [of "2 ^ s" "unat pa"] by (simp add: mult.commute)
  then have "unat pa < 4096 * (2 ^ e * (unat pa div 2 ^ s) + 2 ^ e)" by (simp add: s algebra_simps)
  then have "unat pa div 4096 < 2 ^ e * (unat pa div 2 ^ s) + 2 ^ e"
    by (simp add: div_less_iff_less_mult mult.commute)
  from mult_le_mono2 [OF Suc_leI [OF this], of 4096]
  have "4096 * (unat pa div 4096) + 4096 \<le> 4096 * (2 ^ e * (unat pa div 2 ^ s) + 2 ^ e)"
    by (simp add: algebra_simps)
  then show "unat (pa AND MMU_PTE_ADDRESS_MASK) + 4096 \<le> unat frame + 2 ^ s"
    unfolding unat_page_base frame by (simp add: s algebra_simps)
qed

lemma leaf_page_in_ram:
  assumes leaf: "leaf_result ram user acc va pte s = MMU_RESULT_OK pa" and "12 \<le> s" "s < 64"
    and wf: "ram_wf ram" and pa: "unat pa < ram_size ram"
  shows "unat (pa AND MMU_PTE_ADDRESS_MASK) + 4096 \<le> ram_size ram"
proof -
  define frame where "frame = pte AND MMU_PTE_ADDRESS_MASK"
  have f: "frame AND (BIT s - 1) = 0" and pa_eq: "pa = frame OR (va AND (BIT s - 1))"
    and valid: "frame < of_nat (ram_size ram) \<Longrightarrow> physical_range_valid ram frame (unat (BIT s))"
    using leaf by (auto simp: leaf_result_def frame_def Let_def simp del: permission_granted.simps
        split: if_splits)
  note window = leaf_window [OF assms(2,3) f [unfolded frame_def] frame_def pa_eq]
  have "unat (of_nat (ram_size ram) :: u64) = ram_size ram"
    using wf by (simp add: ram_wf_def SIZE_MAX_def unat_of_nat)
  then have "physical_range_valid ram frame (2 ^ s)"
    using valid window(1) pa by (simp add: word_less_nat_alt unat_BIT [OF assms(3)])
  then show ?thesis using window(2) by (auto simp: physical_range_valid_def split: if_splits)
qed

lemma atomic_bits:
  "pte AND (MMU_PTE_READ OR MMU_PTE_WRITE) = MMU_PTE_READ OR MMU_PTE_WRITE \<longleftrightarrow>
     pte AND MMU_PTE_READ \<noteq> 0 \<and> pte AND MMU_PTE_WRITE \<noteq> 0"
proof -
  have "pte AND (BIT 1 OR BIT 2) = BIT 1 OR BIT 2 \<longleftrightarrow> bit pte 1 \<and> bit pte 2"
  proof
    assume *: "pte AND (BIT 1 OR BIT 2) = BIT 1 OR BIT 2"
    have "bit (pte AND (BIT 1 OR BIT 2)) 1" "bit (pte AND (BIT 1 OR BIT 2)) 2"
      unfolding * by (simp_all add: bit_or_iff bit_BIT)
    then show "bit pte 1 \<and> bit pte 2" by (simp add: bit_and_iff)
  qed (intro bit_word_eqI, auto simp: bit_simps bit_BIT)
  then show ?thesis unfolding MMU_PTE_READ_def MMU_PTE_WRITE_def by (simp add: BIT_test)
qed

lemma mmu_translate_read_of_write:
  assumes "mmu_translate ram root user va MMU_ACCESS_WRITE = MMU_RESULT_OK pa"
  shows "mmu_translate ram root user va MMU_ACCESS_READ = MMU_RESULT_OK pa"
proof -
  obtain pte s where leaf: "find_leaf ram va root mmu_shifts = Inr (pte, s)"
      "leaf_result ram user MMU_ACCESS_WRITE va pte s = MMU_RESULT_OK pa"
    and lim: "va < MMU_VIRTUAL_ADDRESS_LIMIT" "mmu_root_valid ram root"
    using assms unfolding mmu_translate_OK by blast
  have "permission_granted pte user MMU_ACCESS_WRITE"
    using leaf(2) by (auto simp: leaf_result_def Let_def simp del: permission_granted.simps split: if_splits)
  then have "permission_granted pte user MMU_ACCESS_READ"
    using find_leaf_ok(2) [OF leaf(1)] by (auto split: if_splits)
  then show ?thesis
    unfolding mmu_translate_OK using leaf lim
    by (auto simp: leaf_result_def Let_def simp del: permission_granted.simps split: if_splits)
qed

section \<open>The page of a translated address\<close>

lemma unat_page_mask: "unat (a AND MMU_PAGE_MASK) = unat a mod 4096"
proof -
  have "a AND MMU_PAGE_MASK = take_bit 12 a"
    by (rule bit_word_eqI) (auto simp: bit_simps)
  then show ?thesis by (simp add: take_bit_eq_mod unat_mod)
qed

lemma translate_offset:
  assumes "mmu_translate ram root user va acc = MMU_RESULT_OK pa"
  shows "unat pa mod 4096 = unat va mod 4096"
proof -
  have "pa = page_offset pa va"
    using mmu_translate_same_page [of va va ram root user acc] assms by (simp add: same_page_def)
  then have "pa AND MMU_PAGE_MASK = va AND MMU_PAGE_MASK"
    by (intro bit_word_eqI) (metis bit_page_offset bit_and_iff bit_MMU_PAGE_MASK)
  then show ?thesis by (metis unat_page_mask)
qed

lemma translate_page_in_ram:
  assumes "mmu_translate ram root user va acc = MMU_RESULT_OK pa" "ram_wf ram"
    "unat pa < ram_size ram"
  shows "unat pa - unat pa mod 4096 + 4096 \<le> ram_size ram"
proof -
  obtain pte s where leaf: "find_leaf ram va root mmu_shifts = Inr (pte, s)"
      "leaf_result ram user acc va pte s = MMU_RESULT_OK pa"
    using assms(1) unfolding mmu_translate_OK by blast
  have s: "12 \<le> s" "s < 64" using find_leaf_ok(1) leaf(1) mmu_shifts_range by blast+
  show ?thesis using leaf_page_in_ram [OF leaf(2) s assms(2)] assms(3)
    by (simp add: unat_page_base minus_mod_eq_mult_div)
qed


section \<open>What a walk reads\<close>

text \<open>The addresses of the entries a lookup reads, one per level it visits.\<close>

fun walk_entries :: "ram \<Rightarrow> u64 \<Rightarrow> u64 \<Rightarrow> nat list \<Rightarrow> u64 list" where
  "walk_entries ram va table [] = []"
| "walk_entries ram va table (s # shifts) =
     (let a = table + (drop_bit s va AND 0x1FF) * 8
      in a # (case ram_read ram a 8 of
                None \<Rightarrow> []
              | Some pte \<Rightarrow>
                  if pte AND MMU_PTE_VALID \<noteq> 0 \<and> pte AND MMU_PTE_PERMISSION_MASK = 0
                  then walk_entries ram va (pte AND MMU_PTE_ADDRESS_MASK) shifts else []))"

lemma find_leaf_frame:
  assumes "\<forall>a \<in> set (walk_entries ram va table shifts). ram_read ram' a 8 = ram_read ram a 8"
    and "ram_size ram' = ram_size ram"
  shows "find_leaf ram' va table shifts = find_leaf ram va table shifts"
  using assms(1)
proof (induction shifts arbitrary: table)
  case (Cons s shifts)
  have root: "mmu_root_valid ram' t = mmu_root_valid ram t" for t
    using assms(2) by (simp add: mmu_root_valid_def physical_range_valid_def)
  let ?a = "table + (drop_bit s va AND 0x1FF) * 8"
  have "ram_read ram' ?a 8 = ram_read ram ?a 8" using Cons.prems by (simp add: Let_def)
  moreover have "find_leaf ram' va (pte AND MMU_PTE_ADDRESS_MASK) shifts =
      find_leaf ram va (pte AND MMU_PTE_ADDRESS_MASK) shifts"
    if "ram_read ram ?a 8 = Some pte" "pte AND MMU_PTE_VALID \<noteq> 0" "pte AND MMU_PTE_PERMISSION_MASK = 0"
    for pte
    using that Cons.prems by (intro Cons.IH) (simp add: Let_def)
  ultimately show ?case by (simp add: root split: option.split)
qed simp

lemma leaf_result_frame:
  "ram_size ram' = ram_size ram \<Longrightarrow> leaf_result ram' user acc va pte s = leaf_result ram user acc va pte s"
  by (simp add: leaf_result_def physical_range_valid_def Let_def del: permission_granted.simps)

lemma walk_entries_frame:
  assumes "\<forall>a \<in> set (walk_entries ram va table shifts). ram_read ram' a 8 = ram_read ram a 8"
  shows "walk_entries ram' va table shifts = walk_entries ram va table shifts"
  using assms
  by (induction shifts arbitrary: table) (auto simp: Let_def split: option.split)

lemma mmu_translate_unchanged:
  assumes "\<forall>a \<in> set (walk_entries ram va root mmu_shifts). ram_read ram' a 8 = ram_read ram a 8"
    and "ram_size ram' = ram_size ram"
  shows "mmu_translate ram' root user va acc = mmu_translate ram root user va acc"
proof -
  have "mmu_root_valid ram' root = mmu_root_valid ram root"
    using assms(2) by (simp add: mmu_root_valid_def physical_range_valid_def)
  then show ?thesis
    unfolding mmu_translate_eq leaf_result_frame [OF assms(2)] find_leaf_frame [OF assms] by simp
qed

section \<open>Sample tables\<close>

text \<open>Three tables at \<open>0x1000\<close>, \<open>0x2000\<close> and \<open>0x3000\<close> that map page 4 to the frame
  \<open>0x4000\<close> for user reads and writes and page 5 to a frame beyond the RAM for supervisor
  reads.\<close>

definition sample_tables :: ram where
  "sample_tables = \<lparr>ram_data = (\<lambda>_. 0)
     (0x1000 := 0x01, 0x1001 := 0x20, 0x2000 := 0x01, 0x2001 := 0x30,
      0x3020 := 0x17, 0x3021 := 0x40, 0x3028 := 0x03, 0x302B := 0x40), ram_size = 0x5000\<rparr>"

lemma sample_walk:
  "mmu_translate sample_tables 0x1000 True 0x4010 MMU_ACCESS_WRITE = MMU_RESULT_OK 0x4010"
  by code_simp

section \<open>Properties\<close>

text \<open>C17: Two addresses of the same 4 KiB page translate alike: the same fault, or the same
  frame with each address's own offset, for every page size the tables use.\<close>

theorem mmu_translate_page_contiguous:
  assumes "same_page va vb"
  shows "mmu_translate ram root user vb acc =
    (case mmu_translate ram root user va acc of
       MMU_RESULT_OK pa \<Rightarrow> MMU_RESULT_OK ((pa AND NOT MMU_PAGE_MASK) OR (vb AND MMU_PAGE_MASK))
     | r \<Rightarrow> r)"
  using mmu_translate_same_page [OF assms] unfolding page_offset_def MMU_PTE_ADDRESS_MASK_def .

theorem mmu_translate_page_contiguous_witness:
  "mmu_translate sample_tables 0x1000 True 0x4FFF MMU_ACCESS_WRITE = MMU_RESULT_OK 0x4FFF"
proof -
  have page: "same_page 0x4010 0x4FFF" by code_simp
  have "((0x4010 :: u64) AND NOT MMU_PAGE_MASK) OR (0x4FFF AND MMU_PAGE_MASK) = 0x4FFF" by code_simp
  with mmu_translate_page_contiguous [OF page, of sample_tables "0x1000" True MMU_ACCESS_WRITE]
  show ?thesis by (simp only: sample_walk mmu_result.case)
qed

text \<open>C18: A translation that succeeds is backed by a leaf entry that grants it: the user bit in
  user mode and the permission of the access, a writable page being readable. The supervisor
  gets the same address for the same access, an atomic access succeeds exactly where a write
  does, and a physical address inside the RAM has its whole page inside the RAM.\<close>

theorem mmu_translate_sound:
  assumes ok: "mmu_translate ram root user va acc = MMU_RESULT_OK pa" and wf: "ram_wf ram"
  shows "(\<exists>pte s. find_leaf ram va root mmu_shifts = Inr (pte, s) \<and>
      (user \<longrightarrow> pte AND MMU_PTE_USER \<noteq> 0) \<and>
      (acc = MMU_ACCESS_EXECUTE \<longrightarrow> pte AND MMU_PTE_EXECUTE \<noteq> 0) \<and>
      (acc \<noteq> MMU_ACCESS_EXECUTE \<longrightarrow> pte AND MMU_PTE_READ \<noteq> 0) \<and>
      (acc \<in> {MMU_ACCESS_WRITE, MMU_ACCESS_ATOMIC} \<longrightarrow> pte AND MMU_PTE_WRITE \<noteq> 0)) \<and>
    mmu_translate ram root False va acc = MMU_RESULT_OK pa \<and>
    (acc = MMU_ACCESS_WRITE \<longrightarrow>
       mmu_translate ram root user va MMU_ACCESS_READ = MMU_RESULT_OK pa \<and>
       mmu_translate ram root user va MMU_ACCESS_ATOMIC = MMU_RESULT_OK pa) \<and>
    (acc = MMU_ACCESS_ATOMIC \<longrightarrow>
       mmu_translate ram root user va MMU_ACCESS_WRITE = MMU_RESULT_OK pa) \<and>
    (unat pa < ram_size ram \<longrightarrow> unat (pa AND MMU_PTE_ADDRESS_MASK) + 4096 \<le> ram_size ram)"
proof -
  obtain pte s where leaf: "find_leaf ram va root mmu_shifts = Inr (pte, s)"
      "leaf_result ram user acc va pte s = MMU_RESULT_OK pa"
    and lim: "va < MMU_VIRTUAL_ADDRESS_LIMIT" "mmu_root_valid ram root"
    using ok unfolding mmu_translate_OK by blast
  have s: "12 \<le> s" "s < 64" using find_leaf_ok(1) leaf(1) mmu_shifts_range by blast+
  have rw: "pte AND MMU_PTE_WRITE \<noteq> 0 \<Longrightarrow> pte AND MMU_PTE_READ \<noteq> 0"
    using find_leaf_ok(2) leaf(1) by blast
  have atomic: "pte AND (MMU_PTE_READ OR MMU_PTE_WRITE) = MMU_PTE_READ OR MMU_PTE_WRITE \<longleftrightarrow>
      pte AND MMU_PTE_READ \<noteq> 0 \<and> pte AND MMU_PTE_WRITE \<noteq> 0"
    by (rule atomic_bits)
  have granted: "permission_granted pte user acc"
    using leaf(2) by (auto simp: leaf_result_def Let_def simp del: permission_granted.simps
        split: if_splits)
  have other: "mmu_translate ram root user' va acc' = MMU_RESULT_OK pa"
    if "permission_granted pte user' acc'" for user' acc'
    unfolding mmu_translate_OK using leaf lim that granted
    by (auto simp: leaf_result_def Let_def simp del: permission_granted.simps split: if_splits)
  have "(user \<longrightarrow> pte AND MMU_PTE_USER \<noteq> 0) \<and>
      (acc = MMU_ACCESS_EXECUTE \<longrightarrow> pte AND MMU_PTE_EXECUTE \<noteq> 0) \<and>
      (acc \<noteq> MMU_ACCESS_EXECUTE \<longrightarrow> pte AND MMU_PTE_READ \<noteq> 0) \<and>
      (acc \<in> {MMU_ACCESS_WRITE, MMU_ACCESS_ATOMIC} \<longrightarrow> pte AND MMU_PTE_WRITE \<noteq> 0)"
    using granted rw atomic by (cases acc) (auto split: if_splits)
  moreover have "permission_granted pte False acc"
    using granted by (cases acc) (auto split: if_splits)
  moreover have "permission_granted pte user MMU_ACCESS_READ \<and>
      permission_granted pte user MMU_ACCESS_ATOMIC" if "acc = MMU_ACCESS_WRITE"
    using granted rw that atomic by (auto split: if_splits)
  moreover have "permission_granted pte user MMU_ACCESS_WRITE" if "acc = MMU_ACCESS_ATOMIC"
    using granted that atomic by (auto split: if_splits)
  ultimately show ?thesis
    using leaf(1) other leaf_page_in_ram [OF leaf(2) s wf] by blast
qed

theorem mmu_translate_sound_witness:
  "mmu_translate sample_tables 0x1000 False 0x4010 MMU_ACCESS_ATOMIC = MMU_RESULT_OK 0x4010"
proof -
  have wf: "ram_wf sample_tables" by (simp add: ram_wf_def sample_tables_def SIZE_MAX_def)
  have "mmu_translate sample_tables 0x1000 False 0x4010 MMU_ACCESS_WRITE = MMU_RESULT_OK 0x4010"
    using mmu_translate_sound [OF sample_walk wf] by blast
  from mmu_translate_sound [OF this wf] show ?thesis by blast
qed

text \<open>C19: A store that touches none of the table entries a translation reads leaves the
  translation as it was.\<close>

theorem mmu_translate_frame:
  assumes wr: "ram_write ram a width v = Some ram'"
    and apart: "\<forall>e \<in> set (walk_entries ram va root mmu_shifts). disjoint_access a width e 8"
  shows "mmu_translate ram' root user va acc = mmu_translate ram root user va acc"
  using apart ram_mem.rd_wr_other [OF wr] ram_write_size [OF wr] by (intro mmu_translate_unchanged) blast+

theorem mmu_translate_frame_witness:
  "mmu_translate (the (ram_write sample_tables 0x4000 8 0xFF)) 0x1000 True 0x4010 MMU_ACCESS_WRITE
     = MMU_RESULT_OK 0x4010"
proof -
  have wr: "ram_write sample_tables 0x4000 8 0xFF = Some (the (ram_write sample_tables 0x4000 8 0xFF))"
    by (simp add: ram_write_eq ram_range_valid_iff sample_tables_def)
  have "walk_entries sample_tables 0x4010 0x1000 mmu_shifts = [0x1000, 0x2000, 0x3020]" by code_simp
  then have "\<forall>e \<in> set (walk_entries sample_tables 0x4010 0x1000 mmu_shifts). disjoint_access 0x4000 8 e 8"
    by (simp add: disjoint_access_def)
  from mmu_translate_frame [OF wr this] sample_walk show ?thesis by simp
qed

end
