(* ===== verification/Kernel_Memory.thy ===== *)
theory Kernel_Memory
  imports Mmu "HOL-Library.Monad_Syntax"
begin

text \<open>
  The view of guest memory the kernel has (\<^verbatim>\<open>kernel/pmm.c\<close>, \<^verbatim>\<open>kernel/kernel_internal.h\<close>):
  the direct map, which places every physical address at a constant distance, and the loads and
  stores of 64-bit words through pointers into it. A load or store through any other pointer is a
  page fault: the functions of the kernel are partial, and \<open>None\<close> is the fault.

  The lemmas read and write words of page-aligned frames: a store changes the eight bytes of one
  frame only, and pages at different addresses do not overlap.
\<close>

section \<open>Constants\<close>

definition KERNEL_PAGE_SIZE :: u64 where "KERNEL_PAGE_SIZE = 4096"
definition KERNEL_PAGE_MASK :: u64 where "KERNEL_PAGE_MASK = KERNEL_PAGE_SIZE - 1"
definition KERNEL_PTE_ADDRESS_MASK :: u64 where "KERNEL_PTE_ADDRESS_MASK = NOT KERNEL_PAGE_MASK"

section \<open>The direct map\<close>

record kernel_memory =
  memory :: ram
  direct_map_base :: u64
  direct_map_size :: u64

definition kernel_phys_to_virt :: "'z kernel_memory_scheme \<Rightarrow> u64 \<Rightarrow> u64 option" where
  "kernel_phys_to_virt k physical_address =
     (if physical_address \<ge> direct_map_size k then None
      else Some (direct_map_base k + physical_address))"

definition kernel_virt_to_phys :: "'z kernel_memory_scheme \<Rightarrow> u64 \<Rightarrow> u64" where
  "kernel_virt_to_phys k virtual_address =
     (let address = virtual_address; base = direct_map_base k
      in if address < base \<or> address - base \<ge> direct_map_size k then 0 else address - base)"

text \<open>\<^verbatim>\<open>*pointer\<close> for a pointer to \<^verbatim>\<open>uint64_t\<close> in the direct map, as a value and as the
  target of an assignment.\<close>

definition kernel_load :: "'z kernel_memory_scheme \<Rightarrow> u64 \<Rightarrow> u64 option" where
  "kernel_load k pointer =
     (if pointer - direct_map_base k \<ge> direct_map_size k then None
      else ram_read (memory k) (pointer - direct_map_base k) 8)"

definition kernel_store :: "'z kernel_memory_scheme \<Rightarrow> u64 \<Rightarrow> u64 \<Rightarrow> 'z kernel_memory_scheme option" where
  "kernel_store k pointer value =
     (if pointer - direct_map_base k \<ge> direct_map_size k then None
      else map_option (\<lambda>r. k\<lparr>memory := r\<rparr>) (ram_write (memory k) (pointer - direct_map_base k) 8 value))"

text \<open>\<^verbatim>\<open>for (i = 0; i < KERNEL_PAGE_SIZE / sizeof(uint64_t); ++i) words[i] = 0;\<close> over the indices
  still to come.\<close>

primrec zero_words :: "u64 \<Rightarrow> nat list \<Rightarrow> 'z kernel_memory_scheme \<Rightarrow> 'z kernel_memory_scheme option" where
  "zero_words words [] k = Some k"
| "zero_words words (i # is) k =
     do { k \<leftarrow> kernel_store k (words + of_nat (8 * i)) 0; zero_words words is k }"

definition zero_page :: "u64 \<Rightarrow> 'z kernel_memory_scheme \<Rightarrow> 'z kernel_memory_scheme option" where
  "zero_page words = zero_words words [0..<unat (KERNEL_PAGE_SIZE div 8)]"

section \<open>Page-aligned addresses\<close>

lemmas page_constants =
  KERNEL_PAGE_SIZE_def KERNEL_PAGE_MASK_def KERNEL_PTE_ADDRESS_MASK_def

definition page_aligned :: "u64 \<Rightarrow> bool" where
  "page_aligned p \<longleftrightarrow> 4096 dvd unat p"

lemma kernel_mask_eq: "KERNEL_PAGE_MASK = MMU_PAGE_MASK" "KERNEL_PTE_ADDRESS_MASK = MMU_PTE_ADDRESS_MASK"
  by (simp_all add: page_constants MMU_PAGE_MASK_def MMU_PAGE_SIZE_def MMU_PAGE_SHIFT_def BIT_def
      MMU_PTE_ADDRESS_MASK_def)

lemma unat_and_page_mask: "unat (p AND MMU_PAGE_MASK) = unat p mod 4096"
proof -
  have "MMU_PAGE_MASK = mask 12"
    by (simp add: MMU_PAGE_MASK_def MMU_PAGE_SIZE_def MMU_PAGE_SHIFT_def BIT_def mask_eq_exp_minus_1)
  then have "p AND MMU_PAGE_MASK = take_bit 12 p" by (simp add: take_bit_eq_mask)
  then show ?thesis by (simp add: take_bit_eq_mod unat_mod)
qed

lemma page_aligned_iff: "page_aligned p \<longleftrightarrow> p AND MMU_PAGE_MASK = 0"
  unfolding page_aligned_def dvd_eq_mod_eq_0 unat_and_page_mask [symmetric] by (simp add: unat_eq_0)

lemma page_aligned_base [simp]: "page_aligned (x AND MMU_PTE_ADDRESS_MASK)"
  by (simp add: page_aligned_def unat_page_base)

lemma page_base_aligned: "page_aligned p \<Longrightarrow> p AND MMU_PTE_ADDRESS_MASK = p"
  unfolding word_unat_eq_iff by (simp add: page_aligned_def unat_page_base)

lemma page_aligned_0 [simp]: "page_aligned 0"
  by (simp add: page_aligned_def)

text \<open>The bytes of the page at \<open>p\<close>.\<close>

definition in_page :: "u64 \<Rightarrow> nat \<Rightarrow> bool" where
  "in_page p j \<longleftrightarrow> unat p \<le> j \<and> j < unat p + 4096"

lemma in_page_unique:
  assumes "page_aligned p" "page_aligned q" "in_page p j" "in_page q j"
  shows "p = q"
proof -
  have "unat r = 4096 * (j div 4096)" if r: "page_aligned r" "in_page r j" for r
  proof -
    obtain n where n: "unat r = 4096 * n" using r(1) by (auto simp: page_aligned_def)
    then have "j div 4096 = n" using r(2) by (auto simp: in_page_def intro!: div_nat_eqI)
    then show ?thesis using n by simp
  qed
  from this [OF assms(1,3)] this [OF assms(2,4)] show ?thesis by (simp add: word_unat_eq_iff)
qed

section \<open>Words of pages\<close>

text \<open>The direct map covers the memory.\<close>

definition memory_ok :: "'z kernel_memory_scheme \<Rightarrow> bool" where
  "memory_ok k \<longleftrightarrow> ram_wf (memory k) \<and> ram_size (memory k) \<le> unat (direct_map_size k)"

text \<open>A page frame other than frame 0.\<close>

definition frame_ok :: "'z kernel_memory_scheme \<Rightarrow> u64 \<Rightarrow> bool" where
  "frame_ok k p \<longleftrightarrow> p \<noteq> 0 \<and> page_aligned p \<and> unat p + 4096 \<le> ram_size (memory k)"

definition word_at :: "'z kernel_memory_scheme \<Rightarrow> u64 \<Rightarrow> nat \<Rightarrow> u64" where
  "word_at k p i = assemble_le (\<lambda>b. ram_data (memory k) (unat p + 8 * i + b)) 8"

definition set_word :: "u64 \<Rightarrow> nat \<Rightarrow> u64 \<Rightarrow> 'z kernel_memory_scheme \<Rightarrow> 'z kernel_memory_scheme" where
  "set_word p i v k =
     k\<lparr>memory := (memory k)\<lparr>ram_data := scatter_le (ram_data (memory k)) (unat p + 8 * i) 8 v\<rparr>\<rparr>"

lemma set_word_more [simp]:
  "direct_map_base (set_word p i v k) = direct_map_base k"
  "direct_map_size (set_word p i v k) = direct_map_size k"
  "ram_size (memory (set_word p i v k)) = ram_size (memory k)"
  "kernel_memory.more (set_word p i v k) = kernel_memory.more k"
  "memory_ok (set_word p i v k) = memory_ok k"
  "frame_ok (set_word p i v k) q = frame_ok k q"
  by (simp_all add: set_word_def memory_ok_def ram_wf_def frame_ok_def)

lemma frame_direct:
  assumes "memory_ok k" "frame_ok k p"
  shows "kernel_phys_to_virt k p = Some (direct_map_base k + p)"
  using assms by (simp add: kernel_phys_to_virt_def memory_ok_def frame_ok_def word_le_nat_alt not_le)

lemma unat_word_address:
  assumes "memory_ok k" "frame_ok k p" "i < 512"
  shows "unat (p + of_nat (8 * i)) = unat p + 8 * i"
proof -
  have "unat p + 8 * i < 2 ^ 64"
    using assms unat_u64_bound [of "direct_map_size k"]
    by (simp add: memory_ok_def frame_ok_def ram_wf_def SIZE_MAX_def del: unat_u64_bound)
  moreover have "unat (of_nat (8 * i) :: u64) = 8 * i"
    using assms(3) by (simp only: unat_of_nat take_bit_eq_mod) simp
  ultimately show ?thesis by (simp add: unat_word_ariths)
qed

lemma word_pointer:
  "direct_map_base k + p + of_nat (8 * i) - direct_map_base k = (p + of_nat (8 * i) :: u64)"
  by simp

lemma frame_load:
  assumes "memory_ok k" "frame_ok k p" "i < 512"
  shows "kernel_load k (direct_map_base k + p + of_nat (8 * i)) = Some (word_at k p i)"
proof -
  have "unat p + 8 * i + 8 \<le> ram_size (memory k)" using assms by (simp add: frame_ok_def)
  then show ?thesis
    unfolding kernel_load_def word_pointer using assms
    by (simp only: word_le_nat_alt unat_word_address ram_read_eq ram_range_valid_iff)
       (simp add: memory_ok_def word_at_def)
qed

lemma frame_store:
  assumes "memory_ok k" "frame_ok k p" "i < 512"
  shows "kernel_store k (direct_map_base k + p + of_nat (8 * i)) v = Some (set_word p i v k)"
proof -
  have "unat p + 8 * i + 8 \<le> ram_size (memory k)" using assms by (simp add: frame_ok_def)
  then show ?thesis
    unfolding kernel_store_def word_pointer using assms
    by (simp only: word_le_nat_alt unat_word_address ram_write_eq ram_range_valid_iff)
       (simp add: memory_ok_def set_word_def)
qed

lemmas frame_load_first = frame_load [where i = 0, simplified]
lemmas frame_store_first = frame_store [where i = 0, simplified]

lemma set_word_data:
  "\<not> (unat p + 8 * i \<le> j \<and> j < unat p + 8 * i + 8) \<Longrightarrow>
     ram_data (memory (set_word p i v k)) j = ram_data (memory k) j"
  by (auto simp: set_word_def scatter_le_apply)

lemma word_at_cong:
  "(\<And>j. unat p + 8 * i \<le> j \<Longrightarrow> j < unat p + 8 * i + 8 \<Longrightarrow>
      ram_data (memory k') j = ram_data (memory k) j) \<Longrightarrow> word_at k' p i = word_at k p i"
  by (auto simp: word_at_def intro: assemble_le_cong)

lemma word_at_set_word [simp]: "word_at (set_word p i v k) p i = v"
proof -
  have "word_at (set_word p i v k) p i = assemble_le (byte_of v) 8"
    by (auto simp: word_at_def set_word_def scatter_le_apply intro: assemble_le_cong)
  then show ?thesis by (simp add: assemble_byte_of take_bit_word_eq_self)
qed

text \<open>What a sequence of stores into pages of \<open>P\<close> leaves alone.\<close>

definition only_pages :: "u64 set \<Rightarrow> 'z kernel_memory_scheme \<Rightarrow> 'z kernel_memory_scheme \<Rightarrow> bool" where
  "only_pages P k k' \<longleftrightarrow>
     ram_size (memory k') = ram_size (memory k) \<and>
     direct_map_base k' = direct_map_base k \<and> direct_map_size k' = direct_map_size k \<and>
     (\<forall>j. (\<forall>p \<in> P. \<not> in_page p j) \<longrightarrow> ram_data (memory k') j = ram_data (memory k) j)"

lemma only_pages_refl [simp]: "only_pages P k k"
  by (simp add: only_pages_def)

lemma only_pages_trans: "only_pages P k k' \<Longrightarrow> only_pages P k' k'' \<Longrightarrow> only_pages P k k''"
  by (auto simp: only_pages_def)

lemma only_pages_mono: "only_pages P k k' \<Longrightarrow> P \<subseteq> Q \<Longrightarrow> only_pages Q k k'"
  by (auto simp: only_pages_def)

lemma only_pages_ok:
  "only_pages P k k' \<Longrightarrow> memory_ok k' = memory_ok k"
  "only_pages P k k' \<Longrightarrow> frame_ok k' p = frame_ok k p"
  by (simp_all add: only_pages_def memory_ok_def ram_wf_def frame_ok_def)

lemma only_pages_set_word: "i < 512 \<Longrightarrow> p \<in> P \<Longrightarrow> only_pages P k (set_word p i v k)"
  by (auto simp: only_pages_def in_page_def intro!: set_word_data)

lemma only_pages_word:
  assumes "only_pages P k k'" "page_aligned p" "\<And>q. q \<in> P \<Longrightarrow> page_aligned q" "p \<notin> P" "i < 512"
  shows "word_at k' p i = word_at k p i"
proof (rule word_at_cong)
  fix j assume "unat p + 8 * i \<le> j" "j < unat p + 8 * i + 8"
  then have "in_page p j" using assms(5) by (simp add: in_page_def)
  then have "\<forall>q \<in> P. \<not> in_page q j" using in_page_unique assms(2-4) by blast
  then show "ram_data (memory k') j = ram_data (memory k) j"
    using assms(1) by (simp add: only_pages_def)
qed

section \<open>Clearing a page\<close>

definition clear_words :: "u64 \<Rightarrow> nat \<Rightarrow> 'z kernel_memory_scheme \<Rightarrow> 'z kernel_memory_scheme" where
  "clear_words p n k =
     k\<lparr>memory := (memory k)\<lparr>ram_data :=
        (\<lambda>j. if unat p \<le> j \<and> j < unat p + 8 * n then 0 else ram_data (memory k) j)\<rparr>\<rparr>"

lemma clear_words_0 [simp]: "clear_words p 0 k = k"
proof -
  have "(\<lambda>j. if unat p \<le> j \<and> j < unat p then 0 else ram_data (memory k) j) = ram_data (memory k)"
    by (auto simp: fun_eq_iff)
  then show ?thesis by (simp add: clear_words_def)
qed

lemma clear_words_Suc: "set_word p n 0 (clear_words p n k) = clear_words p (Suc n) k"
  by (auto simp: clear_words_def set_word_def scatter_le_apply byte_of_def fun_eq_iff)

lemma clear_words_more [simp]:
  "direct_map_base (clear_words p n k) = direct_map_base k"
  "memory_ok (clear_words p n k) = memory_ok k"
  "frame_ok (clear_words p n k) q = frame_ok k q"
  by (simp_all add: clear_words_def memory_ok_def ram_wf_def frame_ok_def)

lemma zero_words_append:
  "zero_words words (is @ js) k = do { k \<leftarrow> zero_words words is k; zero_words words js k }"
  by (induction "is" arbitrary: k) (auto simp: bind_eq_Some_conv intro: option.expand split: Option.bind_splits)

lemma zero_words_clear:
  assumes "memory_ok k" "frame_ok k p" "n \<le> 512"
  shows "zero_words (direct_map_base k + p) [0..<n] k = Some (clear_words p n k)"
  using assms(3)
proof (induction n)
  case 0
  then show ?case by simp
next
  case (Suc n)
  then have "zero_words (direct_map_base k + p) [0..<n] k = Some (clear_words p n k)" by simp
  moreover have "kernel_store (clear_words p n k) (direct_map_base k + p + of_nat (8 * n)) 0 =
      Some (clear_words p (Suc n) k)"
    using frame_store [of "clear_words p n k" p n 0] assms(1,2) Suc.prems by (simp add: clear_words_Suc)
  ultimately show ?case by (simp add: zero_words_append)
qed

abbreviation clear_page :: "u64 \<Rightarrow> 'z kernel_memory_scheme \<Rightarrow> 'z kernel_memory_scheme" where
  "clear_page p \<equiv> clear_words p 512"

lemma zero_page_clear:
  assumes "memory_ok k" "frame_ok k p"
  shows "zero_page (direct_map_base k + p) k = Some (clear_page p k)"
  unfolding zero_page_def using zero_words_clear [OF assms, of 512] by (simp add: KERNEL_PAGE_SIZE_def)

lemma only_pages_clear: "p \<in> P \<Longrightarrow> only_pages P k (clear_page p k)"
  by (auto simp: only_pages_def clear_words_def in_page_def)

lemma clear_page_zero: "in_page p j \<Longrightarrow> ram_data (memory (clear_page p k)) j = 0"
  by (simp add: clear_words_def in_page_def)

lemma word_at_clear_page:
  assumes "i < 512"
  shows "word_at (clear_page p k) p i = 0"
proof -
  have "word_at (clear_page p k) p i = assemble_le (\<lambda>_. 0) 8"
    unfolding word_at_def using assms by (intro assemble_le_cong) (simp add: clear_words_def)
  also have "\<dots> = 0" by (rule bit_word_eqI) (simp add: bit_assemble_le)
  finally show ?thesis .
qed

end
