(* ===== verification/Page_Pool.thy ===== *)
theory Page_Pool
  imports Prelude "HOL-Library.Multiset"
begin

text \<open>
  The contract of a page allocator with its clients. The allocator has a list of free pages; an
  allocation hands out the first of them or a run of them, a release gives a page back. No other
  memory changes: an operation touches free pages and the released page only.

  The client proved here is a ledger of the pages handed out: whatever is requested and released,
  the owned pages and the free pages are disjoint and together the initial ones, and the contents of
  an owned page stay as its owner left them.
\<close>

section \<open>Requests\<close>

datatype page_request = Alloc_page | Alloc_run nat | Free_page u64

text \<open>The pages handed out, with a state; a client releases only pages it has.\<close>

definition page_client ::
  "('s \<Rightarrow> (u64 \<times> 's) option) \<Rightarrow> (nat \<Rightarrow> 's \<Rightarrow> (u64 \<times> 's) option) \<Rightarrow> (u64 \<Rightarrow> 's \<Rightarrow> 's option) \<Rightarrow>
   (u64 \<Rightarrow> nat \<Rightarrow> u64 list) \<Rightarrow> page_request \<Rightarrow> u64 set \<times> 's \<Rightarrow> (u64 set \<times> 's) option" where
  "page_client alloc alloc_run free run_pages request =
     (\<lambda>(owned, s).
        case request of
          Alloc_page \<Rightarrow> map_option (\<lambda>(p, s). (if p = 0 then owned else insert p owned, s)) (alloc s)
        | Alloc_run n \<Rightarrow>
            map_option (\<lambda>(p, s). (if p = 0 then owned else owned \<union> set (run_pages p n), s)) (alloc_run n s)
        | Free_page p \<Rightarrow>
            if p \<in> owned then map_option (\<lambda>s. (owned - {p}, s)) (free p s) else Some (owned, s))"

primrec page_session ::
  "(page_request \<Rightarrow> 'c \<Rightarrow> 'c option) \<Rightarrow> page_request list \<Rightarrow> 'c \<Rightarrow> 'c option" where
  "page_session client [] c = Some c"
| "page_session client (request # requests) c = Option.bind (client request c) (page_session client requests)"

section \<open>The contract\<close>

locale page_pool =
  fixes pool :: "'s \<Rightarrow> u64 list \<Rightarrow> bool"
    and frame :: "'s \<Rightarrow> u64 \<Rightarrow> bool"
    and within :: "u64 set \<Rightarrow> 's \<Rightarrow> 's \<Rightarrow> bool"
    and run_pages :: "u64 \<Rightarrow> nat \<Rightarrow> u64 list"
    and alloc :: "'s \<Rightarrow> (u64 \<times> 's) option"
    and alloc_run :: "nat \<Rightarrow> 's \<Rightarrow> (u64 \<times> 's) option"
    and free :: "u64 \<Rightarrow> 's \<Rightarrow> 's option"
  assumes pool_frames: "pool s xs \<Longrightarrow> distinct xs \<and> (\<forall>p \<in> set xs. frame s p)"
    and frame_nonzero: "frame s p \<Longrightarrow> p \<noteq> 0"
    and within_frame: "within P s s' \<Longrightarrow> frame s' p = frame s p"
    and within_mono: "within P s s' \<Longrightarrow> P \<subseteq> Q \<Longrightarrow> within Q s s'"
    and within_refl: "within P s s"
    and alloc_law: "pool s xs \<Longrightarrow>
      \<exists>s'. alloc s = Some (case xs of [] \<Rightarrow> 0 | p # _ \<Rightarrow> p, s') \<and> pool s' (tl xs) \<and> within (set xs) s s'"
    and alloc_run_law: "pool s xs \<Longrightarrow>
      \<exists>p s' xs'. alloc_run n s = Some (p, s') \<and> within (set xs) s s' \<and> pool s' xs' \<and>
        mset xs = (if p = 0 then {#} else mset (run_pages p n)) + mset xs'"
    and free_law: "pool s xs \<Longrightarrow> frame s p \<Longrightarrow> p \<notin> set xs \<Longrightarrow>
      \<exists>s'. free p s = Some s' \<and> pool s' (p # xs) \<and> within {p} s s'"
begin

text \<open>The ledger: owned and free pages partition \<open>U\<close>.\<close>

definition ledger :: "u64 set \<Rightarrow> u64 set \<times> 's \<Rightarrow> bool" where
  "ledger U = (\<lambda>(owned, s). \<exists>xs. pool s xs \<and> owned \<inter> set xs = {} \<and> owned \<union> set xs = U \<and> (\<forall>p \<in> U. frame s p))"

text \<open>A request is answered, keeps the ledger and changes no page that stays with its owner.\<close>

lemma client_step:
  assumes "ledger U (owned, s)"
  shows "\<exists>owned' s'. page_client alloc alloc_run free run_pages r (owned, s) = Some (owned', s') \<and>
    ledger U (owned', s') \<and> within (U - owned \<inter> owned') s s'"
proof -
  obtain xs where xs: "pool s xs" "owned \<inter> set xs = {}" "owned \<union> set xs = U" "\<forall>p \<in> U. frame s p"
    using assms by (auto simp: ledger_def)
  have out: "within (set xs) s s' \<Longrightarrow> within (U - owned \<inter> owned') s s'" for s' owned'
    by (erule within_mono) (use xs(2,3) in auto)
  have keep: "ledger U (owned', s')"
    if "pool s' ys" "owned' \<inter> set ys = {}" "owned' \<union> set ys = U" "within P s s'" for owned' s' ys P
    using that xs(4) within_frame by (auto simp: ledger_def)
  have nonzero: "0 \<notin> set xs" using pool_frames [OF xs(1)] frame_nonzero by blast
  show ?thesis
  proof (cases r)
    case Alloc_page
    obtain s' where s': "alloc s = Some (case xs of [] \<Rightarrow> 0 | p # _ \<Rightarrow> p, s')" "pool s' (tl xs)" "within (set xs) s s'"
      using alloc_law [OF xs(1)] by blast
    show ?thesis
    proof (cases xs)
      case Nil
      have "ledger U (owned, s')" by (rule keep [OF s'(2) _ _ s'(3)]) (use xs(3) Nil in auto)
      then show ?thesis using s' Nil Alloc_page out [OF s'(3)] by (auto simp: page_client_def)
    next
      case (Cons p ys)
      have "ledger U (insert p owned, s')"
        by (rule keep [OF s'(2) _ _ s'(3)]) (use xs(2,3) Cons pool_frames [OF xs(1)] in auto)
      then show ?thesis using s' Cons Alloc_page out [OF s'(3)] nonzero by (auto simp: page_client_def)
    qed
  next
    case (Alloc_run n)
    obtain p s' ys where s': "alloc_run n s = Some (p, s')" "within (set xs) s s'" "pool s' ys"
      and ys: "mset xs = (if p = 0 then {#} else mset (run_pages p n)) + mset ys"
      using alloc_run_law [OF xs(1)] by blast
    show ?thesis
    proof (cases "p = 0")
      case True
      then have "set ys = set xs" using ys mset_eq_setD [of xs ys] by simp
      then have "ledger U (owned, s')" by (intro keep [OF s'(3) _ _ s'(2)]) (use xs(2,3) in auto)
      then show ?thesis using s' True Alloc_run out [OF s'(2)] by (auto simp: page_client_def)
    next
      case False
      then have perm: "mset xs = mset (run_pages p n @ ys)" using ys by simp
      then have "set xs = set (run_pages p n) \<union> set ys" "distinct (run_pages p n @ ys)"
        using mset_eq_setD [OF perm] mset_eq_imp_distinct_iff [OF perm] pool_frames [OF xs(1)] by simp_all
      then have "ledger U (owned \<union> set (run_pages p n), s')"
        by (intro keep [OF s'(3) _ _ s'(2)]) (use xs(2,3) in auto)
      then show ?thesis using s' False Alloc_run out [OF s'(2)] by (auto simp: page_client_def)
    qed
  next
    case (Free_page p)
    show ?thesis
    proof (cases "p \<in> owned")
      case True
      then obtain s' where s': "free p s = Some s'" "pool s' (p # xs)" "within {p} s s'"
        using free_law [OF xs(1), of p] xs by blast
      have "ledger U (owned - {p}, s')" by (rule keep [OF s'(2) _ _ s'(3)]) (use xs(2,3) True in auto)
      moreover have "within (U - owned \<inter> (owned - {p})) s s'" by (rule within_mono [OF s'(3)]) (use xs(3) True in auto)
      ultimately show ?thesis using s' True Free_page by (auto simp: page_client_def)
    next
      case False
      then show ?thesis using assms within_refl Free_page by (auto simp: page_client_def)
    qed
  qed
qed

lemma client_session:
  "ledger U (owned, s) \<Longrightarrow>
     \<exists>owned' s'. page_session (page_client alloc alloc_run free run_pages) rs (owned, s) = Some (owned', s') \<and>
       ledger U (owned', s')"
proof (induction rs arbitrary: owned s)
  case (Cons r rs)
  obtain owned' s' where "page_client alloc alloc_run free run_pages r (owned, s) = Some (owned', s')"
    "ledger U (owned', s')"
    using client_step [OF Cons.prems] by blast
  then show ?case using Cons.IH by simp
qed auto

end

end
