(* ===== verification/Kernel_Pmm.thy ===== *)
theory Kernel_Pmm
  imports Kernel_Memory Page_Pool
begin

text \<open>
  The physical page allocator of the kernel (\<^verbatim>\<open>kernel/pmm.c\<close>). Free pages are the fresh pages
  of the usable ranges of the boot memory map, taken range by range, and the recycled pages, which
  are chained through their first words. The memory map of the boot information is the list of its
  entries.

  The pages an allocator has, in the order in which single pages are handed out, are a list: the
  recycled chain and then the fresh pages. An allocation takes its head, a release puts a page in
  front, and an allocation of several pages takes a run of adjacent pages out of it.
\<close>

section \<open>Boot information\<close>

definition CVM_MEMORY_USABLE :: u32 where "CVM_MEMORY_USABLE = 1"

record cvm_memory_map_entry =
  entry_base :: u64
  entry_length :: u64
  entry_type :: u32

record cvm_boot_info =
  memory_map :: "cvm_memory_map_entry list"
  info_ram_size :: u64

abbreviation memory_map_count :: "cvm_boot_info \<Rightarrow> nat" where
  "memory_map_count info \<equiv> length (memory_map info)"

record pmm = kernel_memory +
  pmm_boot_info :: "cvm_boot_info option"
  pmm_memory_map_index :: nat
  pmm_range_next :: u64
  pmm_range_end :: u64
  pmm_recycled_head :: u64
  pmm_free_count :: u64

section \<open>Ranges of the memory map\<close>

definition usable_range_bounds :: "u64 \<Rightarrow> u64 \<Rightarrow> (u64 \<times> u64) option" where
  "usable_range_bounds base len =
     (if len = 0 \<or> base > UINT64_MAX - len \<or> base > UINT64_MAX - KERNEL_PAGE_MASK then None
      else
        let end_page = (base + len) AND KERNEL_PTE_ADDRESS_MASK;
            page = (base + KERNEL_PAGE_MASK) AND KERNEL_PTE_ADDRESS_MASK;
            page = (if page = 0 then KERNEL_PAGE_SIZE else page)
        in Some (page, end_page))"

definition memory_map_entry :: "'z pmm_scheme \<Rightarrow> nat \<Rightarrow> cvm_memory_map_entry option" where
  "memory_map_entry k index =
     (case pmm_boot_info k of
        None \<Rightarrow> None
      | Some info \<Rightarrow> if index \<ge> memory_map_count info then None else Some (memory_map info ! index))"

text \<open>The loop of \<open>select_next_usable_range\<close>; the boot information is not \<open>NULL\<close> where it is
  called, and \<open>None\<close> is the fault of reading it through \<open>NULL\<close>.\<close>

function select_next_usable_range :: "'z pmm_scheme \<Rightarrow> (bool \<times> 'z pmm_scheme) option" where
  "select_next_usable_range k =
     (case pmm_boot_info k of
        None \<Rightarrow> None
      | Some info \<Rightarrow>
          if pmm_memory_map_index k < memory_map_count info then
            let entry = memory_map_entry k (pmm_memory_map_index k);
                k = k\<lparr>pmm_memory_map_index := pmm_memory_map_index k + 1\<rparr>
            in case entry of
                 None \<Rightarrow> Some (False, k)
               | Some entry \<Rightarrow>
                   if entry_type entry \<noteq> CVM_MEMORY_USABLE then select_next_usable_range k
                   else
                     (case usable_range_bounds (entry_base entry) (entry_length entry) of
                        None \<Rightarrow> Some (False, k)
                      | Some (first, end_page) \<Rightarrow>
                          if first < end_page
                          then Some (True, k\<lparr>pmm_range_next := first, pmm_range_end := end_page\<rparr>)
                          else select_next_usable_range k)
          else Some (False, k\<lparr>pmm_range_next := 0, pmm_range_end := 0\<rparr>))"
  by pat_completeness auto
termination
  by (relation "measure (\<lambda>k. case pmm_boot_info k of None \<Rightarrow> 0
        | Some info \<Rightarrow> memory_map_count info - pmm_memory_map_index k)") auto

lemmas [simp del] = select_next_usable_range.simps

partial_function (option) take_fresh_page :: "'z pmm_scheme \<Rightarrow> (u64 \<times> 'z pmm_scheme) option" where
  "take_fresh_page k =
     (if pmm_range_next k \<ge> pmm_range_end k then
        do {
          (selected, k) \<leftarrow> select_next_usable_range k;
          if \<not> selected then Some (0, k) else take_fresh_page k
        }
      else
        let page = pmm_range_next k
        in Some (page, k\<lparr>pmm_range_next := pmm_range_next k + KERNEL_PAGE_SIZE\<rparr>))"

section \<open>Initialisation\<close>

text \<open>The loop over the entries: the count of free pages, or \<open>None\<close> for the early returns.\<close>

fun count_usable :: "cvm_boot_info \<Rightarrow> cvm_memory_map_entry list \<Rightarrow> u64 \<Rightarrow> bool \<times> u64" where
  "count_usable info [] free_count = (True, free_count)"
| "count_usable info (entry # entries) free_count =
     (if entry_type entry = CVM_MEMORY_USABLE then
        case usable_range_bounds (entry_base entry) (entry_length entry) of
          None \<Rightarrow> (False, free_count)
        | Some (first, end_page) \<Rightarrow>
            if end_page > info_ram_size info then (False, free_count)
            else
              let pages = (if first < end_page then (end_page - first) div KERNEL_PAGE_SIZE else 0)
              in if free_count > UINT64_MAX - pages then (False, free_count)
                 else count_usable info entries (free_count + pages)
      else count_usable info entries free_count)"

definition kernel_pmm_init :: "cvm_boot_info option \<Rightarrow> 'z pmm_scheme \<Rightarrow> bool \<times> 'z pmm_scheme" where
  "kernel_pmm_init info k =
     (case info of
        None \<Rightarrow> (False, k)
      | Some i \<Rightarrow>
          let (counted, free_count) = count_usable i (memory_map i) 0;
              k = k\<lparr>pmm_boot_info := info, pmm_memory_map_index := 0, pmm_range_next := 0,
                    pmm_range_end := 0, pmm_recycled_head := 0, pmm_free_count := free_count\<rparr>
          in (counted \<and> free_count \<noteq> 0, k))"

section \<open>Single pages\<close>

definition kernel_pmm_alloc_page :: "'z pmm_scheme \<Rightarrow> (u64 \<times> 'z pmm_scheme) option" where
  "kernel_pmm_alloc_page k =
     do {
       (page, k) \<leftarrow>
         (if pmm_recycled_head k \<noteq> 0 then
            (case kernel_phys_to_virt k (pmm_recycled_head k) of
               None \<Rightarrow> Some (0, k)
             | Some link \<Rightarrow>
                 do { next \<leftarrow> kernel_load k link;
                      Some (pmm_recycled_head k, k\<lparr>pmm_recycled_head := next\<rparr>) })
          else take_fresh_page k);
       if page = 0 then Some (0, k)
       else
         (case kernel_phys_to_virt k page of
            None \<Rightarrow> Some (0, k)
          | Some words \<Rightarrow>
              do { k \<leftarrow> zero_page words (k\<lparr>pmm_free_count := pmm_free_count k - 1\<rparr>);
                   Some (page, k) })
     }"

definition kernel_pmm_free_page :: "u64 \<Rightarrow> 'z pmm_scheme \<Rightarrow> 'z pmm_scheme option" where
  "kernel_pmm_free_page page k =
     (case pmm_boot_info k of
        None \<Rightarrow> Some k
      | Some info \<Rightarrow>
          if page = 0 \<or> page AND KERNEL_PAGE_MASK \<noteq> 0 \<or> info_ram_size info < KERNEL_PAGE_SIZE \<or>
             page > info_ram_size info - KERNEL_PAGE_SIZE then Some k
          else
            (case kernel_phys_to_virt k page of
               None \<Rightarrow> Some k
             | Some slot \<Rightarrow>
                 do { k \<leftarrow> kernel_store k slot (pmm_recycled_head k);
                      Some (k\<lparr>pmm_recycled_head := page, pmm_free_count := pmm_free_count k + 1\<rparr>) }))"

definition kernel_pmm_free_page_count :: "'z pmm_scheme \<Rightarrow> u64" where
  "kernel_pmm_free_page_count k = pmm_free_count k"

text \<open>The loop of \<open>kernel_pmm_release_range\<close> over the pages still to come.\<close>

primrec release_pages :: "u64 \<Rightarrow> nat list \<Rightarrow> 'z pmm_scheme \<Rightarrow> 'z pmm_scheme option" where
  "release_pages base [] k = Some k"
| "release_pages base (i # is) k =
     do { k \<leftarrow> kernel_pmm_free_page (base + of_nat i * KERNEL_PAGE_SIZE) k; release_pages base is k }"

definition kernel_pmm_release_range :: "u64 \<Rightarrow> u64 \<Rightarrow> 'z pmm_scheme \<Rightarrow> 'z pmm_scheme option" where
  "kernel_pmm_release_range base sz k =
     (case pmm_boot_info k of
        None \<Rightarrow> Some k
      | Some info \<Rightarrow>
          if base AND KERNEL_PAGE_MASK \<noteq> 0 \<or> sz AND KERNEL_PAGE_MASK \<noteq> 0 \<or> base > UINT64_MAX - sz \<or>
             base + sz > info_ram_size info then Some k
          else release_pages base [0..<unat (sz div KERNEL_PAGE_SIZE)] k)"

section \<open>Runs of pages\<close>

text \<open>The loop that clears the pages of a run: \<open>False\<close> where a page is outside the direct map.\<close>

primrec zero_pages :: "u64 \<Rightarrow> nat list \<Rightarrow> 'z pmm_scheme \<Rightarrow> (bool \<times> 'z pmm_scheme) option" where
  "zero_pages first [] k = Some (True, k)"
| "zero_pages first (page # pages) k =
     (case kernel_phys_to_virt k (first + of_nat page * KERNEL_PAGE_SIZE) of
        None \<Rightarrow> Some (False, k)
      | Some words \<Rightarrow> do { k \<leftarrow> zero_page words k; zero_pages first pages k })"

definition take_run :: "u64 \<Rightarrow> nat \<Rightarrow> 'z pmm_scheme \<Rightarrow> (u64 \<times> 'z pmm_scheme) option" where
  "take_run first page_count k =
     do { (cleared, k) \<leftarrow> zero_pages first [0..<page_count]
            (k\<lparr>pmm_free_count := pmm_free_count k - of_nat page_count\<rparr>);
          Some (if cleared then first else 0, k) }"

text \<open>The scan of the recycled chain: \<open>Some r\<close> where the function returns \<open>r\<close>, and \<open>None\<close>
  where the chain ends.\<close>

partial_function (option) scan_recycled ::
  "nat \<Rightarrow> u64 \<Rightarrow> u64 \<Rightarrow> nat \<Rightarrow> 'z pmm_scheme \<Rightarrow> (u64 option \<times> 'z pmm_scheme) option" where
  "scan_recycled page_count before current len k =
     (if current = 0 then Some (None, k)
      else
        case kernel_phys_to_virt k current of
          None \<Rightarrow> Some (Some 0, k)
        | Some link \<Rightarrow>
            Option.bind (kernel_load k link) (\<lambda>next.
            if len = page_count then
              if before = 0 then
                Option.bind (take_run current page_count (k\<lparr>pmm_recycled_head := next\<rparr>)) (\<lambda>(r, k).
                Some (Some r, k))
              else
                (case kernel_phys_to_virt k before of
                   None \<Rightarrow> Some (Some 0, k)
                 | Some before_link \<Rightarrow>
                     Option.bind (kernel_store k before_link next) (\<lambda>k.
                     Option.bind (take_run current page_count k) (\<lambda>(r, k).
                     Some (Some r, k))))
            else if next \<noteq> 0 \<and> current \<ge> KERNEL_PAGE_SIZE \<and> next = current - KERNEL_PAGE_SIZE then
              scan_recycled page_count before next (len + 1) k
            else scan_recycled page_count current next (if next \<noteq> 0 then 1 else 0) k))"

text \<open>The pages of a range that is too small go to the recycled chain: \<open>False\<close> where one is
  outside the direct map.\<close>

partial_function (option) recycle_tail :: "'z pmm_scheme \<Rightarrow> (bool \<times> 'z pmm_scheme) option" where
  "recycle_tail k =
     (if pmm_range_next k < pmm_range_end k then
        let page = pmm_range_next k;
            k = k\<lparr>pmm_range_next := pmm_range_next k + KERNEL_PAGE_SIZE\<rparr>
        in case kernel_phys_to_virt k page of
             None \<Rightarrow> Some (False, k)
           | Some link \<Rightarrow>
               Option.bind (kernel_store k link (pmm_recycled_head k)) (\<lambda>k.
               recycle_tail (k\<lparr>pmm_recycled_head := page\<rparr>))
      else Some (True, k))"

partial_function (option) take_fresh_run :: "nat \<Rightarrow> 'z pmm_scheme \<Rightarrow> (u64 \<times> 'z pmm_scheme) option" where
  "take_fresh_run page_count k =
     (let required = of_nat page_count * KERNEL_PAGE_SIZE
      in if pmm_range_next k < pmm_range_end k \<and> pmm_range_end k - pmm_range_next k \<ge> required then
           let first = pmm_range_next k
           in take_run first page_count (k\<lparr>pmm_range_next := pmm_range_next k + required\<rparr>)
         else
           Option.bind (recycle_tail k) (\<lambda>(recycled, k).
           if \<not> recycled then Some (0, k)
           else
             Option.bind (select_next_usable_range k) (\<lambda>(selected, k).
             if \<not> selected then Some (0, k) else take_fresh_run page_count k)))"

definition kernel_pmm_alloc_contiguous :: "nat \<Rightarrow> 'z pmm_scheme \<Rightarrow> (u64 \<times> 'z pmm_scheme) option" where
  "kernel_pmm_alloc_contiguous page_count k =
     (if page_count = 0 \<or> page_count > unat (UINT64_MAX div KERNEL_PAGE_SIZE) \<or>
         page_count > unat (pmm_free_count k) then Some (0, k)
      else
        do {
          (result, k) \<leftarrow>
            scan_recycled page_count 0 (pmm_recycled_head k) (if pmm_recycled_head k \<noteq> 0 then 1 else 0) k;
          (case result of Some r \<Rightarrow> Some (r, k) | None \<Rightarrow> take_fresh_run page_count k)
        })"

section \<open>The free pages of an allocator\<close>

lemma pmm_field_updates [simp]:
  "memory_ok (k\<lparr>pmm_memory_map_index := i\<rparr>) = memory_ok k" "memory_ok (k\<lparr>pmm_range_next := x\<rparr>) = memory_ok k"
  "memory_ok (k\<lparr>pmm_range_end := x\<rparr>) = memory_ok k" "memory_ok (k\<lparr>pmm_recycled_head := x\<rparr>) = memory_ok k"
  "memory_ok (k\<lparr>pmm_free_count := x\<rparr>) = memory_ok k"
  "frame_ok (k\<lparr>pmm_memory_map_index := i\<rparr>) = frame_ok k" "frame_ok (k\<lparr>pmm_range_next := x\<rparr>) = frame_ok k"
  "frame_ok (k\<lparr>pmm_range_end := x\<rparr>) = frame_ok k" "frame_ok (k\<lparr>pmm_recycled_head := x\<rparr>) = frame_ok k"
  "frame_ok (k\<lparr>pmm_free_count := x\<rparr>) = frame_ok k"
  "word_at (k\<lparr>pmm_memory_map_index := i\<rparr>) = word_at k" "word_at (k\<lparr>pmm_range_next := x\<rparr>) = word_at k"
  "word_at (k\<lparr>pmm_range_end := x\<rparr>) = word_at k" "word_at (k\<lparr>pmm_recycled_head := x\<rparr>) = word_at k"
  "word_at (k\<lparr>pmm_free_count := x\<rparr>) = word_at k"
  by (simp_all add: memory_ok_def frame_ok_def word_at_def fun_eq_iff)

lemma only_pages_updates [simp]:
  "only_pages P k (k'\<lparr>pmm_memory_map_index := i\<rparr>) = only_pages P k k'"
  "only_pages P k (k'\<lparr>pmm_range_next := x\<rparr>) = only_pages P k k'"
  "only_pages P k (k'\<lparr>pmm_range_end := x\<rparr>) = only_pages P k k'"
  "only_pages P k (k'\<lparr>pmm_recycled_head := x\<rparr>) = only_pages P k k'"
  "only_pages P k (k'\<lparr>pmm_free_count := x\<rparr>) = only_pages P k k'"
  by (simp_all add: only_pages_def)

lemma memory_updates [simp]:
  "pmm_boot_info (set_word p i v k) = pmm_boot_info k"
  "pmm_memory_map_index (set_word p i v k) = pmm_memory_map_index k"
  "pmm_range_next (set_word p i v k) = pmm_range_next k"
  "pmm_range_end (set_word p i v k) = pmm_range_end k"
  "pmm_recycled_head (set_word p i v k) = pmm_recycled_head k"
  "pmm_free_count (set_word p i v k) = pmm_free_count k"
  "pmm_boot_info (clear_words p n k) = pmm_boot_info k"
  "pmm_memory_map_index (clear_words p n k) = pmm_memory_map_index k"
  "pmm_range_next (clear_words p n k) = pmm_range_next k"
  "pmm_range_end (clear_words p n k) = pmm_range_end k"
  "pmm_recycled_head (clear_words p n k) = pmm_recycled_head k"
  "pmm_free_count (clear_words p n k) = pmm_free_count k"
  by (simp_all add: set_word_def clear_words_def)

text \<open>Adjacent pages from \<open>a\<close> on, and the pages between two bounds.\<close>

definition run_of :: "u64 \<Rightarrow> nat \<Rightarrow> u64 list" where
  "run_of a n = map (\<lambda>i. a + of_nat i * KERNEL_PAGE_SIZE) [0..<n]"

definition pages_between :: "u64 \<Rightarrow> u64 \<Rightarrow> u64 list" where
  "pages_between a b = run_of a ((unat b - unat a) div 4096)"

definition entry_pages :: "cvm_memory_map_entry \<Rightarrow> u64 list" where
  "entry_pages entry =
     (if entry_type entry = CVM_MEMORY_USABLE then
        case usable_range_bounds (entry_base entry) (entry_length entry) of
          None \<Rightarrow> [] | Some (first, end_page) \<Rightarrow> pages_between first end_page
      else [])"

definition later_pages :: "'z pmm_scheme \<Rightarrow> u64 list" where
  "later_pages k =
     (case pmm_boot_info k of None \<Rightarrow> []
      | Some info \<Rightarrow> concat (map entry_pages (drop (pmm_memory_map_index k) (memory_map info))))"

definition fresh_pages :: "'z pmm_scheme \<Rightarrow> u64 list" where
  "fresh_pages k = pages_between (pmm_range_next k) (pmm_range_end k) @ later_pages k"

text \<open>A chain of links from \<open>h\<close> over the pages of a list to the page \<open>t\<close>.\<close>

primrec chain :: "(u64 \<Rightarrow> u64) \<Rightarrow> u64 \<Rightarrow> u64 list \<Rightarrow> u64 \<Rightarrow> bool" where
  "chain link h [] t \<longleftrightarrow> h = t"
| "chain link h (p # ps) t \<longleftrightarrow> h = p \<and> chain link (link p) ps t"

abbreviation link_of :: "'z pmm_scheme \<Rightarrow> u64 \<Rightarrow> u64" where
  "link_of k p \<equiv> word_at k p 0"

text \<open>The memory map is the one of this memory, and every usable entry has bounds.\<close>

definition map_ok :: "'z pmm_scheme \<Rightarrow> bool" where
  "map_ok k \<longleftrightarrow>
     (\<exists>info. pmm_boot_info k = Some info \<and> unat (info_ram_size info) = ram_size (memory k) \<and>
       (\<forall>e \<in> set (memory_map info). entry_type e = CVM_MEMORY_USABLE \<longrightarrow>
          usable_range_bounds (entry_base e) (entry_length e) \<noteq> None))"

text \<open>\<open>pool k rs xs\<close>: the allocator has the recycled pages \<open>rs\<close> and all in all the pages
  \<open>rs @ xs\<close>.\<close>

definition range_ok :: "'z pmm_scheme \<Rightarrow> bool" where
  "range_ok k \<longleftrightarrow> memory_ok k \<and> map_ok k \<and> page_aligned (pmm_range_next k) \<and> page_aligned (pmm_range_end k)"

definition frames_ok :: "'z pmm_scheme \<Rightarrow> u64 list \<Rightarrow> bool" where
  "frames_ok k xs \<longleftrightarrow> distinct xs \<and> (\<forall>p \<in> set xs. frame_ok k p)"

definition pool :: "'z pmm_scheme \<Rightarrow> u64 list \<Rightarrow> bool" where
  "pool k xs \<longleftrightarrow>
     range_ok k \<and> frames_ok k xs \<and> length xs = unat (pmm_free_count k) \<and>
     (\<exists>rs. chain (link_of k) (pmm_recycled_head k) rs 0 \<and> xs = rs @ fresh_pages k)"

section \<open>Ranges and chains\<close>

lemma run_of_0 [simp]: "run_of a 0 = []"
  by (simp add: run_of_def)

lemma run_of_Suc: "run_of a (Suc n) = a # run_of (a + KERNEL_PAGE_SIZE) n"
  by (simp add: run_of_def map_upt_Suc algebra_simps del: upt_Suc)

lemma length_run_of [simp]: "length (run_of a n) = n"
  by (simp add: run_of_def)

lemma run_of_append: "run_of a (m + n) = run_of a m @ run_of (a + of_nat m * KERNEL_PAGE_SIZE) n"
  by (induction m arbitrary: a) (simp_all add: run_of_Suc algebra_simps)

lemma unat_next_page:
  assumes "page_aligned a" "page_aligned b" "a < b"
  shows "unat (a + KERNEL_PAGE_SIZE) = unat a + 4096" "unat a + 4096 \<le> unat b"
proof -
  obtain m n where mn: "unat a = 4096 * m" "unat b = 4096 * n"
    using assms(1,2) unfolding page_aligned_def dvd_def by blast
  then have "m < n" using assms(3) by (simp add: word_less_nat_alt)
  then show *: "unat a + 4096 \<le> unat b" using mn by simp
  then have "unat a + 4096 < 2 ^ 64" using unat_u64_bound [of b] by (simp del: unat_u64_bound)
  then show "unat (a + KERNEL_PAGE_SIZE) = unat a + 4096"
    by (simp add: KERNEL_PAGE_SIZE_def unat_word_ariths)
qed

lemma page_aligned_next: "page_aligned a \<Longrightarrow> page_aligned b \<Longrightarrow> a < b \<Longrightarrow> page_aligned (a + KERNEL_PAGE_SIZE)"
  using unat_next_page(1) [of a b] by (simp add: page_aligned_def)

lemma pages_between_Nil: "page_aligned a \<Longrightarrow> page_aligned b \<Longrightarrow> pages_between a b = [] \<longleftrightarrow> b \<le> a"
  using unat_next_page(2) [of a b]
  by (cases "a < b") (auto simp: pages_between_def run_of_def div_eq_0_iff word_le_nat_alt word_less_nat_alt)

lemma pages_between_Cons:
  assumes "page_aligned a" "page_aligned b" "a < b"
  shows "pages_between a b = a # pages_between (a + KERNEL_PAGE_SIZE) b"
proof -
  note next_page = unat_next_page [OF assms]
  have "(unat b - unat a) div 4096 = Suc ((unat b - (unat a + 4096)) div 4096)"
    using next_page(2) by (subst le_div_geq) (simp_all add: diff_diff_add)
  then show ?thesis by (simp add: pages_between_def run_of_Suc next_page(1))
qed

lemma usable_aligned:
  "usable_range_bounds base len = Some (f, e) \<Longrightarrow> page_aligned f \<and> page_aligned e"
  by (auto simp: usable_range_bounds_def Let_def kernel_mask_eq KERNEL_PAGE_SIZE_def page_aligned_def
      unat_page_base split: if_splits)

lemma chain_append: "chain l h (xs @ ys) t \<longleftrightarrow> (\<exists>m. chain l h xs m \<and> chain l m ys t)"
  by (induction xs arbitrary: h) auto

lemma chain_cong: "(\<And>p. p \<in> set ps \<Longrightarrow> l p = l' p) \<Longrightarrow> chain l h ps t = chain l' h ps t"
  by (induction ps arbitrary: h) auto

lemma chain_Nil: "chain l 0 ps 0 \<Longrightarrow> 0 \<notin> set ps \<Longrightarrow> ps = []"
  by (cases ps) auto

lemma frames_okD:
  assumes "frames_ok k (xs @ ys)"
  shows "frames_ok k xs" "frames_ok k ys" "set xs \<inter> set ys = {}"
  using assms by (auto simp: frames_ok_def)

lemma frames_ok_aligned: "frames_ok k xs \<Longrightarrow> p \<in> set xs \<Longrightarrow> page_aligned p"
  by (auto simp: frames_ok_def frame_ok_def)

lemma frames_ok_0 [simp]: "frames_ok k xs \<Longrightarrow> 0 \<notin> set xs"
  by (auto simp: frames_ok_def frame_ok_def)

text \<open>Stores into other pages keep a chain.\<close>

lemma chain_only_pages:
  assumes "only_pages P k k'" "frames_ok k ps" "P \<inter> set ps = {}" "\<And>q. q \<in> P \<Longrightarrow> page_aligned q"
  shows "chain (link_of k') h ps t = chain (link_of k) h ps t"
  using assms by (intro chain_cong only_pages_word) (auto simp: frames_ok_aligned)

lemma range_ok_keep:
  assumes "only_pages P k k'" "pmm_boot_info k' = pmm_boot_info k"
    "page_aligned (pmm_range_next k')" "page_aligned (pmm_range_end k')" "range_ok k"
  shows "range_ok k'"
  using assms by (auto simp: range_ok_def map_ok_def only_pages_ok) (simp_all add: only_pages_def)

lemma frames_ok_keep: "only_pages P k k' \<Longrightarrow> frames_ok k' xs = frames_ok k xs"
  by (simp add: frames_ok_def only_pages_ok)

section \<open>Taking fresh pages\<close>

lemma later_pages_step:
  assumes "pmm_boot_info k = Some info" "pmm_memory_map_index k < memory_map_count info"
  shows "later_pages k = entry_pages (memory_map info ! pmm_memory_map_index k) @
    later_pages (k\<lparr>pmm_memory_map_index := pmm_memory_map_index k + 1\<rparr>)"
  using assms by (simp add: later_pages_def Cons_nth_drop_Suc [symmetric])

text \<open>Selecting a range moves the pages of the next entry that has some to the current range.\<close>

definition selected :: "'z pmm_scheme \<Rightarrow> 'z pmm_scheme \<Rightarrow> bool" where
  "selected k k' \<longleftrightarrow>
     k' = k\<lparr>pmm_memory_map_index := pmm_memory_map_index k', pmm_range_next := pmm_range_next k',
            pmm_range_end := pmm_range_end k'\<rparr> \<and>
     page_aligned (pmm_range_next k') \<and> page_aligned (pmm_range_end k') \<and>
     (later_pages k \<noteq> [] \<longrightarrow>
        pmm_range_next k' < pmm_range_end k' \<and> pmm_memory_map_index k < pmm_memory_map_index k') \<and>
     fresh_pages k' = later_pages k"

lemma selected_skip:
  assumes "selected (k\<lparr>pmm_memory_map_index := pmm_memory_map_index k + 1\<rparr>) k'"
    and "later_pages k = later_pages (k\<lparr>pmm_memory_map_index := pmm_memory_map_index k + 1\<rparr>)"
  shows "selected k k'"
  using assms by (auto simp: selected_def)

lemma selected_entry:
  assumes "pmm_boot_info k = Some info" "pmm_memory_map_index k < memory_map_count info"
    and "entry_pages (memory_map info ! pmm_memory_map_index k) = pages_between f g"
    and "page_aligned f" "page_aligned g" "f < g"
  shows "selected k (k\<lparr>pmm_memory_map_index := pmm_memory_map_index k + 1, pmm_range_next := f, pmm_range_end := g\<rparr>)"
  using assms later_pages_step [OF assms(1,2)]
  by (simp add: selected_def fresh_pages_def later_pages_def)

lemma select_next:
  "map_ok k \<Longrightarrow> \<exists>k'. select_next_usable_range k = Some (later_pages k \<noteq> [], k') \<and> selected k k'"
proof (induction k rule: select_next_usable_range.induct)
  case (1 k)
  obtain info where info: "pmm_boot_info k = Some info"
    and usable: "\<And>e. e \<in> set (memory_map info) \<Longrightarrow> entry_type e = CVM_MEMORY_USABLE \<Longrightarrow>
      usable_range_bounds (entry_base e) (entry_length e) \<noteq> None"
    using "1.prems" by (auto simp: map_ok_def)
  let ?i = "pmm_memory_map_index k" and ?k = "k\<lparr>pmm_memory_map_index := pmm_memory_map_index k + 1\<rparr>"
  show ?case
  proof (cases "?i < memory_map_count info")
    case False
    then have "later_pages k = []" using info by (simp add: later_pages_def)
    moreover from this have "selected k (k\<lparr>pmm_range_next := 0, pmm_range_end := 0\<rparr>)" using info
      by (simp add: selected_def fresh_pages_def later_pages_def pages_between_def)
    ultimately show ?thesis using info False by (simp add: select_next_usable_range.simps [of k])
  next
    case True
    define e where "e = memory_map info ! ?i"
    have entry: "memory_map_entry k ?i = Some e" using info True by (simp add: memory_map_entry_def e_def)
    have later: "later_pages k = entry_pages e @ later_pages ?k"
      using later_pages_step [OF info True] by (simp add: e_def)
    have map: "map_ok ?k" using "1.prems" by (simp add: map_ok_def)
    show ?thesis
    proof (cases "entry_type e = CVM_MEMORY_USABLE")
      case False
      then have "later_pages k = later_pages ?k" using later by (simp add: entry_pages_def)
      then show ?thesis
        using "1.IH"(1) [OF info True refl refl entry False map] selected_skip [of k] info True entry False
        by (auto simp: select_next_usable_range.simps [of k] Let_def)
    next
      case usable_type: True
      have "e \<in> set (memory_map info)" using True by (simp add: e_def)
      then obtain f g where bounds: "usable_range_bounds (entry_base e) (entry_length e) = Some (f, g)"
        using usable usable_type by fastforce
      note aligned = usable_aligned [OF bounds]
      have pages: "entry_pages e = pages_between f g" using usable_type bounds by (simp add: entry_pages_def)
      show ?thesis
      proof (cases "f < g")
        case fg: False
        then have "later_pages k = later_pages ?k" using aligned pages later by (simp add: pages_between_Nil)
        then show ?thesis
          using "1.IH"(2) [OF info True refl refl entry _ bounds refl fg map] selected_skip [of k]
            usable_type info True entry bounds fg
          by (auto simp: select_next_usable_range.simps [of k] Let_def)
      next
        case fg: True
        then have "later_pages k \<noteq> []" using aligned pages later pages_between_Nil [of f g] by (simp add: not_le)
        then show ?thesis
          using selected_entry [OF info True _ _ _ fg] aligned pages usable_type info True entry bounds fg e_def
          by (simp add: select_next_usable_range.simps [of k] Let_def)
      qed
    qed
  qed
qed

lemma selected_keeps:
  assumes "selected k k'"
  shows "only_pages P k k'" "pmm_boot_info k' = pmm_boot_info k" "range_ok k \<Longrightarrow> range_ok k'"
    "pmm_recycled_head k' = pmm_recycled_head k" "pmm_free_count k' = pmm_free_count k" "word_at k' = word_at k"
proof -
  let ?k = "k\<lparr>pmm_memory_map_index := pmm_memory_map_index k', pmm_range_next := pmm_range_next k',
     pmm_range_end := pmm_range_end k'\<rparr>"
  have k': "k' = ?k" and al: "page_aligned (pmm_range_next k')" "page_aligned (pmm_range_end k')"
    using assms by (auto simp: selected_def)
  have "only_pages P k ?k" "pmm_boot_info ?k = pmm_boot_info k" "pmm_recycled_head ?k = pmm_recycled_head k"
    "pmm_free_count ?k = pmm_free_count k" "word_at ?k = word_at k" "range_ok k \<Longrightarrow> range_ok ?k"
    using al by (simp_all add: range_ok_def map_ok_def)
  then show "only_pages P k k'" "pmm_boot_info k' = pmm_boot_info k" "range_ok k \<Longrightarrow> range_ok k'"
    "pmm_recycled_head k' = pmm_recycled_head k" "pmm_free_count k' = pmm_free_count k" "word_at k' = word_at k"
    using k' by simp_all
qed

text \<open>A fresh page is the first of the fresh pages; 0 where there is none.\<close>

lemma take_fresh_page_correct:
  assumes "range_ok k"
  shows "\<exists>k'. take_fresh_page k = Some (case fresh_pages k of [] \<Rightarrow> 0 | p # _ \<Rightarrow> p, k') \<and> range_ok k' \<and>
    fresh_pages k' = tl (fresh_pages k) \<and> only_pages {} k k' \<and>
    pmm_recycled_head k' = pmm_recycled_head k \<and> pmm_free_count k' = pmm_free_count k"
proof -
  have now: "\<exists>k'. take_fresh_page k = Some (case fresh_pages k of [] \<Rightarrow> 0 | p # _ \<Rightarrow> p, k') \<and> range_ok k' \<and>
      fresh_pages k' = tl (fresh_pages k) \<and> only_pages {} k k' \<and>
      pmm_recycled_head k' = pmm_recycled_head k \<and> pmm_free_count k' = pmm_free_count k"
    if k: "range_ok k" and range: "pmm_range_next k < pmm_range_end k" for k :: "'a pmm_scheme"
  proof -
    have "page_aligned (pmm_range_next k)" "page_aligned (pmm_range_end k)" using k by (auto simp: range_ok_def)
    note cons = pages_between_Cons [OF this range] and next_page = page_aligned_next [OF this range]
    show ?thesis using k range cons next_page
      by (subst take_fresh_page.simps)
         (auto simp: fresh_pages_def later_pages_def range_ok_def map_ok_def not_le)
  qed
  show ?thesis
  proof (cases "pmm_range_next k < pmm_range_end k")
    case False
    have al: "page_aligned (pmm_range_next k)" "page_aligned (pmm_range_end k)" and map: "map_ok k"
      using assms by (auto simp: range_ok_def)
    then have fresh: "fresh_pages k = later_pages k" using False by (simp add: fresh_pages_def pages_between_Nil)
    obtain k' where k': "select_next_usable_range k = Some (later_pages k \<noteq> [], k')" "selected k k'"
      using select_next [OF map] by blast
    show ?thesis
    proof (cases "later_pages k = []")
      case True
      then show ?thesis using k' False fresh assms selected_keeps [OF k'(2)]
        by (subst take_fresh_page.simps) (auto simp: selected_def)
    next
      case later: False
      then have "pmm_range_next k' < pmm_range_end k'" "fresh_pages k' = later_pages k" "range_ok k'"
        using k'(2) selected_keeps(3) [OF k'(2) assms] by (auto simp: selected_def)
      then show ?thesis
        using now [of k'] k'(1) later False fresh selected_keeps [OF k'(2)] only_pages_trans [of "{}" k k']
        by (subst take_fresh_page.simps) auto
    qed
  qed (use now [OF assms] in auto)
qed

section \<open>Single pages\<close>

lemma pool_length: "frames_ok k xs \<Longrightarrow> length xs < 2 ^ 64"
proof -
  assume "frames_ok k xs"
  then have "length xs = card (set xs)" "set xs \<subseteq> UNIV - {0}"
    using frames_ok_0 by (auto simp: frames_ok_def distinct_card)
  then have "length xs \<le> card (UNIV - {0 :: u64})" by (metis card_mono finite)
  also have "\<dots> < card (UNIV :: u64 set)" by (rule psubset_card_mono) auto
  finally show ?thesis by (simp add: card_word)
qed

lemma unat_count_pred: "length (p # xs) = unat c \<Longrightarrow> unat (c - 1) = length xs" for c :: u64
proof -
  assume c: "length (p # xs) = unat c"
  then have "1 \<le> c" by (auto simp: word_le_nat_alt)
  then have "unat (c - 1) = unat c - 1" by (simp add: unat_sub)
  then show ?thesis using c by simp
qed

lemma unat_count_Suc: "length xs = unat c \<Longrightarrow> length xs + 1 < 2 ^ 64 \<Longrightarrow> unat (c + 1) = length xs + 1" for c :: u64
  by (simp add: unat_word_ariths)

text \<open>An allocation takes the first page and clears it.\<close>

lemma clear_pool:
  assumes k: "range_ok k" "frames_ok k (p # xs)" "length (p # xs) = unat (pmm_free_count k)"
    and chain: "chain (link_of k) (pmm_recycled_head k) rs 0" "xs = rs @ fresh_pages k"
  shows "pool (clear_page p (k\<lparr>pmm_free_count := pmm_free_count k - 1\<rparr>)) xs"
proof -
  let ?k = "k\<lparr>pmm_free_count := pmm_free_count k - 1\<rparr>" let ?k' = "clear_page p ?k"
  have only: "only_pages {p} ?k ?k'" by (rule only_pages_clear) simp
  have frames: "frames_ok ?k (p # xs)" using k(2) by (simp add: frames_ok_def)
  then have "{p} \<inter> set rs = {}" "frames_ok ?k rs" "page_aligned p"
    using chain(2) by (auto simp: frames_ok_def frame_ok_def)
  then have "chain (link_of ?k') (pmm_recycled_head k) rs 0"
    using chain_only_pages [OF only, of rs] chain(1) by simp
  moreover have "fresh_pages ?k' = fresh_pages k"
    by (simp add: fresh_pages_def later_pages_def split: option.split)
  moreover have "range_ok ?k'"
    by (rule range_ok_keep [OF only]) (use k(1) in \<open>simp_all add: range_ok_def map_ok_def\<close>)
  moreover have "frames_ok ?k' xs" using frames frames_ok_keep [OF only] by (simp add: frames_ok_def)
  ultimately show ?thesis unfolding pool_def
    using chain(2) unat_count_pred [OF k(3)] by (intro conjI exI [of _ rs]) simp_all
qed

lemma alloc_page_correct:
  assumes "pool k xs"
  shows "\<exists>k'. kernel_pmm_alloc_page k = Some (case xs of [] \<Rightarrow> 0 | p # _ \<Rightarrow> p, k') \<and> pool k' (tl xs) \<and>
    only_pages (set (take 1 xs)) k k' \<and> (\<forall>p \<in> set (take 1 xs). \<forall>j. in_page p j \<longrightarrow> ram_data (memory k') j = 0)"
proof -
  obtain rs where chain: "chain (link_of k) (pmm_recycled_head k) rs 0" and xs: "xs = rs @ fresh_pages k"
    and k: "range_ok k" "frames_ok k xs" "length xs = unat (pmm_free_count k)"
    using assms by (auto simp: pool_def)
  have mem: "memory_ok k" using k(1) by (simp add: range_ok_def)
  have rs0: "0 \<notin> set rs" using frames_ok_0 [OF k(2)] xs by simp
  show ?thesis
  proof (cases rs)
    case Nil
    obtain k' where k': "take_fresh_page k = Some (case xs of [] \<Rightarrow> 0 | p # _ \<Rightarrow> p, k')"
      "range_ok k'" "fresh_pages k' = tl xs" "only_pages {} k k'"
      "pmm_recycled_head k' = 0" "pmm_free_count k' = pmm_free_count k"
      using take_fresh_page_correct [OF k(1)] chain Nil xs by auto
    show ?thesis
    proof (cases xs)
      case Nil
      then have "pool k' []" using k k' by (auto simp: pool_def frames_ok_def intro: exI [of _ "[]"])
      then show ?thesis using k' Nil \<open>rs = []\<close> chain by (simp add: kernel_pmm_alloc_page_def)
    next
      case (Cons p ys)
      have p: "frame_ok k' p" and frames: "frames_ok k' xs" using k(2) Cons k'(4)
        by (simp_all add: frames_ok_def only_pages_ok)
      then have "p \<noteq> 0" by (simp add: frame_ok_def)
      let ?k = "k'\<lparr>pmm_free_count := pmm_free_count k' - 1\<rparr>"
      have zero: "zero_page (direct_map_base k' + p) ?k = Some (clear_page p ?k)"
        using zero_page_clear [of ?k p] p k'(2) by (simp add: range_ok_def)
      have "kernel_phys_to_virt k' p = Some (direct_map_base k' + p)"
        using frame_direct [of k' p] p k'(2) by (simp add: range_ok_def)
      moreover have "pool (clear_page p ?k) ys"
        by (rule clear_pool [where rs = "[]"]) (use k' k(3) Cons frames in auto)
      moreover have "only_pages {p} k (clear_page p ?k)"
        by (rule only_pages_trans [of _ _ ?k]) (use only_pages_mono [OF k'(4)] only_pages_clear in auto)
      ultimately show ?thesis using k'(1) Cons \<open>rs = []\<close> chain zero \<open>p \<noteq> 0\<close>
        by (simp add: kernel_pmm_alloc_page_def clear_page_zero)
    qed
  next
    case (Cons p qs)
    then have p: "pmm_recycled_head k = p" "p \<noteq> 0" "frame_ok k p"
      and rest: "chain (link_of k) (link_of k p) qs 0" and xs': "xs = p # qs @ fresh_pages k"
      using chain k(2) xs rs0 by (auto simp: frames_ok_def)
    let ?k = "k\<lparr>pmm_recycled_head := link_of k p\<rparr>"
    let ?k2 = "?k\<lparr>pmm_free_count := pmm_free_count ?k - 1\<rparr>"
    have zero: "zero_page (direct_map_base k + p) ?k2 = Some (clear_page p ?k2)"
      using zero_page_clear [of ?k2 p] p(3) mem by simp
    have fresh: "fresh_pages ?k = fresh_pages k"
    by (simp add: fresh_pages_def later_pages_def split: option.split)
    have "pool (clear_page p ?k2) (qs @ fresh_pages k)"
      by (rule clear_pool [where rs = qs]) (use k xs' rest fresh in \<open>auto simp: range_ok_def map_ok_def frames_ok_def\<close>)
    moreover have "only_pages {p} k (clear_page p ?k2)"
      by (rule only_pages_trans [of _ _ ?k2]) (use only_pages_clear in auto)
    ultimately show ?thesis
      using p xs' zero frame_direct [OF mem p(3)] frame_load_first [OF mem p(3)]
        frame_direct [of ?k p] mem
      by (simp add: kernel_pmm_alloc_page_def clear_page_zero kernel_phys_to_virt_def split: if_splits)
  qed
qed

text \<open>A release puts the page in front.\<close>

lemma free_page_correct:
  assumes "pool k xs" "frame_ok k p" "p \<notin> set xs"
  shows "\<exists>k'. kernel_pmm_free_page p k = Some k' \<and> pool k' (p # xs) \<and> only_pages {p} k k'"
proof -
  obtain rs info where chain: "chain (link_of k) (pmm_recycled_head k) rs 0" and xs: "xs = rs @ fresh_pages k"
    and k: "range_ok k" "frames_ok k xs" "length xs = unat (pmm_free_count k)"
    and info: "pmm_boot_info k = Some info" "unat (info_ram_size info) = ram_size (memory k)"
    using assms(1) by (auto simp: pool_def range_ok_def map_ok_def)
  have mem: "memory_ok k" using k(1) by (simp add: range_ok_def)
  let ?k = "set_word p 0 (pmm_recycled_head k) k"
  let ?k' = "?k\<lparr>pmm_recycled_head := p, pmm_free_count := pmm_free_count k + 1\<rparr>"
  have p: "p \<noteq> 0" "page_aligned p" "unat p + 4096 \<le> unat (info_ram_size info)"
    using assms(2) info by (simp_all add: frame_ok_def)
  have guard: "\<not> (p = 0 \<or> p AND KERNEL_PAGE_MASK \<noteq> 0 \<or> info_ram_size info < KERNEL_PAGE_SIZE \<or>
      p > info_ram_size info - KERNEL_PAGE_SIZE)"
    using p by (auto simp: kernel_mask_eq page_aligned_iff KERNEL_PAGE_SIZE_def word_less_nat_alt unat_sub_if')
  have store: "kernel_store k (direct_map_base k + p) (pmm_recycled_head k) = Some ?k"
    by (rule frame_store_first [OF mem assms(2)])
  then have free: "kernel_pmm_free_page p k = Some ?k'"
    using guard info frame_direct [OF mem assms(2)] by (simp add: kernel_pmm_free_page_def)
  have only: "only_pages {p} k ?k'" using only_pages_set_word [of 0 p "{p}" k] by simp
  have frames: "frames_ok k (p # xs)" using k(2) assms by (simp add: frames_ok_def)
  have "chain (link_of ?k') (pmm_recycled_head k) rs 0"
    using chain chain_only_pages [OF only, of rs] frames xs p(2) by (auto simp: frames_ok_def)
  then have "chain (link_of ?k') p (p # rs) 0" by simp
  moreover have "fresh_pages ?k' = fresh_pages k"
    by (simp add: fresh_pages_def later_pages_def split: option.split)
  moreover have "range_ok ?k'"
    by (rule range_ok_keep [OF only]) (use k(1) in \<open>simp_all add: range_ok_def\<close>)
  moreover have "frames_ok ?k' (p # xs)" using frames frames_ok_keep [OF only] by simp
  moreover have "length (p # xs) = unat (pmm_free_count ?k')"
    using unat_count_Suc [OF k(3)] pool_length [OF frames] by simp
  ultimately have "pool ?k' (p # xs)" unfolding pool_def using xs by (intro conjI exI [of _ "p # rs"]) simp_all
  then show ?thesis using free only by blast
qed

section \<open>The pages of the memory map\<close>

text \<open>The entries are in ascending order and do not overlap.\<close>

definition memory_map_sorted :: "cvm_memory_map_entry list \<Rightarrow> bool" where
  "memory_map_sorted = sorted_wrt (\<lambda>a b. unat (entry_base a) + unat (entry_length a) \<le> unat (entry_base b))"

lemma unat_run_page:
  assumes "unat a + 4096 * n \<le> 2 ^ 64" "i < n"
  shows "unat (a + of_nat i * KERNEL_PAGE_SIZE) = unat a + 4096 * i"
proof -
  have "unat (of_nat (i * 4096) :: u64) = i * 4096"
    using assms by (simp only: unat_of_nat take_bit_eq_mod) simp
  moreover have "(of_nat i * KERNEL_PAGE_SIZE :: u64) = of_nat (i * 4096)" by (simp add: KERNEL_PAGE_SIZE_def)
  ultimately show ?thesis using assms by (simp add: unat_word_ariths)
qed

lemma run_of_pages:
  assumes "unat a + 4096 * n \<le> 2 ^ 64" "page_aligned a"
  shows "p \<in> set (run_of a n) \<Longrightarrow> page_aligned p \<and> unat a \<le> unat p \<and> unat p + 4096 \<le> unat a + 4096 * n"
    and "distinct (run_of a n)"
proof -
  note unat_page = unat_run_page [OF assms(1)]
  show "page_aligned p \<and> unat a \<le> unat p \<and> unat p + 4096 \<le> unat a + 4096 * n" if "p \<in> set (run_of a n)"
    using that assms(2) by (auto simp: run_of_def unat_page page_aligned_def)
  show "distinct (run_of a n)"
    unfolding run_of_def distinct_map using unat_page by (auto intro!: inj_onI dest: arg_cong [where f = unat])
qed

lemma pages_between_pages:
  assumes "page_aligned a" "page_aligned b"
  shows "p \<in> set (pages_between a b) \<Longrightarrow> page_aligned p \<and> unat a \<le> unat p \<and> unat p + 4096 \<le> unat b"
    and "distinct (pages_between a b)"
proof -
  show "page_aligned p \<and> unat a \<le> unat p \<and> unat p + 4096 \<le> unat b" if p: "p \<in> set (pages_between a b)"
  proof -
    have "a < b" using p pages_between_Nil [OF assms] by (auto simp: not_le)
    then have "unat a + 4096 * ((unat b - unat a) div 4096) \<le> unat b"
      by (simp add: word_less_nat_alt add.commute flip: le_diff_conv2)
    then show ?thesis using run_of_pages(1) [of a "(unat b - unat a) div 4096" p] p assms(1) unat_u64_bound [of b]
      by (simp add: pages_between_def del: unat_u64_bound)
  qed
  have "unat a + 4096 * ((unat b - unat a) div 4096) \<le> 2 ^ 64"
    using times_div_less_eq_dividend [of 4096 "unat b - unat a"] unat_u64_bound [of a] unat_u64_bound [of b]
    by (simp del: unat_u64_bound)
  then show "distinct (pages_between a b)" using run_of_pages(2) assms(1) by (simp add: pages_between_def)
qed

lemma usable_bounds_inside:
  assumes "usable_range_bounds base len = Some (f, e)"
  shows "4096 \<le> unat f" "unat base \<le> unat f" "unat e \<le> unat base + unat len"
proof -
  have ov: "unat base + unat len < 2 ^ 64" "unat base + 4095 < 2 ^ 64"
    and e: "e = (base + len) AND MMU_PTE_ADDRESS_MASK"
    and f: "f = (if (base + KERNEL_PAGE_MASK) AND MMU_PTE_ADDRESS_MASK = 0 then KERNEL_PAGE_SIZE
        else (base + KERNEL_PAGE_MASK) AND MMU_PTE_ADDRESS_MASK)"
    using assms le_UINT64_MAX_minus [of base len] le_UINT64_MAX_minus [of base KERNEL_PAGE_MASK]
    by (auto simp: usable_range_bounds_def Let_def not_less kernel_mask_eq(2) page_constants split: if_splits)
  have sum: "unat (base + KERNEL_PAGE_MASK) = unat base + 4095" "unat (base + len) = unat base + unat len"
    using ov by (simp_all add: page_constants unat_word_ariths)
  let ?q = "(unat base + 4095) div 4096"
  have up: "unat ((base + KERNEL_PAGE_MASK) AND MMU_PTE_ADDRESS_MASK) = 4096 * ?q"
    by (simp only: unat_page_base sum)
  have "unat base \<le> 4096 * ?q" by arith
  moreover have "?q = 0 \<Longrightarrow> unat base = 0" by arith
  moreover have "(base + KERNEL_PAGE_MASK) AND MMU_PTE_ADDRESS_MASK = 0 \<longleftrightarrow> ?q = 0"
    using up by (metis mult_eq_0_iff unat_eq_0 zero_neq_numeral)
  ultimately show "4096 \<le> unat f" "unat base \<le> unat f"
    using up f by (auto simp: KERNEL_PAGE_SIZE_def)
  show "unat e \<le> unat base + unat len" unfolding e by (simp add: unat_page_base sum)
qed

lemma entry_pages_inside:
  assumes "p \<in> set (entry_pages e)"
  shows "page_aligned p" "p \<noteq> 0" "unat (entry_base e) \<le> unat p"
    "unat p + 4096 \<le> unat (entry_base e) + unat (entry_length e)"
    "entry_type e = CVM_MEMORY_USABLE"
proof -
  show usable: "entry_type e = CVM_MEMORY_USABLE"
    using assms by (rule contrapos_pp) (simp add: entry_pages_def)
  obtain f g where b: "usable_range_bounds (entry_base e) (entry_length e) = Some (f, g)"
    and p: "p \<in> set (pages_between f g)"
    using assms usable by (cases "usable_range_bounds (entry_base e) (entry_length e)") (auto simp: entry_pages_def)
  have "page_aligned p \<and> unat f \<le> unat p \<and> unat p + 4096 \<le> unat g"
    using pages_between_pages(1) usable_aligned [OF b] p by blast
  then show "page_aligned p" "p \<noteq> 0" "unat (entry_base e) \<le> unat p"
    "unat p + 4096 \<le> unat (entry_base e) + unat (entry_length e)"
    using usable_bounds_inside [OF b] by auto
qed

lemma distinct_entry_pages: "distinct (entry_pages e)"
  using pages_between_pages(2) usable_aligned
  by (auto simp: entry_pages_def split: option.split)

lemma distinct_map_pages: "memory_map_sorted es \<Longrightarrow> distinct (concat (map entry_pages es))"
proof (induction es)
  case (Cons e es)
  have "unat p < unat q" if "p \<in> set (entry_pages e)" "e' \<in> set es" "q \<in> set (entry_pages e')" for p q e'
    using entry_pages_inside [OF that(1)] entry_pages_inside [OF that(3)] Cons.prems that(2)
    by (force simp: memory_map_sorted_def)
  then have "set (entry_pages e) \<inter> (\<Union>x \<in> set es. set (entry_pages x)) = {}" by fastforce
  with Cons show ?case by (simp add: distinct_entry_pages memory_map_sorted_def)
qed simp

text \<open>The initial count is the number of these pages, and every usable entry lies in RAM.\<close>

lemma unat_pages:
  assumes "page_aligned f" "page_aligned e"
  shows "unat (if f < e then (e - f) div KERNEL_PAGE_SIZE else 0) = length (pages_between f e)"
proof (cases "f < e")
  case True
  then have "unat (e - f) = unat e - unat f" by (simp add: unat_sub word_le_nat_alt word_less_nat_alt)
  with True show ?thesis by (simp add: pages_between_def KERNEL_PAGE_SIZE_def unat_div)
qed (use pages_between_Nil [OF assms] in simp)

lemma count_usable_correct:
  "count_usable info es c = (True, c') \<Longrightarrow>
     unat c' = unat c + length (concat (map entry_pages es)) \<and>
     (\<forall>e \<in> set es. entry_type e = CVM_MEMORY_USABLE \<longrightarrow>
        (\<exists>f g. usable_range_bounds (entry_base e) (entry_length e) = Some (f, g) \<and> g \<le> info_ram_size info))"
proof (induction es arbitrary: c)
  case (Cons e es)
  show ?case
  proof (cases "entry_type e = CVM_MEMORY_USABLE")
    case True
    then obtain f g where b: "usable_range_bounds (entry_base e) (entry_length e) = Some (f, g)"
      and g: "g \<le> info_ram_size info"
      using Cons.prems by (auto split: option.splits if_splits simp: not_less)
    define n where "n = (if f < g then (g - f) div KERNEL_PAGE_SIZE else 0)"
    have rest: "count_usable info es (c + n) = (True, c')" and "c \<le> UINT64_MAX - n"
      using Cons.prems True b g by (auto simp: n_def Let_def not_less split: if_splits)
    then have "unat c + unat n < 2 ^ 64" by (simp only: le_UINT64_MAX_minus)
    then have "unat (c + n) = unat c + unat n" by (simp add: unat_word_ariths)
    moreover have "unat n = length (entry_pages e)"
      using unat_pages [of f g] usable_aligned [OF b] True b by (simp add: n_def entry_pages_def)
    ultimately show ?thesis using Cons.IH [OF rest] True b g by auto
  next
    case False
    then show ?thesis using Cons by (simp add: entry_pages_def)
  qed
qed simp

lemma pmm_init_correct:
  assumes "kernel_pmm_init (Some info) k = (True, k')" "memory_ok k"
    "unat (info_ram_size info) = ram_size (memory k)" "memory_map_sorted (memory_map info)"
  shows "pool k' (concat (map entry_pages (memory_map info)))" "only_pages {} k k'"
    "concat (map entry_pages (memory_map info)) \<noteq> []"
proof -
  let ?xs = "concat (map entry_pages (memory_map info))"
  obtain c where c: "count_usable info (memory_map info) 0 = (True, c)" "c \<noteq> 0"
    and k': "k' = k\<lparr>pmm_boot_info := Some info, pmm_memory_map_index := 0, pmm_range_next := 0,
                    pmm_range_end := 0, pmm_recycled_head := 0, pmm_free_count := c\<rparr>"
    using assms(1) by (auto simp: kernel_pmm_init_def Let_def split: prod.splits)
  note count = count_usable_correct [OF c(1)]
  show only: "only_pages {} k k'" by (simp add: k' only_pages_def)
  have frames: "frame_ok k p" if e: "e \<in> set (memory_map info)" and p: "p \<in> set (entry_pages e)" for e p
  proof -
    obtain f g where b: "usable_range_bounds (entry_base e) (entry_length e) = Some (f, g)" "g \<le> info_ram_size info"
      using count e entry_pages_inside(5) [OF p] by blast
    then have "p \<in> set (pages_between f g)" using p entry_pages_inside(5) [OF p] by (simp add: entry_pages_def)
    then show ?thesis
      using pages_between_pages(1) [of f g p] usable_aligned [OF b(1)] b(2) assms(3) entry_pages_inside [OF p]
      by (auto simp: frame_ok_def word_le_nat_alt)
  qed
  have "frames_ok k' ?xs" using frames only distinct_map_pages [OF assms(4)]
    by (auto simp: frames_ok_def only_pages_ok)
  moreover have "fresh_pages k' = ?xs" by (simp add: k' fresh_pages_def later_pages_def pages_between_def)
  moreover have "memory_ok k'" using only_pages_ok(1) [OF only] assms(2) by simp
  then have "range_ok k'" using assms(3) count by (auto simp: range_ok_def map_ok_def k')
  ultimately show "pool k' ?xs" using count by (auto simp: pool_def k' intro: exI [of _ "[]"])
  have "unat c = length ?xs" using count by simp
  moreover have "unat c \<noteq> 0" using c(2) by (simp add: unat_eq_0)
  ultimately show "?xs \<noteq> []" by (metis list.size(3))
qed

section \<open>Runs of pages\<close>

text \<open>A permutation of the pages is as good a list of frames.\<close>

lemma frames_ok_perm: "mset xs = mset ys \<Longrightarrow> frames_ok k xs = frames_ok k ys"
  unfolding frames_ok_def using mset_eq_imp_distinct_iff [of xs ys] mset_eq_setD [of xs ys] by simp

abbreviation clear_pages :: "u64 list \<Rightarrow> 'z pmm_scheme \<Rightarrow> 'z pmm_scheme" where
  "clear_pages \<equiv> fold clear_page"

lemma clear_pages_fields [simp]:
  "pmm_boot_info (clear_pages ps k) = pmm_boot_info k"
  "pmm_memory_map_index (clear_pages ps k) = pmm_memory_map_index k"
  "pmm_range_next (clear_pages ps k) = pmm_range_next k"
  "pmm_range_end (clear_pages ps k) = pmm_range_end k"
  "pmm_recycled_head (clear_pages ps k) = pmm_recycled_head k"
  "pmm_free_count (clear_pages ps k) = pmm_free_count k"
  by (induction ps arbitrary: k) simp_all

lemma only_clear_pages: "set ps \<subseteq> P \<Longrightarrow> only_pages P k (clear_pages ps k)"
  by (induction ps arbitrary: k) (auto intro: only_pages_trans only_pages_clear)

lemma clear_pages_zero:
  "p \<in> set ps \<Longrightarrow> in_page p j \<Longrightarrow> ram_data (memory (clear_pages ps k)) j = 0"
proof (induction ps arbitrary: k rule: rev_induct)
  case (snoc q qs)
  then show ?case by (cases "in_page q j") (auto simp: clear_words_def in_page_def)
qed simp

lemma zero_pages_clear:
  assumes "memory_ok k" "\<forall>i \<in> set is. frame_ok k (first + of_nat i * KERNEL_PAGE_SIZE)"
  shows "zero_pages first is k = Some (True, clear_pages (map (\<lambda>i. first + of_nat i * KERNEL_PAGE_SIZE) is) k)"
  using assms by (induction "is" arbitrary: k) (simp_all add: frame_direct zero_page_clear)

lemma take_run_clear:
  assumes "memory_ok k" "\<forall>p \<in> set (run_of first n). frame_ok k p"
  shows "take_run first n k =
    Some (first, clear_pages (run_of first n) (k\<lparr>pmm_free_count := pmm_free_count k - of_nat n\<rparr>))"
  using assms unfolding take_run_def by (subst zero_pages_clear) (simp_all add: run_of_def)

text \<open>What an allocation of \<open>n\<close> pages promises.\<close>

definition run_taken :: "nat \<Rightarrow> u64 list \<Rightarrow> 'z pmm_scheme \<Rightarrow> u64 \<Rightarrow> 'z pmm_scheme \<Rightarrow> bool" where
  "run_taken n xs k r k' \<longleftrightarrow>
     only_pages (set xs) k k' \<and>
     (\<exists>xs'. pool k' xs' \<and>
        (if r = 0 then mset xs' = mset xs
         else mset xs = mset (run_of r n) + mset xs' \<and>
              (\<forall>p \<in> set (run_of r n). \<forall>j. in_page p j \<longrightarrow> ram_data (memory k') j = 0)))"

lemma run_taken_step:
  assumes "only_pages (set xs) k k2" "mset ys = mset xs" "run_taken n ys k2 r k'"
  shows "run_taken n xs k r k'"
  using assms(3) only_pages_trans [OF assms(1)] unfolding run_taken_def assms(2) mset_eq_setD [OF assms(2)]
  by blast

lemma run_takenI:
  assumes k: "range_ok k1" "frames_ok k1 xs" "length xs = unat (pmm_free_count k1)"
    and xs: "mset xs = mset (run_of r n) + mset (rs @ fresh_pages k1)"
    and chain: "chain (link_of k1) (pmm_recycled_head k1) rs 0"
    and only: "only_pages (set xs) k k1" and n: "0 < n"
  shows "\<exists>k'. take_run r n k1 = Some (r, k') \<and> run_taken n xs k r k'"
proof -
  let ?run = "run_of r n" and ?k = "k1\<lparr>pmm_free_count := pmm_free_count k1 - of_nat n\<rparr>"
  let ?k' = "clear_pages ?run ?k"
  have frames: "frames_ok k1 (?run @ rs @ fresh_pages k1)" using k(2) xs by (subst frames_ok_perm [of _ xs]) simp_all
  then have run: "\<forall>p \<in> set ?run. frame_ok k1 p" by (auto simp: frames_ok_def)
  have take: "take_run r n k1 = Some (r, ?k')" using take_run_clear [OF _ run] k(1) by (simp add: range_ok_def)
  have only_run: "only_pages (set ?run) ?k ?k'" by (rule only_clear_pages) simp
  have len: "length xs = n + length (rs @ fresh_pages k1)" using arg_cong [OF xs, of size] by simp
  then have "n < 2 ^ 64" using k(3) unat_u64_bound [of "pmm_free_count k1"] by (simp del: unat_u64_bound)
  then have n': "unat (of_nat n :: u64) = n" by (simp only: unat_of_nat take_bit_eq_mod) simp
  then have count: "unat (pmm_free_count k1 - of_nat n) = length (rs @ fresh_pages k1)"
    using len k(3) by (subst unat_sub) (simp_all add: word_le_nat_alt)
  have "r \<noteq> 0" using frames_ok_0 [OF frames] n by (cases n) (auto simp: run_of_Suc)
  have "chain (link_of ?k') (pmm_recycled_head k1) rs 0"
    using chain chain_only_pages [OF only_run, of rs] frames by (auto simp: frames_ok_def frame_ok_def)
  moreover have "fresh_pages ?k' = fresh_pages k1" by (simp add: fresh_pages_def later_pages_def split: option.split)
  moreover have "range_ok ?k'"
    by (rule range_ok_keep [OF only_run]) (use k(1) in \<open>simp_all add: range_ok_def map_ok_def\<close>)
  moreover have "frames_ok ?k' (rs @ fresh_pages k1)"
    using frames_okD(2) [OF frames] by (simp add: frames_ok_def only_pages_ok(2) [OF only_run])
  ultimately have "pool ?k' (rs @ fresh_pages k1)" unfolding pool_def using count by (intro conjI exI [of _ rs]) simp_all
  moreover have "only_pages (set xs) k ?k'"
  proof -
    have "set ?run \<subseteq> set xs" using mset_eq_setD [of xs "?run @ rs @ fresh_pages k1"] xs by simp
    then have "only_pages (set xs) ?k ?k'" by (rule only_clear_pages)
    with only show ?thesis by (intro only_pages_trans [of "set xs" k ?k ?k']) simp_all
  qed
  ultimately show ?thesis
    unfolding take run_taken_def using xs \<open>r \<noteq> 0\<close> clear_pages_zero [of _ ?run]
    by (intro exI [of _ ?k'] conjI exI [of _ "rs @ fresh_pages k1"]) auto
qed

subsection \<open>The recycled chain\<close>

definition head_of :: "u64 list \<Rightarrow> u64" where
  "head_of ps = (case ps of [] \<Rightarrow> 0 | p # _ \<Rightarrow> p)"

lemma chain_head: "chain l h ps 0 \<Longrightarrow> h = head_of ps"
  by (cases ps) (auto simp: head_of_def)

lemma chain_last: "chain l h (xs @ rev (run_of c m) @ rest) 0 \<Longrightarrow> 0 < m \<Longrightarrow> l c = head_of rest"
  by (cases m) (auto simp: run_of_Suc chain_append dest: chain_head)

text \<open>The chain without the run between \<open>ys\<close> and \<open>zs\<close>.\<close>

definition unlink_run :: "u64 list \<Rightarrow> u64 list \<Rightarrow> 'z pmm_scheme \<Rightarrow> 'z pmm_scheme" where
  "unlink_run ys zs k =
     (if ys = [] then k\<lparr>pmm_recycled_head := head_of zs\<rparr> else set_word (last ys) 0 (head_of zs) k)"

lemma run_of_extend:
  "0 < m \<Longrightarrow> q + KERNEL_PAGE_SIZE = c \<Longrightarrow> rev (run_of q (m + 1)) = rev (run_of c m) @ [q]"
  by (simp add: run_of_Suc)

lemma run_of_nonempty: "0 < m \<Longrightarrow> run_of c m \<noteq> []"
  by (cases m) (simp_all add: run_of_Suc)

lemma last_run: "0 < m \<Longrightarrow> last (xs @ rev (run_of c m)) = c"
  by (cases m) (simp_all add: run_of_Suc)

lemma scan_recycled_correct:
  assumes "memory_ok k" "frames_ok k (xs @ rev (run_of c m) @ rest)" "0 < m"
    and "chain (link_of k) h (xs @ rev (run_of c m) @ rest) 0"
  shows "scan_recycled n (if xs = [] then 0 else last xs) c m k = Some (None, k) \<or>
    (\<exists>ys d zs. xs @ rev (run_of c m) @ rest = ys @ rev (run_of d n) @ zs \<and>
       scan_recycled n (if xs = [] then 0 else last xs) c m k =
         map_option (\<lambda>(r, k). (Some r, k)) (take_run d n (unlink_run ys zs k)))"
  using assms
proof (induction rest arbitrary: xs c m)
  case Nil
  have c: "frame_ok k c" "c \<noteq> 0" using Nil.prems(2,3) by (cases m; auto simp: frames_ok_def frame_ok_def run_of_Suc)+
  have link: "link_of k c = 0" using chain_last [OF Nil.prems(4,3)] by (simp add: head_of_def)
  have before: "last xs \<noteq> 0" "frame_ok k (last xs)" if "xs \<noteq> []"
    using Nil.prems(2) that last_in_set [of xs] by (auto simp: frames_ok_def frame_ok_def)
  show ?case
  proof (cases "m = n")
    case True
    then show ?thesis
      using c link before Nil.prems(1) frame_load_first [of k c] frame_store_first [of k "last xs"]
      by (intro disjI2 exI [of _ xs] exI [of _ c] exI [of _ "[]"])
         (auto simp: scan_recycled.simps frame_direct unlink_run_def head_of_def split: option.split Option.bind_split)
  next
    case False
    then show ?thesis using c link Nil.prems(1) frame_load_first [of k c]
      by (simp add: scan_recycled.simps frame_direct)
  qed
next
  case (Cons q rest)
  have c: "frame_ok k c" "c \<noteq> 0" using Cons.prems(2,3) by (cases m; auto simp: frames_ok_def frame_ok_def run_of_Suc)+
  have q: "q \<noteq> 0" using Cons.prems(2) by (auto simp: frames_ok_def frame_ok_def)
  have link: "link_of k c = q" using chain_last [OF Cons.prems(4,3)] by (simp add: head_of_def)
  have before: "last xs \<noteq> 0" "frame_ok k (last xs)" if "xs \<noteq> []"
    using Cons.prems(2) that last_in_set [of xs] by (auto simp: frames_ok_def frame_ok_def)
  show ?case
  proof (cases "m = n")
    case True
    then show ?thesis
      using c link before Cons.prems(1) frame_load_first [of k c] frame_store_first [of k "last xs"]
      by (intro disjI2 exI [of _ xs] exI [of _ c] exI [of _ "q # rest"])
         (auto simp: scan_recycled.simps frame_direct unlink_run_def head_of_def split: option.split Option.bind_split)
  next
    case mn: False
    show ?thesis
    proof (cases "c \<ge> KERNEL_PAGE_SIZE \<and> q = c - KERNEL_PAGE_SIZE")
      case True
      then have "rev (run_of q (m + 1)) @ rest = rev (run_of c m) @ q # rest"
        using run_of_extend [of m q c] Cons.prems(3) by simp
      moreover have "scan_recycled n b c m k = scan_recycled n b q (m + 1) k" for b
        using mn c q link frame_load_first [OF Cons.prems(1) c(1)] True Cons.prems(1)
        by (simp add: scan_recycled.simps [of n b c m k] frame_direct)
      ultimately show ?thesis using Cons.IH [of xs q "m + 1"] Cons.prems by simp
    next
      case False
      have "(xs @ rev (run_of c m)) @ rev (run_of q 1) @ rest = xs @ rev (run_of c m) @ q # rest"
        by (simp add: run_of_Suc)
      moreover have "scan_recycled n b c m k = scan_recycled n c q 1 k" for b
        using mn c q link frame_load_first [OF Cons.prems(1) c(1)] False Cons.prems(1)
        by (auto simp: scan_recycled.simps [of n b c m k] frame_direct)
      ultimately show ?thesis
        using Cons.IH [of "xs @ rev (run_of c m)" q 1] Cons.prems
          last_run [OF Cons.prems(3), of xs c] run_of_nonempty [OF Cons.prems(3)]
        by simp
    qed
  qed
qed

lemma unlink_run_chain:
  assumes "frames_ok k (ys @ zs)" "memory_ok k"
    and chain: "chain (link_of k) (pmm_recycled_head k) (ys @ run @ zs) 0" and "frames_ok k (ys @ run @ zs)"
  shows "chain (link_of (unlink_run ys zs k)) (pmm_recycled_head (unlink_run ys zs k)) (ys @ zs) 0"
    "only_pages (set (ys @ zs)) k (unlink_run ys zs k)"
proof -
  obtain m m' where ys: "chain (link_of k) (pmm_recycled_head k) ys m"
    and zs': "chain (link_of k) m' zs 0"
    using chain unfolding chain_append by blast
  note zs = zs' [unfolded chain_head [OF zs']]
  show "only_pages (set (ys @ zs)) k (unlink_run ys zs k)"
    by (auto simp: unlink_run_def intro!: only_pages_set_word)
  show "chain (link_of (unlink_run ys zs k)) (pmm_recycled_head (unlink_run ys zs k)) (ys @ zs) 0"
  proof (cases ys rule: rev_cases)
    case Nil
    then show ?thesis using zs by (simp add: unlink_run_def)
  next
    case (snoc us b)
    let ?k = "set_word b 0 (head_of zs) k"
    have only: "only_pages {b} k ?k" by (rule only_pages_set_word) simp_all
    have al: "page_aligned b" using assms(1) snoc by (simp add: frames_ok_def frame_ok_def)
    have "chain (link_of ?k) h us t = chain (link_of k) h us t" "chain (link_of ?k) h zs t = chain (link_of k) h zs t" for h t
      using assms(1) snoc al chain_only_pages [OF only, of us h t] chain_only_pages [OF only, of zs h t]
      by (auto simp: frames_ok_def)
    then show ?thesis using ys zs snoc by (auto simp: unlink_run_def chain_append)
  qed
qed

subsection \<open>Fresh runs\<close>

lemma pages_between_run:
  assumes "page_aligned a" "page_aligned b" "a < b" "of_nat n * KERNEL_PAGE_SIZE \<le> b - a" "4096 * n < 2 ^ 64"
  shows "pages_between a b = run_of a n @ pages_between (a + of_nat n * KERNEL_PAGE_SIZE) b"
    "page_aligned (a + of_nat n * KERNEL_PAGE_SIZE)"
proof -
  have "(of_nat n * KERNEL_PAGE_SIZE :: u64) = of_nat (4096 * n)" by (simp add: KERNEL_PAGE_SIZE_def)
  then have n: "unat (of_nat n * KERNEL_PAGE_SIZE :: u64) = 4096 * n"
    using assms(5) by (simp only: unat_of_nat take_bit_eq_mod) simp
  have "unat (b - a) = unat b - unat a" using assms(3) by (simp add: unat_sub word_le_nat_alt word_less_nat_alt)
  then have le: "4096 * n \<le> unat b - unat a" using assms(4) n by (simp add: word_le_nat_alt)
  then have "unat a + 4096 * n < 2 ^ 64" using assms(3) unat_u64_bound [of b]
    by (simp add: word_less_nat_alt del: unat_u64_bound)
  then have sum: "unat (a + of_nat n * KERNEL_PAGE_SIZE) = unat a + 4096 * n"
    using n by (simp add: unat_word_ariths)
  then show "page_aligned (a + of_nat n * KERNEL_PAGE_SIZE)" using assms(1) by (simp add: page_aligned_def)
  have "(unat b - unat a) div 4096 = n + (unat b - (unat a + 4096 * n)) div 4096"
    using le div_mult_self1 [of 4096 "unat b - (unat a + 4096 * n)" n] by simp
  then show "pages_between a b = run_of a n @ pages_between (a + of_nat n * KERNEL_PAGE_SIZE) b"
    by (simp add: pages_between_def sum run_of_append)
qed

text \<open>The tail of a range goes to the recycled chain, in reverse.\<close>

lemma recycle_tail_correct:
  assumes "range_ok k" "pages = pages_between (pmm_range_next k) (pmm_range_end k)"
    and "frames_ok k (pages @ rs)" "chain (link_of k) (pmm_recycled_head k) rs 0"
  shows "\<exists>k'. recycle_tail k = Some (True, k') \<and> range_ok k' \<and> only_pages (set pages) k k' \<and>
    chain (link_of k') (pmm_recycled_head k') (rev pages @ rs) 0 \<and> fresh_pages k' = later_pages k \<and>
    later_pages k' = later_pages k \<and> pmm_free_count k' = pmm_free_count k"
  using assms
proof (induction pages arbitrary: k rs)
  case Nil
  then have "\<not> pmm_range_next k < pmm_range_end k"
    using pages_between_Nil [of "pmm_range_next k" "pmm_range_end k"] by (auto simp: range_ok_def)
  then show ?case using Nil by (auto simp: recycle_tail.simps fresh_pages_def)
next
  case (Cons p pages)
  have al: "page_aligned (pmm_range_next k)" "page_aligned (pmm_range_end k)" and mem: "memory_ok k"
    using Cons.prems(1) by (auto simp: range_ok_def)
  have less: "pmm_range_next k < pmm_range_end k"
    using Cons.prems(2) pages_between_Nil [OF al] by (auto simp: not_le)
  note cons = pages_between_Cons [OF al less] and al' = page_aligned_next [OF al less]
  have p: "p = pmm_range_next k" and pages: "pages = pages_between (pmm_range_next k + KERNEL_PAGE_SIZE) (pmm_range_end k)"
    using Cons.prems(2) cons by auto
  let ?k = "k\<lparr>pmm_range_next := pmm_range_next k + KERNEL_PAGE_SIZE\<rparr>"
  let ?k' = "(set_word p 0 (pmm_recycled_head k) ?k)\<lparr>pmm_recycled_head := p\<rparr>"
  have fp: "frame_ok k p" using Cons.prems(3) by (simp add: frames_ok_def)
  then have step: "recycle_tail k = recycle_tail ?k'"
    using less frame_direct [of ?k p] frame_store_first [of ?k p] mem p
    by (simp add: recycle_tail.simps [of k] Let_def)
  have only: "only_pages {p} k ?k'" using only_pages_set_word [of 0 p "{p}" ?k] by (simp add: only_pages_def)
  have "chain (link_of ?k') (pmm_recycled_head k) rs 0"
    using Cons.prems(3,4) chain_only_pages [OF only, of rs] by (auto simp: frames_ok_def frame_ok_def)
  then have chain: "chain (link_of ?k') (pmm_recycled_head ?k') (p # rs) 0" by simp
  have "range_ok ?k'"
    by (rule range_ok_keep [OF only]) (use Cons.prems(1) al' al in \<open>simp_all\<close>)
  moreover have "frames_ok ?k' (pages @ p # rs)"
    using Cons.prems(3) by (auto simp: frames_ok_def)
  moreover have "later_pages ?k' = later_pages k" by (simp add: later_pages_def split: option.split)
  ultimately obtain k' where k': "recycle_tail ?k' = Some (True, k')" "range_ok k'" "only_pages (set pages) ?k' k'"
    "chain (link_of k') (pmm_recycled_head k') (rev pages @ p # rs) 0" "fresh_pages k' = later_pages k"
    "later_pages k' = later_pages k" "pmm_free_count k' = pmm_free_count k"
    using Cons.IH [of ?k' "p # rs"] pages chain by auto
  have "only_pages (set (p # pages)) k k'"
    by (rule only_pages_trans [OF only_pages_mono [OF only] only_pages_mono [OF k'(3)]]) auto
  with k' step show ?case by simp
qed

lemma take_fresh_run_correct:
  assumes "pool k xs" "0 < n" "4096 * n < 2 ^ 64"
  shows "\<exists>r k'. take_fresh_run n k = Some (r, k') \<and> run_taken n xs k r k'"
  using assms(1)
proof (induction "length (later_pages k)" arbitrary: k xs rule: less_induct)
  case less
  obtain rs where chain: "chain (link_of k) (pmm_recycled_head k) rs 0" and xs: "xs = rs @ fresh_pages k"
    and k: "range_ok k" "frames_ok k xs" "length xs = unat (pmm_free_count k)"
    using less.prems by (auto simp: pool_def)
  let ?a = "pmm_range_next k" and ?b = "pmm_range_end k" and ?r = "of_nat n * KERNEL_PAGE_SIZE"
  have al: "page_aligned ?a" "page_aligned ?b" using k(1) by (auto simp: range_ok_def)
  show ?case
  proof (cases "?a < ?b \<and> ?b - ?a \<ge> ?r")
    case True
    let ?k = "k\<lparr>pmm_range_next := ?a + ?r\<rparr>"
    note run = pages_between_run [OF al _ _ assms(3)]
    have "range_ok ?k" "frames_ok ?k xs" using k run(2) True by (simp_all add: range_ok_def map_ok_def frames_ok_def)
    moreover have "mset xs = mset (run_of ?a n) + mset (rs @ fresh_pages ?k)"
      using xs run(1) True by (simp add: fresh_pages_def later_pages_def split: option.split)
    ultimately have "\<exists>k'. take_run ?a n ?k = Some (?a, k') \<and> run_taken n xs k ?a k'"
      using chain k(3) assms(2) by (intro run_takenI [where rs = rs]) simp_all
    then show ?thesis using True by (auto simp: take_fresh_run.simps [of n k])
  next
    case False
    let ?pages = "pages_between ?a ?b"
    have frames: "frames_ok k (?pages @ rs)" using k(2) xs by (auto simp: frames_ok_def fresh_pages_def)
    obtain k1 where k1: "recycle_tail k = Some (True, k1)" "range_ok k1" "only_pages (set ?pages) k k1"
      "chain (link_of k1) (pmm_recycled_head k1) (rev ?pages @ rs) 0" "fresh_pages k1 = later_pages k"
      "later_pages k1 = later_pages k" "pmm_free_count k1 = pmm_free_count k"
      using recycle_tail_correct [OF k(1) refl frames chain] by blast
    obtain k2 where k2: "select_next_usable_range k1 = Some (later_pages k1 \<noteq> [], k2)" "selected k1 k2"
      using select_next k1(2) unfolding range_ok_def by blast
    note keeps = selected_keeps [OF k2(2)]
    let ?ys = "(rev ?pages @ rs) @ fresh_pages k2"
    have ys: "mset ?ys = mset xs" using xs k2(2) k1(5,6) by (simp add: selected_def fresh_pages_def)
    have only: "only_pages (set xs) k k2"
      by (rule only_pages_trans [OF only_pages_mono [OF k1(3)] keeps(1)]) (use xs in \<open>auto simp: fresh_pages_def\<close>)
    have pool: "pool k2 ?ys"
      unfolding pool_def using keeps k1 k(2,3) frames_ok_perm [OF ys, of k2] frames_ok_keep [OF only]
        mset_eq_length [OF ys] by (intro conjI exI [of _ "rev ?pages @ rs"]) simp_all
    show ?thesis
    proof (cases "later_pages k1 = []")
      case True
      then have "take_fresh_run n k = Some (0, k2)" using False k1(1) k2(1) by (auto simp: take_fresh_run.simps [of n k] Let_def)
      then show ?thesis using only pool ys by (auto simp: run_taken_def)
    next
      case later: False
      then have "pmm_range_next k2 < pmm_range_end k2" and al2: "page_aligned (pmm_range_next k2)" "page_aligned (pmm_range_end k2)"
        and "fresh_pages k2 = later_pages k1" using k2(2) by (auto simp: selected_def)
      then have "later_pages k = pages_between (pmm_range_next k2) (pmm_range_end k2) @ later_pages k2"
        and "pages_between (pmm_range_next k2) (pmm_range_end k2) \<noteq> []"
        using pages_between_Nil [OF al2] k1(6) by (simp_all add: fresh_pages_def not_le)
      then have "length (later_pages k2) < length (later_pages k)" by simp
      then obtain r k' where "take_fresh_run n k2 = Some (r, k')" "run_taken n ?ys k2 r k'"
        using less.hyps pool by blast
      moreover from this have "run_taken n xs k r k'"
        using run_taken_step [OF only ys] by blast
      moreover have "take_fresh_run n k = take_fresh_run n k2"
        using False k1(1) k2(1) later by (auto simp: take_fresh_run.simps [of n k] Let_def)
      ultimately show ?thesis by auto
    qed
  qed
qed

text \<open>An allocation of several pages takes adjacent free pages, cleared, or leaves the free pages
  as they are.\<close>

lemma alloc_contiguous_correct:
  assumes "pool k xs"
  shows "\<exists>r k'. kernel_pmm_alloc_contiguous n k = Some (r, k') \<and> run_taken n xs k r k'"
proof (cases "n = 0 \<or> n > unat (UINT64_MAX div KERNEL_PAGE_SIZE) \<or> n > unat (pmm_free_count k)")
  case True
  then show ?thesis using assms by (auto simp: kernel_pmm_alloc_contiguous_def run_taken_def)
next
  case False
  then have n: "0 < n" "4096 * n < 2 ^ 64" by (auto simp: KERNEL_PAGE_SIZE_def unat_div)
  obtain rs where chain: "chain (link_of k) (pmm_recycled_head k) rs 0" and xs: "xs = rs @ fresh_pages k"
    and k: "range_ok k" "frames_ok k xs" "length xs = unat (pmm_free_count k)"
    using assms by (auto simp: pool_def)
  have mem: "memory_ok k" using k(1) by (simp add: range_ok_def)
  let ?scan = "scan_recycled n 0 (pmm_recycled_head k) (if pmm_recycled_head k \<noteq> 0 then 1 else 0) k"
  have frames: "frames_ok k rs" using frames_okD(1) k(2) xs by blast
  consider "?scan = Some (None, k)"
    | ys d zs where "rs = ys @ rev (run_of d n) @ zs"
        "?scan = map_option (\<lambda>(r, k). (Some r, k)) (take_run d n (unlink_run ys zs k))"
  proof (cases rs)
    case Nil
    then show ?thesis using chain that(1) by (simp add: scan_recycled.simps)
  next
    case (Cons c rest)
    then have "c \<noteq> 0" "pmm_recycled_head k = c" "rs = [] @ rev (run_of c 1) @ rest"
      using chain frames_ok_0 [OF frames] by (auto simp: run_of_Suc)
    then show ?thesis
      using that scan_recycled_correct [of k "[]" c 1 rest c n, OF mem] frames chain by simp blast
  qed
  then show ?thesis
  proof cases
    case 1
    then show ?thesis using take_fresh_run_correct [OF assms n] False by (simp add: kernel_pmm_alloc_contiguous_def)
  next
    case 2
    let ?k = "unlink_run ys zs k"
    have f: "frames_ok k (ys @ zs)" "frames_ok k (ys @ rev (run_of d n) @ zs)" "chain (link_of k) (pmm_recycled_head k) (ys @ rev (run_of d n) @ zs) 0"
      using frames 2(1) chain by (auto simp: frames_ok_def)
    note unlink = unlink_run_chain [OF f(1) mem f(3,2)]
    have only: "only_pages (set xs) k ?k" by (rule only_pages_mono [OF unlink(2)]) (use xs 2(1) in auto)
    have same: "pmm_boot_info ?k = pmm_boot_info k" "pmm_range_next ?k = pmm_range_next k"
      "pmm_range_end ?k = pmm_range_end k" "pmm_free_count ?k = pmm_free_count k"
      "pmm_memory_map_index ?k = pmm_memory_map_index k"
      by (simp_all add: unlink_run_def)
    have fresh: "fresh_pages ?k = fresh_pages k" by (simp add: fresh_pages_def later_pages_def same split: option.split)
    have "range_ok ?k" by (rule range_ok_keep [OF only]) (use k(1) same in \<open>simp_all add: range_ok_def\<close>)
    moreover have "frames_ok ?k xs" using k(2) frames_ok_keep [OF only] by simp
    ultimately have "\<exists>k'. take_run d n ?k = Some (d, k') \<and> run_taken n xs k d k'"
      using unlink(1) k(3) n(1) only xs 2(1) fresh same by (intro run_takenI [where rs = "ys @ zs"]) simp_all
    then show ?thesis using 2(2) False by (auto simp: kernel_pmm_alloc_contiguous_def)
  qed
qed

section \<open>The allocator and its clients\<close>

lemma pool_frames: "pool k xs \<Longrightarrow> distinct xs \<and> (\<forall>p \<in> set xs. frame_ok k p)"
  by (simp add: pool_def frames_ok_def)

interpretation pmm: page_pool pool frame_ok only_pages run_of
  kernel_pmm_alloc_page kernel_pmm_alloc_contiguous kernel_pmm_free_page
proof
  fix k :: "'a pmm_scheme" and xs n
  assume k: "pool k xs"
  have "set (take 1 xs) \<subseteq> set xs" by (auto dest: in_set_takeD)
  then show "\<exists>k'. kernel_pmm_alloc_page k = Some (case xs of [] \<Rightarrow> 0 | p # _ \<Rightarrow> p, k') \<and> pool k' (tl xs) \<and>
      only_pages (set xs) k k'"
    using alloc_page_correct [OF k] only_pages_mono by blast
  obtain r k' where "kernel_pmm_alloc_contiguous n k = Some (r, k')" "run_taken n xs k r k'"
    using alloc_contiguous_correct [OF k] by blast
  then show "\<exists>p k' xs'. kernel_pmm_alloc_contiguous n k = Some (p, k') \<and> only_pages (set xs) k k' \<and> pool k' xs' \<and>
      mset xs = (if p = 0 then {#} else mset (run_of p n)) + mset xs'"
    by (cases "r = 0") (auto simp: run_taken_def)
  show "distinct xs \<and> (\<forall>p \<in> set xs. frame_ok k p)" by (rule pool_frames [OF k])
qed (auto simp: only_pages_ok intro: only_pages_mono free_page_correct, simp add: frame_ok_def)

abbreviation pmm_client ::
  "page_request \<Rightarrow> u64 set \<times> 'z pmm_scheme \<Rightarrow> (u64 set \<times> 'z pmm_scheme) option" where
  "pmm_client \<equiv> page_client kernel_pmm_alloc_page kernel_pmm_alloc_contiguous kernel_pmm_free_page run_of"

text \<open>
  C24: After \<open>kernel_pmm_init\<close> has accepted a memory map whose entries do not overlap, every
  sequence of single allocations, allocations of runs and releases of owned pages is answered
  without a fault. The pages handed out and the free pages are disjoint and together the pages of
  the usable ranges, so that no page is handed out twice; and no request changes a byte of a page
  that stays with its owner, nor of memory the allocator never had.
\<close>

theorem pmm_pages_are_exclusive:
  assumes "kernel_pmm_init (Some info) k0 = (True, k)" "memory_ok k0"
    "unat (info_ram_size info) = ram_size (memory k0)" "memory_map_sorted (memory_map info)"
    and U: "U = set (concat (map entry_pages (memory_map info)))"
  shows "\<exists>owned k'. page_session pmm_client requests ({}, k) = Some (owned, k') \<and>
    (\<exists>xs. pool k' xs \<and> owned \<inter> set xs = {} \<and> owned \<union> set xs = U) \<and>
    (\<forall>request. \<exists>owned' k''. pmm_client request (owned, k') = Some (owned', k'') \<and>
       only_pages (U - owned \<inter> owned') k' k'')"
proof -
  have "pool k (concat (map entry_pages (memory_map info)))" using pmm_init_correct [OF assms(1-4)] by blast
  then have "pmm.ledger U ({}, k)" unfolding pmm.ledger_def using pool_frames U by blast
  then obtain owned k' where session: "page_session pmm_client requests ({}, k) = Some (owned, k')"
    and ledger: "pmm.ledger U (owned, k')"
    using pmm.client_session by blast
  moreover from ledger have "\<exists>xs. pool k' xs \<and> owned \<inter> set xs = {} \<and> owned \<union> set xs = U"
    by (auto simp: pmm.ledger_def)
  ultimately show ?thesis using pmm.client_step [OF ledger] by blast
qed

text \<open>A machine with 16 KiB of RAM, of which the second and third page are usable.\<close>

definition sample_memory_map :: cvm_boot_info where
  "sample_memory_map =
     \<lparr>memory_map = [\<lparr>entry_base = 0, entry_length = 0x1000, entry_type = 2\<rparr>,
                    \<lparr>entry_base = 0x1000, entry_length = 0x2800, entry_type = CVM_MEMORY_USABLE\<rparr>],
      info_ram_size = 0x4000\<rparr>"

definition sample_pmm :: pmm where
  "sample_pmm =
     \<lparr>memory = \<lparr>ram_data = (\<lambda>_. 0), ram_size = 0x4000\<rparr>, direct_map_base = 0x100000000,
      direct_map_size = 0x4000, pmm_boot_info = None, pmm_memory_map_index = 0, pmm_range_next = 0,
      pmm_range_end = 0, pmm_recycled_head = 0, pmm_free_count = 0\<rparr>"

lemma sample_pmm_init: "fst (kernel_pmm_init (Some sample_memory_map) sample_pmm)"
  by code_simp

lemma sample_pmm_ok: "memory_ok sample_pmm" "memory_map_sorted (memory_map sample_memory_map)"
  "unat (info_ram_size sample_memory_map) = ram_size (memory sample_pmm)"
  by (simp_all add: memory_ok_def ram_wf_def SIZE_MAX_def sample_pmm_def sample_memory_map_def memory_map_sorted_def)

theorem pmm_pages_are_exclusive_witness:
  "\<exists>owned k'. page_session pmm_client [Alloc_page, Alloc_run 2, Free_page 0x1000, Alloc_run 2]
     ({}, snd (kernel_pmm_init (Some sample_memory_map) sample_pmm)) = Some (owned, k')"
proof -
  have "kernel_pmm_init (Some sample_memory_map) sample_pmm =
      (True, snd (kernel_pmm_init (Some sample_memory_map) sample_pmm))"
    using sample_pmm_init by (simp add: prod_eq_iff)
  from pmm_pages_are_exclusive [OF this sample_pmm_ok(1,3,2) refl,
      of "[Alloc_page, Alloc_run 2, Free_page 0x1000, Alloc_run 2]"]
  show ?thesis by blast
qed

text \<open>
  C25: An allocation of several pages returns. Either it answers 0 and the free pages are the same,
  or it answers the first of as many adjacent pages as asked for, which were free, are no longer
  and hold zeros; no byte outside the free pages changes.
\<close>

theorem pmm_run_is_adjacent:
  assumes "pool k xs"
  shows "\<exists>r k' xs'. kernel_pmm_alloc_contiguous n k = Some (r, k') \<and> pool k' xs' \<and> only_pages (set xs) k k' \<and>
    (if r = 0 then mset xs' = mset xs
     else mset xs = mset (map (\<lambda>i. r + of_nat i * KERNEL_PAGE_SIZE) [0..<n]) + mset xs' \<and>
       (\<forall>i j. i < n \<longrightarrow> in_page (r + of_nat i * KERNEL_PAGE_SIZE) j \<longrightarrow> ram_data (memory k') j = 0))"
proof -
  obtain r k' xs' where "kernel_pmm_alloc_contiguous n k = Some (r, k')" "pool k' xs'" "only_pages (set xs) k k'"
    and "if r = 0 then mset xs' = mset xs
     else mset xs = mset (run_of r n) + mset xs' \<and>
       (\<forall>p \<in> set (run_of r n). \<forall>j. in_page p j \<longrightarrow> ram_data (memory k') j = 0)"
    using alloc_contiguous_correct [OF assms, of n] by (auto simp: run_taken_def)
  then show ?thesis by (intro exI conjI) (auto simp: run_of_def)
qed

theorem pmm_run_is_adjacent_witness:
  "\<exists>r k' xs'. kernel_pmm_alloc_contiguous 2 (snd (kernel_pmm_init (Some sample_memory_map) sample_pmm)) = Some (r, k') \<and>
     pool k' xs'"
proof -
  have "kernel_pmm_init (Some sample_memory_map) sample_pmm =
      (True, snd (kernel_pmm_init (Some sample_memory_map) sample_pmm))"
    using sample_pmm_init by (simp add: prod_eq_iff)
  from pmm_run_is_adjacent [OF pmm_init_correct(1) [OF this sample_pmm_ok(1,3,2)], of 2]
  show ?thesis by blast
qed

end
