(* ===== verification/Kernel_Mmu.thy ===== *)
theory Kernel_Mmu
  imports Kernel_Pmm
begin

text \<open>
  The page tables of the kernel (\<^verbatim>\<open>kernel/mmu.c\<close>): mapping a leaf of 4 KiB, 2 MiB or 1 GiB,
  mapping a range with the largest leaves that fit, and the tables the kernel starts with. Tables
  are allocated from the page allocator and written through the direct map; the processor reads them
  with \<open>mmu_translate\<close> of the theory \<open>Mmu\<close>.

  The tables of a root are a tree of frames, none of which is free. Under this invariant the
  mapping functions and the hardware agree: a mapped leaf translates to the frame it was mapped to,
  and every other virtual address translates as before, whether the mapping succeeds or fails.
\<close>

section \<open>Constants\<close>

definition KERNEL_PAGE_SHIFT :: nat where "KERNEL_PAGE_SHIFT = 12"
definition KERNEL_LARGE_PAGE_SHIFT :: nat where "KERNEL_LARGE_PAGE_SHIFT = 21"
definition KERNEL_LARGE_PAGE_SIZE :: u64 where "KERNEL_LARGE_PAGE_SIZE = BIT KERNEL_LARGE_PAGE_SHIFT"
definition KERNEL_LARGE_PAGE_MASK :: u64 where "KERNEL_LARGE_PAGE_MASK = KERNEL_LARGE_PAGE_SIZE - 1"
definition KERNEL_GIGA_PAGE_SHIFT :: nat where "KERNEL_GIGA_PAGE_SHIFT = 30"
definition KERNEL_GIGA_PAGE_SIZE :: u64 where "KERNEL_GIGA_PAGE_SIZE = BIT KERNEL_GIGA_PAGE_SHIFT"
definition KERNEL_GIGA_PAGE_MASK :: u64 where "KERNEL_GIGA_PAGE_MASK = KERNEL_GIGA_PAGE_SIZE - 1"

definition KERNEL_PTE_VALID :: u64 where "KERNEL_PTE_VALID = BIT 0"
definition KERNEL_PTE_READ :: u64 where "KERNEL_PTE_READ = BIT 1"
definition KERNEL_PTE_WRITE :: u64 where "KERNEL_PTE_WRITE = BIT 2"
definition KERNEL_PTE_EXECUTE :: u64 where "KERNEL_PTE_EXECUTE = BIT 3"
definition KERNEL_PTE_USER :: u64 where "KERNEL_PTE_USER = BIT 4"
definition KERNEL_PTE_PERMISSION_MASK :: u64 where
  "KERNEL_PTE_PERMISSION_MASK = KERNEL_PTE_READ OR KERNEL_PTE_WRITE OR KERNEL_PTE_EXECUTE"

definition KERNEL_DIRECT_MAP_BASE :: u64 where "KERNEL_DIRECT_MAP_BASE = 0x100000000"
definition KERNEL_EXCEPTION_STACK_TOP :: u64 where "KERNEL_EXCEPTION_STACK_TOP = 0x20000"
definition KERNEL_UART_ALIAS :: u64 where "KERNEL_UART_ALIAS = 0x3FFFF000"

section \<open>Leaves\<close>

definition table_entry_valid :: "u64 \<Rightarrow> bool" where
  "table_entry_valid entry \<longleftrightarrow>
     entry AND KERNEL_PTE_VALID \<noteq> 0 \<and> entry AND (KERNEL_PTE_PERMISSION_MASK OR KERNEL_PTE_USER) = 0"

text \<open>The functions answer \<open>True\<close> where the C functions return 0, the success.\<close>

definition allocate_next_table :: "u64 \<Rightarrow> 'z pmm_scheme \<Rightarrow> (bool \<times> 'z pmm_scheme) option" where
  "allocate_next_table entry k =
     do {
       e \<leftarrow> kernel_load k entry;
       if e AND KERNEL_PTE_VALID \<noteq> 0 then Some (table_entry_valid e, k)
       else do {
         (page, k) \<leftarrow> kernel_pmm_alloc_page k;
         if page = 0 then Some (False, k)
         else do { k \<leftarrow> kernel_store k entry (page OR KERNEL_PTE_VALID); Some (True, k) }
       }
     }"

definition leaf_arguments_valid :: "u64 \<Rightarrow> u64 \<Rightarrow> u64 \<Rightarrow> nat \<Rightarrow> bool" where
  "leaf_arguments_valid virtual_address physical_address flags leaf_shift \<longleftrightarrow>
     (let leaf_size = BIT leaf_shift; leaf_mask = leaf_size - 1
      in \<not> (virtual_address AND leaf_mask \<noteq> 0 \<or> physical_address AND leaf_mask \<noteq> 0 \<or>
            flags AND KERNEL_PTE_VALID = 0 \<or> flags AND KERNEL_PTE_PERMISSION_MASK = 0 \<or>
            flags AND NOT (KERNEL_PTE_VALID OR KERNEL_PTE_PERMISSION_MASK OR KERNEL_PTE_USER) \<noteq> 0 \<or>
            (flags AND KERNEL_PTE_WRITE \<noteq> 0 \<and> flags AND KERNEL_PTE_READ = 0)))"

text \<open>A large leaf goes into an entry that is not valid yet.\<close>

definition store_large_leaf :: "u64 \<Rightarrow> u64 \<Rightarrow> 'z pmm_scheme \<Rightarrow> (bool \<times> 'z pmm_scheme) option" where
  "store_large_leaf entry leaf k =
     do {
       e \<leftarrow> kernel_load k entry;
       if e AND KERNEL_PTE_VALID \<noteq> 0 then Some (False, k)
       else do { k \<leftarrow> kernel_store k entry leaf; Some (True, k) }
     }"

text \<open>Below the root: the leaf of a second-level table, and the page in a third-level table.\<close>

definition map_in_level1 ::
  "u64 \<Rightarrow> u64 \<Rightarrow> u64 \<Rightarrow> u64 \<Rightarrow> nat \<Rightarrow> 'z pmm_scheme \<Rightarrow> (bool \<times> 'z pmm_scheme) option" where
  "map_in_level1 e2 virtual_address physical_address flags leaf_shift k =
     (case kernel_phys_to_virt k (e2 AND KERNEL_PTE_ADDRESS_MASK) of
        None \<Rightarrow> Some (False, k)
      | Some level1 \<Rightarrow>
          let entry1 = level1 + (drop_bit 21 virtual_address AND 0x1FF) * 8
          in if leaf_shift = KERNEL_LARGE_PAGE_SHIFT
             then store_large_leaf entry1 (physical_address OR flags) k
             else do {
               (allocated, k) \<leftarrow> allocate_next_table entry1 k;
               if \<not> allocated then Some (False, k)
               else do {
                 e1 \<leftarrow> kernel_load k entry1;
                 (case kernel_phys_to_virt k (e1 AND KERNEL_PTE_ADDRESS_MASK) of
                    None \<Rightarrow> Some (False, k)
                  | Some level0 \<Rightarrow>
                      let entry0 = level0 + (drop_bit 12 virtual_address AND 0x1FF) * 8
                      in do {
                        k \<leftarrow> kernel_store k entry0
                               ((physical_address AND KERNEL_PTE_ADDRESS_MASK) OR flags);
                        Some (True, k) })
               }
             })"

definition kernel_map_leaf ::
  "u64 \<Rightarrow> u64 \<Rightarrow> u64 \<Rightarrow> u64 \<Rightarrow> nat \<Rightarrow> 'z pmm_scheme \<Rightarrow> (bool \<times> 'z pmm_scheme) option" where
  "kernel_map_leaf root_address virtual_address physical_address flags leaf_shift k =
     (if \<not> leaf_arguments_valid virtual_address physical_address flags leaf_shift then Some (False, k)
      else
        case kernel_phys_to_virt k root_address of
          None \<Rightarrow> Some (False, k)
        | Some level2 \<Rightarrow>
            let entry2 = level2 + (drop_bit 30 virtual_address AND 0x1FF) * 8
            in if leaf_shift = KERNEL_GIGA_PAGE_SHIFT then store_large_leaf entry2 (physical_address OR flags) k
               else do {
                 (allocated, k) \<leftarrow> allocate_next_table entry2 k;
                 if \<not> allocated then Some (False, k)
                 else do {
                   e2 \<leftarrow> kernel_load k entry2;
                   map_in_level1 e2 virtual_address physical_address flags leaf_shift k
                 }
               })"

definition kernel_map_page ::
  "u64 \<Rightarrow> u64 \<Rightarrow> u64 \<Rightarrow> u64 \<Rightarrow> 'z pmm_scheme \<Rightarrow> (bool \<times> 'z pmm_scheme) option" where
  "kernel_map_page root_address virtual_address physical_address flags =
     kernel_map_leaf root_address virtual_address physical_address flags KERNEL_PAGE_SHIFT"

section \<open>Ranges\<close>

definition select_leaf :: "u64 \<Rightarrow> u64 \<Rightarrow> u64 \<Rightarrow> nat \<times> u64" where
  "select_leaf virtual_address physical_address remaining =
     (if (virtual_address OR physical_address) AND KERNEL_GIGA_PAGE_MASK = 0 \<and>
         remaining \<ge> KERNEL_GIGA_PAGE_SIZE then (KERNEL_GIGA_PAGE_SHIFT, KERNEL_GIGA_PAGE_SIZE)
      else if (virtual_address OR physical_address) AND KERNEL_LARGE_PAGE_MASK = 0 \<and>
              remaining \<ge> KERNEL_LARGE_PAGE_SIZE then (KERNEL_LARGE_PAGE_SHIFT, KERNEL_LARGE_PAGE_SIZE)
      else (KERNEL_PAGE_SHIFT, KERNEL_PAGE_SIZE))"

partial_function (option) map_range_loop ::
  "u64 \<Rightarrow> u64 \<Rightarrow> u64 \<Rightarrow> u64 \<Rightarrow> u64 \<Rightarrow> u64 \<Rightarrow> 'z pmm_scheme \<Rightarrow> (bool \<times> 'z pmm_scheme) option" where
  "map_range_loop root_address virtual_page physical_page mapped_size flags offset k =
     (if offset < mapped_size then
        let virtual_address = virtual_page + offset;
            physical_address = physical_page + offset;
            remaining = mapped_size - offset;
            (leaf_shift, leaf_size) = select_leaf virtual_address physical_address remaining
        in Option.bind (kernel_map_leaf root_address virtual_address physical_address flags leaf_shift k)
             (\<lambda>(mapped, k).
              if \<not> mapped then Some (False, k)
              else map_range_loop root_address virtual_page physical_page mapped_size flags
                     (offset + leaf_size) k)
      else Some (True, k))"

definition map_range ::
  "u64 \<Rightarrow> u64 \<Rightarrow> u64 \<Rightarrow> u64 \<Rightarrow> u64 \<Rightarrow> 'z pmm_scheme \<Rightarrow> (bool \<times> 'z pmm_scheme) option" where
  "map_range root_address virtual_start physical_start sz flags k =
     (if virtual_start AND KERNEL_PAGE_MASK \<noteq> physical_start AND KERNEL_PAGE_MASK \<or>
         virtual_start > UINT64_MAX - sz \<or> physical_start > UINT64_MAX - sz then Some (False, k)
      else
        let virtual_page = virtual_start AND KERNEL_PTE_ADDRESS_MASK;
            physical_page = physical_start AND KERNEL_PTE_ADDRESS_MASK;
            leading = virtual_start - virtual_page
        in if sz > UINT64_MAX - leading - KERNEL_PAGE_MASK then Some (False, k)
           else
             let mapped_size = (sz + leading + KERNEL_PAGE_MASK) AND KERNEL_PTE_ADDRESS_MASK
             in map_range_loop root_address virtual_page physical_page mapped_size flags 0 k)"

section \<open>The tables the kernel starts with\<close>

text \<open>What \<open>kernel_bootstrap_mmu\<close> reads besides the allocator: fields of the boot information and
  of the handoff, the bounds of the sections of the kernel, which the linker defines, and the
  registers of the processor behind \<^verbatim>\<open>cvm_set_ptbr\<close>, \<^verbatim>\<open>cvm_get_ptbr\<close> and
  \<^verbatim>\<open>cvm_get_mmu\<close>.\<close>

record kernel_layout =
  boot_info_address :: u64
  boot_info_total_size :: u32
  kernel_physical_base :: u64
  boot_uart_base :: u64
  kernel_virtual_base :: u64
  kernel_virtual_size :: u64
  page_table_physical_base :: u64
  page_table_physical_size :: u64
  kernel_text :: "u64 \<times> u64"
  kernel_rodata :: "u64 \<times> u64"
  kernel_data :: "u64 \<times> u64"
  kernel_bss :: "u64 \<times> u64"

record kernel_mmu = pmm +
  kernel_ptbr :: u64
  cpu_ptbr :: u64
  cpu_mmu :: u64

definition kernel_page_table_root :: "'z kernel_mmu_scheme \<Rightarrow> u64" where
  "kernel_page_table_root k = kernel_ptbr k"

definition kernel_symbol_physical_address :: "kernel_layout \<Rightarrow> u64 \<Rightarrow> u64" where
  "kernel_symbol_physical_address l symbol =
     (if symbol < kernel_virtual_base l \<or> symbol - kernel_virtual_base l \<ge> kernel_virtual_size l then 0
      else kernel_physical_base l + (symbol - kernel_virtual_base l))"

definition map_kernel_range ::
  "kernel_layout \<Rightarrow> u64 \<Rightarrow> u64 \<times> u64 \<Rightarrow> u64 \<Rightarrow> 'z pmm_scheme \<Rightarrow> (bool \<times> 'z pmm_scheme) option" where
  "map_kernel_range l root_address section flags k =
     (let (virtual_start, virtual_end) = section;
          physical_start = kernel_symbol_physical_address l virtual_start
      in if physical_start = 0 \<or> virtual_end < virtual_start then Some (False, k)
         else map_range root_address virtual_start physical_start (virtual_end - virtual_start) flags k)"

text \<open>The chain of mappings joined by \<^verbatim>\<open>||\<close>: the first failure ends it.\<close>

fun first_failure :: "('s \<Rightarrow> (bool \<times> 's) option) list \<Rightarrow> 's \<Rightarrow> (bool \<times> 's) option" where
  "first_failure [] k = Some (True, k)"
| "first_failure (f # fs) k = do { (mapped, k) \<leftarrow> f k; if \<not> mapped then Some (False, k) else first_failure fs k }"

definition kernel_bootstrap_mmu :: "kernel_layout \<Rightarrow> 'z kernel_mmu_scheme \<Rightarrow> (bool \<times> 'z kernel_mmu_scheme) option" where
  "kernel_bootstrap_mmu l k =
     do {
       (page, k) \<leftarrow> kernel_pmm_alloc_page k;
       let k = k\<lparr>kernel_ptbr := page\<rparr>;
       if page = 0 then Some (False, k)
       else
         (case pmm_boot_info k of
            None \<Rightarrow> None
          | Some info \<Rightarrow>
              let readable = KERNEL_PTE_VALID OR KERNEL_PTE_READ;
                  writable = readable OR KERNEL_PTE_WRITE;
                  ram_size = info_ram_size info AND KERNEL_PTE_ADDRESS_MASK
              in do {
                (mapped, k) \<leftarrow> first_failure
                  [map_range page KERNEL_DIRECT_MAP_BASE 0 ram_size writable,
                   map_kernel_range l page (kernel_text l) (readable OR KERNEL_PTE_EXECUTE),
                   map_kernel_range l page (kernel_rodata l) readable,
                   map_kernel_range l page (kernel_data l) writable,
                   map_kernel_range l page (kernel_bss l) writable,
                   map_range page (boot_info_address l) (boot_info_address l) (ucast (boot_info_total_size l)) readable,
                   map_range page (KERNEL_EXCEPTION_STACK_TOP - KERNEL_PAGE_SIZE)
                     (KERNEL_EXCEPTION_STACK_TOP - KERNEL_PAGE_SIZE) KERNEL_PAGE_SIZE writable,
                   kernel_map_page page KERNEL_UART_ALIAS (boot_uart_base l) writable] k;
                if \<not> mapped then Some (False, k)
                else
                  let k = k\<lparr>cpu_ptbr := kernel_ptbr k\<rparr>
                  in if cpu_mmu k \<noteq> 1 \<or> cpu_ptbr k \<noteq> kernel_ptbr k then Some (False, k)
                     else do {
                       k \<leftarrow> kernel_pmm_release_range (page_table_physical_base l) (page_table_physical_size l) k;
                       Some (True, k)
                     }
              })
     }"

section \<open>Entries\<close>

lemma kernel_pte_eq:
  "KERNEL_PTE_VALID = MMU_PTE_VALID" "KERNEL_PTE_READ = MMU_PTE_READ" "KERNEL_PTE_WRITE = MMU_PTE_WRITE"
  "KERNEL_PTE_EXECUTE = MMU_PTE_EXECUTE" "KERNEL_PTE_USER = MMU_PTE_USER"
  "KERNEL_PTE_PERMISSION_MASK = MMU_PTE_PERMISSION_MASK"
  by (simp_all add: KERNEL_PTE_VALID_def MMU_PTE_VALID_def KERNEL_PTE_READ_def MMU_PTE_READ_def
      KERNEL_PTE_WRITE_def MMU_PTE_WRITE_def KERNEL_PTE_EXECUTE_def MMU_PTE_EXECUTE_def
      KERNEL_PTE_USER_def MMU_PTE_USER_def KERNEL_PTE_PERMISSION_MASK_def MMU_PTE_PERMISSION_MASK_def)

lemmas kernel_eq = kernel_pte_eq kernel_mask_eq

text \<open>The index of an address at the level of a shift.\<close>

definition table_index :: "nat \<Rightarrow> u64 \<Rightarrow> nat" where
  "table_index s va = unat (drop_bit s va AND 0x1FF)"

lemma table_index_less [simp]: "table_index s va < 512"
proof -
  have "drop_bit s va AND 0x1FF \<le> 0x1FF" by (rule word_and_le1)
  then show ?thesis by (simp add: table_index_def word_le_nat_alt)
qed

lemma table_offset: "(drop_bit s va AND 0x1FF) * 8 = (of_nat (8 * table_index s va) :: u64)"
  by (simp add: table_index_def)

lemma entry_load:
  "memory_ok k \<Longrightarrow> frame_ok k t \<Longrightarrow>
     kernel_load k (direct_map_base k + t + (drop_bit s va AND 0x1FF) * 8) = Some (word_at k t (table_index s va))"
  unfolding table_offset by (rule frame_load) simp_all

lemma entry_store:
  "memory_ok k \<Longrightarrow> frame_ok k t \<Longrightarrow>
     kernel_store k (direct_map_base k + t + (drop_bit s va AND 0x1FF) * 8) v = Some (set_word t (table_index s va) v k)"
  unfolding table_offset by (rule frame_store) simp_all

lemma entry_read:
  assumes "memory_ok k" "frame_ok k t"
  shows "ram_read (memory k) (t + (drop_bit s va AND 0x1FF) * 8) 8 = Some (word_at k t (table_index s va))"
proof -
  have "kernel_load k (direct_map_base k + t + of_nat (8 * table_index s va)) = Some (word_at k t (table_index s va))"
    by (rule frame_load [OF assms]) simp
  then show ?thesis unfolding kernel_load_def word_pointer table_offset by (simp split: if_splits)
qed

lemma word_at_set_word_other:
  assumes "page_aligned t" "page_aligned u" "i < 512" "j < 512" "(t, i) \<noteq> (u, j)"
  shows "word_at (set_word t i v k) u j = word_at k u j"
proof (cases "t = u")
  case True
  with assms(5) have "i \<noteq> j" by simp
  show ?thesis by (rule word_at_cong, rule set_word_data) (use True \<open>i \<noteq> j\<close> in arith)
next
  case False
  then show ?thesis
    using only_pages_word [OF only_pages_set_word [of i t "{t}" k v], of u j] assms by auto
qed

section \<open>Trees of tables\<close>

definition table_child :: "u64 \<Rightarrow> u64 option" where
  "table_child e =
     (if e AND MMU_PTE_VALID \<noteq> 0 \<and> e AND MMU_PTE_PERMISSION_MASK = 0 then Some (e AND MMU_PTE_ADDRESS_MASK)
      else None)"

text \<open>The table a path of indices leads to.\<close>

primrec table_at :: "'z kernel_memory_scheme \<Rightarrow> u64 \<Rightarrow> nat list \<Rightarrow> u64 option" where
  "table_at k t [] = Some t"
| "table_at k t (i # is) = Option.bind (table_child (word_at k t i)) (\<lambda>u. table_at k u is)"

definition table_path :: "nat list \<Rightarrow> bool" where
  "table_path p \<longleftrightarrow> length p \<le> 2 \<and> (\<forall>i \<in> set p. i < 512)"

definition tree_ok :: "'z kernel_memory_scheme \<Rightarrow> u64 \<Rightarrow> u64 list \<Rightarrow> bool" where
  "tree_ok k r xs \<longleftrightarrow>
     (\<forall>p t. table_path p \<longrightarrow> table_at k r p = Some t \<longrightarrow> frame_ok k t \<and> t \<notin> set xs) \<and>
     (\<forall>p q t. table_path p \<longrightarrow> table_path q \<longrightarrow> table_at k r p = Some t \<longrightarrow> table_at k r q = Some t \<longrightarrow> p = q) \<and>
     (\<forall>p t i. table_path p \<longrightarrow> length p < 2 \<longrightarrow> table_at k r p = Some t \<longrightarrow> i < 512 \<longrightarrow>
        table_child (word_at k t i) \<noteq> None \<longrightarrow>
        word_at k t i AND MMU_PTE_RESERVED_LOW_MASK = 0 \<and> word_at k t i AND MMU_PTE_USER = 0)"

lemma tree_frame: "tree_ok k r xs \<Longrightarrow> table_path p \<Longrightarrow> table_at k r p = Some t \<Longrightarrow> frame_ok k t"
  and tree_used: "tree_ok k r xs \<Longrightarrow> table_path p \<Longrightarrow> table_at k r p = Some t \<Longrightarrow> t \<notin> set xs"
  and tree_unique: "tree_ok k r xs \<Longrightarrow> table_path p \<Longrightarrow> table_path q \<Longrightarrow>
    table_at k r p = Some t \<Longrightarrow> table_at k r q = Some t \<Longrightarrow> p = q"
  by (simp_all add: tree_ok_def)

lemma table_at_snoc:
  "table_at k t (p @ [i]) = Option.bind (table_at k t p) (\<lambda>u. table_child (word_at k u i))"
  by (induction p arbitrary: t) (auto split: Option.bind_split)

lemma table_path_snoc: "table_path (p @ [i]) \<longleftrightarrow> table_path p \<and> length p < 2 \<and> i < 512"
  by (auto simp: table_path_def)

lemma table_path_Nil [simp]: "table_path []"
  by (simp add: table_path_def)

text \<open>Two states whose tables agree except for the entries in \<open>S\<close>.\<close>

definition agree :: "(nat list \<times> nat) set \<Rightarrow> u64 \<Rightarrow> 'z kernel_memory_scheme \<Rightarrow> 'z kernel_memory_scheme \<Rightarrow> bool" where
  "agree S r k k' \<longleftrightarrow>
     ram_size (memory k') = ram_size (memory k) \<and> direct_map_size k' = direct_map_size k \<and>
     (\<forall>q t j. table_path q \<longrightarrow> table_at k r q = Some t \<longrightarrow> j < 512 \<longrightarrow> (q, j) \<notin> S \<longrightarrow> word_at k' t j = word_at k t j)"

lemma agree_frame: "agree S r k k' \<Longrightarrow> frame_ok k' t = frame_ok k t" "agree S r k k' \<Longrightarrow> memory_ok k' = memory_ok k"
  by (simp_all add: agree_def frame_ok_def memory_ok_def ram_wf_def)

lemma agree_only_pages:
  assumes "only_pages P k k'" "tree_ok k r xs" "P \<subseteq> set xs" "\<And>p. p \<in> P \<Longrightarrow> page_aligned p"
  shows "agree S r k k'"
proof -
  have "word_at k' t j = word_at k t j" if "table_path q" "table_at k r q = Some t" "j < 512" for q t j
    using only_pages_word [OF assms(1) _ assms(4), of t j] tree_frame [OF assms(2) that(1,2)]
      tree_used [OF assms(2) that(1,2)] assms(3) that(3) by (auto simp: frame_ok_def)
  then show ?thesis using assms(1) by (simp add: agree_def only_pages_def)
qed

lemma agree_set_word:
  assumes "tree_ok k r xs" "table_path p" "table_at k r p = Some t" "i < 512"
  shows "agree {(p, i)} r k (set_word t i v k)"
proof -
  have "word_at (set_word t i v k) u j = word_at k u j"
    if q: "table_path q" "table_at k r q = Some u" "j < 512" "(q, j) \<noteq> (p, i)" for q u j
  proof (rule word_at_set_word_other)
    show "(t, i) \<noteq> (u, j)" using tree_unique [OF assms(1) q(1) assms(2) q(2)] assms(3) q(4) by auto
  qed (use tree_frame [OF assms(1)] assms q in \<open>auto simp: frame_ok_def\<close>)
  then show ?thesis by (simp add: agree_def)
qed

lemma table_at_agree:
  assumes ag: "agree S r k k'" and tree: "tree_ok k r xs"
    and S: "\<And>p i t. (p, i) \<in> S \<Longrightarrow> length p < 2 \<Longrightarrow> table_at k r p = Some t \<Longrightarrow>
      table_child (word_at k t i) = None \<and> table_child (word_at k' t i) = None"
  shows "table_path q \<Longrightarrow> table_at k' r q = table_at k r q"
proof (induction q rule: rev_induct)
  case (snoc a q)
  then have q: "table_path q" "length q < 2" "a < 512" and IH: "table_at k' r q = table_at k r q"
    by (auto simp: table_path_snoc)
  show ?case
  proof (cases "table_at k r q")
    case (Some t)
    have "table_child (word_at k' t a) = table_child (word_at k t a)"
      using S [of q a t] ag q Some by (cases "(q, a) \<in> S") (auto simp: agree_def)
    then show ?thesis using IH Some by (simp add: table_at_snoc)
  qed (simp add: table_at_snoc IH)
qed simp

lemma tree_ok_agree:
  assumes ag: "agree S r k k'" and tree: "tree_ok k r xs" and sub: "set ys \<subseteq> set xs"
    and S: "\<And>p i t. (p, i) \<in> S \<Longrightarrow> length p < 2 \<Longrightarrow> table_at k r p = Some t \<Longrightarrow>
      table_child (word_at k t i) = None \<and> table_child (word_at k' t i) = None"
  shows "tree_ok k' r ys"
proof -
  note same = table_at_agree [OF ag tree S]
  have "word_at k' t i AND MMU_PTE_RESERVED_LOW_MASK = 0 \<and> word_at k' t i AND MMU_PTE_USER = 0"
    if p: "table_path p" "length p < 2" "table_at k r p = Some t" "i < 512" "table_child (word_at k' t i) \<noteq> None" for p t i
  proof -
    have "(p, i) \<notin> S" using S [of p i t] p by auto
    then have "word_at k' t i = word_at k t i" using ag p by (simp add: agree_def)
    then show ?thesis using tree p unfolding tree_ok_def by metis
  qed
  then show ?thesis
    using tree sub unfolding tree_ok_def by (auto simp: same agree_frame [OF ag])
qed

section \<open>Lookups of the hardware\<close>

definition malformed_entry :: "u64 \<Rightarrow> bool" where
  "malformed_entry e \<longleftrightarrow> e AND MMU_PTE_RESERVED_LOW_MASK \<noteq> 0 \<or> (e AND MMU_PTE_WRITE \<noteq> 0 \<and> e AND MMU_PTE_READ = 0)"

lemma find_leaf_table:
  assumes "memory_ok k" "frame_ok k t"
  shows "find_leaf (memory k) va t (s # ss) =
    (let e = word_at k t (table_index s va)
     in if e AND MMU_PTE_VALID = 0 then Inl MMU_RESULT_NOT_PRESENT
        else if malformed_entry e then Inl MMU_RESULT_MALFORMED_ENTRY
        else if e AND MMU_PTE_PERMISSION_MASK \<noteq> 0 then Inr (e, s)
        else if ss = [] \<or> e AND MMU_PTE_USER \<noteq> 0 \<or> \<not> mmu_root_valid (memory k) (e AND MMU_PTE_ADDRESS_MASK)
        then Inl MMU_RESULT_MALFORMED_ENTRY
        else find_leaf (memory k) va (e AND MMU_PTE_ADDRESS_MASK) ss)"
  by (simp add: entry_read [OF assms] Let_def malformed_entry_def)

lemmas [simp del] = find_leaf.simps(2)

lemma root_valid_frame: "frame_ok k t \<Longrightarrow> mmu_root_valid (memory k) t"
  by (auto simp: mmu_root_valid_def physical_range_valid_def frame_ok_def simp flip: page_aligned_iff)

lemma root_valid_agree: "agree S r k k' \<Longrightarrow> mmu_root_valid (memory k') t = mmu_root_valid (memory k) t"
  by (simp add: agree_def mmu_root_valid_def physical_range_valid_def)

text \<open>Entries off the path of an address do not matter for it.\<close>

lemma find_leaf_agree:
  assumes ag: "agree S r k k'" and tree: "tree_ok k r xs" and mem: "memory_ok k"
  shows "table_path q \<Longrightarrow> table_at k r q = Some t \<Longrightarrow> length q + length ss \<le> 3 \<Longrightarrow>
    (\<forall>n < length ss. (q @ map (\<lambda>s. table_index s va) (take n ss), table_index (ss ! n) va) \<notin> S) \<Longrightarrow>
    find_leaf (memory k') va t ss = find_leaf (memory k) va t ss"
proof (induction ss arbitrary: q t)
  case (Cons s ss)
  let ?i = "table_index s va" let ?e = "word_at k t ?i"
  have frame: "frame_ok k t" using tree_frame [OF tree Cons.prems(1,2)] .
  have "(q, ?i) \<notin> S" using Cons.prems(4) by (auto dest: spec [of _ 0])
  then have e: "word_at k' t ?i = ?e" using ag Cons.prems(1,2) by (simp add: agree_def)
  have deeper: "find_leaf (memory k') va u ss = find_leaf (memory k) va u ss"
    if u: "table_child ?e = Some u" and "ss \<noteq> []" for u
  proof (rule Cons.IH [of "q @ [?i]"])
    have "length q < 2" using Cons.prems(3) \<open>ss \<noteq> []\<close> by (cases ss) auto
    then show "table_path (q @ [?i])" "table_at k r (q @ [?i]) = Some u" "length (q @ [?i]) + length ss \<le> 3"
      using Cons.prems u by (auto simp: table_path_snoc table_at_snoc)
    show "\<forall>n < length ss. ((q @ [?i]) @ map (\<lambda>s. table_index s va) (take n ss), table_index (ss ! n) va) \<notin> S"
      using Cons.prems(4) by (auto dest: spec [of _ "Suc _"])
  qed
  show ?case
    unfolding find_leaf_table [OF mem frame]
      find_leaf_table [of k', unfolded agree_frame [OF ag], OF mem frame] e root_valid_agree [OF ag]
    using deeper [of "?e AND MMU_PTE_ADDRESS_MASK"] by (auto simp: Let_def table_child_def)
qed simp

abbreviation lookup :: "'z kernel_memory_scheme \<Rightarrow> u64 \<Rightarrow> u64 \<Rightarrow> mmu_result + u64 \<times> nat" where
  "lookup k r va \<equiv> find_leaf (memory k) va r mmu_shifts"

text \<open>The path of an address: the tables it is looked up in, and its entries.\<close>

definition address_path :: "u64 \<Rightarrow> nat list" where
  "address_path va = [table_index 30 va, table_index 21 va, table_index 12 va]"

lemma length_address_path [simp]: "length (address_path va) = 3"
  by (simp add: address_path_def)

lemma lookup_agree:
  assumes ag: "agree S r k k'" and tree: "tree_ok k r xs" and mem: "memory_ok k"
    and "\<forall>n < 3. (take n (address_path va), address_path va ! n) \<notin> S"
  shows "lookup k' r va = lookup k r va"
proof (rule find_leaf_agree [OF ag tree mem, of "[]"])
  have "map (\<lambda>s. table_index s va) (take n mmu_shifts) = take n (address_path va)"
    "n < 3 \<Longrightarrow> table_index (mmu_shifts ! n) va = address_path va ! n" for n
    by (auto simp: address_path_def take_Cons' nth_Cons' MMU_GIGA_PAGE_SHIFT_def MMU_LARGE_PAGE_SHIFT_def MMU_PAGE_SHIFT_def)
  then show "\<forall>n < length mmu_shifts. ([] @ map (\<lambda>s. table_index s va) (take n mmu_shifts), table_index (mmu_shifts ! n) va) \<notin> S"
    using assms(4) by simp
qed simp_all

section \<open>A new table\<close>

text \<open>\<open>k\<close> with the fresh table \<open>page\<close> entered at index \<open>i\<close> of the table at \<open>p\<close>.\<close>

definition new_table ::
  "u64 \<Rightarrow> nat list \<Rightarrow> nat \<Rightarrow> u64 \<Rightarrow> 'z kernel_memory_scheme \<Rightarrow> 'z kernel_memory_scheme \<Rightarrow> bool" where
  "new_table r p i page k k' \<longleftrightarrow>
     agree {(p, i)} r k k' \<and> frame_ok k page \<and> (\<forall>j < 512. word_at k' page j = 0) \<and>
     (\<exists>t. table_at k r p = Some t \<and> word_at k t i AND MMU_PTE_VALID = 0 \<and> word_at k' t i = page OR MMU_PTE_VALID)"

lemma table_entry_bits:
  assumes "page_aligned page"
  shows "(page OR MMU_PTE_VALID) AND MMU_PTE_VALID \<noteq> 0" "(page OR MMU_PTE_VALID) AND MMU_PTE_PERMISSION_MASK = 0"
    "(page OR MMU_PTE_VALID) AND MMU_PTE_USER = 0" "(page OR MMU_PTE_VALID) AND MMU_PTE_RESERVED_LOW_MASK = 0"
    "(page OR MMU_PTE_VALID) AND MMU_PTE_WRITE = 0" "(page OR MMU_PTE_VALID) AND MMU_PTE_ADDRESS_MASK = page"
proof -
  have low: "\<not> bit page n" if "n < 12" for n
  proof -
    have "\<not> bit (page AND MMU_PAGE_MASK) n" using assms by (simp add: page_aligned_iff)
    then show ?thesis using that by (simp add: bit_simps)
  qed
  then have high: "bit page n \<Longrightarrow> 12 \<le> n" for n by (meson not_less)
  let ?e = "page OR MMU_PTE_VALID"
  have e: "bit ?e n \<longleftrightarrow> n = 0 \<or> bit page n" for n
    by (auto simp: bit_or_iff MMU_PTE_VALID_def bit_BIT)
  show "?e AND MMU_PTE_VALID \<noteq> 0" "?e AND MMU_PTE_USER = 0" "?e AND MMU_PTE_WRITE = 0"
    using e low by (simp add: MMU_PTE_VALID_def BIT_def, simp_all add: MMU_PTE_USER_def MMU_PTE_WRITE_def BIT_test)
  show "?e AND MMU_PTE_PERMISSION_MASK = 0"
    by (rule bit_word_eqI) (use e low in \<open>auto simp: bit_and_iff MMU_PTE_PERMISSION_MASK_def MMU_PTE_READ_def
        MMU_PTE_WRITE_def MMU_PTE_EXECUTE_def bit_or_iff bit_BIT\<close>)
  show "?e AND MMU_PTE_RESERVED_LOW_MASK = 0"
    by (rule bit_word_eqI) (use e low in \<open>auto simp: bit_and_iff bit_not_iff MMU_PTE_RESERVED_LOW_MASK_def
        MMU_PTE_VALID_def bit_MMU_PAGE_MASK bit_or_iff bit_BIT\<close>)
  show "?e AND MMU_PTE_ADDRESS_MASK = page"
    by (rule bit_word_eqI) (use e high in \<open>auto simp: bit_and_iff MMU_PTE_ADDRESS_MASK_def bit_not_iff
        bit_MMU_PAGE_MASK not_less\<close>)
qed

lemma table_child_new: "page_aligned page \<Longrightarrow> table_child (page OR MMU_PTE_VALID) = Some page"
  using table_entry_bits [of page] by (simp add: table_child_def)

lemma table_child_invalid: "e AND MMU_PTE_VALID = 0 \<Longrightarrow> table_child e = None"
  by (simp add: table_child_def)

lemma table_at_new:
  assumes new: "new_table r p i page k k'" and tree: "tree_ok k r xs"
  shows "table_path q \<Longrightarrow> table_at k' r q = (if q = p @ [i] then Some page else table_at k r q)"
proof (induction q rule: rev_induct)
  case (snoc a q)
  obtain t where t: "table_at k r p = Some t" "word_at k t i AND MMU_PTE_VALID = 0"
    "word_at k' t i = page OR MMU_PTE_VALID" and page: "frame_ok k page" "\<forall>j < 512. word_at k' page j = 0"
    and ag: "agree {(p, i)} r k k'" using new by (auto simp: new_table_def)
  have q: "table_path q" "a < 512" and IH: "table_at k' r q = (if q = p @ [i] then Some page else table_at k r q)"
    using snoc by (auto simp: table_path_snoc)
  have none: "table_at k r (p @ [i]) = None" using t by (simp add: table_at_snoc table_child_invalid)
  show ?case
  proof (cases "q = p @ [i]")
    case True
    then have "table_at k' r (q @ [a]) = None" unfolding table_at_snoc IH
      using page(2) q(2) by (simp add: table_child_def)
    moreover have "table_at k r (q @ [a]) = None" unfolding table_at_snoc using True none by simp
    moreover have "q @ [a] \<noteq> p @ [i]" using True by simp
    ultimately show ?thesis by simp
  next
    case False
    then have same: "table_at k' r q = table_at k r q" using IH by simp
    show ?thesis
    proof (cases "q @ [a] = p @ [i]")
      case True
      then show ?thesis using same t page(1) by (simp add: table_at_snoc table_child_new frame_ok_def)
    next
      case False
      have "word_at k' u a = word_at k u a" if "table_at k r q = Some u" for u
        using ag that q False by (simp add: agree_def)
      then show ?thesis using same False by (cases "table_at k r q") (auto simp: table_at_snoc)
    qed
  qed
qed (simp)

lemma tree_ok_new:
  assumes new: "new_table r p i page k k'" and tree: "tree_ok k r xs" and p: "table_path p" "length p < 2" "i < 512"
    and page: "page \<in> set xs" "set ys \<subseteq> set xs - {page}"
  shows "tree_ok k' r ys"
proof -
  note same = table_at_new [OF new tree]
  have ag: "agree {(p, i)} r k k'" and frame: "frame_ok k page" and zero: "\<forall>j < 512. word_at k' page j = 0"
    using new by (auto simp: new_table_def)
  have other: "table_at k r q \<noteq> Some page" if "table_path q" for q
    using tree_used [OF tree that] page(1) by blast
  have entry: "word_at k' t j AND MMU_PTE_RESERVED_LOW_MASK = 0 \<and> word_at k' t j AND MMU_PTE_USER = 0"
    if q: "table_path q" "length q < 2" "table_at k' r q = Some t" "j < 512" "table_child (word_at k' t j) \<noteq> None" for q t j
  proof (cases "q = p @ [i]")
    case True
    then show ?thesis using q zero same [OF q(1)] by (simp add: table_child_def)
  next
    case False
    then have t: "table_at k r q = Some t" using q same [OF q(1)] by simp
    show ?thesis
    proof (cases "(q, j) = (p, i)")
      case True
      then have "word_at k' t j = page OR MMU_PTE_VALID" using new t by (simp add: new_table_def)
      then show ?thesis using table_entry_bits [of page] frame by (simp add: frame_ok_def)
    next
      case False
      then have "word_at k' t j = word_at k t j" using ag q t by (simp add: agree_def)
      then show ?thesis using tree q t unfolding tree_ok_def by metis
    qed
  qed
  have frames: "frame_ok k' t \<and> t \<notin> set ys" if q: "table_path q" "table_at k' r q = Some t" for q t
    using q same [OF q(1)] frame tree_frame [OF tree q(1)] tree_used [OF tree q(1)] page(2) agree_frame [OF ag]
    by (auto split: if_splits)
  have unique: "q = q'" if q: "table_path q" "table_path q'" "table_at k' r q = Some t" "table_at k' r q' = Some t" for q q' t
    using q same [OF q(1)] same [OF q(2)] other tree_unique [OF tree q(1,2)] by (auto split: if_splits)
  show ?thesis unfolding tree_ok_def using entry frames unique by blast
qed

text \<open>Entering a new table changes no translation: there was none, and the new table has none.\<close>

lemma find_leaf_new:
  assumes new: "new_table r p i page k k'" and tree: "tree_ok k r xs" and mem: "memory_ok k" and p: "length p < 2"
  shows "table_path q \<Longrightarrow> table_at k r q = Some t \<Longrightarrow> length q + length ss = 3 \<Longrightarrow>
    find_leaf (memory k') va t ss = find_leaf (memory k) va t ss"
proof (induction ss arbitrary: q t)
  case (Cons s ss)
  let ?i = "table_index s va" let ?e = "word_at k t ?i"
  have ag: "agree {(p, i)} r k k'" and page: "frame_ok k page" and zero: "\<forall>j < 512. word_at k' page j = 0"
    using new by (auto simp: new_table_def)
  have frame: "frame_ok k t" using tree_frame [OF tree Cons.prems(1,2)] .
  note step = find_leaf_table [OF mem frame] find_leaf_table [of k', unfolded agree_frame [OF ag], OF mem frame]
    root_valid_agree [OF ag]
  show ?case
  proof (cases "(q, ?i) = (p, i)")
    case True
    then have e: "?e AND MMU_PTE_VALID = 0" "word_at k' t ?i = page OR MMU_PTE_VALID"
      using new Cons.prems(2) by (auto simp: new_table_def)
    obtain s' ss' where ss: "ss = s' # ss'" using True p Cons.prems(3) by (cases ss) auto
    have "page_aligned page" using page by (simp add: frame_ok_def)
    note bits = table_entry_bits [OF this]
    have "find_leaf (memory k') va page ss = Inl MMU_RESULT_NOT_PRESENT"
      unfolding ss using zero page find_leaf_table [of k' page, unfolded agree_frame [OF ag], OF mem page]
      by (simp add: Let_def)
    then show ?thesis using e bits ss root_valid_frame [OF page] unfolding step by (simp add: Let_def malformed_entry_def)
  next
    case False
    then have e: "word_at k' t ?i = ?e" using ag Cons.prems(1,2) by (simp add: agree_def)
    have deeper: "find_leaf (memory k') va u ss = find_leaf (memory k) va u ss"
      if u: "table_child ?e = Some u" and "ss \<noteq> []" for u
    proof (rule Cons.IH [of "q @ [?i]"])
      have "length q < 2" using Cons.prems(3) \<open>ss \<noteq> []\<close> by (cases ss) auto
      then show "table_path (q @ [?i])" "table_at k r (q @ [?i]) = Some u" "length (q @ [?i]) + length ss = 3"
        using Cons.prems u by (auto simp: table_path_snoc table_at_snoc)
    qed
    show ?thesis unfolding step e
      using deeper [of "?e AND MMU_PTE_ADDRESS_MASK"] by (auto simp: Let_def table_child_def)
  qed
qed simp

section \<open>Mapping a leaf\<close>

text \<open>The state of an address space: the allocator with its free pages and the tree of the root.\<close>

definition space_ok :: "'z pmm_scheme \<Rightarrow> u64 \<Rightarrow> u64 list \<Rightarrow> bool" where
  "space_ok k r xs \<longleftrightarrow> pool k xs \<and> tree_ok k r xs"

lemma space_memory: "space_ok k r xs \<Longrightarrow> memory_ok k"
  by (simp add: space_ok_def pool_def range_ok_def)

text \<open>Stores into pages that are not free keep the allocator.\<close>

lemma pool_only_pages:
  assumes "pool k xs" "only_pages P k k'" "P \<inter> set xs = {}" "\<And>p. p \<in> P \<Longrightarrow> page_aligned p"
    "pmm_boot_info k' = pmm_boot_info k" "pmm_memory_map_index k' = pmm_memory_map_index k"
    "pmm_range_next k' = pmm_range_next k" "pmm_range_end k' = pmm_range_end k"
    "pmm_recycled_head k' = pmm_recycled_head k" "pmm_free_count k' = pmm_free_count k"
  shows "pool k' xs"
proof -
  obtain rs where chain: "chain (link_of k) (pmm_recycled_head k) rs 0" and xs: "xs = rs @ fresh_pages k"
    and k: "range_ok k" "frames_ok k xs" "length xs = unat (pmm_free_count k)"
    using assms(1) by (auto simp: pool_def)
  have fresh: "fresh_pages k' = fresh_pages k" by (simp add: fresh_pages_def later_pages_def assms split: option.split)
  have "chain (link_of k') (pmm_recycled_head k) rs 0"
    using chain_only_pages [OF assms(2), of rs] chain k(2) xs assms(3,4) by (auto simp: frames_ok_def)
  moreover have "range_ok k'" by (rule range_ok_keep [OF assms(2)]) (use k(1) assms in \<open>simp_all add: range_ok_def\<close>)
  ultimately show ?thesis
    using k xs fresh assms frames_ok_keep [OF assms(2)] by (auto simp: pool_def)
qed

text \<open>The pages a mapping may write: free pages and tables.\<close>

definition table_pages :: "'z kernel_memory_scheme \<Rightarrow> u64 \<Rightarrow> u64 set" where
  "table_pages k r = {t. \<exists>p. table_path p \<and> table_at k r p = Some t}"

text \<open>\<open>keeps r k xs k' ys\<close>: the free pages went from \<open>xs\<close> to \<open>ys\<close> and the tables of the root
  translate every address as before.\<close>

definition keeps :: "u64 \<Rightarrow> 'z pmm_scheme \<Rightarrow> u64 list \<Rightarrow> 'z pmm_scheme \<Rightarrow> u64 list \<Rightarrow> bool" where
  "keeps r k xs k' ys \<longleftrightarrow>
     space_ok k' r ys \<and> set ys \<subseteq> set xs \<and> only_pages (set xs \<union> table_pages k r) k k' \<and>
     table_pages k' r \<subseteq> set xs \<union> table_pages k r"

lemma keeps_refl: "space_ok k r xs \<Longrightarrow> keeps r k xs k xs"
  by (simp add: keeps_def)

lemma keeps_trans:
  assumes "keeps r k xs k1 ys" "keeps r k1 ys k2 zs"
  shows "keeps r k xs k2 zs"
proof -
  have "only_pages (set xs \<union> table_pages k r) k k1" "only_pages (set ys \<union> table_pages k1 r) k1 k2"
    and sub: "set ys \<union> table_pages k1 r \<subseteq> set xs \<union> table_pages k r"
    using assms by (auto simp: keeps_def)
  then have "only_pages (set xs \<union> table_pages k r) k k2" by (blast intro: only_pages_trans only_pages_mono [OF _ sub])
  then show ?thesis using assms sub by (auto simp: keeps_def)
qed

lemma set_word_space:
  assumes k: "space_ok k r xs" and p: "table_path p" "table_at k r p = Some t" "i < 512"
    and v: "length p < 2 \<Longrightarrow> table_child (word_at k t i) = None \<and> table_child v = None"
  shows "keeps r k xs (set_word t i v k) xs"
    and "\<not> (\<exists>n < 3. (take n (address_path va), address_path va ! n) = (p, i)) \<Longrightarrow>
      lookup (set_word t i v k) r va = lookup k r va"
proof -
  have tree: "tree_ok k r xs" and pool: "pool k xs" using k by (simp_all add: space_ok_def)
  note ag = agree_set_word [OF tree p, of v]
  have only: "only_pages {t} k (set_word t i v k)" using p(3) by (intro only_pages_set_word) simp_all
  have t: "t \<notin> set xs" "page_aligned t" "t \<in> table_pages k r"
    using tree_used [OF tree p(1,2)] tree_frame [OF tree p(1,2)] p by (auto simp: frame_ok_def table_pages_def)
  have v': "table_child (word_at k u j) = None \<and> table_child (word_at (set_word t i v k) u j) = None"
    if "(q, j) \<in> {(p, i)}" "length q < 2" "table_at k r q = Some u" for q j u
    using that v p by auto
  have "pool (set_word t i v k) xs" by (rule pool_only_pages [OF pool only]) (use t in auto)
  moreover have "tree_ok (set_word t i v k) r xs" by (rule tree_ok_agree [OF ag tree _ v']) auto
  moreover have "table_pages (set_word t i v k) r = table_pages k r"
    unfolding table_pages_def using table_at_agree [OF ag tree v'] by auto
  ultimately show "keeps r k xs (set_word t i v k) xs"
    using only_pages_mono [OF only, of "set xs \<union> table_pages k r"] t by (simp add: keeps_def space_ok_def)
  show "lookup (set_word t i v k) r va = lookup k r va"
    if "\<not> (\<exists>n < 3. (take n (address_path va), address_path va ! n) = (p, i))"
    by (rule lookup_agree [OF ag tree space_memory [OF k]]) (use that in auto)
qed

text \<open>Allocating a page for the tables of a root: the page is off the tree and holds zeros.\<close>

lemma alloc_page_space:
  assumes k: "space_ok k r xs"
  shows "\<exists>k'. kernel_pmm_alloc_page k = Some (case xs of [] \<Rightarrow> 0 | p # _ \<Rightarrow> p, k') \<and> keeps r k xs k' (tl xs) \<and>
    agree {} r k k' \<and> (\<forall>p \<in> set (take 1 xs). \<forall>j < 512. word_at k' p j = 0) \<and> only_pages (set xs) k k'"
proof -
  have tree: "tree_ok k r xs" and pool: "pool k xs" using k by (simp_all add: space_ok_def)
  obtain k1 where k1: "kernel_pmm_alloc_page k = Some (case xs of [] \<Rightarrow> 0 | p # _ \<Rightarrow> p, k1)" "pool k1 (tl xs)"
    "only_pages (set (take 1 xs)) k k1" "\<forall>p \<in> set (take 1 xs). \<forall>j. in_page p j \<longrightarrow> ram_data (memory k1) j = 0"
    using alloc_page_correct [OF pool] by blast
  have sub: "set (take 1 xs) \<subseteq> set xs" "set (tl xs) \<subseteq> set xs" by (cases xs; simp; blast)+
  have "\<And>q. q \<in> set (take 1 xs) \<Longrightarrow> page_aligned q" using pool_frames [OF pool] sub by (auto simp: frame_ok_def)
  then have ag: "agree {} r k k1" by (rule agree_only_pages [OF k1(3) tree sub(1)])
  have "table_pages k1 r = table_pages k r" unfolding table_pages_def using table_at_agree [OF ag tree] by auto
  moreover have "tree_ok k1 r (tl xs)" by (rule tree_ok_agree [OF ag tree sub(2)]) simp
  ultimately have "keeps r k xs k1 (tl xs)"
    using k1(2) sub only_pages_mono [OF k1(3), of "set xs \<union> table_pages k r"] by (auto simp: keeps_def space_ok_def)
  moreover have "word_at k1 p j = 0" if "p \<in> set (take 1 xs)" "j < 512" for p j
  proof -
    have "word_at k1 p j = word_at (clear_page p k) p j"
      by (rule word_at_cong) (use k1(4) that in \<open>auto simp: in_page_def clear_words_def\<close>)
    then show ?thesis using word_at_clear_page [OF that(2)] by simp
  qed
  ultimately show ?thesis using k1(1) ag only_pages_mono [OF k1(3) sub(1)] by blast
qed

text \<open>What allocating the next table of a path promises.\<close>

definition next_table ::
  "u64 \<Rightarrow> 'z pmm_scheme \<Rightarrow> u64 list \<Rightarrow> nat list \<Rightarrow> u64 \<Rightarrow> nat \<Rightarrow> bool \<Rightarrow> 'z pmm_scheme \<Rightarrow> bool" where
  "next_table r k xs p t i ok k' \<longleftrightarrow>
     (\<exists>ys. keeps r k xs k' ys) \<and> (\<forall>vb. lookup k' r vb = lookup k r vb) \<and>
     (\<forall>q. table_path q \<longrightarrow> length q \<le> length p \<longrightarrow> table_at k' r q = table_at k r q) \<and>
     (ok \<longrightarrow> table_at k' r (p @ [i]) = Some (word_at k' t i AND MMU_PTE_ADDRESS_MASK))"

text \<open>Entering the page \<open>page\<close> that was just allocated.\<close>

lemma enter_table:
  assumes k: "space_ok k r (page # ys)" and p: "table_path p" "length p < 2" "table_at k r p = Some t" "i < 512"
    and invalid: "word_at k t i AND MMU_PTE_VALID = 0"
    and k1: "keeps r k (page # ys) k1 ys" "agree {} r k k1" "\<forall>j < 512. word_at k1 page j = 0"
  shows "next_table r k (page # ys) p t i True (set_word t i (page OR MMU_PTE_VALID) k1)"
proof -
  let ?k' = "set_word t i (page OR MMU_PTE_VALID) k1"
  have tree: "tree_ok k r (page # ys)" and pool: "pool k (page # ys)" and pool1: "pool k1 ys" "tree_ok k1 r ys"
    using k k1(1) by (simp_all add: space_ok_def keeps_def)
  have page: "frame_ok k page" "page \<notin> set ys" using pool_frames [OF pool] by auto
  have t: "frame_ok k t" "t \<notin> set ys" "t \<noteq> page" using tree_frame [OF tree p(1,3)] tree_used [OF tree p(1,3)] by auto
  note same = table_at_agree [OF k1(2) tree]
  have "table_at k1 r p = Some t" using same p by simp
  then have "agree {(p, i)} r k ?k'"
    using k1(2) agree_set_word [OF pool1(2) p(1) _ p(4)] same by (auto simp: agree_def)
  moreover have "word_at ?k' page j = 0" if "j < 512" for j
    using k1(3) word_at_set_word_other [of t page i j _ k1] t page p(4) that by (simp add: frame_ok_def)
  ultimately have new: "new_table r p i page k ?k'" unfolding new_table_def using page p invalid by auto
  note at' = table_at_new [OF new tree]
  have only: "only_pages {t} k1 ?k'" by (rule only_pages_set_word) (use p in auto)
  have "pool ?k' ys" by (rule pool_only_pages [OF pool1(1) only]) (use t in \<open>auto simp: frame_ok_def\<close>)
  moreover have "tree_ok ?k' r ys" by (rule tree_ok_new [OF new tree p(1,2,4)]) (use page in auto)
  moreover have "table_pages ?k' r \<subseteq> set (page # ys) \<union> table_pages k r"
    using at' by (auto simp: table_pages_def split: if_splits)
  moreover have "only_pages (set (page # ys) \<union> table_pages k r) k ?k'"
    by (rule only_pages_trans [OF _ only_pages_mono [OF only]])
       (use p k1(1) in \<open>auto simp: table_pages_def keeps_def\<close>)
  ultimately have "keeps r k (page # ys) ?k' ys" by (auto simp: keeps_def space_ok_def)
  moreover have "lookup ?k' r vb = lookup k r vb" for vb
    by (rule find_leaf_new [OF new tree space_memory [OF k] p(2), of "[]"]) simp_all
  moreover have "table_at ?k' r (p @ [i]) = Some (word_at ?k' t i AND MMU_PTE_ADDRESS_MASK)"
    using at' [of "p @ [i]"] p table_entry_bits(6) page(1) by (simp add: frame_ok_def table_path_snoc)
  moreover have "table_at ?k' r q = table_at k r q" if "table_path q" "length q \<le> length p" for q
    using at' [OF that(1)] that(2) by auto
  ultimately show ?thesis by (auto simp: next_table_def)
qed

lemma keeps_direct: "keeps r k xs k' ys \<Longrightarrow> direct_map_base k' = direct_map_base k"
  "keeps r k xs k' ys \<Longrightarrow> ram_size (memory k') = ram_size (memory k)"
  by (simp_all add: keeps_def only_pages_def)

lemma allocate_next_table_correct:
  assumes k: "space_ok k r xs" and p: "table_path p" "length p < 2" "table_at k r p = Some t"
    and i: "i = table_index s va" and entry: "entry = direct_map_base k + t + (drop_bit s va AND 0x1FF) * 8"
  shows "\<exists>ok k'. allocate_next_table entry k = Some (ok, k') \<and> next_table r k xs p t i ok k'"
proof -
  have tree: "tree_ok k r xs" and mem: "memory_ok k" using k space_memory [OF k] by (simp_all add: space_ok_def)
  have frame: "frame_ok k t" using tree_frame [OF tree p(1,3)] .
  have i512: "i < 512" by (simp add: i)
  let ?e = "word_at k t i"
  have load: "kernel_load k entry = Some ?e" using entry_load [OF mem frame, of s va] by (simp add: entry i)
  show ?thesis
  proof (cases "?e AND MMU_PTE_VALID = 0")
    case False
    have "table_entry_valid ?e \<Longrightarrow> table_child ?e = Some (?e AND MMU_PTE_ADDRESS_MASK)"
      using False unfolding table_entry_valid_def table_child_def kernel_pte_eq bit.conj_disj_distrib or_eq_0_iff by simp
    then show ?thesis using False load p(3) keeps_refl [OF k]
      by (intro exI [of _ "table_entry_valid ?e"] exI [of _ k])
         (auto simp: allocate_next_table_def next_table_def kernel_pte_eq table_at_snoc)
  next
    case True
    obtain k1 where k1: "kernel_pmm_alloc_page k = Some (case xs of [] \<Rightarrow> 0 | p # _ \<Rightarrow> p, k1)"
      "keeps r k xs k1 (tl xs)" "agree {} r k k1" "\<forall>p \<in> set (take 1 xs). \<forall>j < 512. word_at k1 p j = 0"
      using alloc_page_space [OF k] by blast
    show ?thesis
    proof (cases xs)
      case Nil
      have "lookup k1 r vb = lookup k r vb" for vb by (rule lookup_agree [OF k1(3) tree mem]) simp
      then have "next_table r k xs p t i False k1"
        using k1(2) table_at_agree [OF k1(3) tree] by (auto simp: next_table_def)
      then show ?thesis using load True k1(1) Nil by (auto simp: allocate_next_table_def kernel_pte_eq)
    next
      case (Cons page ys)
      have "page \<noteq> 0" using k Cons pool_frames [of k xs] by (auto simp: space_ok_def frame_ok_def)
      moreover have "next_table r k xs p t i True (set_word t i (page OR MMU_PTE_VALID) k1)"
        using enter_table [of k r page ys p t i k1] k p i512 True k1 Cons by simp
      moreover have "kernel_store k1 entry (page OR MMU_PTE_VALID) = Some (set_word t i (page OR MMU_PTE_VALID) k1)"
        using entry_store [of k1 t s va] agree_frame [OF k1(3)] frame mem keeps_direct [OF k1(2)] by (simp add: entry i)
      ultimately show ?thesis using load True k1(1) Cons by (auto simp: allocate_next_table_def kernel_pte_eq)
    qed
  qed
qed

text \<open>The hardware follows a path of tables.\<close>

lemma lookup_descend:
  assumes tree: "tree_ok k r xs" and mem: "memory_ok k"
  shows "table_path p \<Longrightarrow> table_at k r p = Some t \<Longrightarrow> take (length p) (address_path va) = p \<Longrightarrow>
    lookup k r va = find_leaf (memory k) va t (drop (length p) mmu_shifts)"
proof (induction p arbitrary: t rule: rev_induct)
  case (snoc a q)
  have q: "table_path q" "length q < 2" "a < 512" using snoc.prems(1) by (simp_all add: table_path_snoc)
  obtain u where u: "table_at k r q = Some u" and child: "table_child (word_at k u a) = Some t"
    using snoc.prems(2) by (auto simp: table_at_snoc bind_eq_Some_conv)
  have n: "length q < length (address_path va)" using q(2) by (simp add: address_path_def)
  have "take (length q) (address_path va) @ [address_path va ! length q] = q @ [a]"
    using snoc.prems(3) by (simp add: take_Suc_conv_app_nth [OF n])
  then have take: "take (length q) (address_path va) = q" and a: "address_path va ! length q = a" by simp_all
  have frame: "frame_ok k u" and frame': "frame_ok k t"
    using tree_frame [OF tree q(1) u] tree_frame [OF tree snoc.prems(1,2)] by auto
  let ?e = "word_at k u a"
  have e: "?e AND MMU_PTE_VALID \<noteq> 0" "?e AND MMU_PTE_PERMISSION_MASK = 0" "t = ?e AND MMU_PTE_ADDRESS_MASK"
    using child by (auto simp: table_child_def split: if_splits)
  have e': "?e AND MMU_PTE_RESERVED_LOW_MASK = 0" "?e AND MMU_PTE_USER = 0"
    using tree q u child unfolding tree_ok_def by (metis option.distinct(1))+
  have "?e AND MMU_PTE_WRITE = 0" using e(2) unfolding MMU_PTE_PERMISSION_MASK_def bit.conj_disj_distrib or_eq_0_iff by simp
  then have ok: "\<not> malformed_entry ?e" using e' by (simp add: malformed_entry_def)
  have shifts: "drop (length q) mmu_shifts = mmu_shifts ! length q # drop (length (q @ [a])) mmu_shifts"
    "drop (length (q @ [a])) mmu_shifts \<noteq> []"
    using q(2) by (auto simp: less_2_cases_iff)
  have index: "table_index (mmu_shifts ! length q) va = a"
    using a q(2) by (auto simp: address_path_def nth_Cons' less_2_cases_iff MMU_GIGA_PAGE_SHIFT_def MMU_LARGE_PAGE_SHIFT_def)
  have "lookup k r va = find_leaf (memory k) va u (drop (length q) mmu_shifts)" by (rule snoc.IH [OF q(1) u take])
  also have "\<dots> = find_leaf (memory k) va t (drop (length (q @ [a])) mmu_shifts)"
    unfolding shifts(1) find_leaf_table [OF mem frame] index
    using e e'(2) ok shifts(2) root_valid_frame [OF frame'] by (simp add: Let_def)
  finally show ?case .
qed simp

text \<open>The bits of a leaf entry.\<close>

lemma leaf_entry_bits:
  assumes "leaf_arguments_valid va pa flags s" "12 \<le> s" "s < 64"
  shows "(pa OR flags) AND MMU_PTE_VALID \<noteq> 0" "(pa OR flags) AND MMU_PTE_PERMISSION_MASK \<noteq> 0"
    "\<not> malformed_entry (pa OR flags)" "(pa OR flags) AND MMU_PTE_ADDRESS_MASK = pa"
    "pa AND MMU_PTE_ADDRESS_MASK = pa" "pa AND (BIT s - 1) = 0"
    "permission_granted (pa OR flags) user acc = permission_granted flags user acc"
proof -
  have pa: "pa AND (BIT s - 1) = 0" and flags: "flags AND MMU_PTE_VALID \<noteq> 0" "flags AND MMU_PTE_PERMISSION_MASK \<noteq> 0"
    "flags AND NOT (MMU_PTE_VALID OR MMU_PTE_PERMISSION_MASK OR MMU_PTE_USER) = 0"
    "flags AND MMU_PTE_WRITE = 0 \<or> flags AND MMU_PTE_READ \<noteq> 0"
    using assms(1) by (auto simp: leaf_arguments_valid_def Let_def kernel_pte_eq)
  show "pa AND (BIT s - 1) = 0" by (rule pa)
  have low: "\<not> bit pa n" if "n < 12" for n
  proof -
    have "\<not> bit (pa AND (BIT s - 1)) n" using pa by simp
    then show ?thesis using that assms(2) bit_page_mask [OF assms(3), of n] by (simp add: bit_and_iff)
  qed
  have high: "bit pa n \<Longrightarrow> 12 \<le> n" for n using low by (meson not_less)
  have known: "bit MMU_PTE_VALID n \<or> bit MMU_PTE_PERMISSION_MASK n \<or> bit MMU_PTE_USER n" if "bit flags n" for n
  proof -
    have "\<not> bit (flags AND NOT (MMU_PTE_VALID OR MMU_PTE_PERMISSION_MASK OR MMU_PTE_USER)) n"
      by (simp only: flags(3)) simp
    then show ?thesis using that bit_u64_less [OF that] by (auto simp: bit_and_iff bit_not_iff bit_or_iff)
  qed
  have f: "n < 5" if "bit flags n" for n
    using known [OF that]
      by (auto simp: bit_or_iff MMU_PTE_VALID_def MMU_PTE_USER_def MMU_PTE_PERMISSION_MASK_def
          MMU_PTE_READ_def MMU_PTE_WRITE_def MMU_PTE_EXECUTE_def bit_BIT)
  have masked: "(pa OR flags) AND m = flags AND m" if "\<And>n. bit m n \<Longrightarrow> n < 12" for m
    by (rule bit_word_eqI) (use high that in \<open>force simp: bit_and_iff bit_or_iff\<close>)
  have below: "\<And>n. bit MMU_PTE_VALID n \<Longrightarrow> n < 12" "\<And>n. bit MMU_PTE_PERMISSION_MASK n \<Longrightarrow> n < 12"
    "\<And>n. bit MMU_PTE_USER n \<Longrightarrow> n < 12" "\<And>n. bit MMU_PTE_READ n \<Longrightarrow> n < 12" "\<And>n. bit MMU_PTE_WRITE n \<Longrightarrow> n < 12"
    "\<And>n. bit MMU_PTE_EXECUTE n \<Longrightarrow> n < 12" "\<And>n. bit MMU_PTE_RESERVED_LOW_MASK n \<Longrightarrow> n < 12"
    "\<And>n. bit (MMU_PTE_READ OR MMU_PTE_WRITE) n \<Longrightarrow> n < 12"
    by (auto simp: MMU_PTE_VALID_def MMU_PTE_PERMISSION_MASK_def MMU_PTE_USER_def MMU_PTE_READ_def MMU_PTE_WRITE_def
        MMU_PTE_EXECUTE_def MMU_PTE_RESERVED_LOW_MASK_def bit_BIT bit_or_iff bit_and_iff bit_MMU_PAGE_MASK)
  note masks = below [THEN masked]
  show "(pa OR flags) AND MMU_PTE_VALID \<noteq> 0" "(pa OR flags) AND MMU_PTE_PERMISSION_MASK \<noteq> 0"
    "permission_granted (pa OR flags) user acc = permission_granted flags user acc"
    using flags by (simp_all only: masks permission_granted.simps simp_thms)
  have "flags AND MMU_PTE_RESERVED_LOW_MASK = 0"
    by (intro bit_word_eqI) (use known in \<open>auto simp: bit_and_iff bit_not_iff bit_or_iff MMU_PTE_RESERVED_LOW_MASK_def\<close>)
  then show "\<not> malformed_entry (pa OR flags)" using flags(4) by (simp only: malformed_entry_def masks) blast
  show "(pa OR flags) AND MMU_PTE_ADDRESS_MASK = pa" "pa AND MMU_PTE_ADDRESS_MASK = pa"
    by (rule bit_word_eqI, use high f in \<open>fastforce simp: bit_and_iff bit_or_iff bit_not_iff MMU_PTE_ADDRESS_MASK_def
        bit_MMU_PAGE_MASK not_less\<close>)+
qed

text \<open>What mapping a leaf promises: the addresses that share the first \<open>n\<close> indices with
  \<open>va\<close> find the leaf, all others are looked up as before.\<close>

definition leaf_mapped ::
  "u64 \<Rightarrow> 'z pmm_scheme \<Rightarrow> u64 list \<Rightarrow> u64 \<Rightarrow> u64 \<Rightarrow> nat \<Rightarrow> nat \<Rightarrow> bool \<Rightarrow> 'z pmm_scheme \<Rightarrow> bool" where
  "leaf_mapped r k xs va leaf s n ok k' \<longleftrightarrow>
     (\<exists>ys. keeps r k xs k' ys) \<and>
     (\<forall>vb. lookup k' r vb =
        (if ok \<and> take n (address_path vb) = take n (address_path va) then Inr (leaf, s) else lookup k r vb))"

lemma leaf_mapped_same: "keeps r k xs k' ys \<Longrightarrow> (\<And>vb. lookup k' r vb = lookup k r vb) \<Longrightarrow> leaf_mapped r k xs va leaf s n False k'"
  by (auto simp: leaf_mapped_def)

lemma leaf_mapped_trans:
  assumes "keeps r k xs k1 ys" "\<And>vb. lookup k1 r vb = lookup k r vb" "leaf_mapped r k1 ys va leaf s n ok k'"
  shows "leaf_mapped r k xs va leaf s n ok k'"
  using assms keeps_trans unfolding leaf_mapped_def by fastforce

text \<open>A leaf stored in the table at the path of \<open>va\<close>.\<close>

lemma store_leaf:
  assumes k: "space_ok k r xs" and p: "table_path p" "table_at k r p = Some t" "take (length p) (address_path va) = p"
    and i: "i = address_path va ! length p" and s: "s = mmu_shifts ! length p"
    and leaf: "leaf AND MMU_PTE_VALID \<noteq> 0" "leaf AND MMU_PTE_PERMISSION_MASK \<noteq> 0" "\<not> malformed_entry leaf"
    and old: "length p < 2 \<Longrightarrow> word_at k t i AND MMU_PTE_VALID = 0"
  shows "leaf_mapped r k xs va leaf s (length p + 1) True (set_word t i leaf k)"
proof -
  let ?k = "set_word t i leaf k"
  have n: "length p < 3" using p(1) by (simp add: table_path_def)
  have i512: "i < 512" using n by (auto simp: i address_path_def nth_Cons' numeral_3_eq_3)
  have prefix: "take (length p + 1) (address_path vb) = take (length p + 1) (address_path va) \<longleftrightarrow>
      (take (length p) (address_path vb), address_path vb ! length p) = (p, i)" for vb
    using n p(3) i by (simp add: take_Suc_conv_app_nth)
  have v: "length p < 2 \<Longrightarrow> table_child (word_at k t i) = None \<and> table_child leaf = None"
    using old leaf(2) by (simp add: table_child_def)
  note store = set_word_space [OF k p(1,2) i512 v]
  have tree: "tree_ok ?k r xs" and mem: "memory_ok ?k" using store(1) space_memory [OF k] by (auto simp: keeps_def space_ok_def)
  have at': "table_at ?k r p = Some t"
  proof -
    have tree0: "tree_ok k r xs" using k by (simp add: space_ok_def)
    have "table_at ?k r p = table_at k r p"
      by (rule table_at_agree [OF agree_set_word [OF tree0 p(1,2) i512] tree0 _ p(1)]) (use p(2) v in auto)
    then show ?thesis using p(2) by simp
  qed
  have hit: "lookup ?k r vb = Inr (leaf, s)" if "take (length p + 1) (address_path vb) = take (length p + 1) (address_path va)" for vb
  proof -
    have vb: "take (length p) (address_path vb) = p" "address_path vb ! length p = i" using that prefix by auto
    have "table_index s vb = i" using vb(2) n
      by (auto simp: s address_path_def nth_Cons' numeral_3_eq_3 less_Suc_eq MMU_GIGA_PAGE_SHIFT_def MMU_LARGE_PAGE_SHIFT_def MMU_PAGE_SHIFT_def)
    moreover have "drop (length p) mmu_shifts = s # drop (Suc (length p)) mmu_shifts"
      using n by (auto simp: s numeral_3_eq_3 less_Suc_eq)
    ultimately show ?thesis
      using lookup_descend [OF tree mem p(1) at' vb(1)] leaf find_leaf_table [OF mem tree_frame [OF tree p(1) at'], of vb s]
      by (simp add: Let_def)
  qed
  have miss: "lookup ?k r vb = lookup k r vb"
    if other: "take (length p + 1) (address_path vb) \<noteq> take (length p + 1) (address_path va)" for vb
  proof (rule store(2))
    have "(take m (address_path vb), address_path vb ! m) \<noteq> (p, i)" if "m < 3" for m
    proof
      assume *: "(take m (address_path vb), address_path vb ! m) = (p, i)"
      then have "m = length p" using that by (auto simp: address_path_def)
      then show False using * other prefix by simp
    qed
    then show "\<not> (\<exists>n < 3. (take n (address_path vb), address_path vb ! n) = (p, i))" by blast
  qed
  show ?thesis unfolding leaf_mapped_def using store(1) hit miss by auto
qed

lemma store_large_leaf_correct:
  assumes k: "space_ok k r xs" and p: "table_path p" "length p < 2" "table_at k r p = Some t" "take (length p) (address_path va) = p"
    and s: "s = mmu_shifts ! length p"
    and leaf: "leaf AND MMU_PTE_VALID \<noteq> 0" "leaf AND MMU_PTE_PERMISSION_MASK \<noteq> 0" "\<not> malformed_entry leaf"
    and entry: "entry = direct_map_base k + t + (drop_bit s va AND 0x1FF) * 8"
  shows "\<exists>ok k'. store_large_leaf entry leaf k = Some (ok, k') \<and> leaf_mapped r k xs va leaf s (length p + 1) ok k'"
proof -
  have tree: "tree_ok k r xs" and mem: "memory_ok k" using k space_memory [OF k] by (simp_all add: space_ok_def)
  have frame: "frame_ok k t" using tree_frame [OF tree p(1,3)] .
  have index: "address_path va ! length p = table_index s va"
    using p(2) by (auto simp: s address_path_def nth_Cons' less_2_cases_iff MMU_GIGA_PAGE_SHIFT_def MMU_LARGE_PAGE_SHIFT_def)
  show ?thesis
  proof (cases "word_at k t (table_index s va) AND MMU_PTE_VALID = 0")
    case True
    have "leaf_mapped r k xs va leaf s (length p + 1) True (set_word t (table_index s va) leaf k)"
      by (rule store_leaf [OF k p(1,3,4) index [symmetric] s leaf]) (rule True)
    then show ?thesis using True entry_load [OF mem frame] entry_store [OF mem frame]
      by (auto simp: store_large_leaf_def entry kernel_pte_eq)
  next
    case False
    then show ?thesis using entry_load [OF mem frame] leaf_mapped_same [OF keeps_refl [OF k]]
      by (auto simp: store_large_leaf_def entry kernel_pte_eq)
  qed
qed

lemma take_address_path:
  "take (Suc 0) (address_path va) = [table_index 30 va]"
  "take 1 (address_path va) = [table_index 30 va]"
  "take 2 (address_path va) = [table_index 30 va, table_index 21 va]"
  "take (Suc (Suc 0)) (address_path va) = [table_index 30 va, table_index 21 va]"
  by (simp_all add: address_path_def)

lemma map_in_level1_correct:
  assumes k: "space_ok k r xs" and t1: "table_at k r [table_index 30 va] = Some (e2 AND MMU_PTE_ADDRESS_MASK)"
    and valid: "leaf_arguments_valid va pa flags s" and s: "s = 21 \<or> s = 12"
  shows "\<exists>ok k'. map_in_level1 e2 va pa flags s k = Some (ok, k') \<and>
    leaf_mapped r k xs va (pa OR flags) s (if s = 21 then 2 else 3) ok k'"
proof -
  let ?t1 = "e2 AND MMU_PTE_ADDRESS_MASK"
  have tree: "tree_ok k r xs" and mem: "memory_ok k" using k space_memory [OF k] by (simp_all add: space_ok_def)
  have path1: "table_path [table_index 30 va]" by (simp add: table_path_def)
  have frame: "frame_ok k ?t1" using tree_frame [OF tree path1 t1] .
  note bits = leaf_entry_bits [OF valid]
  show ?thesis
  proof (cases "s = 21")
    case True
    have "\<exists>ok k'. store_large_leaf (direct_map_base k + ?t1 + (drop_bit s va AND 0x1FF) * 8) (pa OR flags) k = Some (ok, k') \<and>
        leaf_mapped r k xs va (pa OR flags) s (length [table_index 30 va] + 1) ok k'"
      by (rule store_large_leaf_correct [OF k path1 _ t1])
         (use bits True in \<open>simp_all add: take_address_path MMU_LARGE_PAGE_SHIFT_def\<close>)
    then show ?thesis using True frame_direct [OF mem frame]
      by (simp add: map_in_level1_def kernel_mask_eq KERNEL_LARGE_PAGE_SHIFT_def Let_def numeral_2_eq_2)
  next
    case False
    let ?i1 = "table_index 21 va" and ?entry1 = "direct_map_base k + ?t1 + (drop_bit 21 va AND 0x1FF) * 8"
    obtain ok k1 where alloc: "allocate_next_table ?entry1 k = Some (ok, k1)"
      and next1: "next_table r k xs [table_index 30 va] ?t1 ?i1 ok k1"
      using allocate_next_table_correct [OF k path1 _ t1 refl refl] by fastforce
    then obtain ys where keeps1: "keeps r k xs k1 ys" and look1: "\<And>vb. lookup k1 r vb = lookup k r vb"
      by (auto simp: next_table_def)
    show ?thesis
    proof (cases ok)
      case notok: False
      then show ?thesis using alloc frame_direct [OF mem frame] False leaf_mapped_same [OF keeps1 look1]
        by (auto simp: map_in_level1_def kernel_mask_eq KERNEL_LARGE_PAGE_SHIFT_def Let_def)
    next
      case True
      let ?e1 = "word_at k1 ?t1 ?i1" let ?t0 = "?e1 AND MMU_PTE_ADDRESS_MASK"
      let ?path = "[table_index 30 va, ?i1]"
      have k1: "space_ok k1 r ys" using keeps1 by (simp add: keeps_def)
      have tree1: "tree_ok k1 r ys" and mem1: "memory_ok k1" using k1 space_memory [OF k1] by (simp_all add: space_ok_def)
      have path0: "table_path ?path" by (simp add: table_path_def)
      have "table_at k1 r [table_index 30 va] = table_at k r [table_index 30 va]"
        and t0: "table_at k1 r ?path = Some ?t0"
        using next1 path1 True unfolding next_table_def by (blast, simp)
      then have t1': "table_at k1 r [table_index 30 va] = Some ?t1" using t1 by (simp only:)
      have frame1: "frame_ok k1 ?t1" "frame_ok k1 ?t0"
        using tree_frame [OF tree1 path1 t1'] tree_frame [OF tree1 path0 t0] by auto
      note base = keeps_direct(1) [OF keeps1]
      let ?k' = "set_word ?t0 (table_index 12 va) (pa OR flags) k1"
      have "leaf_mapped r k1 ys va (pa OR flags) 12 (length ?path + 1) True ?k'"
        by (rule store_leaf [OF k1 path0 t0])
           (use bits False s in \<open>simp_all add: take_address_path address_path_def MMU_PAGE_SHIFT_def\<close>)
      then have "leaf_mapped r k xs va (pa OR flags) 12 3 True ?k'"
        using leaf_mapped_trans [OF keeps1 look1] by (simp add: numeral_3_eq_3)
      moreover have "kernel_load k1 ?entry1 = Some ?e1" using entry_load [OF mem1 frame1(1), of 21 va] by (simp add: base)
      moreover have "kernel_store k1 (direct_map_base k1 + ?t0 + (drop_bit 12 va AND 0x1FF) * 8) (pa OR flags) = Some ?k'"
        by (rule entry_store [OF mem1 frame1(2)])
      moreover have "pa AND MMU_PTE_ADDRESS_MASK = pa" using bits(5) s by auto
      ultimately show ?thesis
        using alloc True False s frame_direct [OF mem frame] frame_direct [OF mem1 frame1(2)]
        by (auto simp: map_in_level1_def kernel_mask_eq KERNEL_LARGE_PAGE_SHIFT_def Let_def)
    qed
  qed
qed

definition leaf_levels :: "nat \<Rightarrow> nat" where
  "leaf_levels s = (if s = 30 then 1 else if s = 21 then 2 else 3)"

lemma kernel_map_leaf_correct:
  assumes k: "space_ok k r xs" and s: "s \<in> {12, 21, 30}"
  shows "\<exists>ok k'. kernel_map_leaf r va pa flags s k = Some (ok, k') \<and>
    leaf_mapped r k xs va (pa OR flags) s (leaf_levels s) ok k' \<and> (ok \<longrightarrow> leaf_arguments_valid va pa flags s)"
proof (cases "leaf_arguments_valid va pa flags s")
  case False
  then show ?thesis using leaf_mapped_same [OF keeps_refl [OF k]] by (auto simp: kernel_map_leaf_def)
next
  case valid: True
  have tree: "tree_ok k r xs" and mem: "memory_ok k" using k space_memory [OF k] by (simp_all add: space_ok_def)
  have t2: "table_at k r [] = Some r" by simp
  have frame: "frame_ok k r" using tree_frame [OF tree table_path_Nil t2] .
  note bits = leaf_entry_bits [OF valid]
  let ?entry2 = "direct_map_base k + r + (drop_bit 30 va AND 0x1FF) * 8"
  show ?thesis
  proof (cases "s = 30")
    case True
    have "\<exists>ok k'. store_large_leaf (direct_map_base k + r + (drop_bit s va AND 0x1FF) * 8) (pa OR flags) k = Some (ok, k') \<and>
        leaf_mapped r k xs va (pa OR flags) s (length ([] :: nat list) + 1) ok k'"
      by (rule store_large_leaf_correct [OF k table_path_Nil _ t2]) (use bits True in \<open>simp_all add: MMU_GIGA_PAGE_SHIFT_def\<close>)
    then show ?thesis using True valid frame_direct [OF mem frame]
      by (simp add: kernel_map_leaf_def KERNEL_GIGA_PAGE_SHIFT_def Let_def leaf_levels_def)
  next
    case False
    obtain ok k1 where alloc: "allocate_next_table ?entry2 k = Some (ok, k1)"
      and next1: "next_table r k xs [] r (table_index 30 va) ok k1"
      using allocate_next_table_correct [OF k table_path_Nil _ t2 refl refl] by fastforce
    then obtain ys where keeps1: "keeps r k xs k1 ys" and look1: "\<And>vb. lookup k1 r vb = lookup k r vb"
      by (auto simp: next_table_def)
    have unfold: "kernel_map_leaf r va pa flags s k =
        (if \<not> ok then Some (False, k1)
         else do { e2 \<leftarrow> kernel_load k1 ?entry2; map_in_level1 e2 va pa flags s k1 })"
      using alloc valid False frame_direct [OF mem frame]
      by (simp add: kernel_map_leaf_def KERNEL_GIGA_PAGE_SHIFT_def Let_def)
    show ?thesis
    proof (cases ok)
      case False
      then show ?thesis using unfold leaf_mapped_same [OF keeps1 look1] by auto
    next
      case True
      have k1: "space_ok k1 r ys" using keeps1 by (simp add: keeps_def)
      let ?e2 = "word_at k1 r (table_index 30 va)"
      have t1: "table_at k1 r [table_index 30 va] = Some (?e2 AND MMU_PTE_ADDRESS_MASK)"
        using next1 True by (simp add: next_table_def)
      have "frame_ok k1 r" using k1 tree_frame [of k1 r ys "[]"] by (simp add: space_ok_def)
      then have load: "kernel_load k1 ?entry2 = Some ?e2"
        using entry_load [OF space_memory [OF k1], of r 30 va] keeps_direct(1) [OF keeps1] by simp
      have "s = 21 \<or> s = 12" using s False by auto
      then obtain ok' k' where "map_in_level1 ?e2 va pa flags s k1 = Some (ok', k')"
        "leaf_mapped r k1 ys va (pa OR flags) s (if s = 21 then 2 else 3) ok' k'"
        using map_in_level1_correct [OF k1 t1 valid] by blast
      then show ?thesis using unfold True load valid False leaf_mapped_trans [OF keeps1 look1]
        by (simp add: leaf_levels_def)
    qed
  qed
qed

section \<open>Translations after mapping a leaf\<close>

lemma unat_and_mask: "unat (a AND (BIT n - 1)) = unat a mod 2 ^ n" for a :: u64
proof -
  have "BIT n - 1 = mask n" by (simp add: BIT_def mask_eq_exp_minus_1)
  then have "a AND (BIT n - 1) = take_bit n a" by (simp add: take_bit_eq_mask)
  then show ?thesis by (simp only: unsigned_take_bit_eq) (rule take_bit_eq_mod)
qed

lemma table_index_eq: "table_index s va = unat va div 2 ^ s mod 512"
proof -
  have "(0x1FF :: u64) = BIT 9 - 1" by (simp add: BIT_def)
  then have "table_index s va = unat (drop_bit s va) mod 2 ^ 9"
    unfolding table_index_def by (simp only: unat_and_mask)
  also have "unat (drop_bit s va) = unat va div 2 ^ s"
    unfolding unat_drop_bit_eq by (rule drop_bit_eq_div)
  finally show ?thesis by simp
qed

lemma below_limit: "va < MMU_VIRTUAL_ADDRESS_LIMIT \<longleftrightarrow> unat va < 2 ^ 39"
  by (simp add: MMU_VIRTUAL_ADDRESS_LIMIT_def MMU_VIRTUAL_ADDRESS_BITS_def word_less_nat_alt unat_BIT)

text \<open>Addresses that share the indices down to a leaf are the addresses of the leaf.\<close>

lemma same_leaf:
  assumes "va < MMU_VIRTUAL_ADDRESS_LIMIT" "vb < MMU_VIRTUAL_ADDRESS_LIMIT" "s \<in> {12, 21, 30}"
  shows "take (leaf_levels s) (address_path vb) = take (leaf_levels s) (address_path va) \<longleftrightarrow>
    unat vb div 2 ^ s = unat va div 2 ^ s"
proof -
  have split: "a div 512 = b div 512 \<and> a mod 512 = b mod 512 \<longleftrightarrow> a = b" for a b :: nat
    by (metis div_mult_mod_eq)
  have top: "unat v div 1073741824 mod 512 = unat v div 1073741824" if "v < MMU_VIRTUAL_ADDRESS_LIMIT" for v
    using that by (simp add: below_limit div_less_iff_less_mult)
  have down: "a div 1073741824 = a div 2097152 div (512 :: nat)" "a div 2097152 = a div 4096 div (512 :: nat)" for a
    by (simp_all flip: div_mult2_eq)
  note index = table_index_eq [of 30, simplified] table_index_eq [of 21, simplified] table_index_eq [of 12, simplified]
  consider "s = 30" | "s = 21" | "s = 12" using assms(3) by auto
  then show ?thesis
  proof cases
    case 1
    then show ?thesis by (simp add: leaf_levels_def address_path_def index top assms(1,2))
  next
    case 2
    have "unat vb div 2097152 = unat va div 2097152 \<longleftrightarrow>
        unat vb div 1073741824 = unat va div 1073741824 \<and> unat vb div 2097152 mod 512 = unat va div 2097152 mod 512"
      unfolding down(1) by (rule split [symmetric])
    with 2 show ?thesis by (simp add: leaf_levels_def address_path_def index top assms(1,2))
  next
    case 3
    have "unat vb div 4096 = unat va div 4096 \<longleftrightarrow>
        (unat vb div 1073741824 = unat va div 1073741824 \<and> unat vb div 2097152 mod 512 = unat va div 2097152 mod 512) \<and>
        unat vb div 4096 mod 512 = unat va div 4096 mod 512"
      unfolding down(1) split unfolding down(2) by (rule split [symmetric])
    with 3 show ?thesis by (simp add: leaf_levels_def address_path_def index top assms(1,2))
  qed
qed

lemma and_mask_0: "a AND (BIT n - 1) = 0 \<longleftrightarrow> 2 ^ n dvd unat a"
  unfolding dvd_eq_mod_eq_0 unat_and_mask [symmetric] by (simp add: unat_eq_0)

text \<open>In the leaf: the frame with the offset of the address.\<close>

lemma leaf_offset:
  assumes s: "s < 64" and al: "2 ^ s dvd unat va" "2 ^ s dvd unat pa"
  shows "unat vb div 2 ^ s = unat va div 2 ^ s \<longleftrightarrow> unat va \<le> unat vb \<and> unat vb < unat va + 2 ^ s"
    and "unat vb div 2 ^ s = unat va div 2 ^ s \<Longrightarrow> pa OR (vb AND (BIT s - 1)) = pa + (vb - va)"
proof -
  obtain m where m: "unat va = 2 ^ s * m" using al(1) unfolding dvd_def by blast
  show iff: "unat vb div 2 ^ s = unat va div 2 ^ s \<longleftrightarrow> unat va \<le> unat vb \<and> unat vb < unat va + 2 ^ s"
  proof
    assume "unat vb div 2 ^ s = unat va div 2 ^ s"
    then have "unat vb div 2 ^ s = m" using m by simp
    then show "unat va \<le> unat vb \<and> unat vb < unat va + 2 ^ s"
      using m div_times_less_eq_dividend [of "unat vb" "2 ^ s"] dividend_less_div_times [of "2 ^ s" "unat vb"]
      by (auto simp: mult.commute)
  next
    assume "unat va \<le> unat vb \<and> unat vb < unat va + 2 ^ s"
    then have "unat vb div 2 ^ s = m" using m by (intro div_nat_eqI) (auto simp: mult.commute)
    then show "unat vb div 2 ^ s = unat va div 2 ^ s" using m by simp
  qed
  assume same: "unat vb div 2 ^ s = unat va div 2 ^ s"
  then have le: "va \<le> vb" using iff by (simp add: word_le_nat_alt)
  have "vb AND (BIT s - 1) = vb - va"
  proof (rule word_unat_eq_iff [THEN iffD2])
    have "unat vb mod 2 ^ s = unat vb - unat va"
      using same m minus_div_mult_eq_mod [of "unat vb" "2 ^ s"] by (simp add: mult.commute)
    then show "unat (vb AND (BIT s - 1)) = unat (vb - va)" using le by (simp add: unat_and_mask unat_sub)
  qed
  moreover have "pa OR (vb AND (BIT s - 1)) = pa + (vb AND (BIT s - 1))"
  proof (rule disjunctive_add_eq_or [symmetric])
    show "pa AND (vb AND (BIT s - 1)) = 0"
      proof -
      have "pa AND (vb AND (BIT s - 1)) = vb AND (pa AND (BIT s - 1))" by (simp only: and.left_commute)
      then show ?thesis using and_mask_0 [of pa s] al(2) by simp
    qed
  qed
  ultimately show "pa OR (vb AND (BIT s - 1)) = pa + (vb - va)" by simp
qed

text \<open>The result for an address of a range mapped with \<open>flags\<close>.\<close>

definition mapped_result :: "u64 \<Rightarrow> bool \<Rightarrow> mmu_access \<Rightarrow> u64 \<Rightarrow> mmu_result" where
  "mapped_result flags user acc pa =
     (if permission_granted flags user acc then MMU_RESULT_OK pa else MMU_RESULT_PERMISSION_DENIED)"

lemma translate_lookup_cong:
  assumes "ram_size (memory k') = ram_size (memory k)" "lookup k' r va = lookup k r va"
  shows "mmu_translate (memory k') r user va acc = mmu_translate (memory k) r user va acc"
  using assms by (simp add: mmu_translate_eq leaf_result_def mmu_root_valid_def physical_range_valid_def Let_def
      split: sum.split prod.split del: permission_granted.simps)

definition frame_range_ok :: "'z kernel_memory_scheme \<Rightarrow> nat \<Rightarrow> nat \<Rightarrow> bool" where
  "frame_range_ok k pa n \<longleftrightarrow> pa + n \<le> ram_size (memory k) \<or> ram_size (memory k) \<le> pa"

lemma leaf_mapped_translate:
  assumes m: "leaf_mapped r k xs va (pa OR flags) s (leaf_levels s) ok k'" and k: "space_ok k r xs"
    and s: "s \<in> {12, 21, 30}" and ok: "ok \<longrightarrow> leaf_arguments_valid va pa flags s"
    and va: "va < MMU_VIRTUAL_ADDRESS_LIMIT" and vb: "vb < MMU_VIRTUAL_ADDRESS_LIMIT"
    and pa: "frame_range_ok k (unat pa) (2 ^ s)"
  shows "mmu_translate (memory k') r user vb acc =
    (if ok \<and> unat va \<le> unat vb \<and> unat vb < unat va + 2 ^ s then mapped_result flags user acc (pa + (vb - va))
     else mmu_translate (memory k) r user vb acc)"
proof -
  obtain ys where keeps: "keeps r k xs k' ys" using m by (auto simp: leaf_mapped_def)
  note size = keeps_direct(2) [OF keeps]
  show ?thesis
  proof (cases ok)
    case False
    then show ?thesis using m translate_lookup_cong [OF size] by (simp add: leaf_mapped_def)
  next
    case True
    then have valid: "leaf_arguments_valid va pa flags s" using ok by simp
    have s64: "12 \<le> s" "s < 64" using s by auto
    note bits = leaf_entry_bits [OF valid s64]
    have al: "2 ^ s dvd unat va" "2 ^ s dvd unat pa"
      using valid and_mask_0 by (simp_all add: leaf_arguments_valid_def Let_def)
    note offset = leaf_offset [OF s64(2) al]
    note same = same_leaf [OF va vb s, unfolded offset(1)]
    show ?thesis
    proof (cases "unat va \<le> unat vb \<and> unat vb < unat va + 2 ^ s")
      case False
      then have "lookup k' r vb = lookup k r vb" using m same unfolding leaf_mapped_def by metis
      then show ?thesis using False translate_lookup_cong [OF size] by auto
    next
      case inside: True
      have root: "mmu_root_valid (memory k') r"
        by (rule root_valid_frame, rule tree_frame [of k' r ys "[]"]) (use keeps in \<open>simp_all add: keeps_def space_ok_def\<close>)
      have wf: "ram_wf (memory k)" using space_memory [OF k] by (simp add: memory_ok_def)
      then have "unat (of_nat (ram_size (memory k)) :: u64) = ram_size (memory k)"
        by (simp add: ram_wf_def SIZE_MAX_def unat_of_nat)
      then have range: "\<not> (pa < of_nat (ram_size (memory k')) \<and> \<not> physical_range_valid (memory k') pa (unat (BIT s)))"
        using pa s64(2) by (auto simp: frame_range_ok_def size physical_range_valid_def unat_BIT word_less_nat_alt)
      have "lookup k' r vb = Inr (pa OR flags, s)" using m True same inside by (simp add: leaf_mapped_def)
      moreover have "leaf_result (memory k') user acc vb (pa OR flags) s = mapped_result flags user acc (pa + (vb - va))"
      proof -
        have sum: "pa OR (vb AND (BIT s - 1)) = pa + (vb - va)" using offset [of vb] inside by blast
        show ?thesis
          unfolding leaf_result_def mapped_result_def Let_def bits(4,7) sum if_not_P [OF range] using bits(6) by presburger
      qed
      ultimately have "mmu_translate (memory k') r user vb acc = mapped_result flags user acc (pa + (vb - va))"
        unfolding mmu_translate_eq using root vb by (simp add: linorder_not_le [THEN iffD2])
      then show ?thesis using True inside by simp
    qed
  qed
qed

section \<open>Translations after mapping a range\<close>

text \<open>The leaf selected for the rest of a range fits and is aligned.\<close>

lemma select_leaf_fits:
  assumes al: "4096 dvd unat va" "4096 dvd unat pa" "4096 dvd unat remaining" and pos: "0 < unat remaining"
    and sel: "select_leaf va pa remaining = (s, leaf_size)"
  shows "s \<in> {12, 21, 30}" "unat leaf_size = 2 ^ s" "2 ^ s \<le> unat remaining" "2 ^ s dvd unat va" "2 ^ s dvd unat pa"
proof -
  have mask: "(va OR pa) AND (BIT n - 1) = 0 \<longleftrightarrow> 2 ^ n dvd unat va \<and> 2 ^ n dvd unat pa" for n
    unfolding bit.conj_disj_distrib2 or_eq_0_iff and_mask_0 by simp
  have "4096 \<le> unat remaining" using al(3) pos by (simp add: dvd_imp_le)
  then have "s \<in> {12, 21, 30} \<and> unat leaf_size = 2 ^ s \<and> 2 ^ s \<le> unat remaining \<and> 2 ^ s dvd unat va \<and> 2 ^ s dvd unat pa"
    using sel al mask [of 30] mask [of 21]
    by (auto simp: select_leaf_def KERNEL_GIGA_PAGE_MASK_def KERNEL_GIGA_PAGE_SIZE_def KERNEL_GIGA_PAGE_SHIFT_def
        KERNEL_LARGE_PAGE_MASK_def KERNEL_LARGE_PAGE_SIZE_def KERNEL_LARGE_PAGE_SHIFT_def KERNEL_PAGE_SHIFT_def
        KERNEL_PAGE_SIZE_def word_le_nat_alt unat_BIT split: if_splits)
  then show "s \<in> {12, 21, 30}" "unat leaf_size = 2 ^ s" "2 ^ s \<le> unat remaining" "2 ^ s dvd unat va" "2 ^ s dvd unat pa"
    by simp_all
qed

text \<open>What mapping the bytes \<open>[a, b)\<close> of a range at \<open>vp\<close> to \<open>pp\<close> promises.\<close>

definition range_mapped ::
  "u64 \<Rightarrow> 'z pmm_scheme \<Rightarrow> u64 list \<Rightarrow> u64 \<Rightarrow> u64 \<Rightarrow> u64 \<Rightarrow> nat \<Rightarrow> nat \<Rightarrow> bool \<Rightarrow> 'z pmm_scheme \<Rightarrow> bool" where
  "range_mapped r k xs vp pp flags a b ok k' \<longleftrightarrow>
     (\<exists>ys. keeps r k xs k' ys) \<and>
     (\<forall>vb user acc. vb < MMU_VIRTUAL_ADDRESS_LIMIT \<longrightarrow>
        (unat vp + a \<le> unat vb \<and> unat vb < unat vp + b \<longrightarrow> ok \<longrightarrow>
           mmu_translate (memory k') r user vb acc = mapped_result flags user acc (pp + (vb - vp))) \<and>
        (\<not> (unat vp + a \<le> unat vb \<and> unat vb < unat vp + b) \<longrightarrow>
           mmu_translate (memory k') r user vb acc = mmu_translate (memory k) r user vb acc))"

lemma range_mapped_refl: "space_ok k r xs \<Longrightarrow> range_mapped r k xs vp pp flags a a ok k"
  by (auto simp: range_mapped_def intro: keeps_refl)

lemma range_mapped_mono: "range_mapped r k xs vp pp flags a b ok k' \<Longrightarrow> b \<le> c \<Longrightarrow> range_mapped r k xs vp pp flags a c False k'"
  unfolding range_mapped_def by (auto simp del: permission_granted.simps)

lemma range_mapped_append:
  assumes "range_mapped r k xs vp pp flags a b True k1" "keeps r k xs k1 ys" "range_mapped r k1 ys vp pp flags b c ok k2" "a \<le> b" "b \<le> c"
  shows "range_mapped r k xs vp pp flags a c ok k2"
proof -
  obtain zs where "keeps r k1 ys k2 zs" using assms(3) by (auto simp: range_mapped_def)
  then have "\<exists>zs. keeps r k xs k2 zs" using keeps_trans [OF assms(2)] by blast
  moreover have "mmu_translate (memory k2) r user vb acc = mapped_result flags user acc (pp + (vb - vp))"
    if "vb < MMU_VIRTUAL_ADDRESS_LIMIT" "unat vp + a \<le> unat vb" "unat vb < unat vp + c" ok for vb user acc
    using that assms(1,3) unfolding range_mapped_def by (cases "unat vb < unat vp + b") (simp_all add: not_less)
  moreover have "mmu_translate (memory k2) r user vb acc = mmu_translate (memory k) r user vb acc"
    if "vb < MMU_VIRTUAL_ADDRESS_LIMIT" "\<not> (unat vp + a \<le> unat vb \<and> unat vb < unat vp + c)" for vb user acc
  proof -
    have "\<not> (unat vp + a \<le> unat vb \<and> unat vb < unat vp + b)" "\<not> (unat vp + b \<le> unat vb \<and> unat vb < unat vp + c)"
      using that(2) assms(4,5) by auto
    then show ?thesis using that(1) assms(1,3) unfolding range_mapped_def by simp
  qed
  ultimately show ?thesis unfolding range_mapped_def by blast
qed

lemma map_range_loop_correct:
  assumes "space_ok k r xs" "4096 dvd unat vp" "4096 dvd unat pp" "4096 dvd unat ms" "4096 dvd unat offset"
    and "unat vp + unat ms \<le> 2 ^ 39" "unat pp + unat ms \<le> 2 ^ 64" "frame_range_ok k (unat pp) (unat ms)"
    and "unat offset \<le> unat ms"
  shows "\<exists>ok k'. map_range_loop r vp pp ms flags offset k = Some (ok, k') \<and>
    range_mapped r k xs vp pp flags (unat offset) (unat ms) ok k'"
  using assms
proof (induction "unat ms - unat offset" arbitrary: k xs offset rule: less_induct)
  case less
  show ?case
  proof (cases "offset < ms")
    case False
    then have "unat offset = unat ms" using less.prems(9) by (simp add: word_less_nat_alt)
    then show ?thesis using False range_mapped_refl [OF less.prems(1)] by (auto simp: map_range_loop.simps)
  next
    case True
    let ?va = "vp + offset" and ?pa = "pp + offset" and ?rem = "ms - offset"
    have lt: "unat offset < unat ms" using True by (simp add: word_less_nat_alt)
    have u: "unat ?va = unat vp + unat offset" "unat ?pa = unat pp + unat offset" "unat ?rem = unat ms - unat offset"
      using lt less.prems(6,7) by (simp_all add: unat_word_ariths unat_sub word_le_nat_alt)
    have al: "4096 dvd unat ?va" "4096 dvd unat ?pa" "4096 dvd unat ?rem"
      using u less.prems(2-5) lt by simp_all
    obtain s leaf_size where sel: "select_leaf ?va ?pa ?rem = (s, leaf_size)" by (cases "select_leaf ?va ?pa ?rem")
    note fits = select_leaf_fits [OF al _ sel]
    have pos: "0 < unat ?rem" using u lt by simp
    have next_offset: "unat (offset + leaf_size) = unat offset + 2 ^ s" "unat offset + 2 ^ s \<le> unat ms"
      using fits(2,3) pos u lt unat_u64_bound [of ms] by (auto simp: unat_word_ariths simp del: unat_u64_bound)
    obtain ok k1 where map: "kernel_map_leaf r ?va ?pa flags s k = Some (ok, k1)"
      and mapped: "leaf_mapped r k xs ?va (?pa OR flags) s (leaf_levels s) ok k1"
      and valid: "ok \<longrightarrow> leaf_arguments_valid ?va ?pa flags s"
      using kernel_map_leaf_correct [OF less.prems(1) fits(1) [OF pos]] by blast
    have va: "?va < MMU_VIRTUAL_ADDRESS_LIMIT" using u lt less.prems(6) by (simp add: below_limit)
    have frames: "frame_range_ok k (unat ?pa) (2 ^ s)"
      using less.prems(8) u next_offset(2) by (auto simp: frame_range_ok_def)
    note translate = leaf_mapped_translate [OF mapped less.prems(1) fits(1) [OF pos] valid va _ frames]
    obtain ys where keeps: "keeps r k xs k1 ys" using mapped by (auto simp: leaf_mapped_def)
    have "?pa + (vb - ?va) = pp + (vb - vp)" for vb by simp
    then have first: "range_mapped r k xs vp pp flags (unat offset) (unat offset + 2 ^ s) ok k1"
      unfolding range_mapped_def using keeps translate u by (auto simp: add.assoc)
    show ?thesis
    proof (cases ok)
      case False
      then show ?thesis using map sel True range_mapped_mono [OF first next_offset(2)]
        by (auto simp: map_range_loop.simps [of r vp pp ms flags offset k] Let_def)
    next
      case ok: True
      have step: "map_range_loop r vp pp ms flags offset k = map_range_loop r vp pp ms flags (offset + leaf_size) k1"
        using map sel True ok by (simp add: map_range_loop.simps [of r vp pp ms flags offset k] Let_def)
      have k1: "space_ok k1 r ys" using keeps by (simp add: keeps_def)
      have "4096 dvd (2 ^ s :: nat)" using fits(1) [OF pos] by auto
      then have al': "4096 dvd unat (offset + leaf_size)" using next_offset(1) less.prems(5) by simp
      have "frame_range_ok k1 (unat pp) (unat ms)" using less.prems(8) keeps_direct(2) [OF keeps] by (simp add: frame_range_ok_def)
      moreover have "unat ms - unat (offset + leaf_size) < unat ms - unat offset" 
        using next_offset zero_less_power [of "2 :: nat" s] by linarith
      ultimately obtain ok' k' where "map_range_loop r vp pp ms flags (offset + leaf_size) k1 = Some (ok', k')"
        "range_mapped r k1 ys vp pp flags (unat (offset + leaf_size)) (unat ms) ok' k'"
        using less.hyps [of "offset + leaf_size" k1 ys] k1 al' less.prems(2-7) next_offset by auto
      then show ?thesis using step range_mapped_append [OF _ keeps] first ok next_offset by fastforce
    qed
  qed
qed

lemma page_parts: "x = (x AND MMU_PTE_ADDRESS_MASK) + (x AND MMU_PAGE_MASK)"
proof -
  have "(x AND MMU_PTE_ADDRESS_MASK) + (x AND MMU_PAGE_MASK) = (x AND MMU_PTE_ADDRESS_MASK) OR (x AND MMU_PAGE_MASK)"
    by (rule disjunctive_add_eq_or, rule bit_word_eqI) (auto simp: MMU_PTE_ADDRESS_MASK_def bit_simps)
  also have "\<dots> = x" by (rule bit_word_eqI) (auto simp: MMU_PTE_ADDRESS_MASK_def bit_simps)
  finally show ?thesis by simp
qed

lemma page_leading: "x - (x AND MMU_PTE_ADDRESS_MASK) = x AND MMU_PAGE_MASK"
  using page_parts [of x] by (metis add_diff_cancel_left')

text \<open>The pages of a range: its first page, and the bytes of its pages.\<close>

definition page_span :: "u64 \<Rightarrow> u64 \<Rightarrow> nat" where
  "page_span start sz = 4096 * ((unat sz + unat start mod 4096 + 4095) div 4096)"

lemma page_span_covers:
  "unat start + unat sz \<le> 4096 * (unat start div 4096) + page_span start sz"
  "unat start + unat sz \<le> 4096 * n \<Longrightarrow> 4096 * (unat start div 4096) + page_span start sz \<le> 4096 * n"
proof -
  define a b where "a = unat start div 4096" and "b = unat start mod 4096"
  define q where "q = (unat sz + b + 4095) div 4096"
  have start: "unat start = 4096 * a + b" by (simp add: a_def b_def)
  have span: "page_span start sz = 4096 * q" by (simp add: page_span_def q_def b_def)
  have "(unat sz + b + 4095) div 4096 * 4096 + (unat sz + b + 4095) mod 4096 = unat sz + b + 4095" by (rule div_mult_mod_eq)
  then have q: "unat sz + b \<le> 4096 * q" "4096 * q \<le> unat sz + b + 4095"
    using mod_less_divisor [of 4096 "unat sz + b + 4095"] by (simp_all add: q_def del: mod_less_divisor)
  show "unat start + unat sz \<le> 4096 * (unat start div 4096) + page_span start sz"
    using q(1) start unfolding span a_def [symmetric] by linarith
  assume "unat start + unat sz \<le> 4096 * n"
  then have "4096 * a + 4096 * q \<le> 4096 * n + 4095" using q(2) by (simp only: start)
  then have "4096 * (a + q) < 4096 * Suc n" by (simp add: distrib_left)
  then have "a + q \<le> n" by (simp only: mult_less_cancel1 less_Suc_eq_le)
  then show "4096 * (unat start div 4096) + page_span start sz \<le> 4096 * n"
    unfolding span a_def [symmetric] by linarith
qed

lemma map_range_correct:
  assumes k: "space_ok k r xs" and va: "unat va + unat sz \<le> 2 ^ 39"
    and pa: "frame_range_ok k (4096 * (unat pa div 4096)) (page_span pa sz)"
  shows "\<exists>ok k'. map_range r va pa sz flags k = Some (ok, k') \<and>
    range_mapped r k xs (va AND MMU_PTE_ADDRESS_MASK) (pa AND MMU_PTE_ADDRESS_MASK) flags 0 (page_span va sz) ok k' \<and>
    (ok \<longrightarrow> va AND MMU_PAGE_MASK = pa AND MMU_PAGE_MASK)"
proof -
  let ?vp = "va AND MMU_PTE_ADDRESS_MASK" and ?pp = "pa AND MMU_PTE_ADDRESS_MASK"
  let ?ms = "(sz + (va - ?vp) + KERNEL_PAGE_MASK) AND MMU_PTE_ADDRESS_MASK"
  have fail: "range_mapped r k xs ?vp ?pp flags 0 (page_span va sz) False k"
    using range_mapped_mono [OF range_mapped_refl [OF k]] by blast
  show ?thesis
  proof (cases "va AND MMU_PAGE_MASK \<noteq> pa AND MMU_PAGE_MASK \<or> va > UINT64_MAX - sz \<or> pa > UINT64_MAX - sz \<or>
      sz > UINT64_MAX - (va - ?vp) - KERNEL_PAGE_MASK")
    case True
    then show ?thesis using fail by (auto simp: map_range_def kernel_mask_eq Let_def)
  next
    case False
    then have same: "va AND MMU_PAGE_MASK = pa AND MMU_PAGE_MASK" and ov: "pa \<le> UINT64_MAX - sz" by auto
    have mod: "unat va mod 4096 = unat pa mod 4096" using same unat_and_page_mask by metis
    have "unat va mod 4096 < 4096" by simp
    then have sum: "unat (sz + (va - ?vp) + KERNEL_PAGE_MASK) = unat sz + unat va mod 4096 + 4095"
      using va unfolding page_leading by (simp add: unat_word_ariths unat_and_page_mask page_constants)
    then have ms: "unat ?ms = page_span va sz" by (simp only: unat_page_base page_span_def)
    have span: "page_span va sz = page_span pa sz" by (simp add: page_span_def mod)
    have pages: "unat ?pp = 4096 * (unat pa div 4096)" "unat ?vp = 4096 * (unat va div 4096)" by (rule unat_page_base)+
    have "unat pa + unat sz \<le> 4096 * 2 ^ 52" using ov unfolding le_UINT64_MAX_minus by simp
    then have pend: "unat ?pp + unat ?ms \<le> 2 ^ 64" using page_span_covers(2) [of pa sz "2 ^ 52"] pages(1) ms span by simp
    have vend: "unat ?vp + unat ?ms \<le> 2 ^ 39" using page_span_covers(2) [of va sz "2 ^ 27"] va pages(2) ms by simp
    have "\<exists>ok k'. map_range_loop r ?vp ?pp ?ms flags 0 k = Some (ok, k') \<and>
        range_mapped r k xs ?vp ?pp flags (unat (0 :: u64)) (unat ?ms) ok k'"
      by (rule map_range_loop_correct [OF k _ _ _ _ vend pend])
         (use pa span ms pages in \<open>simp_all add: page_span_def\<close>)
    then show ?thesis using False same ms by (auto simp: map_range_def kernel_mask_eq Let_def)
  qed
qed

text \<open>
  C23: Mapping a range of virtual addresses below the limit of the address space terminates, keeps
  the tables a tree of frames that are not free, and agrees with the hardware. Where it succeeds,
  the processor translates every address of the range, in both modes and for every kind of access,
  to the corresponding physical address if the flags permit the access and denies it otherwise,
  whatever mixture of 4 KiB, 2 MiB and 1 GiB leaves was chosen; whether it succeeds or fails, every
  address outside the pages of the range translates as before.
\<close>

theorem map_range_translates:
  assumes "space_ok k r xs" "unat va + unat sz \<le> 2 ^ 39"
    and "frame_range_ok k (4096 * (unat pa div 4096)) (page_span pa sz)"
  shows "\<exists>ok k' ys. map_range r va pa sz flags k = Some (ok, k') \<and> space_ok k' r ys \<and>
    (ok \<longrightarrow> (\<forall>i < unat sz. \<forall>user acc.
       mmu_translate (memory k') r user (va + of_nat i) acc =
       (if permission_granted flags user acc then MMU_RESULT_OK (pa + of_nat i) else MMU_RESULT_PERMISSION_DENIED))) \<and>
    (\<forall>vb user acc. vb < MMU_VIRTUAL_ADDRESS_LIMIT \<longrightarrow>
       unat vb < 4096 * (unat va div 4096) \<or> 4096 * (unat va div 4096) + page_span va sz \<le> unat vb \<longrightarrow>
       mmu_translate (memory k') r user vb acc = mmu_translate (memory k) r user vb acc)"
proof -
  let ?vp = "va AND MMU_PTE_ADDRESS_MASK" and ?pp = "pa AND MMU_PTE_ADDRESS_MASK"
  obtain ok k' where map: "map_range r va pa sz flags k = Some (ok, k')"
    and range: "range_mapped r k xs ?vp ?pp flags 0 (page_span va sz) ok k'"
    and same: "ok \<longrightarrow> va AND MMU_PAGE_MASK = pa AND MMU_PAGE_MASK"
    using map_range_correct [OF assms] by blast
  have inside: "mmu_translate (memory k') r user (va + of_nat i) acc = mapped_result flags user acc (pa + of_nat i)"
    if "ok" and i: "i < unat sz" for i user acc
  proof -
    let ?vb = "va + of_nat i"
    have "i < 2 ^ 64" using i unat_u64_bound [of sz] by (simp del: unat_u64_bound)
    then have "unat (of_nat i :: u64) = i" by (simp only: unat_of_nat take_bit_eq_mod) simp
    then have vb: "unat ?vb = unat va + i" using i assms(2) by (simp add: unat_word_ariths)
    have "?vb < MMU_VIRTUAL_ADDRESS_LIMIT" using vb i assms(2) by (simp add: below_limit)
    moreover have "unat ?vp \<le> unat ?vb" "unat ?vb < unat ?vp + page_span va sz"
      using vb i page_span_covers(1) [of va sz] by (simp_all add: unat_page_base)
    ultimately have "mmu_translate (memory k') r user ?vb acc = mapped_result flags user acc (?pp + (?vb - ?vp))"
      using range \<open>ok\<close> by (simp add: range_mapped_def)
    moreover have "?pp + (?vb - ?vp) = (?pp + (va - ?vp)) + of_nat i" by simp
    then have "?pp + (?vb - ?vp) = pa + of_nat i"
      unfolding page_leading same [rule_format, OF \<open>ok\<close>] page_parts [of pa, symmetric] .
    ultimately show ?thesis by simp
  qed
  obtain ys where space: "space_ok k' r ys" using range by (auto simp: range_mapped_def keeps_def)
  have outside: "mmu_translate (memory k') r user vb acc = mmu_translate (memory k) r user vb acc"
    if "vb < MMU_VIRTUAL_ADDRESS_LIMIT"
      "unat vb < 4096 * (unat va div 4096) \<or> 4096 * (unat va div 4096) + page_span va sz \<le> unat vb" for vb user acc
    using that range by (auto simp: range_mapped_def unat_page_base)
  show ?thesis using map space inside [unfolded mapped_result_def] outside
    by (intro exI [of _ ok] exI [of _ k'] exI [of _ ys] conjI impI allI) simp_all
qed

text \<open>An address space with an empty root in the last page of the sample machine.\<close>

lemma empty_root_space:
  assumes "pool k xs" "frame_ok k r" "r \<notin> set xs" "\<forall>i < 512. word_at k r i = 0"
  shows "space_ok k r xs"
proof -
  have "table_at k r p = (if p = [] then Some r else None)" if "table_path p" for p
    using that assms(4) by (cases p) (simp_all add: table_path_def table_child_def)
  then show ?thesis using assms unfolding space_ok_def tree_ok_def
    by (auto simp: table_child_def split: if_splits)
qed

lemma sample_space: "\<exists>xs. space_ok (snd (kernel_pmm_init (Some sample_memory_map) sample_pmm)) 0x3000 xs"
proof -
  let ?k = "snd (kernel_pmm_init (Some sample_memory_map) sample_pmm)"
  let ?xs = "concat (map entry_pages (memory_map sample_memory_map))"
  have "kernel_pmm_init (Some sample_memory_map) sample_pmm = (True, ?k)"
    using sample_pmm_init by (simp add: prod_eq_iff)
  note init = pmm_init_correct [OF this sample_pmm_ok(1,3,2)]
  have memory: "memory ?k = memory sample_pmm"
    by (simp add: kernel_pmm_init_def Let_def split: prod.split)
  have "frame_ok ?k 0x3000"
    unfolding frame_ok_def memory by (simp add: sample_pmm_def page_aligned_def)
  moreover have "word_at ?k 0x3000 i = 0" for i
    unfolding word_at_def memory by (rule bit_word_eqI) (simp add: sample_pmm_def bit_assemble_le)
  moreover have "0x3000 \<notin> set ?xs"
  proof
    assume "0x3000 \<in> set ?xs"
    then obtain e where "e \<in> set (memory_map sample_memory_map)" and e: "0x3000 \<in> set (entry_pages e)" by auto
    then show False using entry_pages_inside(4) [OF e] by (auto simp: sample_memory_map_def)
  qed
  ultimately show ?thesis using empty_root_space [OF init(1)] by blast
qed

theorem map_range_translates_witness:
  "\<exists>ok k'. map_range 0x3000 0x200800 0x800 0x1900 (KERNEL_PTE_VALID OR KERNEL_PTE_READ)
     (snd (kernel_pmm_init (Some sample_memory_map) sample_pmm)) = Some (ok, k')"
proof -
  let ?k = "snd (kernel_pmm_init (Some sample_memory_map) sample_pmm)"
  obtain xs where "space_ok ?k 0x3000 xs" using sample_space by blast
  moreover have "frame_range_ok ?k (4096 * (unat (0x800 :: u64) div 4096)) (page_span 0x800 0x1900)"
    by (simp add: frame_range_ok_def page_span_def kernel_pmm_init_def Let_def sample_pmm_def split: prod.split)
  moreover have "unat (0x200800 :: u64) + unat (0x1900 :: u64) \<le> 2 ^ 39" by simp
  ultimately show ?thesis
    using map_range_translates [of ?k "0x3000" xs "0x200800" "0x1900" "0x800"] by blast
qed

end
