(* ===== verification/Kernel_Virtual.thy ===== *)
theory Kernel_Virtual
  imports Kernel_Mmu
begin

text \<open>
  Loads and stores of the kernel through the page tables: a pointer is translated by the hardware
  with the tables of the processor and the access goes to the frame. A window is a range of virtual
  pages, each mapped readable and writable to a frame of its own that is neither free nor a table.
  The bytes of a window are a flat array: a store changes exactly the bytes it writes, and the
  window, the allocator and the tables are as before.
\<close>

section \<open>Accesses\<close>

text \<open>A dereferenced pointer of \<open>width\<close> bytes, as a value and as the target of an assignment;
  \<open>None\<close> is the page fault.\<close>

definition virtual_load :: "'z kernel_mmu_scheme \<Rightarrow> u64 \<Rightarrow> nat \<Rightarrow> u64 option" where
  "virtual_load k pointer width =
     (case mmu_translate (memory k) (cpu_ptbr k) False pointer MMU_ACCESS_READ of
        MMU_RESULT_OK physical \<Rightarrow> ram_read (memory k) physical width
      | _ \<Rightarrow> None)"

definition virtual_store :: "'z kernel_mmu_scheme \<Rightarrow> u64 \<Rightarrow> nat \<Rightarrow> u64 \<Rightarrow> 'z kernel_mmu_scheme option" where
  "virtual_store k pointer width value =
     (case mmu_translate (memory k) (cpu_ptbr k) False pointer MMU_ACCESS_WRITE of
        MMU_RESULT_OK physical \<Rightarrow> map_option (\<lambda>r. k\<lparr>memory := r\<rparr>) (ram_write (memory k) physical width value)
      | _ \<Rightarrow> None)"

section \<open>Windows\<close>

definition window_ok :: "'z kernel_mmu_scheme \<Rightarrow> u64 list \<Rightarrow> u64 \<Rightarrow> u64 list \<Rightarrow> bool" where
  "window_ok k xs b fs \<longleftrightarrow>
     space_ok k (kernel_ptbr k) xs \<and> cpu_ptbr k = kernel_ptbr k \<and>
     page_aligned b \<and> 0 < unat b \<and> unat b + 4096 * length fs \<le> 2 ^ 39 \<and>
     frames_ok k fs \<and> set fs \<inter> set xs = {} \<and> set fs \<inter> table_pages k (kernel_ptbr k) = {} \<and>
     (\<forall>i < length fs. \<forall>j < 4096. \<forall>acc \<in> {MMU_ACCESS_READ, MMU_ACCESS_WRITE}.
        mmu_translate (memory k) (kernel_ptbr k) False (b + of_nat (4096 * i + j)) acc =
          MMU_RESULT_OK (fs ! i + of_nat j))"

text \<open>The bytes of a window, and the state with some of them written.\<close>

definition frame_byte :: "u64 list \<Rightarrow> nat \<Rightarrow> nat" where
  "frame_byte fs j = unat (fs ! (j div 4096)) + j mod 4096"

definition view :: "'z kernel_memory_scheme \<Rightarrow> u64 list \<Rightarrow> bytes" where
  "view k fs j = (if j < 4096 * length fs then ram_data (memory k) (frame_byte fs j) else 0)"

definition put :: "u64 list \<Rightarrow> nat \<Rightarrow> nat \<Rightarrow> u64 \<Rightarrow> 'z kernel_memory_scheme \<Rightarrow> 'z kernel_memory_scheme" where
  "put fs j w v k = k\<lparr>memory := (memory k)\<lparr>ram_data := scatter_le (ram_data (memory k)) (frame_byte fs j) w v\<rparr>\<rparr>"

text \<open>An access of \<open>w\<close> bytes inside the window that does not cross a page.\<close>

definition fits :: "u64 list \<Rightarrow> nat \<Rightarrow> nat \<Rightarrow> bool" where
  "fits fs j w \<longleftrightarrow> w \<in> {1, 2, 4, 8} \<and> j mod 4096 + w \<le> 4096 \<and> j < 4096 * length fs"

lemma put_fields [simp]:
  "direct_map_base (put fs j w v k) = direct_map_base k"
  "direct_map_size (put fs j w v k) = direct_map_size k"
  "ram_size (memory (put fs j w v k)) = ram_size (memory k)"
  "kernel_memory.more (put fs j w v k) = kernel_memory.more k"
  by (simp_all add: put_def)

lemma put_pmm_fields [simp]:
  "pmm_boot_info (put fs j w v k) = pmm_boot_info k"
  "pmm_memory_map_index (put fs j w v k) = pmm_memory_map_index k"
  "pmm_range_next (put fs j w v k) = pmm_range_next k"
  "pmm_range_end (put fs j w v k) = pmm_range_end k"
  "pmm_recycled_head (put fs j w v k) = pmm_recycled_head k"
  "pmm_free_count (put fs j w v k) = pmm_free_count k"
  by (simp_all add: put_def)

lemma put_mmu_fields [simp]:
  "kernel_ptbr (put fs j w v k) = kernel_ptbr k"
  "cpu_ptbr (put fs j w v k) = cpu_ptbr k"
  by (simp_all add: put_def)

text \<open>Stores into pages that are neither free nor tables keep the allocator and the tables.\<close>

lemma agree_off_tables:
  assumes "only_pages P k k'" "tree_ok k r xs" "P \<inter> table_pages k r = {}" "\<And>p. p \<in> P \<Longrightarrow> page_aligned p"
  shows "agree {} r k k'"
proof -
  have "word_at k' t j = word_at k t j" if q: "table_path q" "table_at k r q = Some t" "j < 512" for q t j
    using only_pages_word [OF assms(1) _ assms(4), of t j] tree_frame [OF assms(2) q(1,2)] assms(3) q
    by (auto simp: frame_ok_def table_pages_def)
  then show ?thesis using assms(1) by (simp add: agree_def only_pages_def)
qed

lemma agree_tables:
  assumes "agree {} r k k'" "tree_ok k r xs" "set ys \<subseteq> set xs"
  shows "tree_ok k' r ys" "table_pages k' r = table_pages k r"
  using tree_ok_agree [OF assms] table_at_agree [OF assms(1,2)] by (auto simp: table_pages_def)

lemma agree_translate:
  assumes "agree {} r k k'" "tree_ok k r xs" "memory_ok k"
  shows "mmu_translate (memory k') r user va acc = mmu_translate (memory k) r user va acc"
proof (rule translate_lookup_cong)
  show "ram_size (memory k') = ram_size (memory k)" using assms(1) by (simp add: agree_def)
  show "lookup k' r va = lookup k r va" by (rule lookup_agree [OF assms]) simp
qed

section \<open>Accesses to a window\<close>

lemma window_facts:
  assumes "window_ok k xs b fs"
  shows "space_ok k (kernel_ptbr k) xs" "memory_ok k" "tree_ok k (kernel_ptbr k) xs" "pool k xs" "frames_ok k fs"
    "set fs \<inter> set xs = {}" "set fs \<inter> table_pages k (kernel_ptbr k) = {}" "cpu_ptbr k = kernel_ptbr k"
  using assms space_memory [of k] by (auto simp: window_ok_def space_ok_def)

lemma fits_index: "fits fs j w \<Longrightarrow> j div 4096 < length fs"
  by (auto simp: fits_def less_mult_imp_div_less mult.commute)

lemma fits_frame:
  assumes "window_ok k xs b fs" "fits fs j w"
  shows "frame_ok k (fs ! (j div 4096))" "frame_byte fs j + w \<le> ram_size (memory k)"
    "unat (fs ! (j div 4096) + of_nat (j mod 4096)) = frame_byte fs j"
proof -
  let ?p = "fs ! (j div 4096)"
  show p: "frame_ok k ?p" using window_facts(5) [OF assms(1)] fits_index [OF assms(2)] by (simp add: frames_ok_def)
  show le: "frame_byte fs j + w \<le> ram_size (memory k)"
    using p assms(2) by (auto simp: frame_ok_def frame_byte_def fits_def)
  have "ram_size (memory k) < 2 ^ 64"
    using window_facts(2) [OF assms(1)] by (simp add: memory_ok_def ram_wf_def SIZE_MAX_def)
  moreover have "0 < w" using assms(2) by (auto simp: fits_def)
  moreover have "unat (of_nat (j mod 4096) :: u64) = j mod 4096"
  proof -
    have "j mod 4096 < 4096" by simp
    then have "j mod 4096 < 2 ^ 64" by simp
    then show ?thesis by (simp only: unat_of_nat take_bit_eq_mod) simp
  qed
  ultimately show "unat (?p + of_nat (j mod 4096)) = frame_byte fs j"
    using le by (simp add: unat_word_ariths frame_byte_def)
qed

lemma window_translate:
  assumes "window_ok k xs b fs" "fits fs j w" "acc \<in> {MMU_ACCESS_READ, MMU_ACCESS_WRITE}"
  shows "mmu_translate (memory k) (cpu_ptbr k) False (b + of_nat j) acc =
    MMU_RESULT_OK (fs ! (j div 4096) + of_nat (j mod 4096))"
proof -
  have "4096 * (j div 4096) + j mod 4096 = j" by simp
  moreover have "j mod 4096 < 4096" by simp
  ultimately show ?thesis
    using assms fits_index [OF assms(2)] unfolding window_ok_def by metis
qed

lemma frame_byte_add:
  assumes "j mod 4096 + w \<le> 4096" "i < w"
  shows "frame_byte fs (j + i) = frame_byte fs j + i"
proof -
  define q m where "q = j div 4096" and "m = j mod 4096"
  then have j: "j + i = 4096 * q + (m + i)" by simp
  have "m + i < 4096" using assms by (simp add: m_def)
  then have "(j + i) div 4096 = q" "(j + i) mod 4096 = m + i" unfolding j by simp_all
  then show ?thesis by (simp add: frame_byte_def q_def m_def)
qed

lemma fits_inside: "fits fs j w \<Longrightarrow> i < w \<Longrightarrow> j + i < 4096 * length fs"
proof -
  assume *: "fits fs j w" "i < w"
  define q m where "q = j div 4096" and "m = j mod 4096"
  then have j: "j = 4096 * q + m" by simp
  have "q < length fs" using fits_index [OF *(1)] by (simp add: q_def)
  moreover have "m + w \<le> 4096" using *(1) by (simp add: fits_def m_def)
  ultimately show ?thesis using *(2) j by linarith
qed

lemma window_load:
  assumes "window_ok k xs b fs" "fits fs j w"
  shows "virtual_load k (b + of_nat j) w = Some (assemble_le (\<lambda>i. view k fs (j + i)) w)"
proof -
  have "assemble_le (\<lambda>i. view k fs (j + i)) w = assemble_le (\<lambda>i. ram_data (memory k) (frame_byte fs j + i)) w"
    using assms(2) fits_inside [OF assms(2)] frame_byte_add [of j w]
    by (intro assemble_le_cong) (simp add: view_def fits_def)
  moreover have "0 < w" "w \<le> 8" using assms(2) by (auto simp: fits_def)
  ultimately show ?thesis
    using window_translate [OF assms, of MMU_ACCESS_READ] fits_frame [OF assms]
    by (simp add: virtual_load_def ram_read_eq ram_range_valid_iff)
qed

lemma window_store:
  assumes "window_ok k xs b fs" "fits fs j w"
  shows "virtual_store k (b + of_nat j) w v = Some (put fs j w v k)"
proof -
  have "0 < w" "w \<le> 8" using assms(2) by (auto simp: fits_def)
  then show ?thesis
    using window_translate [OF assms, of MMU_ACCESS_WRITE] fits_frame [OF assms]
    by (simp add: virtual_store_def ram_write_eq ram_range_valid_iff put_def)
qed

lemma put_only_pages:
  assumes "fits fs j w"
  shows "only_pages (set fs) k (put fs j w v k)"
proof -
  have "ram_data (memory (put fs j w v k)) i = ram_data (memory k) i" if "\<forall>p \<in> set fs. \<not> in_page p i" for i
  proof -
    have "\<not> in_page (fs ! (j div 4096)) i" using that fits_index [OF assms] by simp
    then have "\<not> (frame_byte fs j \<le> i \<and> i < frame_byte fs j + w)"
      using assms by (auto simp: in_page_def frame_byte_def fits_def)
    then show ?thesis by (auto simp: put_def scatter_le_apply)
  qed
  then show ?thesis by (simp add: only_pages_def)
qed

text \<open>What leaves the free pages, the tables and the frames of the window alone keeps the window.\<close>

lemma window_only_pages:
  assumes w: "window_ok k xs b fs" and only: "only_pages P k k'"
    and P: "P \<inter> set xs = {}" "P \<inter> table_pages k (kernel_ptbr k) = {}" "\<And>p. p \<in> P \<Longrightarrow> page_aligned p"
    and fields: "pmm_boot_info k' = pmm_boot_info k" "pmm_memory_map_index k' = pmm_memory_map_index k"
      "pmm_range_next k' = pmm_range_next k" "pmm_range_end k' = pmm_range_end k"
      "pmm_recycled_head k' = pmm_recycled_head k" "pmm_free_count k' = pmm_free_count k"
      "kernel_ptbr k' = kernel_ptbr k" "cpu_ptbr k' = cpu_ptbr k"
  shows "window_ok k' xs b fs"
proof -
  note f = window_facts [OF w]
  have ag: "agree {} (kernel_ptbr k) k k'" by (rule agree_off_tables [OF only f(3) P(2,3)])
  have "pool k' xs" by (rule pool_only_pages [OF f(4) only P(1,3)]) (use fields in auto)
  then show ?thesis
    using w agree_tables [OF ag f(3) subset_refl] agree_translate [OF ag f(3,2)] frames_ok_keep [OF only] fields
    by (simp add: window_ok_def space_ok_def)
qed

lemma window_put [simp]:
  assumes "window_ok k xs b fs" "fits fs j w"
  shows "window_ok (put fs j w v k) xs b fs"
  by (rule window_only_pages [OF assms(1) put_only_pages [OF assms(2)]])
     (use window_facts [OF assms(1)] in \<open>auto simp: frames_ok_def frame_ok_def\<close>)

lemma frame_byte_inj:
  assumes fs: "distinct fs" "\<forall>p \<in> set fs. page_aligned p" and j: "j < 4096 * length fs" "i < 4096 * length fs"
    and eq: "frame_byte fs j = frame_byte fs i"
  shows "j = i"
proof -
  have dv: "j div 4096 < length fs" "i div 4096 < length fs" using j by (simp_all add: less_mult_imp_div_less mult.commute)
  have in_own: "in_page (fs ! (n div 4096)) (frame_byte fs n)" for n by (simp add: in_page_def frame_byte_def)
  have "in_page (fs ! (i div 4096)) (frame_byte fs j)" unfolding eq by (rule in_own)
  with in_own [of j] have "fs ! (j div 4096) = fs ! (i div 4096)" using in_page_unique fs(2) dv by (meson nth_mem)
  then have "j div 4096 = i div 4096" "j mod 4096 = i mod 4096"
    using fs(1) dv eq by (simp_all add: nth_eq_iff_index_eq frame_byte_def)
  then show ?thesis by (metis div_mult_mod_eq)
qed

lemma view_put:
  assumes "window_ok k xs b fs" "fits fs j w"
  shows "view (put fs j w v k) fs = scatter_le (view k fs) j w v"
proof
  fix i
  have fs: "distinct fs" "\<forall>p \<in> set fs. page_aligned p"
    using window_facts(5) [OF assms(1)] by (auto simp: frames_ok_def frame_ok_def)
  note add = frame_byte_add [of j w] and inside = fits_inside [OF assms(2)]
  have m: "j mod 4096 + w \<le> 4096" using assms(2) by (simp add: fits_def)
  show "view (put fs j w v k) fs i = scatter_le (view k fs) j w v i"
  proof (cases "j \<le> i \<and> i < j + w")
    case True
    then obtain n where n: "i = j + n" "n < w" by (metis le_Suc_ex nat_add_left_cancel_less)
    then show ?thesis using add [OF m n(2)] inside [OF n(2)] by (simp add: view_def put_def scatter_le_apply)
  next
    case False
    have "\<not> (frame_byte fs j \<le> frame_byte fs i \<and> frame_byte fs i < frame_byte fs j + w)" if i: "i < 4096 * length fs"
    proof
      assume "frame_byte fs j \<le> frame_byte fs i \<and> frame_byte fs i < frame_byte fs j + w"
      then obtain n where n: "frame_byte fs i = frame_byte fs j + n" "n < w" by (metis le_Suc_ex nat_add_left_cancel_less)
      then have "i = j + n" using frame_byte_inj [OF fs i inside [OF n(2)]] add [OF m n(2)] by simp
      then show False using False n(2) by simp
    qed
    then show ?thesis using False by (auto simp: view_def put_def scatter_le_apply)
  qed
qed

lemma view_only_pages:
  assumes "only_pages P k k'" "frames_ok k fs" "P \<inter> set fs = {}" "\<And>p. p \<in> P \<Longrightarrow> page_aligned p"
  shows "view k' fs = view k fs"
proof
  fix j
  have "ram_data (memory k') (frame_byte fs j) = ram_data (memory k) (frame_byte fs j)" if j: "j < 4096 * length fs"
  proof -
    let ?p = "fs ! (j div 4096)"
    have p: "?p \<in> set fs" using j by (simp add: less_mult_imp_div_less mult.commute)
    have "in_page ?p (frame_byte fs j)" by (simp add: in_page_def frame_byte_def)
    then have "\<forall>q \<in> P. \<not> in_page q (frame_byte fs j)"
      using in_page_unique p assms(2-4) by (metis disjoint_iff frame_ok_def frames_ok_def)
    then show ?thesis using assms(1) by (simp add: only_pages_def)
  qed
  then show "view k' fs j = view k fs j" by (simp add: view_def)
qed

section \<open>Fields beside the allocator\<close>

text \<open>The allocator and the mapping functions leave the fields of the records that extend it.\<close>

lemma memory_more: "kernel_memory.more k' = kernel_memory.more k \<Longrightarrow> pmm.more k' = pmm.more k"
  by (cases k; cases k') simp

lemma mmu_more:
  "pmm.more k' = pmm.more k \<Longrightarrow>
     kernel_ptbr k' = kernel_ptbr k \<and> cpu_ptbr k' = cpu_ptbr k \<and> kernel_mmu.more k' = kernel_mmu.more k"
  by (cases k; cases k') simp

lemma store_more: "kernel_store k a v = Some k' \<Longrightarrow> kernel_memory.more k' = kernel_memory.more k"
  by (auto simp: kernel_store_def split: if_splits)

lemma zero_more: "zero_words a is k = Some k' \<Longrightarrow> kernel_memory.more k' = kernel_memory.more k"
  by (induction "is" arbitrary: k) (auto simp: bind_eq_Some_conv dest!: store_more)

lemma select_more: "select_next_usable_range k = Some (ok, k') \<Longrightarrow> pmm.more k' = pmm.more k"
proof (induction k rule: select_next_usable_range.induct)
  case (1 k)
  note IH = "1.IH"(1) [OF _ _ refl refl] "1.IH"(2) [OF _ _ refl refl _ _ _ refl]
  show ?case using "1.prems"
    by (subst (asm) select_next_usable_range.simps)
       (auto simp: Let_def split: option.splits if_splits prod.splits dest: IH)
qed

lemma fresh_more: "take_fresh_page k = Some (p, k') \<Longrightarrow> pmm.more k' = pmm.more k"
proof -
  assume *: "take_fresh_page k = Some (p, k')"
  have "case (p, k') of (p, k') \<Rightarrow> pmm.more k' = pmm.more k"
  proof (rule take_fresh_page.raw_induct [OF _ *])
    fix f :: "'a pmm_scheme \<Rightarrow> (u64 \<times> 'a pmm_scheme) option" and k r
    assume IH: "\<And>k r. f k = Some r \<Longrightarrow> (case r of (p, k') \<Rightarrow> pmm.more k' = pmm.more k)"
      and r: "(if pmm_range_next k \<ge> pmm_range_end k then
        do { (selected, k) \<leftarrow> select_next_usable_range k; if \<not> selected then Some (0, k) else f k }
      else let page = pmm_range_next k in Some (page, k\<lparr>pmm_range_next := pmm_range_next k + KERNEL_PAGE_SIZE\<rparr>)) = Some r"
    show "case r of (p, k') \<Rightarrow> pmm.more k' = pmm.more k"
      using r by (auto simp: bind_eq_Some_conv Let_def split: if_splits dest!: select_more IH)
  qed
  then show ?thesis by simp
qed

lemma alloc_more: "kernel_pmm_alloc_page k = Some (p, k') \<Longrightarrow> pmm.more k' = pmm.more k"
  by (auto simp: kernel_pmm_alloc_page_def zero_page_def bind_eq_Some_conv split: if_splits option.splits
      dest!: fresh_more zero_more memory_more)

lemma free_more: "kernel_pmm_free_page p k = Some k' \<Longrightarrow> pmm.more k' = pmm.more k"
  by (auto simp: kernel_pmm_free_page_def bind_eq_Some_conv split: if_splits option.splits dest!: store_more memory_more)

lemma next_table_more: "allocate_next_table e k = Some (ok, k') \<Longrightarrow> pmm.more k' = pmm.more k"
  by (auto simp: allocate_next_table_def bind_eq_Some_conv split: if_splits dest!: alloc_more store_more memory_more)

lemma large_leaf_more: "store_large_leaf e l k = Some (ok, k') \<Longrightarrow> pmm.more k' = pmm.more k"
  by (auto simp: store_large_leaf_def bind_eq_Some_conv split: if_splits dest!: store_more memory_more)

lemma level1_more: "map_in_level1 e va pa flags s k = Some (ok, k') \<Longrightarrow> pmm.more k' = pmm.more k"
  by (auto simp: map_in_level1_def Let_def bind_eq_Some_conv split: if_splits option.splits
      dest!: large_leaf_more next_table_more store_more memory_more)

lemma map_leaf_more: "kernel_map_leaf r va pa flags s k = Some (ok, k') \<Longrightarrow> pmm.more k' = pmm.more k"
  by (auto simp: kernel_map_leaf_def Let_def bind_eq_Some_conv split: if_splits option.splits
      dest!: large_leaf_more next_table_more level1_more)

section \<open>Growing a window\<close>

text \<open>A frame that belongs to nobody: not free, not a table and not in the window.\<close>

definition loose_frame :: "'z kernel_mmu_scheme \<Rightarrow> u64 list \<Rightarrow> u64 list \<Rightarrow> u64 \<Rightarrow> bool" where
  "loose_frame k xs fs p \<longleftrightarrow>
     frame_ok k p \<and> p \<notin> set xs \<and> p \<notin> set fs \<and> p \<notin> table_pages k (kernel_ptbr k)"

text \<open>\<open>k'\<close> has the window of \<open>k\<close> with the same bytes and the same fields beside the
  allocator.\<close>

definition window_kept ::
  "'z kernel_mmu_scheme \<Rightarrow> u64 \<Rightarrow> u64 list \<Rightarrow> 'z kernel_mmu_scheme \<Rightarrow> u64 list \<Rightarrow> bool" where
  "window_kept k b fs k' xs \<longleftrightarrow>
     window_ok k' xs b fs \<and> view k' fs = view k fs \<and> pmm.more k' = pmm.more k"

lemma tree_pages:
  "tree_ok k r xs \<Longrightarrow> set xs \<inter> table_pages k r = {}" "tree_ok k r xs \<Longrightarrow> p \<in> table_pages k r \<Longrightarrow> page_aligned p"
  "tree_ok k r xs \<Longrightarrow> p \<notin> table_pages k r \<Longrightarrow> tree_ok k r (p # xs)"
  using tree_frame tree_used by (fastforce simp: table_pages_def frame_ok_def tree_ok_def)+

lemma window_change:
  assumes w: "window_ok k xs b fs" and space: "space_ok k' (kernel_ptbr k) ys"
    and only: "only_pages P k k'" "set fs \<inter> P = {}" "\<And>p. p \<in> P \<Longrightarrow> page_aligned p"
    and more: "pmm.more k' = pmm.more k"
    and disj: "set fs \<inter> set ys = {}" "set fs \<inter> table_pages k' (kernel_ptbr k) = {}"
    and look: "\<And>va acc. va < MMU_VIRTUAL_ADDRESS_LIMIT \<Longrightarrow> unat b \<le> unat va \<Longrightarrow> unat va < unat b + 4096 * length fs \<Longrightarrow>
      mmu_translate (memory k') (kernel_ptbr k) False va acc = mmu_translate (memory k) (kernel_ptbr k) False va acc"
  shows "window_kept k b fs k' ys"
proof -
  have b: "unat b + 4096 * length fs \<le> 2 ^ 39" using w by (simp add: window_ok_def)
  have "mmu_translate (memory k') (kernel_ptbr k) False (b + of_nat (4096 * i + j)) acc =
      mmu_translate (memory k) (kernel_ptbr k) False (b + of_nat (4096 * i + j)) acc"
    if ij: "i < length fs" "j < 4096" for i j acc
  proof -
    have le: "4096 * i + j < 4096 * length fs" using ij by linarith
    then have "unat (of_nat (4096 * i + j) :: u64) = 4096 * i + j"
      using b by (simp only: unat_of_nat take_bit_eq_mod) simp
    then have "unat (b + of_nat (4096 * i + j)) = unat b + (4096 * i + j)"
      using b le by (simp add: unat_word_ariths)
    then show ?thesis using le b by (intro look) (simp_all add: below_limit)
  qed
  moreover have "view k' fs = view k fs"
    by (rule view_only_pages [OF only(1) window_facts(5) [OF w]]) (use only in auto)
  ultimately show ?thesis
    using w space more mmu_more [OF more] disj frames_ok_keep [OF only(1)] by (simp add: window_kept_def window_ok_def)
qed

lemma window_alloc:
  assumes w: "window_ok k xs b fs"
  shows "\<exists>k'. kernel_pmm_alloc_page k = Some (case xs of [] \<Rightarrow> 0 | p # _ \<Rightarrow> p, k') \<and> window_kept k b fs k' (tl xs) \<and>
    (\<forall>p \<in> set (take 1 xs). loose_frame k' (tl xs) fs p)"
proof -
  note f = window_facts [OF w]
  obtain k' where k': "kernel_pmm_alloc_page k = Some (case xs of [] \<Rightarrow> 0 | p # _ \<Rightarrow> p, k')"
    "keeps (kernel_ptbr k) k xs k' (tl xs)" "agree {} (kernel_ptbr k) k k'" "only_pages (set xs) k k'"
    using alloc_page_space [OF f(1)] by blast
  note more = alloc_more [OF k'(1)]
  have xs: "distinct xs" "\<forall>p \<in> set xs. frame_ok k p" using pool_frames [OF f(4)] by auto
  have tl: "set (tl xs) \<subseteq> set xs" by (cases xs) auto
  have same: "table_pages k' (kernel_ptbr k) = table_pages k (kernel_ptbr k)"
    by (rule agree_tables [OF k'(3) f(3) subset_refl])
  have kept: "window_kept k b fs k' (tl xs)"
    by (rule window_change [OF w _ k'(4) f(6) _ more])
       (use k'(2) f xs tl same agree_translate [OF k'(3) f(3,2)] in \<open>auto simp: keeps_def frame_ok_def\<close>)
  have "loose_frame k' (tl xs) fs p" if p: "p \<in> set (take 1 xs)" for p
    using p xs f(6) tree_pages(1) [OF f(3)] same only_pages_ok(2) [OF k'(4)] mmu_more [OF more]
    by (cases xs) (auto simp: loose_frame_def)
  then show ?thesis using k'(1) kept by blast
qed

lemma window_release:
  assumes w: "window_ok k xs b fs" and p: "loose_frame k xs fs p"
  shows "\<exists>k'. kernel_pmm_free_page p k = Some k' \<and> window_kept k b fs k' (p # xs)"
proof -
  note f = window_facts [OF w]
  obtain k' where k': "kernel_pmm_free_page p k = Some k'" "pool k' (p # xs)" "only_pages {p} k k'"
    using free_page_correct [OF f(4), of p] p by (auto simp: loose_frame_def)
  have ag: "agree {} (kernel_ptbr k) k k'"
    by (rule agree_off_tables [OF k'(3) f(3)]) (use p in \<open>auto simp: loose_frame_def frame_ok_def\<close>)
  note same = agree_tables [OF ag f(3) subset_refl]
  have "space_ok k' (kernel_ptbr k) (p # xs)"
    using k'(2) same p tree_pages(3) [OF same(1)] by (simp add: space_ok_def loose_frame_def)
  then have "window_kept k b fs k' (p # xs)"
    by (rule window_change [OF w _ k'(3) _ _ free_more [OF k'(1)]])
       (use f p same agree_translate [OF ag f(3,2)] in \<open>auto simp: loose_frame_def frame_ok_def\<close>)
  then show ?thesis using k'(1) by blast
qed

definition window_flags :: u64 where
  "window_flags = KERNEL_PTE_VALID OR KERNEL_PTE_READ OR KERNEL_PTE_WRITE"

lemma window_flags_granted:
  "acc \<in> {MMU_ACCESS_READ, MMU_ACCESS_WRITE} \<Longrightarrow> mapped_result window_flags False acc pa = MMU_RESULT_OK pa"
  by (auto simp: mapped_result_def window_flags_def kernel_pte_eq MMU_PTE_VALID_def MMU_PTE_READ_def MMU_PTE_WRITE_def BIT_def)

lemma window_end:
  assumes "window_ok k xs b fs" "unat b + 4096 * (length fs + 1) \<le> 2 ^ 39"
  shows "unat (b + of_nat (4096 * length fs)) = unat b + 4096 * length fs"
    "b + of_nat (4096 * length fs) < MMU_VIRTUAL_ADDRESS_LIMIT"
proof -
  have "unat (of_nat (4096 * length fs) :: u64) = 4096 * length fs"
    using assms(2) by (simp only: unat_of_nat take_bit_eq_mod) simp
  then show "unat (b + of_nat (4096 * length fs)) = unat b + 4096 * length fs"
    using assms(2) by (simp add: unat_word_ariths)
  then show "b + of_nat (4096 * length fs) < MMU_VIRTUAL_ADDRESS_LIMIT"
    using assms(2) by (simp add: below_limit)
qed

text \<open>Mapping a loose frame behind the last page of the window.\<close>

lemma window_map:
  assumes w: "window_ok k xs b fs" and p: "loose_frame k xs fs p" and b: "unat b + 4096 * (length fs + 1) \<le> 2 ^ 39"
  shows "\<exists>ok k' ys. kernel_map_page (kernel_ptbr k) (b + of_nat (4096 * length fs)) p window_flags k = Some (ok, k') \<and>
    window_kept k b fs k' ys \<and> loose_frame k' ys fs p \<and> set ys \<subseteq> set xs \<and> (ok \<longrightarrow> window_ok k' ys b (fs @ [p]))"
proof -
  note f = window_facts [OF w]
  let ?r = "kernel_ptbr k" and ?va = "b + of_nat (4096 * length fs)"
  note va = window_end [OF w b]
  obtain ok k' where map: "kernel_map_leaf ?r ?va p window_flags 12 k = Some (ok, k')"
    and leaf: "leaf_mapped ?r k xs ?va (p OR window_flags) 12 (leaf_levels 12) ok k'"
    and valid: "ok \<longrightarrow> leaf_arguments_valid ?va p window_flags 12"
    using kernel_map_leaf_correct [OF f(1), of 12 ?va p window_flags] by auto
  obtain ys where keeps: "keeps ?r k xs k' ys" using leaf by (auto simp: leaf_mapped_def)
  note more = map_leaf_more [OF map]
  have pf: "frame_ok k p" "p \<notin> set xs" "p \<notin> set fs" "p \<notin> table_pages k ?r" using p by (simp_all add: loose_frame_def)
  have only: "only_pages (set xs \<union> table_pages k ?r) k k'" and ys: "set ys \<subseteq> set xs"
    and pages: "table_pages k' ?r \<subseteq> set xs \<union> table_pages k ?r" and space: "space_ok k' ?r ys"
    using keeps by (auto simp: keeps_def)
  have trans: "mmu_translate (memory k') ?r False vb acc =
      (if ok \<and> unat ?va \<le> unat vb \<and> unat vb < unat ?va + 2 ^ 12 then mapped_result window_flags False acc (p + (vb - ?va))
       else mmu_translate (memory k) ?r False vb acc)" if "vb < MMU_VIRTUAL_ADDRESS_LIMIT" for vb acc
    by (rule leaf_mapped_translate [OF leaf f(1) _ valid va(2) that])
       (use pf(1) in \<open>simp_all add: frame_range_ok_def frame_ok_def\<close>)
  have al: "page_aligned q" if "q \<in> set xs \<union> table_pages k ?r" for q
    using that pool_frames [OF f(4)] tree_pages(2) [OF f(3)] by (auto simp: frame_ok_def)
  have kept: "window_kept k b fs k' ys"
    by (rule window_change [OF w space only _ al more])
       (use f ys pages trans va(1) in \<open>auto split: if_splits\<close>)
  have ptbr: "kernel_ptbr k' = ?r" using mmu_more [OF more] by simp
  have loose: "loose_frame k' ys fs p"
    using pf ys pages only_pages_ok(2) [OF only] by (auto simp: loose_frame_def ptbr)
  have "window_ok k' ys b (fs @ [p])" if ok: ok
  proof -
    have "mmu_translate (memory k') ?r False (?va + of_nat j) acc = MMU_RESULT_OK (p + of_nat j)"
      if j: "j < 4096" and acc: "acc \<in> {MMU_ACCESS_READ, MMU_ACCESS_WRITE}" for j acc
    proof -
      have "unat (of_nat j :: u64) = j" using j by (simp only: unat_of_nat take_bit_eq_mod) simp
      then have u: "unat (?va + of_nat j) = unat ?va + j" using va(1) b j by (simp add: unat_word_ariths)
      then have "?va + of_nat j < MMU_VIRTUAL_ADDRESS_LIMIT" using va(1) b j by (simp add: below_limit)
      then show ?thesis using trans [of "?va + of_nat j" acc] u ok j window_flags_granted [OF acc] by simp
    qed
    then show ?thesis
      using kept loose b ptbr by (auto simp: window_kept_def window_ok_def loose_frame_def frames_ok_def nth_append less_Suc_eq add.assoc)
  qed
  then show ?thesis using map kept loose ys by (auto simp: kernel_map_page_def KERNEL_PAGE_SHIFT_def)
qed

end
