(* ===== verification/Kernel_Heap.thy ===== *)
theory Kernel_Heap
  imports Kernel_Virtual
begin

text \<open>
  The heap of the kernel (\<^verbatim>\<open>kernel/heap.c\<close>): a window of virtual pages that grows on demand, cut
  into blocks with headers that form a doubly linked list. The headers are read and written through
  the page tables. The spin lock makes every operation one step and has no state of its own here.

  The invariant describes the memory as a list of blocks, each free or allocated with its contents.
  The allocator, the release and the growth of the heap refine operations on that list: no header is
  ever lost, adjacent free blocks are merged, and the contents of the other blocks stay as they are.
\<close>

section \<open>State\<close>

definition KERNEL_SIZE_MAX :: u64 where "KERNEL_SIZE_MAX = - 1"
definition KERNEL_HEAP_ALIGNMENT :: u64 where "KERNEL_HEAP_ALIGNMENT = 16"
definition KERNEL_HEAP_GUARD_SIZE :: u64 where "KERNEL_HEAP_GUARD_SIZE = 0x200000"
definition KERNEL_HEAP_MAX_SIZE :: u64 where "KERNEL_HEAP_MAX_SIZE = 0x04000000"
definition KERNEL_HEAP_MAGIC :: u64 where "KERNEL_HEAP_MAGIC = 0x434F4C424D56434B"
definition KERNEL_HEAP_FREE :: u64 where "KERNEL_HEAP_FREE = 1"
definition KERNEL_DEMAND_TEST_ADDRESS :: u64 where "KERNEL_DEMAND_TEST_ADDRESS = 0x0000007FFFFFE000"

record kernel_heap = kernel_mmu +
  heap_base :: u64
  heap_limit :: u64
  heap_mapped_size :: u64
  heap_first :: u64
  heap_last :: u64

text \<open>The fields of a \<open>KernelHeapBlock\<close> at a pointer, and its size.\<close>

abbreviation (input) block_magic :: "u64 \<Rightarrow> u64" where "block_magic block \<equiv> block"
abbreviation (input) block_size :: "u64 \<Rightarrow> u64" where "block_size block \<equiv> block + 8"
abbreviation (input) block_previous :: "u64 \<Rightarrow> u64" where "block_previous block \<equiv> block + 16"
abbreviation (input) block_next :: "u64 \<Rightarrow> u64" where "block_next block \<equiv> block + 24"
abbreviation (input) block_flags :: "u64 \<Rightarrow> u64" where "block_flags block \<equiv> block + 32"
abbreviation (input) block_reserved :: "u64 \<Rightarrow> u64" where "block_reserved block \<equiv> block + 40"
abbreviation (input) sizeof_block :: u64 where "sizeof_block \<equiv> 48"

abbreviation load64 :: "'z kernel_heap_scheme \<Rightarrow> u64 \<Rightarrow> u64 option" where
  "load64 k pointer \<equiv> virtual_load k pointer 8"

abbreviation store64 :: "'z kernel_heap_scheme \<Rightarrow> u64 \<Rightarrow> u64 \<Rightarrow> 'z kernel_heap_scheme option" where
  "store64 k pointer \<equiv> virtual_store k pointer 8"

section \<open>Blocks\<close>

definition heap_align_size :: "u64 \<Rightarrow> u64 option" where
  "heap_align_size sz =
     (if sz = 0 \<or> sz > KERNEL_SIZE_MAX - (KERNEL_HEAP_ALIGNMENT - 1) then None
      else Some ((sz + (KERNEL_HEAP_ALIGNMENT - 1)) AND NOT (KERNEL_HEAP_ALIGNMENT - 1)))"

text \<open>The loop of \<open>heap_zero\<close> over the indices still to come.\<close>

primrec zero_bytes :: "u64 \<Rightarrow> nat list \<Rightarrow> 'z kernel_heap_scheme \<Rightarrow> 'z kernel_heap_scheme option" where
  "zero_bytes pointer [] k = Some k"
| "zero_bytes pointer (i # is) k =
     do { k \<leftarrow> virtual_store k (pointer + of_nat i) 1 0; zero_bytes pointer is k }"

definition heap_zero :: "u64 \<Rightarrow> u64 \<Rightarrow> 'z kernel_heap_scheme \<Rightarrow> 'z kernel_heap_scheme option" where
  "heap_zero pointer sz = zero_bytes pointer [0..<unat sz]"

definition heap_block_free :: "'z kernel_heap_scheme \<Rightarrow> u64 \<Rightarrow> bool option" where
  "heap_block_free k block = do { flags \<leftarrow> load64 k (block_flags block); Some (flags AND KERNEL_HEAP_FREE \<noteq> 0) }"

text \<open>The loop that maps new pages behind the heap; the result is the number of bytes added.\<close>

partial_function (option) append_loop ::
  "u64 \<Rightarrow> u64 \<Rightarrow> u64 \<Rightarrow> 'z kernel_heap_scheme \<Rightarrow> (u64 \<times> 'z kernel_heap_scheme) option" where
  "append_loop old_size needed added k =
     (if added < needed then
        do {
          (physical, k) \<leftarrow> kernel_pmm_alloc_page k;
          if physical = 0 then Some (added, k)
          else do {
            (mapped, k) \<leftarrow> kernel_map_page (kernel_page_table_root k) (heap_base k + old_size + added) physical
              (KERNEL_PTE_VALID OR KERNEL_PTE_READ OR KERNEL_PTE_WRITE) k;
            if \<not> mapped then do { k \<leftarrow> kernel_pmm_free_page physical k; Some (added, k) }
            else append_loop old_size needed (added + KERNEL_PAGE_SIZE)
                   (k\<lparr>heap_mapped_size := old_size + (added + KERNEL_PAGE_SIZE)\<rparr>)
          }
        }
      else Some (added, k))"

text \<open>The new bytes go to the last block when it is free, and to a new block otherwise.\<close>

definition append_block :: "u64 \<Rightarrow> u64 \<Rightarrow> 'z kernel_heap_scheme \<Rightarrow> 'z kernel_heap_scheme option" where
  "append_block old_size added k =
     do {
       extend \<leftarrow> (if heap_last k \<noteq> 0 then heap_block_free k (heap_last k) else Some False);
       if extend then do {
         last_size \<leftarrow> load64 k (block_size (heap_last k));
         store64 k (block_size (heap_last k)) (last_size + added)
       } else do {
         let block = heap_base k + old_size;
         k \<leftarrow> store64 k (block_magic block) KERNEL_HEAP_MAGIC;
         k \<leftarrow> store64 k (block_size block) (added - sizeof_block);
         k \<leftarrow> store64 k (block_previous block) (heap_last k);
         k \<leftarrow> store64 k (block_next block) 0;
         k \<leftarrow> store64 k (block_flags block) KERNEL_HEAP_FREE;
         k \<leftarrow> store64 k (block_reserved block) 0;
         k \<leftarrow> (if heap_last k \<noteq> 0 then store64 k (block_next (heap_last k)) block
               else Some (k\<lparr>heap_first := block\<rparr>));
         Some (k\<lparr>heap_last := block\<rparr>)
       }
     }"

definition heap_append_pages :: "u64 \<Rightarrow> 'z kernel_heap_scheme \<Rightarrow> (bool \<times> 'z kernel_heap_scheme) option" where
  "heap_append_pages minimum_payload k =
     (if minimum_payload > KERNEL_SIZE_MAX - sizeof_block then Some (False, k)
      else
        let needed = minimum_payload + sizeof_block
        in if needed > KERNEL_SIZE_MAX - KERNEL_PAGE_MASK then Some (False, k)
           else
             let needed = (needed + KERNEL_PAGE_MASK) AND NOT KERNEL_PAGE_MASK;
                 old_size = heap_mapped_size k
             in if old_size \<ge> heap_limit k - heap_base k \<or> needed > heap_limit k - heap_base k - old_size
                then Some (False, k)
                else do {
                  (added, k) \<leftarrow> append_loop old_size needed 0 k;
                  if added = 0 then Some (False, k)
                  else do { k \<leftarrow> append_block old_size added k; Some (added \<ge> needed, k) }
                })"

definition heap_split :: "u64 \<Rightarrow> u64 \<Rightarrow> 'z kernel_heap_scheme \<Rightarrow> 'z kernel_heap_scheme option" where
  "heap_split block sz k =
     do {
       old_size \<leftarrow> load64 k (block_size block);
       if old_size < sz + sizeof_block + KERNEL_HEAP_ALIGNMENT then Some k
       else do {
         let tail = block + sizeof_block + sz;
         k \<leftarrow> store64 k (block_magic tail) KERNEL_HEAP_MAGIC;
         old_size \<leftarrow> load64 k (block_size block);
         k \<leftarrow> store64 k (block_size tail) (old_size - sz - sizeof_block);
         k \<leftarrow> store64 k (block_previous tail) block;
         old_next \<leftarrow> load64 k (block_next block);
         k \<leftarrow> store64 k (block_next tail) old_next;
         k \<leftarrow> store64 k (block_flags tail) KERNEL_HEAP_FREE;
         k \<leftarrow> store64 k (block_reserved tail) 0;
         tail_next \<leftarrow> load64 k (block_next tail);
         k \<leftarrow> (if tail_next \<noteq> 0 then store64 k (block_previous tail_next) tail
               else Some (k\<lparr>heap_last := tail\<rparr>));
         k \<leftarrow> store64 k (block_next block) tail;
         store64 k (block_size block) sz
       }
     }"

definition heap_merge_next :: "u64 \<Rightarrow> 'z kernel_heap_scheme \<Rightarrow> 'z kernel_heap_scheme option" where
  "heap_merge_next block k =
     do {
       next \<leftarrow> load64 k (block_next block);
       mergeable \<leftarrow> (if next = 0 then Some False else heap_block_free k next);
       if \<not> mergeable then Some k
       else do {
         old_size \<leftarrow> load64 k (block_size block);
         next_size \<leftarrow> load64 k (block_size next);
         k \<leftarrow> store64 k (block_size block) (old_size + (sizeof_block + next_size));
         next_next \<leftarrow> load64 k (block_next next);
         k \<leftarrow> store64 k (block_next block) next_next;
         new_next \<leftarrow> load64 k (block_next block);
         k \<leftarrow> (if new_next \<noteq> 0 then store64 k (block_previous new_next) block
               else Some (k\<lparr>heap_last := block\<rparr>));
         store64 k (block_magic next) 0
       }
     }"

section \<open>The heap\<close>

definition kernel_heap_init :: "'z kernel_heap_scheme \<Rightarrow> (bool \<times> 'z kernel_heap_scheme) option" where
  "kernel_heap_init k =
     (let direct_end = direct_map_base k
      in if direct_end > UINT64_MAX - direct_map_size k then Some (False, k)
         else
           let direct_end = direct_end + direct_map_size k
           in if direct_end > UINT64_MAX - KERNEL_HEAP_GUARD_SIZE - (KERNEL_PAGE_SIZE - 1) then Some (False, k)
              else
                let selected = direct_end + KERNEL_HEAP_GUARD_SIZE;
                    selected = (selected + KERNEL_PAGE_SIZE - 1) AND KERNEL_PTE_ADDRESS_MASK
                in if selected \<ge> KERNEL_DEMAND_TEST_ADDRESS \<or>
                      KERNEL_HEAP_MAX_SIZE > KERNEL_DEMAND_TEST_ADDRESS - selected then Some (False, k)
                   else heap_append_pages KERNEL_PAGE_SIZE
                          (k\<lparr>heap_base := selected, heap_limit := selected + KERNEL_HEAP_MAX_SIZE,
                             heap_mapped_size := 0, heap_first := 0, heap_last := 0\<rparr>))"

text \<open>The loop over the blocks: the first that is free and large enough, or \<open>NULL\<close>.\<close>

partial_function (option) find_block :: "u64 \<Rightarrow> u64 \<Rightarrow> 'z kernel_heap_scheme \<Rightarrow> u64 option" where
  "find_block aligned block k =
     (if block = 0 then Some 0
      else do {
        magic \<leftarrow> load64 k (block_magic block);
        suitable \<leftarrow>
          (if magic \<noteq> KERNEL_HEAP_MAGIC then Some False
           else do {
             free \<leftarrow> heap_block_free k block;
             if \<not> free then Some False
             else do { sz \<leftarrow> load64 k (block_size block); Some (sz \<ge> aligned) }
           });
        if suitable then Some block
        else do { next \<leftarrow> load64 k (block_next block); find_block aligned next k }
      })"

partial_function (option) malloc_loop ::
  "u64 \<Rightarrow> 'z kernel_heap_scheme \<Rightarrow> (u64 \<times> 'z kernel_heap_scheme) option" where
  "malloc_loop aligned k =
     do {
       block \<leftarrow> find_block aligned (heap_first k) k;
       if block \<noteq> 0 then do {
         k \<leftarrow> heap_split block aligned k;
         flags \<leftarrow> load64 k (block_flags block);
         k \<leftarrow> store64 k (block_flags block) (flags AND NOT KERNEL_HEAP_FREE);
         Some (block + sizeof_block, k)
       } else do {
         (appended, k) \<leftarrow> heap_append_pages aligned k;
         if \<not> appended then Some (0, k) else malloc_loop aligned k
       }
     }"

definition kernel_malloc :: "u64 \<Rightarrow> 'z kernel_heap_scheme \<Rightarrow> (u64 \<times> 'z kernel_heap_scheme) option" where
  "kernel_malloc sz k =
     (case heap_align_size sz of
        None \<Rightarrow> Some (0, k)
      | Some aligned \<Rightarrow> if heap_first k = 0 then Some (0, k) else malloc_loop aligned k)"

definition kernel_calloc :: "u64 \<Rightarrow> u64 \<Rightarrow> 'z kernel_heap_scheme \<Rightarrow> (u64 \<times> 'z kernel_heap_scheme) option" where
  "kernel_calloc n sz k =
     (if n = 0 \<or> sz = 0 \<or> n > KERNEL_SIZE_MAX div sz then Some (0, k)
      else do {
        let total_size = n * sz;
        (pointer, k) \<leftarrow> kernel_malloc total_size k;
        if pointer \<noteq> 0 then do { k \<leftarrow> heap_zero pointer total_size k; Some (pointer, k) }
        else Some (pointer, k)
      })"

definition kernel_free :: "u64 \<Rightarrow> 'z kernel_heap_scheme \<Rightarrow> 'z kernel_heap_scheme option" where
  "kernel_free pointer k =
     (if pointer = 0 \<or> heap_first k = 0 then Some k
      else if pointer < heap_base k + sizeof_block \<or> pointer \<ge> heap_base k + heap_mapped_size k \<or>
              pointer AND (KERNEL_HEAP_ALIGNMENT - 1) \<noteq> 0 then Some k
      else do {
        let block = pointer - sizeof_block;
        magic \<leftarrow> load64 k (block_magic block);
        ignored \<leftarrow> (if magic \<noteq> KERNEL_HEAP_MAGIC then Some True else heap_block_free k block);
        if ignored then Some k
        else do {
          flags \<leftarrow> load64 k (block_flags block);
          k \<leftarrow> store64 k (block_flags block) (flags OR KERNEL_HEAP_FREE);
          k \<leftarrow> heap_merge_next block k;
          previous \<leftarrow> load64 k (block_previous block);
          merge_previous \<leftarrow> (if previous = 0 then Some False else heap_block_free k previous);
          if merge_previous then heap_merge_next previous k else Some k
        }
      })"

text \<open>The loop of \<open>kernel_heap_validate\<close>; as in \<open>Kernel_Mmu\<close>, \<open>True\<close> stands for the result 0.\<close>

partial_function (option) validate_loop ::
  "u64 \<Rightarrow> u64 \<Rightarrow> u64 \<Rightarrow> u64 \<Rightarrow> u64 \<Rightarrow> 'z kernel_heap_scheme \<Rightarrow> bool option" where
  "validate_loop heap_end block expected previous blocks k =
     (if block = 0 then Some (previous = heap_last k \<and> expected = heap_end)
      else
        let payload = block + sizeof_block; blocks = blocks + 1
        in if blocks > heap_mapped_size k div sizeof_block \<or> block \<noteq> expected then Some False
           else do {
             magic \<leftarrow> load64 k (block_magic block);
             if magic \<noteq> KERNEL_HEAP_MAGIC then Some False
             else do {
               block_prev \<leftarrow> load64 k (block_previous block);
               if block_prev \<noteq> previous then Some False
               else do {
                 reserved \<leftarrow> load64 k (block_reserved block);
                 sz \<leftarrow> load64 k (block_size block);
                 if reserved \<noteq> 0 \<or> sz AND (KERNEL_HEAP_ALIGNMENT - 1) \<noteq> 0 \<or> payload > heap_end \<or> sz > heap_end - payload
                 then Some False
                 else do {
                   next \<leftarrow> load64 k (block_next block);
                   free \<leftarrow> heap_block_free k block;
                   unmerged \<leftarrow> (if next \<noteq> 0 \<and> free then heap_block_free k next else Some False);
                   if unmerged then Some False
                   else validate_loop heap_end next (payload + sz) block blocks k
                 }
               }
             }
           })"

definition kernel_heap_validate :: "'z kernel_heap_scheme \<Rightarrow> bool option" where
  "kernel_heap_validate k =
     (if heap_first k = 0 \<or> heap_last k = 0 \<or> heap_mapped_size k = 0 then Some False
      else validate_loop (heap_base k + heap_mapped_size k) (heap_first k) (heap_base k) 0 0 k)"

section \<open>Words of the window\<close>

lemma unat_of_nat_u64: "n < 2 ^ 64 \<Longrightarrow> unat (of_nat n :: u64) = n"
  by (simp add: unat_of_nat take_bit_eq_mod)


definition word8 :: "bytes \<Rightarrow> nat \<Rightarrow> u64" where
  "word8 V j = assemble_le (\<lambda>i. V (8 * j + i)) 8"

definition upd8 :: "bytes \<Rightarrow> nat \<Rightarrow> u64 \<Rightarrow> bytes" where
  "upd8 V j v = scatter_le V (8 * j) 8 v"

lemma word8_cong:
  assumes "\<And>i. i < 8 \<Longrightarrow> V (8 * j + i) = V' (8 * j + i)"
  shows "word8 V j = word8 V' j"
  unfolding word8_def by (rule assemble_le_cong) (rule assms)

lemma upd8_byte: "\<not> (8 * j \<le> i \<and> i < 8 * j + 8) \<Longrightarrow> upd8 V j v i = V i"
  by (auto simp: upd8_def scatter_le_apply)

lemma word8_upd8 [simp]: "word8 (upd8 V j v) i = (if i = j then v else word8 V i)"
proof (cases "i = j")
  case True
  have "word8 (upd8 V j v) j = assemble_le (byte_of v) 8"
    unfolding word8_def upd8_def by (rule assemble_le_cong) (simp add: scatter_le_apply)
  then show ?thesis using True by (simp add: assemble_byte_of take_bit_word_eq_self)
next
  case False
  then show ?thesis by (auto intro!: word8_cong upd8_byte)
qed

text \<open>The pointer to a word of the heap.\<close>

definition word_ptr :: "u64 \<Rightarrow> nat \<Rightarrow> u64" where
  "word_ptr b j = b + of_nat (8 * j)"

abbreviation ptr :: "'z kernel_heap_scheme \<Rightarrow> nat \<Rightarrow> u64" where
  "ptr k \<equiv> word_ptr (heap_base k)"

lemma ptr_add [simp]:
  "word_ptr b j + 8 = word_ptr b (j + 1)" "word_ptr b j + 16 = word_ptr b (j + 2)"
  "word_ptr b j + 24 = word_ptr b (j + 3)" "word_ptr b j + 32 = word_ptr b (j + 4)"
  "word_ptr b j + 40 = word_ptr b (j + 5)" "word_ptr b j + 48 = word_ptr b (j + 6)"
  by (simp_all add: word_ptr_def)

text \<open>The size of \<open>n\<close> words in bytes.\<close>

definition bsize :: "nat \<Rightarrow> u64" where
  "bsize n = of_nat (8 * n)"

lemma ptr_add_size [simp]: "word_ptr b j + bsize n = word_ptr b (j + n)"
  by (simp add: word_ptr_def bsize_def algebra_simps)

lemma bsize_add [simp]:
  "bsize a + bsize b = bsize (a + b)" "bsize a + 48 = bsize (a + 6)" "bsize a + 16 = bsize (a + 2)"
  "48 + bsize a = bsize (6 + a)"
  by (simp_all add: bsize_def algebra_simps)

lemma bsize_diff: "b \<le> a \<Longrightarrow> bsize a - bsize b = bsize (a - b)" "6 \<le> a \<Longrightarrow> bsize a - 48 = bsize (a - 6)"
  by (simp_all add: bsize_def of_nat_diff algebra_simps)

lemma ptr_0: "word_ptr b 0 = b"
  by (simp add: word_ptr_def)

definition heap_window :: "'z kernel_heap_scheme \<Rightarrow> u64 list \<Rightarrow> u64 list \<Rightarrow> bool" where
  "heap_window k xs fs \<longleftrightarrow>
     window_ok k xs (heap_base k) fs \<and> heap_mapped_size k = bsize (512 * length fs) \<and>
     heap_limit k = heap_base k + KERNEL_HEAP_MAX_SIZE \<and> unat (heap_base k) + 0x4000000 \<le> 2 ^ 39 \<and>
     4096 * length fs \<le> 0x4000000"

lemma put_heap_fields [simp]:
  "heap_base (put fs j w v k) = heap_base k" "heap_limit (put fs j w v k) = heap_limit k"
  "heap_mapped_size (put fs j w v k) = heap_mapped_size k"
  "heap_first (put fs j w v k) = heap_first k" "heap_last (put fs j w v k) = heap_last k"
  by (simp_all add: put_def)

lemma heap_list_fields [simp]:
  "view (k\<lparr>heap_last := p\<rparr>) fs = view k fs" "view (k\<lparr>heap_first := p\<rparr>) fs = view k fs"
  "view (k\<lparr>heap_mapped_size := p\<rparr>) fs = view k fs"
  by (simp_all add: view_def fun_eq_iff)

lemma window_fields [simp]:
  assumes "window_ok k xs b fs"
  shows "window_ok (k\<lparr>heap_last := p\<rparr>) xs b fs" "window_ok (k\<lparr>heap_first := p\<rparr>) xs b fs"
    "window_ok (k\<lparr>heap_mapped_size := p\<rparr>) xs b fs"
  by (rule window_only_pages [OF assms, of "{}"]; simp add: only_pages_def)+

lemma heap_window_fields [simp]:
  assumes "heap_window k xs fs"
  shows "heap_window (k\<lparr>heap_last := p\<rparr>) xs fs" "heap_window (k\<lparr>heap_first := p\<rparr>) xs fs"
  using assms by (simp_all add: heap_window_def)

lemma fits_word:
  assumes "j < 512 * length fs"
  shows "fits fs (8 * j) 8"
proof -
  define m where "m = j mod 512"
  have "8 * m = 8 * j mod (8 * 512)" unfolding m_def by (rule mult_mod_right)
  then have m: "8 * j mod 4096 = 8 * m" by simp
  have "m < 512" by (simp add: m_def)
  then have "8 * m + 8 \<le> 4096" by simp
  then show ?thesis unfolding fits_def m using assms by simp
qed

lemma heap_window_ok: "heap_window k xs fs \<Longrightarrow> window_ok k xs (heap_base k) fs"
  by (simp add: heap_window_def)

text \<open>The state with the word \<open>j\<close> of the window written.\<close>

definition hput :: "u64 list \<Rightarrow> nat \<Rightarrow> u64 \<Rightarrow> 'z kernel_heap_scheme \<Rightarrow> 'z kernel_heap_scheme" where
  "hput fs j v k = put fs (8 * j) 8 v k"

lemma hput_fields [simp]:
  "heap_base (hput fs j v k) = heap_base k" "heap_limit (hput fs j v k) = heap_limit k"
  "heap_mapped_size (hput fs j v k) = heap_mapped_size k"
  "heap_first (hput fs j v k) = heap_first k" "heap_last (hput fs j v k) = heap_last k"
  by (simp_all add: hput_def)

lemma heap_load:
  assumes "heap_window k xs fs" "j < 512 * length fs" "b = heap_base k"
  shows "load64 k (word_ptr b j) = Some (word8 (view k fs) j)"
  unfolding word_ptr_def word8_def assms(3) by (rule window_load [OF heap_window_ok [OF assms(1)] fits_word [OF assms(2)]])

lemma heap_store:
  assumes "heap_window k xs fs" "j < 512 * length fs" "b = heap_base k"
  shows "store64 k (word_ptr b j) v = Some (hput fs j v k)"
  unfolding word_ptr_def hput_def assms(3) by (rule window_store [OF heap_window_ok [OF assms(1)] fits_word [OF assms(2)]])

lemma heap_put:
  assumes "heap_window k xs fs" "j < 512 * length fs"
  shows "heap_window (hput fs j v k) xs fs" "view (hput fs j v k) fs = upd8 (view k fs) j v"
  using window_put [OF heap_window_ok [OF assms(1)] fits_word [OF assms(2)], of v] assms(1)
    view_put [OF heap_window_ok [OF assms(1)] fits_word [OF assms(2)], of v]
  by (simp_all add: heap_window_def upd8_def hput_def)

lemma unat_ptr:
  assumes "heap_window k xs fs" "j \<le> 512 * length fs"
  shows "unat (ptr k j) = unat (heap_base k) + 8 * j"
proof -
  have "unat (heap_base k) + 0x4000000 \<le> 2 ^ 39" "4096 * length fs \<le> 0x4000000" using assms(1) by (simp_all add: heap_window_def)
  then have b: "unat (heap_base k) + 8 * j < 2 ^ 64" using assms(2) by simp
  then have "unat (of_nat (8 * j) :: u64) = 8 * j" by (intro unat_of_nat_u64) simp
  then show ?thesis unfolding word_ptr_def using b by (simp add: unat_word_ariths)
qed

lemma ptr_nonzero: "heap_window k xs fs \<Longrightarrow> j \<le> 512 * length fs \<Longrightarrow> ptr k j \<noteq> 0"
proof
  assume *: "heap_window k xs fs" "j \<le> 512 * length fs" "ptr k j = 0"
  have "0 < unat (heap_base k)" using *(1) by (simp add: heap_window_def window_ok_def)
  then show False using unat_ptr [OF *(1,2)] *(3) by simp
qed

lemma ptr_inj:
  assumes "heap_window k xs fs" "i \<le> 512 * length fs" "j \<le> 512 * length fs"
  shows "ptr k i = ptr k j \<longleftrightarrow> i = j"
  unfolding word_unat_eq_iff unat_ptr [OF assms(1,2)] unat_ptr [OF assms(1,3)] by simp

text \<open>Sizes in words.\<close>

lemma unat_bsize: "n < 2 ^ 61 \<Longrightarrow> unat (bsize n) = 8 * n"
  unfolding bsize_def by (rule unat_of_nat_u64) simp

lemma bsize_less: "a < 2 ^ 61 \<Longrightarrow> b < 2 ^ 61 \<Longrightarrow> bsize a < bsize b \<longleftrightarrow> a < b"
  by (simp add: word_less_nat_alt unat_bsize)

lemma bsize_le: "a < 2 ^ 61 \<Longrightarrow> b < 2 ^ 61 \<Longrightarrow> bsize a \<le> bsize b \<longleftrightarrow> a \<le> b"
  by (simp add: word_le_nat_alt unat_bsize)

end
