(* ===== verification/Kernel_Heap_Blocks.thy ===== *)
theory Kernel_Heap_Blocks
  imports Kernel_Heap
begin

text \<open>
  The blocks of the kernel heap as a list, and the operations of \<open>Kernel_Heap\<close> on it. A block has a
  size in words and, when it is allocated, its contents; sizes and offsets are in words of eight
  bytes, and a header takes six of them.
\<close>

section \<open>Lists of blocks\<close>

type_synonym block = "nat \<times> u8 list option"

definition contents :: "bytes \<Rightarrow> nat \<Rightarrow> nat \<Rightarrow> u8 list" where
  "contents V a n = map V [8 * a..<8 * (a + n)]"

definition block_ok :: "bytes \<Rightarrow> u64 \<Rightarrow> nat \<Rightarrow> block \<Rightarrow> u64 \<Rightarrow> bool" where
  "block_ok V prev p x nxt \<longleftrightarrow>
     word8 V p = KERNEL_HEAP_MAGIC \<and> word8 V (p + 1) = bsize (fst x) \<and> word8 V (p + 2) = prev \<and>
     word8 V (p + 3) = nxt \<and> word8 V (p + 4) = (if snd x = None then 1 else 0) \<and> word8 V (p + 5) = 0 \<and>
     even (fst x) \<and> 0 < fst x \<and> (\<forall>c. snd x = Some c \<longrightarrow> c = contents V (p + 6) (fst x))"

text \<open>The blocks from word \<open>p\<close> on; the header before is at \<open>prev\<close> and the header behind at
  \<open>nxt\<close>.\<close>

primrec blocks_at :: "bytes \<Rightarrow> (nat \<Rightarrow> u64) \<Rightarrow> u64 \<Rightarrow> nat \<Rightarrow> block list \<Rightarrow> u64 \<Rightarrow> bool" where
  "blocks_at V P prev p [] nxt \<longleftrightarrow> True"
| "blocks_at V P prev p (x # bs) nxt \<longleftrightarrow>
     block_ok V prev p x (if bs = [] then nxt else P (p + 6 + fst x)) \<and> blocks_at V P (P p) (p + 6 + fst x) bs nxt"

primrec extent :: "block list \<Rightarrow> nat" where
  "extent [] = 0"
| "extent (x # bs) = 6 + fst x + extent bs"

lemma extent_append [simp]: "extent (as @ bs) = extent as + extent bs"
  by (induction as) simp_all

lemma blocks_at_append:
  "blocks_at V P prev p (as @ bs) nxt \<longleftrightarrow>
     blocks_at V P prev p as (if bs = [] then nxt else P (p + extent as)) \<and>
     blocks_at V P (if as = [] then prev else P (p + extent (butlast as))) (p + extent as) bs nxt"
  by (induction as arbitrary: prev p) (auto simp: add.assoc)

lemma contents_upd8:
  assumes "j < a \<or> a + n \<le> j"
  shows "contents (upd8 V j v) a n = contents V a n"
  unfolding contents_def using assms by (intro map_cong) (auto intro!: upd8_byte)

lemma block_ok_upd8:
  assumes "j < p \<or> p + 6 + fst x \<le> j"
  shows "block_ok (upd8 V j v) prev p x nxt = block_ok V prev p x nxt"
  using assms contents_upd8 [of j "p + 6" "fst x" V v] by (auto simp: block_ok_def)

lemma blocks_at_upd8:
  assumes "j < p \<or> p + extent bs \<le> j"
  shows "blocks_at (upd8 V j v) P prev p bs nxt = blocks_at V P prev p bs nxt"
  using assms by (induction bs arbitrary: prev p) (auto simp: block_ok_upd8)

text \<open>The invariant of the heap without and with the merging of free neighbours.\<close>

definition heap_list :: "'z kernel_heap_scheme \<Rightarrow> u64 list \<Rightarrow> u64 list \<Rightarrow> block list \<Rightarrow> bool" where
  "heap_list k xs fs bs \<longleftrightarrow>
     heap_window k xs fs \<and> bs \<noteq> [] \<and> extent bs = 512 * length fs \<and> blocks_at (view k fs) (ptr k) 0 0 bs 0 \<and>
     heap_first k = ptr k 0 \<and> heap_last k = ptr k (extent (butlast bs))"

definition unmerged :: "block \<Rightarrow> block \<Rightarrow> bool" where
  "unmerged x y \<longleftrightarrow> snd x = None \<and> snd y = None"

definition heap_ok :: "'z kernel_heap_scheme \<Rightarrow> u64 list \<Rightarrow> u64 list \<Rightarrow> block list \<Rightarrow> bool" where
  "heap_ok k xs fs bs \<longleftrightarrow> heap_list k xs fs bs \<and> successively (\<lambda>x y. \<not> unmerged x y) bs"

text \<open>The block behind \<open>as\<close>: its header can be read, and its neighbours are known.\<close>

lemma heap_list_focus:
  assumes "heap_list k xs fs (as @ x # cs)" "p = extent as"
  shows "heap_window k xs fs" "p + 6 + fst x + extent cs = 512 * length fs"
    "block_ok (view k fs) (if as = [] then 0 else ptr k (extent (butlast as))) p x (if cs = [] then 0 else ptr k (p + 6 + fst x))"
    "blocks_at (view k fs) (ptr k) 0 0 as (ptr k p)" "blocks_at (view k fs) (ptr k) (ptr k p) (p + 6 + fst x) cs 0"
    "heap_first k = ptr k 0" "heap_last k = ptr k (extent (butlast (as @ x # cs)))"
  using assms by (auto simp: heap_list_def blocks_at_append)

lemma heap_listI:
  assumes "heap_window k xs fs" "p = extent as" "p + extent ys = 512 * length fs" "ys \<noteq> []"
    "blocks_at (view k fs) (ptr k) 0 0 as (ptr k p)"
    "blocks_at (view k fs) (ptr k) (if as = [] then 0 else ptr k (extent (butlast as))) p ys 0"
    "heap_first k = ptr k 0" "heap_last k = ptr k (p + extent (butlast ys))"
  shows "heap_list k xs fs (as @ ys)"
  using assms by (auto simp: heap_list_def blocks_at_append butlast_append)

lemma heap_frames: "heap_window k xs fs \<Longrightarrow> length fs \<le> 16384"
  by (simp add: heap_window_def)

lemmas heap_access = heap_load heap_store heap_put

section \<open>Splitting and merging\<close>

lemma heap_split_correct:
  assumes k: "heap_list k xs fs (as @ (s, None) # cs)" and p: "p = extent as" and a: "even a" "0 < a" "a \<le> s"
  shows "\<exists>k'. heap_split (ptr k p) (bsize a) k = Some k' \<and> heap_base k' = heap_base k \<and>
    heap_list k' xs fs (as @ (if s < a + 8 then [(s, None)] else [(a, None), (s - a - 6, None)]) @ cs)"
proof -
  note f = heap_list_focus [OF k p]
  have len: "length fs \<le> 16384" using heap_frames [OF f(1)] .
  have small: "s < 2 ^ 61" "a + 8 < 2 ^ 61" using f(2) len a by simp_all
  have eq: "bsize a + 48 + 16 = bsize (a + 8)" by (simp add: bsize_def)
  have less: "bsize s < bsize a + 48 + 16 \<longleftrightarrow> s < a + 8" unfolding eq by (rule bsize_less [OF small])
  have load: "load64 k (ptr k (p + 1)) = Some (bsize s)"
    using heap_load [OF f(1)] f(2,3) by (simp add: block_ok_def)
  show ?thesis
  proof (cases "s < a + 8")
    case True
    then show ?thesis using k load less by (simp add: heap_split_def KERNEL_HEAP_ALIGNMENT_def del: bsize_add)
  next
    case False
    note acc = heap_access [where xs = xs and fs = fs]
    have diff: "bsize s - bsize a - 48 = bsize (s - a - 6)" using False by (simp add: bsize_diff)
    show ?thesis
    proof (cases cs)
      case Nil
      show ?thesis using f load less False diff Nil a
        by (simp add: heap_split_def KERNEL_HEAP_ALIGNMENT_def acc block_ok_def Let_def heap_list_def blocks_at_append
            butlast_append blocks_at_upd8 KERNEL_HEAP_FREE_def p [symmetric] add.assoc del: bsize_add)
    next
      case (Cons d ds)
      show ?thesis using f load less False diff Cons a
        by (simp add: heap_split_def KERNEL_HEAP_ALIGNMENT_def acc block_ok_def Let_def heap_list_def blocks_at_append
            butlast_append blocks_at_upd8 contents_upd8 ptr_nonzero [OF f(1)] KERNEL_HEAP_FREE_def p [symmetric] add.assoc del: bsize_add)
    qed
  qed
qed

fun merge_next :: "block list \<Rightarrow> block list" where
  "merge_next ((s, None) # (t, None) # cs) = (s + 6 + t, None) # cs"
| "merge_next bs = bs"

lemma block_free_focus:
  assumes "heap_window k xs fs" "block_ok (view k fs) prev p x nxt" "p + 4 < 512 * length fs" "b = heap_base k"
  shows "heap_block_free k (word_ptr b p) = Some (snd x = None)"
  using assms heap_load [OF assms(1), of "p + 4" b] by (simp add: heap_block_free_def block_ok_def KERNEL_HEAP_FREE_def)

lemma heap_merge_correct:
  assumes k: "heap_list k xs fs (as @ (s, None) # cs)" and p: "p = extent as"
  shows "\<exists>k'. heap_merge_next (ptr k p) k = Some k' \<and> heap_base k' = heap_base k \<and>
    heap_list k' xs fs (as @ merge_next ((s, None) # cs))"
proof -
  note f = heap_list_focus [OF k p]
  note acc = heap_access [where xs = xs and fs = fs]
  have load: "load64 k (ptr k (p + 3)) = Some (if cs = [] then 0 else ptr k (p + 6 + s))"
    using heap_load [OF f(1), of "p + 3"] f(2,3) by (simp add: block_ok_def)
  consider "cs = []" | t c ds where "cs = (t, Some c) # ds" | t ds where "cs = (t, None) # ds"
    by (metis list.exhaust option.exhaust surj_pair)
  then show ?thesis
  proof cases
    case 1
    then show ?thesis using load k by (simp add: heap_merge_next_def)
  next
    case 2
    have "heap_block_free k (ptr k (p + 6 + s)) = Some False"
      using block_free_focus [OF f(1) _ _ refl, of "ptr k p" "p + 6 + s" "(t, Some c)"] f(2,5) 2 by auto
    then show ?thesis using load k 2 ptr_nonzero [OF f(1), of "p + 6 + s"] f(2) by (simp add: heap_merge_next_def)
  next
    case 3
    have free: "heap_block_free k (ptr k (p + 6 + s)) = Some True"
      using block_free_focus [OF f(1) _ _ refl, of "ptr k p" "p + 6 + s" "(t, None)"] f(2,5) 3 by auto
    show ?thesis
    proof (cases ds)
      case Nil
      show ?thesis using f load free 3 Nil
        by (simp add: heap_merge_next_def acc block_ok_def heap_list_def blocks_at_append
            butlast_append blocks_at_upd8 ptr_nonzero [OF f(1)] p [symmetric] add.assoc)
    next
      case (Cons d es)
      show ?thesis using f load free 3 Cons
        by (simp add: heap_merge_next_def acc block_ok_def heap_list_def blocks_at_append
            butlast_append blocks_at_upd8 contents_upd8 ptr_nonzero [OF f(1)] p [symmetric] add.assoc)
    qed
  qed
qed

text \<open>Changing the flag of a block.\<close>

lemma heap_flag_correct:
  assumes k: "heap_list k xs fs (as @ (s, c) # cs)" and p: "p = extent as"
    and v: "v = (if c' = None then 1 else 0)" "\<forall>d. c' = Some d \<longrightarrow> d = contents (view k fs) (p + 6) s"
  shows "store64 k (ptr k (p + 4)) v = Some (hput fs (p + 4) v k)"
    "heap_list (hput fs (p + 4) v k) xs fs (as @ (s, c') # cs)"
proof -
  note f = heap_list_focus [OF k p]
  note acc = heap_access [where xs = xs and fs = fs]
  show "store64 k (ptr k (p + 4)) v = Some (hput fs (p + 4) v k)" using f(1,2) by (simp add: acc)
  show "heap_list (hput fs (p + 4) v k) xs fs (as @ (s, c') # cs)" using f v
    by (simp add: acc block_ok_def heap_list_def blocks_at_append butlast_append blocks_at_upd8 contents_upd8
        p [symmetric] add.assoc)
qed

section \<open>Releasing a block\<close>

definition release_block :: "block list \<Rightarrow> nat \<Rightarrow> block list \<Rightarrow> block list" where
  "release_block as s cs =
     (let ys = merge_next ((s, None) # cs)
      in if as \<noteq> [] \<and> snd (last as) = None then butlast as @ merge_next (last as # ys) else as @ ys)"

lemma merge_next_cases:
  "merge_next ((s, None) # cs) = (s, None) # cs \<and> (cs = [] \<or> snd (hd cs) \<noteq> None) \<or>
   (\<exists>t ds. cs = (t, None) # ds \<and> merge_next ((s, None) # cs) = (s + 6 + t, None) # ds)"
  by (induction "(s, None :: u8 list option) # cs" rule: merge_next.induct) auto

lemma release_merged:
  assumes "successively (\<lambda>x y. \<not> unmerged x y) (as @ (s, Some c) # cs)"
  shows "successively (\<lambda>x y. \<not> unmerged x y) (release_block as s cs)"
proof -
  let ?P = "\<lambda>x y. \<not> unmerged x y"
  have parts: "successively ?P as" "successively ?P cs"
    using assms by (auto simp: successively_append_iff successively_Cons)
  obtain s' ds where ys: "merge_next ((s, None) # cs) = (s', None) # ds" and ds: "successively ?P ds" "ds = [] \<or> snd (hd ds) \<noteq> None"
    using merge_next_cases [of s cs] parts(2) by (auto simp: successively_Cons unmerged_def)
  have tail: "successively ?P ((t, None) # ds)" for t
    using ds by (auto simp: successively_Cons unmerged_def)
  show ?thesis
  proof (cases "as \<noteq> [] \<and> snd (last as) = None")
    case True
    then obtain bs t where as: "as = bs @ [(t, None)]" by (metis append_butlast_last_id prod.collapse)
    have "successively ?P bs" "bs = [] \<or> snd (last bs) \<noteq> None"
      using parts(1) as by (auto simp: successively_append_iff unmerged_def)
    then show ?thesis using as ys tail [of "t + 6 + s'"]
      by (auto simp: release_block_def Let_def successively_append_iff unmerged_def)
  next
    case False
    then show ?thesis using parts(1) ys tail [of s']
      by (auto simp: release_block_def Let_def successively_append_iff unmerged_def)
  qed
qed

lemma blocks_even: "blocks_at V P prev p bs nxt \<Longrightarrow> even (extent bs)"
  by (induction bs arbitrary: prev p) (auto simp: block_ok_def)

lemma ptr_aligned:
  assumes "heap_window k xs fs" "even j" "j \<le> 512 * length fs"
  shows "ptr k j AND (KERNEL_HEAP_ALIGNMENT - 1) = 0"
proof -
  have "16 dvd unat (heap_base k)"
    using assms(1) by (auto simp: heap_window_def window_ok_def page_aligned_def intro: dvd_trans [of _ 4096])
  moreover obtain i where "j = 2 * i" using assms(2) by blast
  ultimately have "2 ^ 4 dvd unat (ptr k j)" using unat_ptr [OF assms(1,3)] by simp
  moreover have "KERNEL_HEAP_ALIGNMENT - 1 = BIT 4 - 1" by (simp add: KERNEL_HEAP_ALIGNMENT_def BIT_def)
  ultimately show ?thesis using and_mask_0 [of "ptr k j" 4] by simp
qed

lemma heap_end:
  assumes "heap_window k xs fs"
  shows "heap_base k + heap_mapped_size k = ptr k (512 * length fs)"
  using assms by (simp add: heap_window_def word_ptr_def bsize_def)

lemma kernel_free_correct:
  assumes k: "heap_ok k xs fs (as @ (s, Some c) # cs)" and p: "p = extent as"
  shows "\<exists>k'. kernel_free (ptr k (p + 6)) k = Some k' \<and> heap_base k' = heap_base k \<and>
    heap_ok k' xs fs (release_block as s cs)"
proof -
  have list: "heap_list k xs fs (as @ (s, Some c) # cs)" using k by (simp add: heap_ok_def)
  note f = heap_list_focus [OF list p]
  have s: "0 < s" "p + 6 < 512 * length fs" using f(2,3) by (auto simp: block_ok_def)
  have even: "even (p + 6)" using blocks_even [OF f(4)] p by simp
  have base: "heap_base k + 48 = ptr k 6" and down: "ptr k (p + 6) - 48 = ptr k p" by (simp_all add: word_ptr_def)
  have guards: "ptr k (p + 6) \<noteq> 0" "heap_first k \<noteq> 0" "\<not> ptr k (p + 6) < heap_base k + 48"
    "\<not> heap_base k + heap_mapped_size k \<le> ptr k (p + 6)" "ptr k (p + 6) AND (KERNEL_HEAP_ALIGNMENT - 1) = 0"
    "ptr k (p + 6) - 48 = ptr k p"
    unfolding heap_end [OF f(1)] base word_less_nat_alt word_le_nat_alt
    using s f(6) ptr_nonzero [OF f(1)] ptr_aligned [OF f(1) even] unat_ptr [OF f(1)] down
    by simp_all
  have free: "load64 k (ptr k p) = Some KERNEL_HEAP_MAGIC" "heap_block_free k (ptr k p) = Some False"
    "load64 k (ptr k (p + 4)) = Some 0"
    using heap_load [OF f(1), of p] heap_load [OF f(1), of "p + 4"] block_free_focus [OF f(1,3) _ refl] f(2,3)
    by (auto simp: block_ok_def)
  let ?k = "hput fs (p + 4) 1 k"
  note flag = heap_flag_correct [OF list p, of 1 None, simplified]
  obtain k1 where k1: "heap_merge_next (ptr k p) ?k = Some k1" "heap_base k1 = heap_base k"
    "heap_list k1 xs fs (as @ merge_next ((s, None) # cs))"
    using heap_merge_correct [OF flag(2) p] by auto
  obtain s' ds where ys: "merge_next ((s, None) # cs) = (s', None) # ds" using merge_next_cases [of s cs] by auto
  note list1 = k1(3) [unfolded ys]
  note g = heap_list_focus [OF list1 p]
  define q where "q = extent (butlast as)"
  have "extent (butlast as) \<le> extent as" by (induction as) auto
  then have q: "ptr k q \<noteq> 0" using ptr_nonzero [OF f(1), of q] f(2) p by (simp add: q_def)
  have prev: "load64 k1 (ptr k (p + 2)) = Some (if as = [] then 0 else ptr k q)"
    using heap_load [OF g(1), of "p + 2" "heap_base k"] g(2,3) k1(2) by (simp add: block_ok_def q_def)
  have unfold: "kernel_free (ptr k (p + 6)) k =
      do { merge_previous \<leftarrow> (if as = [] then Some False else heap_block_free k1 (ptr k q));
           if merge_previous then heap_merge_next (ptr k q) k1 else Some k1 }"
    using guards free flag(1) k1(1) prev q by (simp add: kernel_free_def Let_def KERNEL_HEAP_FREE_def)
  have merged: "successively (\<lambda>x y. \<not> unmerged x y) (release_block as s cs)"
    using k by (intro release_merged) (auto simp: heap_ok_def)
  show ?thesis
  proof (cases as rule: rev_cases)
    case Nil
    then show ?thesis using unfold k1 merged ys by (simp add: release_block_def heap_ok_def)
  next
    case (snoc bs x)
    have list2: "heap_list k1 xs fs (bs @ x # (s', None) # ds)" using list1 snoc by simp
    note h = heap_list_focus [OF list2 refl]
    have "heap_block_free k1 (ptr k1 (extent bs)) = Some (snd x = None)"
      by (rule block_free_focus [OF h(1,3) _ refl]) (use h(2) in simp)
    then have unfold': "kernel_free (ptr k (p + 6)) k =
        (if snd x = None then heap_merge_next (ptr k1 (extent bs)) k1 else Some k1)"
      using unfold snoc k1(2) by (simp add: q_def)
    show ?thesis
    proof (cases "snd x = None")
      case True
      then obtain t where x: "x = (t, None)" by (cases x) auto
      show ?thesis using unfold' True snoc ys merged k1(2) heap_merge_correct [OF list2 [unfolded x] refl]
        by (auto simp: release_block_def Let_def heap_ok_def x)
    next
      case False
      then show ?thesis using unfold' snoc ys merged k1 by (auto simp: release_block_def Let_def heap_ok_def)
    qed
  qed
qed

section \<open>Growing the heap\<close>

lemma heap_more:
  assumes "pmm.more k' = pmm.more k"
  shows "heap_base k' = heap_base k" "heap_limit k' = heap_limit k" "heap_mapped_size k' = heap_mapped_size k"
    "heap_first k' = heap_first k" "heap_last k' = heap_last k"
  using assms by (cases k; cases k'; simp)+

text \<open>\<open>k'\<close> has the heap of \<open>k\<close> with the pages \<open>gs\<close> behind it.\<close>

definition heap_grown :: "'z kernel_heap_scheme \<Rightarrow> u64 list \<Rightarrow> 'z kernel_heap_scheme \<Rightarrow> u64 list \<Rightarrow> u64 list \<Rightarrow> bool" where
  "heap_grown k fs k' xs gs \<longleftrightarrow>
     heap_window k' xs (fs @ gs) \<and> view k' fs = view k fs \<and> heap_base k' = heap_base k \<and>
     heap_first k' = heap_first k \<and> heap_last k' = heap_last k"

lemma view_append: "j < 4096 * length fs \<Longrightarrow> view k (fs @ gs) j = view k fs j"
  by (simp add: view_def frame_byte_def nth_append less_mult_imp_div_less mult.commute)

lemma heap_window_kept:
  assumes "heap_window k xs fs" "window_kept k (heap_base k) fs k' ys"
  shows "heap_grown k fs k' ys []"
  using assms heap_more [of k' k] by (simp add: heap_grown_def heap_window_def window_kept_def)

lemma heap_window_mapped:
  assumes k: "heap_window k xs fs" and k': "window_kept k (heap_base k) fs k' ys" "window_ok k' ys (heap_base k) (fs @ [p])"
    and len: "length fs < 16384"
  shows "heap_grown k fs (k'\<lparr>heap_mapped_size := bsize (512 * length fs + 512)\<rparr>) ys [p]"
  using assms heap_more [of k' k] by (simp add: heap_grown_def heap_window_def window_kept_def add.commute)

lemma append_loop_correct:
  assumes "heap_window k xs fs" "length fs = n + i" "n + i + m \<le> 16384"
  shows "\<exists>gs k' ys. append_loop (bsize (512 * n)) (bsize (512 * (i + m))) (bsize (512 * i)) k =
      Some (bsize (512 * (i + length gs)), k') \<and> length gs \<le> m \<and> heap_grown k fs k' ys gs"
  using assms
proof (induction m arbitrary: k xs fs i)
  case 0
  then show ?case
    by (intro exI [of _ "[]"]) (auto simp: append_loop.simps heap_grown_def intro: exI [of _ xs])
next
  case (Suc m)
  let ?b = "heap_base k"
  have w: "window_ok k xs ?b fs" using Suc.prems(1) by (rule heap_window_ok)
  have less: "bsize (512 * i) < bsize (512 * (i + Suc m))" using Suc.prems(3) by (subst bsize_less) auto
  obtain k1 where k1: "kernel_pmm_alloc_page k = Some (case xs of [] \<Rightarrow> 0 | p # _ \<Rightarrow> p, k1)"
    "window_kept k ?b fs k1 (tl xs)" "\<forall>p \<in> set (take 1 xs). loose_frame k1 (tl xs) fs p"
    using window_alloc [OF w] by blast
  have g1: "heap_grown k fs k1 (tl xs) []" by (rule heap_window_kept [OF Suc.prems(1) k1(2)])
  show ?case
  proof (cases xs)
    case Nil
    then have "append_loop (bsize (512 * n)) (bsize (512 * (i + Suc m))) (bsize (512 * i)) k = Some (bsize (512 * i), k1)"
      using less k1(1) by (simp add: append_loop.simps)
    then show ?thesis using g1 by (intro exI [of _ "[]"]) auto
  next
    case (Cons p ps)
    have loose: "loose_frame k1 ps fs p" and w1: "window_ok k1 ps ?b fs" using k1 Cons by (auto simp: window_kept_def)
    have b: "unat ?b + 4096 * (length fs + 1) \<le> 2 ^ 39" using Suc.prems by (simp add: heap_window_def)
    have base1: "heap_base k1 = ?b" using g1 by (simp add: heap_grown_def)
    obtain ok k2 ys where k2: "kernel_map_page (kernel_ptbr k1) (?b + of_nat (4096 * length fs)) p window_flags k1 = Some (ok, k2)"
      "window_kept k1 ?b fs k2 ys" "loose_frame k2 ys fs p" "ok \<longrightarrow> window_ok k2 ys ?b (fs @ [p])"
      using window_map [OF w1 loose b] by blast
    have p0: "p \<noteq> 0" using loose by (simp add: loose_frame_def frame_ok_def)
    have hw1: "heap_window k1 ps fs" using g1 Cons by (simp add: heap_grown_def)
    have va: "heap_base k1 + bsize (512 * n) + bsize (512 * i) = ?b + of_nat (4096 * length fs)"
      using Suc.prems(2) by (simp add: base1 bsize_def algebra_simps)
    have step: "append_loop (bsize (512 * n)) (bsize (512 * (i + Suc m))) (bsize (512 * i)) k =
        (if \<not> ok then do { k \<leftarrow> kernel_pmm_free_page p k2; Some (bsize (512 * i), k) }
         else append_loop (bsize (512 * n)) (bsize (512 * (i + Suc m))) (bsize (512 * i) + KERNEL_PAGE_SIZE)
                (k2\<lparr>heap_mapped_size := bsize (512 * n) + (bsize (512 * i) + KERNEL_PAGE_SIZE)\<rparr>))"
      using less k1(1) Cons p0 k2(1) va
      by (subst append_loop.simps) (simp add: kernel_page_table_root_def window_flags_def del: bsize_add)
    show ?thesis
    proof (cases ok)
      case False
      have "window_ok k2 ys ?b fs" using k2(2) by (simp add: window_kept_def)
      then obtain k3 where k3: "kernel_pmm_free_page p k2 = Some k3" "window_kept k2 ?b fs k3 (p # ys)"
        using window_release [OF _ k2(3)] by blast
      have "window_kept k ?b fs k3 (p # ys)" using k1(2) k2(2) k3(2) by (simp add: window_kept_def)
      then show ?thesis using step False k3(1) heap_window_kept [OF Suc.prems(1)] by (intro exI [of _ "[]"]) auto
    next
      case True
      let ?k = "k2\<lparr>heap_mapped_size := bsize (512 * length fs + 512)\<rparr>"
      have g2: "heap_grown k1 fs ?k ys [p]"
        by (rule heap_window_mapped [OF hw1]) (use k2 True base1 Suc.prems in auto)
      have size: "bsize (512 * i) + KERNEL_PAGE_SIZE = bsize (512 * Suc i)"
        "bsize (512 * n) + bsize (512 * Suc i) = bsize (512 * length fs + 512)"
        using Suc.prems(2) by (simp_all add: bsize_def KERNEL_PAGE_SIZE_def algebra_simps)
      obtain gs k' zs where rec: "append_loop (bsize (512 * n)) (bsize (512 * (Suc i + m))) (bsize (512 * Suc i)) ?k =
          Some (bsize (512 * (Suc i + length gs)), k')" "length gs \<le> m" "heap_grown ?k (fs @ [p]) k' zs gs"
        using Suc.IH [of ?k ys "fs @ [p]" "Suc i"] g2 Suc.prems by (auto simp: heap_grown_def)
      have "view k' fs = view k fs"
      proof
        fix j
        show "view k' fs j = view k fs j"
        proof (cases "j < 4096 * length fs")
          case True
          then have "view k' fs j = view ?k fs j"
            using view_append [of j fs k' "[p]"] view_append [of j fs ?k "[p]"] rec(3) by (simp add: heap_grown_def)
          then show ?thesis using g1 g2 by (simp add: heap_grown_def)
        qed (simp add: view_def)
      qed
      then have "heap_grown k fs k' zs (p # gs)" using rec(3) g1 g2 by (simp add: heap_grown_def)
      then show ?thesis using step True rec(1,2) size by (intro exI [of _ "p # gs"]) auto
    qed
  qed
qed

lemma block_ok_cong:
  assumes "\<And>j. 8 * p \<le> j \<Longrightarrow> j < 8 * (p + 6 + fst x) \<Longrightarrow> V' j = V j"
  shows "block_ok V' prev p x nxt = block_ok V prev p x nxt"
proof -
  have "word8 V' (p + i) = word8 V (p + i)" if "i < 6" for i using that by (intro word8_cong assms) simp_all
  from this [of 0] this [of 1] this [of 2] this [of 3] this [of 4] this [of 5]
  have w: "word8 V' p = word8 V p" "word8 V' (p + 1) = word8 V (p + 1)" "word8 V' (p + 2) = word8 V (p + 2)"
    "word8 V' (p + 3) = word8 V (p + 3)" "word8 V' (p + 4) = word8 V (p + 4)" "word8 V' (p + 5) = word8 V (p + 5)"
    by simp_all
  have "contents V' (p + 6) (fst x) = contents V (p + 6) (fst x)"
    unfolding contents_def by (intro map_cong) (auto intro!: assms)
  then show ?thesis unfolding block_ok_def w by simp
qed

lemma blocks_at_cong:
  "(\<And>j. 8 * p \<le> j \<Longrightarrow> j < 8 * (p + extent bs) \<Longrightarrow> V' j = V j) \<Longrightarrow>
     blocks_at V' P prev p bs nxt = blocks_at V P prev p bs nxt"
proof (induction bs arbitrary: prev p)
  case (Cons x bs)
  have "block_ok V' prev p x n = block_ok V prev p x n" for n by (rule block_ok_cong) (use Cons.prems in simp)
  moreover have "blocks_at V' P q (p + 6 + fst x) bs nxt = blocks_at V P q (p + 6 + fst x) bs nxt" for q
    by (rule Cons.IH) (use Cons.prems in simp)
  ultimately show ?case by simp
qed simp

definition grow_blocks :: "block list \<Rightarrow> nat \<Rightarrow> block list" where
  "grow_blocks bs n =
     (if bs \<noteq> [] \<and> snd (last bs) = None then butlast bs @ [(fst (last bs) + n, None)] else bs @ [(n - 6, None)])"

text \<open>The heap before its first block.\<close>

definition heap_empty :: "'z kernel_heap_scheme \<Rightarrow> u64 list \<Rightarrow> u64 list \<Rightarrow> bool" where
  "heap_empty k xs fs \<longleftrightarrow> heap_window k xs fs \<and> fs = [] \<and> heap_first k = 0 \<and> heap_last k = 0"

lemma append_first_block:
  assumes k: "heap_empty k zs fs" and g: "heap_grown k fs k' xs gs" "gs \<noteq> []"
  shows "\<exists>k''. append_block (bsize (512 * length fs)) (bsize (512 * length gs)) k' = Some k'' \<and> heap_base k'' = heap_base k' \<and>
    heap_list k'' xs (fs @ gs) (grow_blocks [] (512 * length gs))"
proof -
  have fs: "fs = []" and k': "heap_window k' xs gs" "heap_first k' = 0" "heap_last k' = 0"
    using k g by (auto simp: heap_empty_def heap_grown_def)
  note acc = heap_access [where xs = xs and fs = gs]
  have base: "heap_base k' + bsize 0 = ptr k' 0" by (simp add: word_ptr_def bsize_def)
  obtain n where n: "length gs = Suc n" using g(2) by (cases gs) auto
  have size: "bsize (512 * length gs) - 48 = bsize (512 * length gs - 6)" using n by (simp add: bsize_diff)
  have "even (512 * length gs - 6)" using n by simp
  then show ?thesis using k' base n size
    by (simp add: fs append_block_def acc Let_def heap_list_def grow_blocks_def block_ok_def KERNEL_HEAP_FREE_def del: bsize_add)
qed

lemma append_block_correct:
  assumes k: "heap_list k zs fs bs" and g: "heap_grown k fs k' xs gs" "gs \<noteq> []"
  shows "\<exists>k''. append_block (bsize (512 * length fs)) (bsize (512 * length gs)) k' = Some k'' \<and> heap_base k'' = heap_base k' \<and>
    heap_list k'' xs (fs @ gs) (grow_blocks bs (512 * length gs))"
proof -
  obtain as x where bs: "bs = as @ [x]" using k by (metis append_butlast_last_id heap_list_def)
  note f = heap_list_focus [OF k [unfolded bs] refl]
  let ?p = "extent as" and ?n = "512 * length gs" and ?V = "view k' (fs @ gs)"
  have w: "heap_window k' xs (fs @ gs)" and base: "heap_base k' = heap_base k"
    and ends: "heap_first k' = heap_first k" "heap_last k' = heap_last k"
    using g(1) by (simp_all add: heap_grown_def)
  have V: "?V j = view k fs j" if "j < 8 * (512 * length fs)" for j
    using view_append [of j fs k' gs] g(1) that by (simp add: heap_grown_def)
  have blocks: "blocks_at ?V (ptr k) 0 0 as (ptr k ?p)"
    using f(2,4) blocks_at_cong [of 0 as ?V "view k fs"] V by simp
  have block: "block_ok ?V (if as = [] then 0 else ptr k (extent (butlast as))) ?p x 0"
    using f(2,3) block_ok_cong [of ?p x ?V "view k fs"] V by simp
  obtain m where m: "length gs = Suc m" using g(2) by (cases gs) auto
  note acc = heap_access [where xs = xs and fs = "fs @ gs"]
  have free: "heap_block_free k' (ptr k ?p) = Some (snd x = None)"
    by (rule block_free_focus [OF w block]) (use f(2) base in simp_all)
  have last: "heap_last k' = ptr k ?p" using ends f(7) by simp
  have nz: "ptr k ?p \<noteq> 0" by (rule ptr_nonzero [OF f(1)]) (use f(2) in simp)
  show ?thesis
  proof (cases "snd x = None")
    case True
    show ?thesis using True free last nz w base blocks block f(2,6) ends m
      by (cases x) (simp add: append_block_def acc heap_list_def grow_blocks_def bs block_ok_def blocks_at_append
          blocks_at_upd8 butlast_append)
  next
    case False
    have size: "bsize ?n - 48 = bsize (?n - 6)" using m by (simp add: bsize_diff)
    have ev: "even (?n - 6)" using m by simp
    have q: "heap_base k + bsize (512 * length fs) = ptr k (?p + 6 + fst x)"
      using f(2) by (simp add: word_ptr_def bsize_def)
    show ?thesis using False free last nz w base blocks block f(2,6) ends m size q ev
      by (cases x) (auto simp: append_block_def acc heap_list_def grow_blocks_def bs block_ok_def blocks_at_append
          blocks_at_upd8 butlast_append contents_upd8 Let_def KERNEL_HEAP_FREE_def add.assoc simp del: bsize_add)
  qed
qed

text \<open>The heap with the blocks \<open>bs\<close>, or the empty heap.\<close>

definition heap_blocks :: "'z kernel_heap_scheme \<Rightarrow> u64 list \<Rightarrow> u64 list \<Rightarrow> block list \<Rightarrow> bool" where
  "heap_blocks k xs fs bs \<longleftrightarrow> (if bs = [] then heap_empty k xs fs else heap_list k xs fs bs)"

definition grown_blocks :: "block list \<Rightarrow> nat \<Rightarrow> block list" where
  "grown_blocks bs n = (if n = 0 then bs else grow_blocks bs (512 * n))"

lemma heap_blocks_window: "heap_blocks k xs fs bs \<Longrightarrow> heap_window k xs fs"
  by (auto simp: heap_blocks_def heap_empty_def heap_list_def split: if_splits)

lemma heap_blocks_kept:
  assumes "heap_blocks k xs fs bs" "heap_grown k fs k' ys []"
  shows "heap_blocks k' ys fs bs"
  using assms by (auto simp: heap_blocks_def heap_empty_def heap_list_def heap_grown_def)

lemma append_blocks_correct:
  assumes "heap_blocks k zs fs bs" "heap_grown k fs k' xs gs" "gs \<noteq> []"
  shows "\<exists>k''. append_block (bsize (512 * length fs)) (bsize (512 * length gs)) k' = Some k'' \<and> heap_base k'' = heap_base k \<and>
    heap_blocks k'' xs (fs @ gs) (grown_blocks bs (length gs))"
proof -
  have "heap_base k' = heap_base k" using assms(2) by (simp add: heap_grown_def)
  moreover have "grow_blocks bs n \<noteq> []" for n by (simp add: grow_blocks_def)
  ultimately show ?thesis
    using append_first_block [OF _ assms(2,3), of zs] append_block_correct [OF _ assms(2,3), of zs bs] assms(1,3)
    by (cases "bs = []") (simp_all add: heap_blocks_def grown_blocks_def)
qed

lemma round_pages:
  assumes "x + 4095 < 2 ^ 64" "x = 8 * a + 48" "w = (of_nat x :: u64)"
  shows "(w + KERNEL_PAGE_MASK) AND NOT KERNEL_PAGE_MASK = bsize (512 * ((a + 517) div 512))"
proof -
  have mask: "KERNEL_PAGE_MASK = 4095" "NOT (4095 :: u64) = MMU_PTE_ADDRESS_MASK"
    using kernel_mask_eq(2) by (simp_all add: page_constants)
  have w: "w + 4095 = of_nat (x + 4095)" by (simp add: assms(3))
  have u: "unat (w + 4095) = x + 4095" unfolding w by (rule unat_of_nat_u64) (use assms(1) in simp)
  have "(x + 4095) div 4096 = (a + 517) div 512"
  proof -
    have "x + 4095 = 8 * (a + 517) + 7" using assms(2) by simp
    then have "(x + 4095) div 8 = a + 517" by simp
    then show ?thesis using div_mult2_eq [of "x + 4095" 8 512] by simp
  qed
  then have "unat ((w + 4095) AND MMU_PTE_ADDRESS_MASK) = 8 * (512 * ((a + 517) div 512))"
    unfolding unat_page_base u by simp
  then have "(w + 4095) AND MMU_PTE_ADDRESS_MASK = of_nat (8 * (512 * ((a + 517) div 512)))"
    by (metis of_nat_unat ucast_id)
  then show ?thesis unfolding mask bsize_def .
qed

lemma heap_append_correct:
  assumes k: "heap_blocks k xs fs bs" and a: "a < 2 ^ 61"
  shows "\<exists>ok k' ys gs. heap_append_pages (bsize a) k = Some (ok, k') \<and> heap_base k' = heap_base k \<and>
    heap_blocks k' ys (fs @ gs) (grown_blocks bs (length gs)) \<and> (ok \<longrightarrow> a + 6 \<le> 512 * length gs)"
proof -
  note w = heap_blocks_window [OF k]
  have fail: ?thesis if "heap_append_pages (bsize a) k = Some (False, k)"
    using that k by (intro exI [of _ False] exI [of _ k] exI [of _ xs] exI [of _ "[]"]) (simp add: grown_blocks_def)
  have max: "KERNEL_SIZE_MAX = UINT64_MAX" "KERNEL_PAGE_MASK = 4095"
    by (simp_all add: KERNEL_SIZE_MAX_def UINT64_MAX_def page_constants)
  show ?thesis
  proof (cases "8 * a + 48 + 4095 < 2 ^ 64")
    case False
    have "bsize a > KERNEL_SIZE_MAX - 48 \<or> bsize a + 48 > KERNEL_SIZE_MAX - KERNEL_PAGE_MASK"
    proof (rule ccontr)
      assume *: "\<not> ?thesis"
      have 1: "unat (bsize a) + unat (48 :: u64) < 2 ^ 64"
        using * unfolding max not_less de_Morgan_disj le_UINT64_MAX_minus by blast
      then have "unat (bsize a + 48) = 8 * a + 48" using unat_bsize [OF a] by (simp add: unat_word_ariths del: bsize_add)
      moreover have "unat (bsize a + 48) + unat (4095 :: u64) < 2 ^ 64"
        using * unfolding max not_less de_Morgan_disj le_UINT64_MAX_minus by blast
      ultimately show "False" using False by simp
    qed
    then show ?thesis by (intro fail) (auto simp: heap_append_pages_def Let_def simp del: bsize_add)
  next
    case True
    define n q where "n = length fs" and "q = (a + 517) div 512"
    have n: "n \<le> 16384" using heap_frames [OF w] by (simp add: n_def)
    have "512 * q \<le> a + 517" unfolding q_def by (rule times_div_less_eq_dividend)
    then have q: "a + 6 \<le> 512 * q" "512 * q < 2 ^ 61" using True by (simp_all add: q_def)
    have limit: "heap_limit k - heap_base k = bsize (512 * 16384)" "heap_mapped_size k = bsize (512 * n)"
      using w by (simp_all add: heap_window_def KERNEL_HEAP_MAX_SIZE_def bsize_def n_def)
    have rest: "bsize (512 * 16384) - bsize (512 * n) = bsize (512 * (16384 - n))"
      using n by (subst bsize_diff) (simp_all add: diff_mult_distrib2)
    have cond: "bsize (512 * n) \<ge> bsize (512 * 16384) \<longleftrightarrow> 16384 \<le> n"
      "bsize (512 * q) > bsize (512 * (16384 - n)) \<longleftrightarrow> 16384 - n < q"
      using n q by (simp_all add: bsize_le bsize_less)
    have u: "unat (bsize a + 48) = 8 * a + 48" using True unat_bsize [OF a] by (simp add: unat_word_ariths del: bsize_add)
    have guard: "\<not> bsize a > KERNEL_SIZE_MAX - 48" "\<not> bsize a + 48 > KERNEL_SIZE_MAX - KERNEL_PAGE_MASK"
      unfolding max not_less le_UINT64_MAX_minus u using True unat_bsize [OF a] by simp_all
    have needed: "(bsize a + 48 + KERNEL_PAGE_MASK) AND NOT KERNEL_PAGE_MASK = bsize (512 * q)"
      unfolding q_def by (rule round_pages [of "8 * a + 48"]) (use True in \<open>simp_all add: bsize_def\<close>)
    have unfold: "heap_append_pages (bsize a) k =
        (if 16384 \<le> n \<or> 16384 - n < q then Some (False, k)
         else do { (added, k) \<leftarrow> append_loop (bsize (512 * n)) (bsize (512 * q)) 0 k;
           if added = 0 then Some (False, k)
           else do { k \<leftarrow> append_block (bsize (512 * n)) added k; Some (added \<ge> bsize (512 * q), k) } })"
      unfolding heap_append_pages_def Let_def needed limit rest cond using guard by simp
    show ?thesis
    proof (cases "16384 \<le> n \<or> 16384 - n < q")
      case True
      then show ?thesis by (intro fail) (simp add: unfold)
    next
      case False
      have bound: "n + 0 + q \<le> 16384" using False by linarith
      obtain gs k1 ys where loop: "append_loop (bsize (512 * n)) (bsize (512 * q)) 0 k = Some (bsize (512 * length gs), k1)"
        "length gs \<le> q" "heap_grown k fs k1 ys gs"
        using append_loop_correct [OF w _ bound] by (auto simp: n_def bsize_def)
      have len: "512 * length gs < 2 ^ 61" using loop(2) q(2) by linarith
      show ?thesis
      proof (cases "gs = []")
        case True
        then have "heap_append_pages (bsize a) k = Some (False, k1)" using unfold False loop(1) by (simp add: bsize_def)
        then show ?thesis using heap_blocks_kept [OF k] loop(3) True
          by (intro exI [of _ False] exI [of _ k1] exI [of _ ys] exI [of _ "[]"]) (simp add: grown_blocks_def heap_grown_def)
      next
        case gs: False
        have "bsize (512 * length gs) \<noteq> 0" using unat_bsize [OF len] gs by auto
        then obtain k2 where "heap_append_pages (bsize a) k = Some (q \<le> length gs, k2)" "heap_base k2 = heap_base k"
          "heap_blocks k2 ys (fs @ gs) (grown_blocks bs (length gs))"
          using unfold False loop(1) append_blocks_correct [OF k loop(3) gs] bsize_le [OF q(2) len] by (auto simp: n_def)
        moreover have "q \<le> length gs \<Longrightarrow> a + 6 \<le> 512 * length gs" using q(1) by linarith
        ultimately show ?thesis by blast
      qed
    qed
  qed
qed

end
