(* ===== verification/Kernel_Malloc.thy ===== *)
theory Kernel_Malloc
  imports Kernel_Heap_Blocks
begin

text \<open>
  Allocation from the kernel heap, the check of its headers, and the sessions of its clients: what
  a client has written into a block is what it reads from it, whatever the others allocate and
  release in between.
\<close>

section \<open>Allocating a block\<close>

definition suitable :: "nat \<Rightarrow> block \<Rightarrow> bool" where
  "suitable a x \<longleftrightarrow> snd x = None \<and> a \<le> fst x"

lemma find_block_correct:
  assumes "heap_list k xs fs (as @ cs)" "a < 2 ^ 61" "as = [] \<Longrightarrow> cs \<noteq> []"
  shows "find_block (bsize a) (if cs = [] then 0 else ptr k (extent as)) k =
    Some (if \<exists>x \<in> set cs. suitable a x then ptr k (extent (as @ takeWhile (\<lambda>x. \<not> suitable a x) cs)) else 0)"
  using assms(1,3)
proof (induction cs arbitrary: as)
  case Nil
  then show ?case by (simp add: find_block.simps)
next
  case (Cons x cs)
  note f = heap_list_focus [OF Cons.prems(1) refl]
  let ?p = "extent as"
  have loads: "load64 k (ptr k ?p) = Some KERNEL_HEAP_MAGIC" "heap_block_free k (ptr k ?p) = Some (snd x = None)"
    "load64 k (ptr k (?p + 1)) = Some (bsize (fst x))"
    "load64 k (ptr k (?p + 3)) = Some (if cs = [] then 0 else ptr k (extent (as @ [x])))"
    using heap_load [OF f(1), of ?p] heap_load [OF f(1), of "?p + 1"] heap_load [OF f(1), of "?p + 3"]
      block_free_focus [OF f(1,3) _ refl] f(2,3) by (simp_all add: block_ok_def add.assoc)
  have "fst x < 2 ^ 61" using f(2) heap_frames [OF f(1)] by simp
  then have le: "bsize a \<le> bsize (fst x) \<longleftrightarrow> a \<le> fst x" using bsize_le assms(2) by blast
  have nz: "ptr k ?p \<noteq> 0" by (rule ptr_nonzero [OF f(1)]) (use f(2) in simp)
  have step: "find_block (bsize a) (ptr k ?p) k =
      (if suitable a x then Some (ptr k ?p) else find_block (bsize a) (if cs = [] then 0 else ptr k (extent (as @ [x]))) k)"
    using nz loads le by (subst find_block.simps) (simp add: suitable_def)
  show ?case
  proof (cases "suitable a x")
    case True
    then show ?thesis using step by simp
  next
    case False
    then show ?thesis using step Cons.IH [of "as @ [x]"] Cons.prems(1) by simp
  qed
qed

lemma split_suitable:
  assumes "\<exists>x \<in> set bs. suitable a x"
  obtains as s cs where "bs = as @ (s, None) # cs" "a \<le> s" "takeWhile (\<lambda>x. \<not> suitable a x) bs = as"
proof -
  let ?as = "takeWhile (\<lambda>x. \<not> suitable a x) bs" and ?ds = "dropWhile (\<lambda>x. \<not> suitable a x) bs"
  have ds: "?ds \<noteq> []" using assms by auto
  have "suitable a (hd ?ds)" using hd_dropWhile [OF ds] by simp
  moreover have "bs = ?as @ hd ?ds # tl ?ds" using ds by simp
  ultimately show ?thesis using that [of ?as "fst (hd ?ds)" "tl ?ds"] by (cases "hd ?ds") (auto simp: suitable_def)
qed

text \<open>The block taken out of \<open>as @ (s, None) # cs\<close>, with whatever contents it has.\<close>

definition take_block :: "nat \<Rightarrow> block list \<Rightarrow> nat \<Rightarrow> block list \<Rightarrow> u8 list \<Rightarrow> block list" where
  "take_block a as s cs c =
     as @ (if s < a + 8 then [(s, Some c)] else [(a, Some c), (s - a - 6, None)]) @ cs"

definition block_taken :: "nat \<Rightarrow> block list \<Rightarrow> u64 \<Rightarrow> u64 \<Rightarrow> block list \<Rightarrow> bool" where
  "block_taken a bs b p bs' \<longleftrightarrow>
     (\<exists>as s cs c. bs = as @ (s, None) # cs \<and> a \<le> s \<and> bs' = take_block a as s cs c \<and> p = word_ptr b (extent as + 6) \<and>
        length c = 8 * (if s < a + 8 then s else a))"

lemma take_block_correct:
  assumes k: "heap_list k xs fs bs" and fit: "\<exists>x \<in> set bs. suitable a x" and a: "a < 2 ^ 61" "even a" "0 < a"
  shows "\<exists>k' bs' p. malloc_loop (bsize a) k = Some (p, k') \<and> heap_base k' = heap_base k \<and> p \<noteq> 0 \<and>
    heap_list k' xs fs bs' \<and> block_taken a bs (heap_base k) p bs'"
proof -
  obtain as s cs where bs: "bs = as @ (s, None) # cs" "a \<le> s" "takeWhile (\<lambda>x. \<not> suitable a x) bs = as"
    using split_suitable [OF fit] .
  have list: "heap_list k xs fs (as @ (s, None) # cs)" using k bs by simp
  let ?p = "extent as"
  note f = heap_list_focus [OF list refl]
  have first: "heap_first k = ptr k 0" "bs \<noteq> []" using k by (simp_all add: heap_list_def)
  have find: "find_block (bsize a) (heap_first k) k = Some (ptr k ?p)"
    using find_block_correct [of k xs fs "[]" bs a] k a(1) fit bs(3) first by simp
  obtain k1 where k1: "heap_split (ptr k ?p) (bsize a) k = Some k1" "heap_base k1 = heap_base k"
    "heap_list k1 xs fs (as @ (if s < a + 8 then [(s, None)] else [(a, None), (s - a - 6, None)]) @ cs)"
    using heap_split_correct [OF list refl a(2,3) bs(2)] by blast
  obtain t ds where ds: "(if s < a + 8 then [(s, None)] else [(a, None), (s - a - 6, None)]) @ cs = (t, None) # ds"
    and t: "t = (if s < a + 8 then s else a)" "ds = (if s < a + 8 then cs else (s - a - 6, None) # cs)" by auto
  note list1 = k1(3) [unfolded ds]
  note g = heap_list_focus [OF list1 refl]
  let ?c = "contents (view k1 fs) (?p + 6) t"
  have flags: "load64 k1 (ptr k (?p + 4)) = Some 1"
    using heap_load [OF g(1), of "?p + 4" "heap_base k"] g(2,3) k1(2) by (simp add: block_ok_def)
  note flag = heap_flag_correct [OF list1 refl, of 0 "Some ?c", simplified, unfolded k1(2)]
  have nz: "ptr k ?p \<noteq> 0" "ptr k (?p + 6) \<noteq> 0" using ptr_nonzero [OF f(1)] f(2) by simp_all
  have "malloc_loop (bsize a) k = Some (ptr k (?p + 6), hput fs (?p + 4) 0 k1)"
    using find nz k1(1) flags flag(1) by (subst malloc_loop.simps) (simp add: KERNEL_HEAP_FREE_def)
  moreover have "as @ (t, Some ?c) # ds = take_block a as s cs ?c" using t by (simp add: take_block_def)
  moreover have "length ?c = 8 * (if s < a + 8 then s else a)" by (simp add: contents_def t)
  ultimately show ?thesis using nz flag(2) k1(2) bs unfolding block_taken_def by fastforce
qed

lemma grown_fit: "a + 6 \<le> 512 * n \<Longrightarrow> \<exists>x \<in> set (grown_blocks bs n). suitable a x"
  by (auto simp: grown_blocks_def grow_blocks_def suitable_def)

lemma malloc_loop_correct:
  assumes k: "heap_list k xs fs bs" and a: "a < 2 ^ 61" "even a" "0 < a"
  shows "\<exists>p k' ys gs bs'. malloc_loop (bsize a) k = Some (p, k') \<and> heap_base k' = heap_base k \<and>
    heap_list k' ys (fs @ gs) bs' \<and>
    (if p = 0 then bs' = grown_blocks bs (length gs) else block_taken a (grown_blocks bs (length gs)) (heap_base k) p bs')"
proof (cases "\<exists>x \<in> set bs. suitable a x")
  case True
  obtain k' bs' p where "malloc_loop (bsize a) k = Some (p, k')" "heap_base k' = heap_base k" "p \<noteq> 0"
    "heap_list k' xs fs bs'" "block_taken a bs (heap_base k) p bs'"
    using take_block_correct [OF k True a] by blast
  then show ?thesis
    by (intro exI [of _ p] exI [of _ k'] exI [of _ xs] exI [of _ "[]"] exI [of _ bs']) (simp add: grown_blocks_def)
next
  case False
  have bs: "bs \<noteq> []" "heap_first k = ptr k 0" using k by (simp_all add: heap_list_def)
  then have find: "find_block (bsize a) (heap_first k) k = Some 0"
    using find_block_correct [of k xs fs "[]" bs a] k a(1) False by auto
  obtain ok k1 ys gs where k1: "heap_append_pages (bsize a) k = Some (ok, k1)" "heap_base k1 = heap_base k"
    "heap_blocks k1 ys (fs @ gs) (grown_blocks bs (length gs))" "ok \<longrightarrow> a + 6 \<le> 512 * length gs"
    using heap_append_correct [of k xs fs bs a] k bs a(1) by (auto simp: heap_blocks_def)
  have list1: "heap_list k1 ys (fs @ gs) (grown_blocks bs (length gs))"
    using k1(3) bs by (auto simp: heap_blocks_def grown_blocks_def grow_blocks_def split: if_splits)
  have step: "malloc_loop (bsize a) k = (if \<not> ok then Some (0, k1) else malloc_loop (bsize a) k1)"
    using find k1(1) by (subst malloc_loop.simps) simp
  show ?thesis
  proof (cases ok)
    case True
    then obtain k' bs' p where "malloc_loop (bsize a) k1 = Some (p, k')" "heap_base k' = heap_base k" "p \<noteq> 0"
      "heap_list k' ys (fs @ gs) bs'" "block_taken a (grown_blocks bs (length gs)) (heap_base k) p bs'"
      using take_block_correct [OF list1 grown_fit a] k1(2,4) by metis
    then show ?thesis using step True by auto
  next
    case False
    then show ?thesis using step k1(2) list1 by auto
  qed
qed

section \<open>The allocated blocks\<close>

text \<open>The payloads of the allocated blocks from word \<open>p\<close> on, with their contents.\<close>

primrec payloads :: "nat \<Rightarrow> block list \<Rightarrow> (nat \<times> u8 list) list" where
  "payloads p [] = []"
| "payloads p (x # bs) = (case snd x of None \<Rightarrow> [] | Some c \<Rightarrow> [(p + 6, c)]) @ payloads (p + 6 + fst x) bs"

lemma payloads_append [simp]: "payloads p (as @ bs) = payloads p as @ payloads (p + extent as) bs"
  by (induction as arbitrary: p) (auto simp: add.assoc)

lemma payloads_grown [simp]: "payloads p (grown_blocks bs n) = payloads p bs"
  by (cases bs rule: rev_cases) (auto simp: grown_blocks_def grow_blocks_def)

lemma payloads_merge: "payloads p (merge_next bs) = payloads p bs"
  by (induction bs rule: merge_next.induct) (simp_all add: add.assoc)

lemma payloads_release:
  "payloads 0 (release_block as s cs) = payloads 0 as @ payloads (extent as + 6 + s) cs"
proof (cases "as \<noteq> [] \<and> snd (last as) = None")
  case True
  then obtain bs t where "as = bs @ [(t, None)]" by (metis append_butlast_last_id prod.collapse)
  then show ?thesis by (simp add: release_block_def Let_def payloads_merge add.assoc)
next
  case False
  then show ?thesis by (auto simp: release_block_def Let_def payloads_merge)
qed

lemma payloads_taken:
  assumes "block_taken a bs b p bs'"
  obtains ps rs q c where "payloads 0 bs = ps @ rs" "payloads 0 bs' = ps @ (q, c) # rs" "p = word_ptr b q" "8 * a \<le> length c"
proof -
  obtain as s cs c where *: "bs = as @ (s, None) # cs" "a \<le> s" "bs' = take_block a as s cs c" "p = word_ptr b (extent as + 6)"
    "length c = 8 * (if s < a + 8 then s else a)" using assms by (auto simp: block_taken_def)
  show ?thesis
    by (rule that [of "payloads 0 as" "payloads (extent as + 6 + s) cs" "extent as + 6" c])
       (use * in \<open>auto simp: take_block_def add.assoc\<close>)
qed

lemma merged_grown:
  "successively (\<lambda>x y. \<not> unmerged x y) bs \<Longrightarrow> successively (\<lambda>x y. \<not> unmerged x y) (grown_blocks bs n)"
  by (cases bs rule: rev_cases) (auto simp: grown_blocks_def grow_blocks_def successively_append_iff unmerged_def)

lemma merged_taken:
  assumes "block_taken a bs b p bs'" "successively (\<lambda>x y. \<not> unmerged x y) bs"
  shows "successively (\<lambda>x y. \<not> unmerged x y) bs'"
  using assms by (auto simp: block_taken_def take_block_def successively_append_iff successively_Cons unmerged_def)

lemma payload_block:
  assumes "(q, c) \<in> set (payloads p bs)"
  obtains as s cs where "bs = as @ (s, Some c) # cs" "q = p + extent as + 6"
proof -
  have "\<exists>as s cs. bs = as @ (s, Some c) # cs \<and> q = p + extent as + 6"
    using assms
  proof (induction bs arbitrary: p)
    case (Cons x bs)
    show ?case
    proof (cases "snd x = Some c \<and> q = p + 6")
      case True
      then show ?thesis by (intro exI [of _ "[]"] exI [of _ "fst x"] exI [of _ bs]) (cases x, auto)
    next
      case False
      then have "(q, c) \<in> set (payloads (p + 6 + fst x) bs)" using Cons.prems by (auto split: option.splits)
      then obtain as s cs where "bs = as @ (s, Some c) # cs" "q = p + 6 + fst x + extent as + 6" using Cons.IH by blast
      then show ?thesis by (intro exI [of _ "x # as"] exI [of _ s] exI [of _ cs]) simp
    qed
  qed simp
  then show ?thesis using that by blast
qed

section \<open>Sizes\<close>

lemma unat_and_not_mask:
  fixes x :: u64
  assumes "n < 64"
  shows "unat (x AND NOT (BIT n - 1)) = 2 ^ n * (unat x div 2 ^ n)"
proof -
  let ?b = "x AND (BIT n - 1)"
  have "(x AND NOT (BIT n - 1)) + ?b = (x AND NOT (BIT n - 1)) OR ?b"
    by (rule disjunctive_add_eq_or, rule bit_word_eqI) (auto simp: bit_simps)
  also have "\<dots> = x" by (rule bit_word_eqI) (auto simp: bit_simps)
  finally have "x AND NOT (BIT n - 1) = x - ?b" by (simp add: eq_diff_eq)
  moreover have b: "unat ?b = unat x mod 2 ^ n" by (rule unat_and_mask)
  then have "?b \<le> x" by (simp add: word_le_nat_alt)
  ultimately have "unat (x AND NOT (BIT n - 1)) = unat x - unat x mod 2 ^ n" using b by (simp add: unat_sub)
  then show ?thesis by (simp add: minus_mod_eq_mult_div)
qed

lemma heap_align_size_correct:
  assumes "heap_align_size sz = Some w"
  obtains a where "w = bsize a" "a < 2 ^ 61" "even a" "0 < a" "unat sz \<le> 8 * a" "0 < unat sz"
proof -
  have mask: "KERNEL_HEAP_ALIGNMENT - 1 = BIT 4 - 1" by (simp add: KERNEL_HEAP_ALIGNMENT_def BIT_def)
  have sz: "sz \<noteq> 0" "unat sz + 15 < 2 ^ 64" and w: "w = (sz + 15) AND NOT (BIT 4 - 1)"
    using assms le_UINT64_MAX_minus [of sz 15]
    by (auto simp: heap_align_size_def mask KERNEL_SIZE_MAX_def UINT64_MAX_def KERNEL_HEAP_ALIGNMENT_def not_less BIT_def split: if_splits)
  have pos: "0 < unat sz" using sz(1) by (simp add: unat_gt_0)
  have u: "unat (sz + 15) = unat sz + 15" using sz(2) by (simp add: unat_word_ariths)
  define a where "a = 2 * ((unat sz + 15) div 16)"
  have "unat w = 8 * a" unfolding w unat_and_not_mask [of 4, simplified] u a_def by simp
  moreover have a: "a < 2 ^ 61" "0 < a" "unat sz \<le> 8 * a" using sz(2) pos unfolding a_def by auto
  ultimately have "w = bsize a" unfolding word_unat_eq_iff by (simp add: unat_bsize)
  then show ?thesis using that a pos by (simp add: a_def)
qed

section \<open>Allocation\<close>

definition heap_good :: "'z kernel_heap_scheme \<Rightarrow> u64 list \<Rightarrow> u64 list \<Rightarrow> block list \<Rightarrow> bool" where
  "heap_good k xs fs bs \<longleftrightarrow> heap_blocks k xs fs bs \<and> successively (\<lambda>x y. \<not> unmerged x y) bs"

lemma heap_good_ok: "bs \<noteq> [] \<Longrightarrow> heap_good k xs fs bs \<longleftrightarrow> heap_ok k xs fs bs"
  by (simp add: heap_good_def heap_ok_def heap_blocks_def)

lemma heap_good_first: "heap_good k xs fs bs \<Longrightarrow> heap_first k = 0 \<longleftrightarrow> bs = []"
  using ptr_nonzero [of k xs fs 0]
  by (auto simp: heap_good_def heap_blocks_def heap_empty_def heap_list_def split: if_splits)

lemma kernel_malloc_correct:
  assumes k: "heap_good k xs fs bs"
  shows "\<exists>p k' ys gs bs'. kernel_malloc sz k = Some (p, k') \<and> heap_base k' = heap_base k \<and> heap_good k' ys gs bs' \<and>
    (if p = 0 then payloads 0 bs' = payloads 0 bs
     else \<exists>ps rs q c. payloads 0 bs = ps @ rs \<and> payloads 0 bs' = ps @ (q, c) # rs \<and> p = ptr k q \<and>
       0 < unat sz \<and> unat sz \<le> length c)"
proof (cases "heap_align_size sz = None \<or> heap_first k = 0")
  case True
  then have "kernel_malloc sz k = Some (0, k)" by (auto simp: kernel_malloc_def split: option.split)
  then show ?thesis using k by (intro exI [of _ 0] exI [of _ k]) auto
next
  case False
  then obtain w where w: "heap_align_size sz = Some w" by auto
  obtain a where a: "w = bsize a" "a < 2 ^ 61" "even a" "0 < a" "unat sz \<le> 8 * a" "0 < unat sz"
    using heap_align_size_correct [OF w] .
  have bs: "bs \<noteq> []" using heap_good_first [OF k] False by simp
  then have list: "heap_list k xs fs bs" and merged: "successively (\<lambda>x y. \<not> unmerged x y) bs"
    using k by (simp_all add: heap_good_def heap_blocks_def)
  obtain p k' ys gs bs' where m: "malloc_loop (bsize a) k = Some (p, k')" "heap_base k' = heap_base k"
    "heap_list k' ys (fs @ gs) bs'"
    "if p = 0 then bs' = grown_blocks bs (length gs) else block_taken a (grown_blocks bs (length gs)) (heap_base k) p bs'"
    using malloc_loop_correct [OF list a(2-4)] by blast
  have call: "kernel_malloc sz k = Some (p, k')" using False w a(1) m(1) by (simp add: kernel_malloc_def)
  have "successively (\<lambda>x y. \<not> unmerged x y) bs'"
    using m(4) merged_grown [OF merged] merged_taken by (auto split: if_splits)
  moreover have "bs' \<noteq> []" using m(3) by (simp add: heap_list_def)
  ultimately have good: "heap_good k' ys (fs @ gs) bs'" using m(3) by (simp add: heap_good_def heap_blocks_def)
  show ?thesis
  proof (cases "p = 0")
    case True
    then show ?thesis using call m(2,4) good
      by (intro exI [of _ p] exI [of _ k'] exI [of _ ys] exI [of _ "fs @ gs"] exI [of _ bs']) simp
  next
    case False
    then obtain ps rs q c where b: "payloads 0 bs = ps @ rs" "payloads 0 bs' = ps @ (q, c) # rs" "p = ptr k q" "8 * a \<le> length c"
      using m(4) payloads_taken [of a "grown_blocks bs (length gs)" "heap_base k" p bs'] by (metis payloads_grown)
    then have "unat sz \<le> length c" using a(5) by simp
    then have "\<exists>ps rs q c. payloads 0 bs = ps @ rs \<and> payloads 0 bs' = ps @ (q, c) # rs \<and> p = ptr k q \<and>
        0 < unat sz \<and> unat sz \<le> length c" using a(6) b by blast
    then show ?thesis using call m(2) good False
      by (intro exI [of _ p] exI [of _ k'] exI [of _ ys] exI [of _ "fs @ gs"] exI [of _ bs']) simp
  qed
qed

section \<open>Release\<close>

text \<open>The payloads lie behind each other and hold the bytes of the window.\<close>

lemma payload_bytes:
  assumes "blocks_at V P prev p bs nxt" "(q, c) \<in> set (payloads p bs)"
  shows "p + 6 \<le> q" "8 * q + length c \<le> 8 * (p + extent bs)" "c = map V [8 * q..<8 * q + length c]" "8 dvd length c" "even p \<Longrightarrow> even q"
proof -
  have "p + 6 \<le> q \<and> 8 * q + length c \<le> 8 * (p + extent bs) \<and> c = map V [8 * q..<8 * q + length c] \<and> 8 dvd length c \<and> (even p \<longrightarrow> even q)"
    using assms
  proof (induction bs arbitrary: p prev)
    case (Cons x bs)
    show ?case
    proof (cases "snd x = Some c \<and> q = p + 6")
      case True
      then have "c = contents V (p + 6) (fst x)" using Cons.prems(1) by (simp add: block_ok_def)
      then have c: "c = map V [8 * q..<8 * q + 8 * fst x]" "length c = 8 * fst x"
        using True by (simp_all add: contents_def add_mult_distrib2)
      then have "c = map V [8 * q..<8 * q + length c]" by simp
      then show ?thesis using True c(2) by simp
    next
      case False
      then have "(q, c) \<in> set (payloads (p + 6 + fst x) bs)" using Cons.prems(2) by (auto split: option.splits)
      moreover have "blocks_at V P (P p) (p + 6 + fst x) bs nxt" "even (fst x)" using Cons.prems(1) by (simp_all add: block_ok_def)
      ultimately show ?thesis using Cons.IH by fastforce
    qed
  qed simp
  then show "p + 6 \<le> q" "8 * q + length c \<le> 8 * (p + extent bs)" "c = map V [8 * q..<8 * q + length c]" "8 dvd length c"
    "even p \<Longrightarrow> even q" by auto
qed

lemma heap_good_list:
  assumes "heap_good k xs fs bs" "x \<in> set (payloads 0 bs)"
  shows "heap_list k xs fs bs" "heap_ok k xs fs bs" "blocks_at (view k fs) (ptr k) 0 0 bs 0" "extent bs = 512 * length fs"
    "heap_window k xs fs"
proof -
  have "bs \<noteq> []" using assms(2) by auto
  then show "heap_list k xs fs bs" "heap_ok k xs fs bs" "blocks_at (view k fs) (ptr k) 0 0 bs 0" "extent bs = 512 * length fs"
    "heap_window k xs fs" using assms(1) by (simp_all add: heap_good_def heap_blocks_def heap_ok_def heap_list_def)
qed

lemma payload_split:
  assumes k: "heap_good k xs fs bs" and q: "(q, c) \<in> set (payloads 0 bs)"
  obtains as s cs where "bs = as @ (s, Some c) # cs" "q = extent as + 6" "length c = 8 * s" "0 < s"
    "\<forall>(q', c') \<in> set (payloads 0 as). 8 * q' + length c' < 8 * q"
    "\<forall>(q', c') \<in> set (payloads (q + s) cs). 8 * q + length c < 8 * q'"
proof -
  obtain as s cs where bs: "bs = as @ (s, Some c) # cs" "q = extent as + 6" using payload_block [OF q] by auto
  note f = heap_list_focus [OF heap_good_list(1) [OF k q, unfolded bs(1)] refl]
  have c: "length c = 8 * s" "0 < s" using f(3) by (simp_all add: block_ok_def contents_def)
  have "\<forall>(q', c') \<in> set (payloads 0 as). 8 * q' + length c' < 8 * q" using payload_bytes(2) [OF f(4)] bs(2) by fastforce
  moreover have "\<forall>(q', c') \<in> set (payloads (q + s) cs). 8 * q + length c < 8 * q'"
    using payload_bytes(1) [OF f(5)] bs(2) c by fastforce
  ultimately show ?thesis using that bs c by blast
qed

text \<open>Different payloads do not overlap.\<close>

lemma payloads_disjoint:
  assumes k: "heap_good k xs fs bs" and q: "(q, c) \<in> set (payloads 0 bs)" "(q', c') \<in> set (payloads 0 bs)" "(q', c') \<noteq> (q, c)"
  shows "8 * q + length c < 8 * q' \<or> 8 * q' + length c' < 8 * q"
proof -
  obtain as s cs where bs: "bs = as @ (s, Some c) # cs" "q = extent as + 6"
    and before: "\<forall>(q', c') \<in> set (payloads 0 as). 8 * q' + length c' < 8 * q"
    and behind: "\<forall>(q', c') \<in> set (payloads (q + s) cs). 8 * q + length c < 8 * q'"
    using payload_split [OF k q(1)] .
  have "(q', c') \<in> set (payloads 0 as) \<or> (q', c') \<in> set (payloads (q + s) cs)" using q(2,3) bs by auto
  then show ?thesis using before behind by blast
qed

lemma kernel_release_correct:
  assumes k: "heap_good k xs fs bs" and q: "(q, c) \<in> set (payloads 0 bs)"
  shows "\<exists>k' bs'. kernel_free (ptr k q) k = Some k' \<and> heap_base k' = heap_base k \<and> heap_good k' xs fs bs' \<and>
    set (payloads 0 bs') = set (payloads 0 bs) - {(q, c)}"
proof -
  obtain as s cs where bs: "bs = as @ (s, Some c) # cs" "q = extent as + 6"
    and before: "\<forall>(q', c') \<in> set (payloads 0 as). 8 * q' + length c' < 8 * q"
    and behind: "\<forall>(q', c') \<in> set (payloads (q + s) cs). 8 * q + length c < 8 * q'"
    using payload_split [OF k q] .
  obtain k' where k': "kernel_free (ptr k q) k = Some k'" "heap_base k' = heap_base k" "heap_ok k' xs fs (release_block as s cs)"
    using kernel_free_correct [OF heap_good_list(2) [OF k q, unfolded bs(1)] refl] bs(2) by auto
  have "release_block as s cs \<noteq> []" using k'(3) by (simp add: heap_ok_def heap_list_def)
  then have "heap_good k' xs fs (release_block as s cs)" using k'(3) by (simp add: heap_good_ok)
  moreover have "(q, c) \<notin> set (payloads 0 as)" "(q, c) \<notin> set (payloads (q + s) cs)" using before behind by auto
  then have "set (payloads 0 (release_block as s cs)) = set (payloads 0 bs) - {(q, c)}"
    unfolding payloads_release using bs by auto
  ultimately show ?thesis using k' by blast
qed

section \<open>Accesses to a payload\<close>

lemma fits_byte: "j < 4096 * length fs \<Longrightarrow> fits fs j 1"
proof -
  assume "j < 4096 * length fs"
  moreover have "j mod 4096 < 4096" by simp
  ultimately show ?thesis unfolding fits_def by simp
qed

lemma payload_address: "ptr k q + of_nat i = heap_base k + of_nat (8 * q + i)"
  by (simp add: word_ptr_def)

lemma payload_load:
  assumes k: "heap_good k xs fs bs" and q: "(q, c) \<in> set (payloads 0 bs)" and i: "i < length c"
  shows "virtual_load k (ptr k q + of_nat i) 1 = Some (ucast (c ! i))"
proof -
  note f = heap_good_list [OF k q] and b = payload_bytes [OF heap_good_list(3) [OF k q] q]
  have j: "8 * q + i < 4096 * length fs" using b(2) i f(4) by simp
  have "virtual_load k (ptr k q + of_nat i) 1 = Some (ucast (view k fs (8 * q + i)))"
    unfolding payload_address window_load [OF heap_window_ok [OF f(5)] fits_byte [OF j]] by (simp add: assemble_le_1)
  moreover have "c ! i = view k fs (8 * q + i)" using b(3) i by (metis add_diff_cancel_left' length_upt nth_map nth_upt nat_add_left_cancel_less)
  ultimately show ?thesis by simp
qed

lemma heap_put_byte:
  assumes "heap_window k xs fs" "j < 4096 * length fs"
  shows "heap_window (put fs j 1 v k) xs fs" "view (put fs j 1 v k) fs = (view k fs)(j := ucast v)"
  using window_put [OF heap_window_ok [OF assms(1)] fits_byte [OF assms(2)], of v] assms(1)
    view_put [OF heap_window_ok [OF assms(1)] fits_byte [OF assms(2)], of v]
  by (simp_all add: heap_window_def scatter_le_def byte_of_def)

lemma payload_store:
  assumes k: "heap_good k xs fs bs" and q: "(q, c) \<in> set (payloads 0 bs)" and i: "i < length c"
  shows "\<exists>k' bs'. virtual_store k (ptr k q + of_nat i) 1 v = Some k' \<and> heap_base k' = heap_base k \<and> heap_good k' xs fs bs' \<and>
    set (payloads 0 bs') = insert (q, c[i := ucast v]) (set (payloads 0 bs) - {(q, c)})"
proof -
  obtain as s cs where bs: "bs = as @ (s, Some c) # cs" "q = extent as + 6" and c: "length c = 8 * s"
    and before: "\<forall>(q', c') \<in> set (payloads 0 as). 8 * q' + length c' < 8 * q"
    and behind: "\<forall>(q', c') \<in> set (payloads (q + s) cs). 8 * q + length c < 8 * q'"
    using payload_split [OF k q] .
  note f = heap_list_focus [OF heap_good_list(1) [OF k q, unfolded bs(1)] refl]
  let ?j = "8 * q + i" and ?V = "view k fs" and ?p = "extent as" and ?d = "c[i := ucast v]"
  have j: "?j < 4096 * length fs" using f(2) bs(2) i c by simp
  let ?k = "put fs ?j 1 v k"
  have store: "virtual_store k (ptr k q + of_nat i) 1 v = Some ?k"
    unfolding payload_address by (rule window_store [OF heap_window_ok [OF f(1)] fits_byte [OF j]])
  note new = heap_put_byte [OF f(1) j, of v]
  have cc: "c = contents ?V (?p + 6) s" using f(3) by (simp add: block_ok_def)
  have "blocks_at (?V(?j := ucast v)) (ptr k) 0 0 as (ptr k ?p)"
    using f(4) blocks_at_cong [of 0 as "?V(?j := ucast v)" ?V] bs(2) by simp
  moreover have "blocks_at (?V(?j := ucast v)) (ptr k) (ptr k ?p) (?p + 6 + s) cs 0"
    using f(5) blocks_at_cong [of "?p + 6 + s" cs "?V(?j := ucast v)" ?V] bs(2) i c by simp
  moreover have "?d = contents (?V(?j := ucast v)) (?p + 6) s"
    by (rule nth_equalityI) (use cc i c bs(2) in \<open>auto simp: contents_def nth_list_update\<close>)
  moreover have "word8 (?V(?j := ucast v)) (?p + n) = word8 ?V (?p + n)" if "n < 6" for n
    using that bs(2) by (intro word8_cong) simp
  from this [of 0] this [of 1] this [of 2] this [of 3] this [of 4] this [of 5]
  have "word8 (?V(?j := ucast v)) ?p = word8 ?V ?p" "word8 (?V(?j := ucast v)) (?p + 1) = word8 ?V (?p + 1)"
    "word8 (?V(?j := ucast v)) (?p + 2) = word8 ?V (?p + 2)" "word8 (?V(?j := ucast v)) (?p + 3) = word8 ?V (?p + 3)"
    "word8 (?V(?j := ucast v)) (?p + 4) = word8 ?V (?p + 4)" "word8 (?V(?j := ucast v)) (?p + 5) = word8 ?V (?p + 5)"
    by simp_all
  then have "block_ok (?V(?j := ucast v)) prev ?p (s, Some d) nxt \<longleftrightarrow>
      block_ok ?V prev ?p (s, Some c) nxt \<and> d = contents (?V(?j := ucast v)) (?p + 6) s" for prev nxt d
    unfolding block_ok_def using cc by auto
  ultimately have "heap_list ?k xs fs (as @ (s, Some ?d) # cs)"
    using f new by (auto simp: heap_list_def blocks_at_append butlast_append)
  moreover have "successively (\<lambda>x y. \<not> unmerged x y) (as @ (s, Some ?d) # cs)"
    using k bs(1) by (auto simp: heap_good_def successively_append_iff successively_Cons unmerged_def)
  ultimately have "heap_good ?k xs fs (as @ (s, Some ?d) # cs)" by (simp add: heap_good_def heap_blocks_def)
  moreover have "(q, c) \<notin> set (payloads 0 as)" "(q, c) \<notin> set (payloads (q + s) cs)" using before behind by auto
  then have "set (payloads 0 (as @ (s, Some ?d) # cs)) = insert (q, ?d) (set (payloads 0 bs) - {(q, c)})"
    using bs by auto
  ultimately show ?thesis using store by (intro exI [of _ ?k]) auto
qed

lemma zero_bytes_append: "zero_bytes p (is @ js) k = do { k \<leftarrow> zero_bytes p is k; zero_bytes p js k }"
  by (induction "is" arbitrary: k) (auto split: Option.bind_splits)

lemma payload_zero:
  assumes k: "heap_good k xs fs bs" and q: "(q, c) \<in> set (payloads 0 bs)" and n: "n \<le> length c"
  shows "\<exists>k' bs'. zero_bytes (ptr k q) [0..<n] k = Some k' \<and> heap_base k' = heap_base k \<and> heap_good k' xs fs bs' \<and>
    set (payloads 0 bs') = insert (q, replicate n 0 @ drop n c) (set (payloads 0 bs) - {(q, c)})"
  using n
proof (induction n)
  case 0
  then show ?case using k q by (auto intro!: exI [of _ bs])
next
  case (Suc n)
  let ?c = "replicate n 0 @ drop n c"
  obtain k1 bs1 where k1: "zero_bytes (ptr k q) [0..<n] k = Some k1" "heap_base k1 = heap_base k" "heap_good k1 xs fs bs1"
    "set (payloads 0 bs1) = insert (q, ?c) (set (payloads 0 bs) - {(q, c)})"
    using Suc by auto
  have "(q, ?c) \<in> set (payloads 0 bs1)" "n < length ?c" using k1(4) Suc.prems by simp_all
  from payload_store [OF k1(3) this, of 0] obtain k2 bs2 where k2: "virtual_store k1 (ptr k1 q + of_nat n) 1 0 = Some k2"
    "heap_base k2 = heap_base k1" "heap_good k2 xs fs bs2"
    "set (payloads 0 bs2) = insert (q, ?c[n := 0]) (set (payloads 0 bs1) - {(q, ?c)})" by auto
  have "?c[n := 0] = replicate (Suc n) 0 @ drop (Suc n) c"
    using Suc.prems by (auto simp: list_update_append replicate_append_same [symmetric] Cons_nth_drop_Suc [symmetric])
  moreover have "set (payloads 0 bs1) - {(q, ?c)} = set (payloads 0 bs) - {(q, c)} - {(q, ?c)}" using k1(4) by auto
  moreover have "(q, ?c) \<notin> set (payloads 0 bs) - {(q, c)}"
    using payloads_disjoint [OF k q, of q ?c] by auto
  ultimately have "set (payloads 0 bs2) = insert (q, replicate (Suc n) 0 @ drop (Suc n) c) (set (payloads 0 bs) - {(q, c)})"
    using k2(4) by simp
  then show ?case using k1(1,2) k2 by (auto simp: zero_bytes_append)
qed

lemma payloads_above: "(q, c) \<in> set (payloads p bs) \<Longrightarrow> p + 6 \<le> q"
  by (induction bs arbitrary: p) (force split: option.splits)+

lemma payloads_distinct: "distinct (map fst (payloads p bs))"
proof (induction bs arbitrary: p)
  case (Cons x bs)
  have "p + 6 \<notin> set (map fst (payloads (p + 6 + fst x) bs))" using payloads_above by fastforce
  then show ?case using Cons.IH by (simp split: option.split)
qed simp

lemma kernel_malloc_payloads:
  assumes "heap_good k xs fs bs" "kernel_malloc sz k = Some (p, k')"
  obtains ys gs bs' where "heap_base k' = heap_base k" "heap_good k' ys gs bs'" "p = 0" "set (payloads 0 bs') = set (payloads 0 bs)"
  | ys gs bs' q c where "heap_base k' = heap_base k" "heap_good k' ys gs bs'" "p = ptr k q" "p \<noteq> 0"
    "set (payloads 0 bs') = insert (q, c) (set (payloads 0 bs))" "\<forall>d. (q, d) \<notin> set (payloads 0 bs)"
    "0 < unat sz" "unat sz \<le> length c"
proof -
  obtain ys gs bs' where m: "heap_base k' = heap_base k" "heap_good k' ys gs bs'"
    and p: "if p = 0 then payloads 0 bs' = payloads 0 bs
     else \<exists>ps rs q c. payloads 0 bs = ps @ rs \<and> payloads 0 bs' = ps @ (q, c) # rs \<and> p = ptr k q \<and> 0 < unat sz \<and> unat sz \<le> length c"
    using kernel_malloc_correct [OF assms(1), of sz] assms(2) by auto
  show ?thesis
  proof (cases "p = 0")
    case True
    then show ?thesis using m p by (intro that(1) [of ys gs bs']) auto
  next
    case False
    then obtain ps rs q c where b: "payloads 0 bs = ps @ rs" "payloads 0 bs' = ps @ (q, c) # rs" "p = ptr k q" "0 < unat sz" "unat sz \<le> length c"
      using p by auto
    then have "q \<notin> set (map fst (ps @ rs))" using payloads_distinct [of 0 bs'] by auto
    then have "\<forall>d. (q, d) \<notin> set (payloads 0 bs)" using b(1) by force
    then show ?thesis using m b False by (intro that(2) [of ys gs bs' q c]) auto
  qed
qed

lemma kernel_malloc_returns: "heap_good k xs fs bs \<Longrightarrow> \<exists>p k'. kernel_malloc sz k = Some (p, k')"
  using kernel_malloc_correct by blast

lemma kernel_calloc_correct:
  assumes k: "heap_good k xs fs bs"
  shows "\<exists>p k' ys gs bs'. kernel_calloc n sz k = Some (p, k') \<and> heap_base k' = heap_base k \<and> heap_good k' ys gs bs' \<and>
    (if p = 0 then set (payloads 0 bs') = set (payloads 0 bs)
     else \<exists>q c. p = ptr k q \<and> set (payloads 0 bs') = insert (q, replicate (unat (n * sz)) 0 @ c) (set (payloads 0 bs)) \<and>
       (\<forall>d. (q, d) \<notin> set (payloads 0 bs)) \<and> unat (n * sz) = unat n * unat sz \<and> 0 < unat (n * sz))"
proof (cases "n = 0 \<or> sz = 0 \<or> n > KERNEL_SIZE_MAX div sz")
  case True
  then have "kernel_calloc n sz k = Some (0, k)" by (auto simp: kernel_calloc_def)
  then show ?thesis using k by (intro exI [of _ 0] exI [of _ k]) auto
next
  case False
  have "unat n \<le> (2 ^ 64 - 1) div unat sz"
    using False by (simp add: word_le_nat_alt not_less unat_div KERNEL_SIZE_MAX_def UINT64_MAX_unat [unfolded UINT64_MAX_def])
  then have "unat n * unat sz \<le> 2 ^ 64 - 1" using mult_le_mono1 [of "unat n" "(2 ^ 64 - 1) div unat sz" "unat sz"]
    by (meson div_times_less_eq_dividend order_trans)
  then have size: "unat (n * sz) = unat n * unat sz" by (simp add: unat_word_ariths)
  obtain p k1 where m: "kernel_malloc (n * sz) k = Some (p, k1)" using kernel_malloc_returns [OF k] by blast
  from k m show ?thesis
  proof (cases rule: kernel_malloc_payloads)
    case (1 ys gs bs')
    then have "kernel_calloc n sz k = Some (0, k1)" using False m by (simp add: kernel_calloc_def Let_def)
    then show ?thesis using 1 by (intro exI [of _ 0] exI [of _ k1]) auto
  next
    case (2 ys gs bs' q c)
    have q: "(q, c) \<in> set (payloads 0 bs')" using 2(5) by simp
    obtain k2 bs2 where z: "zero_bytes (ptr k1 q) [0..<unat (n * sz)] k1 = Some k2" "heap_base k2 = heap_base k1" "heap_good k2 ys gs bs2"
      "set (payloads 0 bs2) = insert (q, replicate (unat (n * sz)) 0 @ drop (unat (n * sz)) c) (set (payloads 0 bs') - {(q, c)})"
      using payload_zero [OF 2(2) q 2(8)] by blast
    have "kernel_calloc n sz k = Some (p, k2)" using False m z(1) 2(1,3,4) by (simp add: kernel_calloc_def Let_def heap_zero_def)
    moreover have "set (payloads 0 bs') - {(q, c)} = set (payloads 0 bs)" using 2(5,6) by auto
    ultimately show ?thesis using z 2 size by (intro exI [of _ p] exI [of _ k2] exI [of _ ys] exI [of _ gs] exI [of _ bs2]) auto
  qed
qed

section \<open>The check of the headers\<close>

lemma length_extent: "6 * length bs \<le> extent bs"
  by (induction bs) simp_all

lemma size_aligned: "even n \<Longrightarrow> bsize n AND (KERNEL_HEAP_ALIGNMENT - 1) = 0" if "n < 2 ^ 61"
proof -
  assume "even n"
  then have "2 ^ 4 dvd unat (bsize n)" using unat_bsize [OF that] by auto
  moreover have "KERNEL_HEAP_ALIGNMENT - 1 = BIT 4 - 1" by (simp add: KERNEL_HEAP_ALIGNMENT_def BIT_def)
  ultimately show ?thesis using and_mask_0 [of "bsize n" 4] by simp
qed

lemma validate_step:
  assumes k: "heap_list k xs fs (as @ x # cs)" and merged: "successively (\<lambda>x y. \<not> unmerged x y) (as @ x # cs)"
  shows "validate_loop (ptr k (512 * length fs)) (ptr k (extent as)) (ptr k (extent as))
      (if as = [] then 0 else ptr k (extent (butlast as))) (of_nat (length as)) k =
    validate_loop (ptr k (512 * length fs)) (if cs = [] then 0 else ptr k (extent (as @ [x]))) (ptr k (extent (as @ [x])))
      (ptr k (extent as)) (of_nat (length (as @ [x]))) k"
proof -
  note f = heap_list_focus [OF k refl]
  let ?p = "extent as"
  have len: "length fs \<le> 16384" using heap_frames [OF f(1)] .
  have loads: "load64 k (ptr k ?p) = Some KERNEL_HEAP_MAGIC" "heap_block_free k (ptr k ?p) = Some (snd x = None)"
    "load64 k (ptr k (?p + 1)) = Some (bsize (fst x))" "load64 k (ptr k (?p + 5)) = Some 0"
    "load64 k (ptr k (?p + 2)) = Some (if as = [] then 0 else ptr k (extent (butlast as)))"
    "load64 k (ptr k (?p + 3)) = Some (if cs = [] then 0 else ptr k (extent (as @ [x])))"
    using heap_load [OF f(1), of ?p] heap_load [OF f(1), of "?p + 1"] heap_load [OF f(1), of "?p + 2"]
      heap_load [OF f(1), of "?p + 3"] heap_load [OF f(1), of "?p + 5"]
      block_free_focus [OF f(1,3) _ refl] f(2,3) by (simp_all add: block_ok_def add.assoc)
  have small: "fst x < 2 ^ 61" using f(2) len by simp
  have "even (fst x)" using f(3) by (simp add: block_ok_def)
  note al = size_aligned [OF small this]
  have nz: "ptr k ?p \<noteq> 0" "ptr k (?p + 6 + fst x) \<noteq> 0" using ptr_nonzero [OF f(1)] f(2) by simp_all
  have many: "\<not> of_nat (length as) + 1 > heap_mapped_size k div 48"
  proof -
    have "6 * (length as + 1) \<le> 512 * length fs" using f(2) length_extent [of as] by simp
    then have "48 * (length as + 1) \<le> 4096 * length fs" by simp
    then have "length as + 1 \<le> 4096 * length fs div 48" by (simp add: less_eq_div_iff_mult_less_eq)
    moreover have "unat (heap_mapped_size k) = 4096 * length fs"
      using f(1) len unat_bsize [of "512 * length fs"] by (simp add: heap_window_def)
    moreover have "unat (of_nat (length as) + 1 :: u64) = length as + 1"
      using unat_of_nat_u64 [of "length as + 1"] \<open>6 * (length as + 1) \<le> 512 * length fs\<close> len by (simp add: add.commute)
    ultimately show ?thesis by (simp add: word_less_nat_alt unat_div)
  qed
  have inside: "\<not> ptr k (?p + 6) > ptr k (512 * length fs)" "\<not> bsize (fst x) > ptr k (512 * length fs) - ptr k (?p + 6)"
  proof -
    have e: "ptr k (512 * length fs) - ptr k (?p + 6) = bsize (512 * length fs - (?p + 6))"
      using f(2) by (simp add: word_ptr_def bsize_def algebra_simps)
    show "\<not> ptr k (?p + 6) > ptr k (512 * length fs)"
      using f(2) unat_ptr [OF f(1), of "?p + 6"] unat_ptr [OF f(1), of "512 * length fs"] by (simp add: word_less_nat_alt)
    show "\<not> bsize (fst x) > ptr k (512 * length fs) - ptr k (?p + 6)"
      unfolding e using f(2) len by (subst bsize_less) auto
  qed
  have next_free: "(if cs \<noteq> [] \<and> snd x = None then heap_block_free k (ptr k (extent (as @ [x]))) else Some False) = Some False"
  proof (cases cs)
    case (Cons y ds)
    have list: "heap_list k xs fs ((as @ [x]) @ y # ds)" using k Cons by simp
    note g = heap_list_focus [OF list refl]
    have "heap_block_free k (ptr k (extent (as @ [x]))) = Some (snd y = None)"
      by (rule block_free_focus [OF g(1,3) _ refl]) (use g(2) in simp)
    then show ?thesis using merged Cons by (auto simp: successively_append_iff unmerged_def)
  qed simp
  have one: "(of_nat (length (as @ [x])) :: u64) = of_nat (length as) + 1" by simp
  show ?thesis using nz loads al many inside next_free unfolding one
    by (subst validate_loop.simps) (auto simp: Let_def add.assoc)
qed

lemma validate_loop_correct:
  assumes "heap_list k xs fs (as @ cs)" "successively (\<lambda>x y. \<not> unmerged x y) (as @ cs)"
  shows "validate_loop (ptr k (512 * length fs)) (if cs = [] then 0 else ptr k (extent as)) (ptr k (extent as))
      (if as = [] then 0 else ptr k (extent (butlast as))) (of_nat (length as)) k = Some True"
  using assms
proof (induction cs arbitrary: as)
  case Nil
  then show ?case by (subst validate_loop.simps) (auto simp: heap_list_def)
next
  case (Cons x cs)
  then show ?case using validate_step [OF Cons.prems] Cons.IH [of "as @ [x]"] by simp
qed

lemma kernel_heap_validate_correct:
  assumes k: "heap_good k xs fs bs"
  shows "kernel_heap_validate k = Some (heap_first k \<noteq> 0)"
proof (cases "bs = []")
  case True
  then show ?thesis using heap_good_first [OF k] by (simp add: kernel_heap_validate_def)
next
  case False
  then have list: "heap_list k xs fs bs" and merged: "successively (\<lambda>x y. \<not> unmerged x y) bs"
    using k by (simp_all add: heap_good_def heap_blocks_def)
  then have w: "heap_window k xs fs" and e: "extent bs = 512 * length fs" "heap_first k = ptr k 0" "heap_last k = ptr k (extent (butlast bs))"
    by (simp_all add: heap_list_def)
  have "extent (butlast bs) \<le> extent bs" by (induction bs) auto
  then have nz: "heap_first k \<noteq> 0" "heap_last k \<noteq> 0" using e ptr_nonzero [OF w] by simp_all
  have "0 < extent bs" using False by (cases bs) auto
  then have "heap_mapped_size k \<noteq> 0"
    using w e(1) heap_frames [OF w] unat_bsize [of "512 * length fs"] by (auto simp: heap_window_def)
  then show ?thesis
    using validate_loop_correct [of k xs fs "[]" bs] list merged False nz e heap_end [OF w]
    by (simp add: kernel_heap_validate_def ptr_0)
qed

section \<open>Initialisation\<close>

text \<open>The place of the heap behind the direct map, if there is one.\<close>

definition heap_place :: "'z kernel_memory_scheme \<Rightarrow> u64" where
  "heap_place k = (direct_map_base k + direct_map_size k + KERNEL_HEAP_GUARD_SIZE + KERNEL_PAGE_SIZE - 1) AND KERNEL_PTE_ADDRESS_MASK"

lemma heap_place_bounds:
  assumes room: "unat (direct_map_base k) + unat (direct_map_size k) + 0x4201000 \<le> 0x7FFFFFE000"
  shows "unat (direct_map_base k + direct_map_size k) = unat (direct_map_base k) + unat (direct_map_size k)"
    "unat (direct_map_base k) + unat (direct_map_size k) + 0x200000 \<le> unat (heap_place k)"
    "unat (heap_place k) \<le> unat (direct_map_base k) + unat (direct_map_size k) + 0x200FFF"
proof -
  define e where "e = unat (direct_map_base k) + unat (direct_map_size k)"
  have e: "e + 0x4201000 \<le> 0x7FFFFFE000" using room by (simp add: e_def)
  have u1: "unat (direct_map_base k + direct_map_size k) = e" using e by (simp add: unat_word_ariths e_def)
  have sum: "direct_map_base k + direct_map_size k + KERNEL_HEAP_GUARD_SIZE + KERNEL_PAGE_SIZE - 1 =
      direct_map_base k + direct_map_size k + 0x200FFF" by (simp add: KERNEL_PAGE_SIZE_def KERNEL_HEAP_GUARD_SIZE_def)
  have u3: "unat (direct_map_base k + direct_map_size k + 0x200FFF) = e + 0x200FFF"
    unfolding unat_word_ariths(1) [of "direct_map_base k + direct_map_size k"] u1 using e by simp
  have s: "unat (heap_place k) = 4096 * ((e + 0x200FFF) div 4096)"
    unfolding heap_place_def kernel_mask_eq unat_page_base sum u3 ..
  define q m where "q = (e + 0x200FFF) div 4096" and "m = (e + 0x200FFF) mod 4096"
  have "e + 0x200FFF = 4096 * q + m" "m < 4096" by (simp_all add: q_def m_def)
  then have "e + 0x200000 \<le> unat (heap_place k)" "unat (heap_place k) \<le> e + 0x200FFF" unfolding s q_def [symmetric] by linarith+
  then show "unat (direct_map_base k + direct_map_size k) = unat (direct_map_base k) + unat (direct_map_size k)"
    "unat (direct_map_base k) + unat (direct_map_size k) + 0x200000 \<le> unat (heap_place k)"
    "unat (heap_place k) \<le> unat (direct_map_base k) + unat (direct_map_size k) + 0x200FFF" using u1 by (simp_all add: e_def)
qed

lemma heap_place_guards:
  assumes room: "unat (direct_map_base k) + unat (direct_map_size k) + 0x4201000 \<le> 0x7FFFFFE000"
  shows "direct_map_base k \<le> UINT64_MAX - direct_map_size k"
    "direct_map_base k + direct_map_size k \<le> UINT64_MAX - KERNEL_HEAP_GUARD_SIZE - (KERNEL_PAGE_SIZE - 1)"
    "heap_place k < KERNEL_DEMAND_TEST_ADDRESS" "KERNEL_HEAP_MAX_SIZE \<le> KERNEL_DEMAND_TEST_ADDRESS - heap_place k"
proof -
  note b = heap_place_bounds [OF room]
  show "direct_map_base k \<le> UINT64_MAX - direct_map_size k" unfolding le_UINT64_MAX_minus using room by simp
  have end_guard: "UINT64_MAX - KERNEL_HEAP_GUARD_SIZE - (KERNEL_PAGE_SIZE - 1) = UINT64_MAX - 0x200FFF"
    by (simp add: KERNEL_HEAP_GUARD_SIZE_def KERNEL_PAGE_SIZE_def)
  show "direct_map_base k + direct_map_size k \<le> UINT64_MAX - KERNEL_HEAP_GUARD_SIZE - (KERNEL_PAGE_SIZE - 1)"
    unfolding end_guard le_UINT64_MAX_minus b(1) using room by simp
  show less: "heap_place k < KERNEL_DEMAND_TEST_ADDRESS"
    using b(3) room by (simp add: word_less_nat_alt KERNEL_DEMAND_TEST_ADDRESS_def)
  then have "unat (KERNEL_DEMAND_TEST_ADDRESS - heap_place k) = 0x7FFFFFE000 - unat (heap_place k)"
    by (subst unat_sub) (simp_all add: KERNEL_DEMAND_TEST_ADDRESS_def)
  then show "KERNEL_HEAP_MAX_SIZE \<le> KERNEL_DEMAND_TEST_ADDRESS - heap_place k"
    using b(3) room by (simp add: word_le_nat_alt KERNEL_HEAP_MAX_SIZE_def)
qed

lemma kernel_heap_init_correct:
  assumes space: "space_ok k (kernel_ptbr k) xs" "cpu_ptbr k = kernel_ptbr k"
    and room: "unat (direct_map_base k) + unat (direct_map_size k) + 0x4201000 \<le> 0x7FFFFFE000"
  shows "\<exists>ok k' ys fs bs. kernel_heap_init k = Some (ok, k') \<and> heap_good k' ys fs bs \<and> payloads 0 bs = [] \<and>
    (ok \<longrightarrow> (\<exists>x \<in> set bs. suitable 512 x))"
proof -
  let ?s = "heap_place k"
  note s_bounds = heap_place_bounds(2,3) [OF room]
  have guards: "\<not> direct_map_base k > UINT64_MAX - direct_map_size k"
    "\<not> direct_map_base k + direct_map_size k > UINT64_MAX - KERNEL_HEAP_GUARD_SIZE - (KERNEL_PAGE_SIZE - 1)"
    "\<not> ?s \<ge> KERNEL_DEMAND_TEST_ADDRESS" "\<not> KERNEL_HEAP_MAX_SIZE > KERNEL_DEMAND_TEST_ADDRESS - ?s"
    using heap_place_guards [OF room] by simp_all
  let ?k = "k\<lparr>heap_base := ?s, heap_limit := ?s + KERNEL_HEAP_MAX_SIZE, heap_mapped_size := 0, heap_first := 0, heap_last := 0\<rparr>"
  have "page_aligned ?s" unfolding heap_place_def kernel_mask_eq by simp
  then have "window_ok k xs ?s []"
    using space s_bounds room by (simp add: window_ok_def frames_ok_def)
  then have "window_ok ?k xs ?s []" by (rule window_only_pages [of _ _ _ _ "{}"]; simp add: only_pages_def)
  then have "heap_blocks ?k xs [] []"
    using s_bounds room by (simp add: heap_blocks_def heap_empty_def heap_window_def bsize_def)
  from heap_append_correct [OF this, of 512] obtain ok k' ys gs where k': "heap_append_pages (bsize 512) ?k = Some (ok, k')"
    "heap_blocks k' ys gs (grown_blocks [] (length gs))" "ok \<longrightarrow> 518 \<le> 512 * length gs" by auto
  have "kernel_heap_init k = heap_append_pages KERNEL_PAGE_SIZE ?k"
    unfolding kernel_heap_init_def Let_def heap_place_def [symmetric] using guards by simp
  then have "kernel_heap_init k = Some (ok, k')" using k'(1) by (simp add: bsize_def KERNEL_PAGE_SIZE_def)
  moreover have "heap_good k' ys gs (grown_blocks [] (length gs))"
    using k'(2) by (simp add: heap_good_def merged_grown)
  moreover have "ok \<longrightarrow> (\<exists>x \<in> set (grown_blocks [] (length gs)). suitable 512 x)" using k'(3) grown_fit [of 512] by simp
  ultimately show ?thesis by (intro exI [of _ ok] exI [of _ k'] exI [of _ ys] exI [of _ gs]) fastforce
qed

section \<open>Clients of the heap\<close>

text \<open>A client allocates, releases what it has, and stores bytes into what it has. The state of a
  session is the kernel and the bytes the client expects at the pointers it has; it is \<open>None\<close> when an
  operation faults or does not return, and when a pointer is handed out that the client still has.\<close>

datatype heap_request = Malloc u64 | Calloc u64 u64 | Free u64 | Store u64 nat u8

type_synonym 'z heap_session = "'z kernel_heap_scheme \<times> (u64 \<Rightarrow> u8 list option)"

primrec load_bytes :: "'z kernel_heap_scheme \<Rightarrow> u64 \<Rightarrow> nat \<Rightarrow> u8 list option" where
  "load_bytes k p 0 = Some []"
| "load_bytes k p (Suc n) = do { c \<leftarrow> load_bytes k p n; v \<leftarrow> virtual_load k (p + of_nat n) 1; Some (c @ [ucast v]) }"

definition hand_out :: "u64 \<Rightarrow> u8 list \<Rightarrow> 'z heap_session \<Rightarrow> 'z heap_session option" where
  "hand_out p c = (\<lambda>(k, live). if p = 0 then Some (k, live) else if live p \<noteq> None then None else Some (k, live(p \<mapsto> c)))"

fun heap_client :: "heap_request \<Rightarrow> 'z heap_session \<Rightarrow> 'z heap_session option" where
  "heap_client (Malloc sz) (k, live) =
     do { (p, k) \<leftarrow> kernel_malloc sz k;
          c \<leftarrow> (if p = 0 then Some [] else load_bytes k p (unat sz));
          hand_out p c (k, live) }"
| "heap_client (Calloc n sz) (k, live) =
     do { (p, k) \<leftarrow> kernel_calloc n sz k; hand_out p (replicate (unat n * unat sz) 0) (k, live) }"
| "heap_client (Free p) (k, live) =
     (case live p of
        None \<Rightarrow> Some (k, live)
      | Some c \<Rightarrow> do { k \<leftarrow> kernel_free p k; Some (k, live(p := None)) })"
| "heap_client (Store p i v) (k, live) =
     (case live p of
        None \<Rightarrow> Some (k, live)
      | Some c \<Rightarrow>
          if i < length c then do { k \<leftarrow> virtual_store k (p + of_nat i) 1 (ucast v); Some (k, live(p \<mapsto> c[i := v])) }
          else Some (k, live))"

primrec heap_run :: "heap_request list \<Rightarrow> 'z heap_session \<Rightarrow> 'z heap_session option" where
  "heap_run [] s = Some s"
| "heap_run (r # rs) s = do { s \<leftarrow> heap_client r s; heap_run rs s }"

text \<open>What the client expects is in the payloads.\<close>

definition owns :: "u64 \<Rightarrow> (nat \<times> u8 list) set \<Rightarrow> (u64 \<Rightarrow> u8 list option) \<Rightarrow> bool" where
  "owns b S live \<longleftrightarrow>
     (\<forall>p c. live p = Some c \<longrightarrow> (\<exists>q d. p = word_ptr b q \<and> (q, c @ d) \<in> S \<and> 0 < length c))"

lemma owns_add:
  "owns b S live \<Longrightarrow> 0 < length c \<Longrightarrow> owns b (insert (q, c @ d) S) (live(word_ptr b q \<mapsto> c))"
  unfolding owns_def by (auto; blast)

lemma owns_remove: "owns b S live \<Longrightarrow> owns b (S - {(q, d)}) (live(word_ptr b q := None))"
  unfolding owns_def by (auto; blast)

definition session_ok :: "'z heap_session \<Rightarrow> bool" where
  "session_ok = (\<lambda>(k, live). \<exists>xs fs bs. heap_good k xs fs bs \<and> owns (heap_base k) (set (payloads 0 bs)) live)"

lemma load_payload:
  assumes k: "heap_good k xs fs bs" and q: "(q, c) \<in> set (payloads 0 bs)"
  shows "n \<le> length c \<Longrightarrow> load_bytes k (ptr k q) n = Some (take n c)"
proof (induction n)
  case (Suc n)
  have "ucast (ucast b :: u64) = b" for b :: u8 by (rule bit_word_eqI) (simp add: bit_simps)
  then show ?case using Suc payload_load [OF k q, of n] by (simp add: take_Suc_conv_app_nth)
qed simp

lemma payload_inj:
  assumes k: "heap_good k xs fs bs" and q: "(q, c) \<in> set (payloads 0 bs)" "(q', c') \<in> set (payloads 0 bs)" "ptr k q = ptr k q'"
  shows "(q, c) = (q', c')"
proof (rule ccontr)
  assume ne: "(q, c) \<noteq> (q', c')"
  note f = heap_good_list [OF k q(1)]
  have "8 * q \<le> 8 * extent bs" "8 * q' \<le> 8 * extent bs"
    using payload_bytes(2) [OF f(3) q(1)] payload_bytes(2) [OF f(3) q(2)] by simp_all
  then have "q = q'" using ptr_inj [OF f(5)] f(4) q(3) by simp
  then show False using payloads_disjoint [OF k q(1,2)] ne by auto
qed

lemma hand_out_ok:
  assumes k: "heap_good k xs fs bs" and S: "set (payloads 0 bs) = insert (q, c @ d) S" "\<forall>e. (q, e) \<notin> S"
    and c: "0 < length c" and live: "owns (heap_base k) S live" and p: "p = ptr k q" "p \<noteq> 0"
  shows "\<exists>s. hand_out p c (k, live) = Some s \<and> session_ok s"
proof -
  have "live p = None"
  proof (rule ccontr)
    assume "live p \<noteq> None"
    then obtain q' c' d' where *: "p = ptr k q'" "(q', c' @ d') \<in> S" using live unfolding owns_def by fastforce
    have "(q, c @ d) = (q', c' @ d')" by (rule payload_inj [OF k]) (use S(1) * p(1) in auto)
    then show False using S(2) *(2) by auto
  qed
  moreover have "owns (heap_base k) (set (payloads 0 bs)) (live(p \<mapsto> c))"
    unfolding S(1) p(1) by (rule owns_add [OF live c])
  ultimately show ?thesis using k p(2) by (auto simp: hand_out_def session_ok_def)
qed

lemma hand_out_null: "heap_good k xs fs bs \<Longrightarrow> owns (heap_base k) (set (payloads 0 bs)) live \<Longrightarrow>
    \<exists>s. hand_out 0 c (k, live) = Some s \<and> session_ok s"
  by (auto simp: hand_out_def session_ok_def)

lemma client_malloc:
  assumes "session_ok (k, live)"
  shows "\<exists>s. heap_client (Malloc sz) (k, live) = Some s \<and> session_ok s"
proof -
  obtain xs fs bs where k: "heap_good k xs fs bs" and live: "owns (heap_base k) (set (payloads 0 bs)) live"
    using assms by (auto simp: session_ok_def)
  obtain p k' where m: "kernel_malloc sz k = Some (p, k')" using kernel_malloc_returns [OF k] by blast
  from k m show ?thesis
  proof (cases rule: kernel_malloc_payloads)
    case (1 ys gs bs')
    then show ?thesis using m hand_out_null [OF 1(2), of live "[]"] live by simp
  next
    case (2 ys gs bs' q c)
    let ?c = "take (unat sz) c"
    have q: "(q, c) \<in> set (payloads 0 bs')" using 2(5) by simp
    have load: "load_bytes k' p (unat sz) = Some ?c" using load_payload [OF 2(2) q 2(8)] 2(1,3) by simp
    have "\<exists>s. hand_out p ?c (k', live) = Some s \<and> session_ok s"
      by (rule hand_out_ok [OF 2(2), where d = "drop (unat sz) c"]) (use 2 live in auto)
    then show ?thesis using m load 2(4) by simp
  qed
qed

lemma client_calloc:
  assumes "session_ok (k, live)"
  shows "\<exists>s. heap_client (Calloc n sz) (k, live) = Some s \<and> session_ok s"
proof -
  obtain xs fs bs where k: "heap_good k xs fs bs" and live: "owns (heap_base k) (set (payloads 0 bs)) live"
    using assms by (auto simp: session_ok_def)
  obtain p k' ys gs bs' where m: "kernel_calloc n sz k = Some (p, k')" "heap_base k' = heap_base k" "heap_good k' ys gs bs'"
    and p: "if p = 0 then set (payloads 0 bs') = set (payloads 0 bs)
     else \<exists>q c. p = ptr k q \<and> set (payloads 0 bs') = insert (q, replicate (unat (n * sz)) 0 @ c) (set (payloads 0 bs)) \<and>
       (\<forall>d. (q, d) \<notin> set (payloads 0 bs)) \<and> unat (n * sz) = unat n * unat sz \<and> 0 < unat (n * sz)"
    using kernel_calloc_correct [OF k] by blast
  let ?c = "replicate (unat n * unat sz) 0"
  have "\<exists>s. hand_out p ?c (k', live) = Some s \<and> session_ok s"
  proof (cases "p = 0")
    case True
    then show ?thesis using p m live hand_out_null [OF m(3), of live ?c] by simp
  next
    case False
    then obtain q c where q: "p = ptr k q" "set (payloads 0 bs') = insert (q, ?c @ c) (set (payloads 0 bs))"
      "\<forall>d. (q, d) \<notin> set (payloads 0 bs)" "0 < unat n * unat sz" using p by auto
    show ?thesis by (rule hand_out_ok [OF m(3) q(2,3)]) (use q m(2) live False in auto)
  qed
  then show ?thesis using m(1) by simp
qed

lemma client_free:
  assumes "session_ok (k, live)"
  shows "\<exists>s. heap_client (Free p) (k, live) = Some s \<and> session_ok s"
proof (cases "live p")
  case None
  then show ?thesis using assms by simp
next
  case (Some c)
  obtain xs fs bs where k: "heap_good k xs fs bs" and live: "owns (heap_base k) (set (payloads 0 bs)) live"
    using assms by (auto simp: session_ok_def)
  then obtain q d where q: "p = ptr k q" "(q, c @ d) \<in> set (payloads 0 bs)" using Some unfolding owns_def by blast
  obtain k' bs' where k': "kernel_free (ptr k q) k = Some k'" "heap_base k' = heap_base k" "heap_good k' xs fs bs'"
    "set (payloads 0 bs') = set (payloads 0 bs) - {(q, c @ d)}" using kernel_release_correct [OF k q(2)] by blast
  have "owns (heap_base k') (set (payloads 0 bs')) (live(p := None))"
    unfolding k'(2,4) q(1) by (rule owns_remove [OF live])
  then show ?thesis using Some q(1) k'(1,3) by (auto simp: session_ok_def)
qed

lemma client_store:
  assumes "session_ok (k, live)"
  shows "\<exists>s. heap_client (Store p i v) (k, live) = Some s \<and> session_ok s"
proof (cases "live p")
  case None
  then show ?thesis using assms by simp
next
  case (Some c)
  show ?thesis
  proof (cases "i < length c")
    case False
    then show ?thesis using Some assms by simp
  next
    case True
    obtain xs fs bs where k: "heap_good k xs fs bs" and live: "owns (heap_base k) (set (payloads 0 bs)) live"
      using assms by (auto simp: session_ok_def)
    then obtain q d where q: "p = ptr k q" "(q, c @ d) \<in> set (payloads 0 bs)" using Some unfolding owns_def by blast
    have v: "ucast (ucast v :: u64) = v" by (rule bit_word_eqI) (simp add: bit_simps)
    have i: "i < length (c @ d)" using True by simp
    obtain k' bs' where k': "virtual_store k (ptr k q + of_nat i) 1 (ucast v) = Some k'" "heap_base k' = heap_base k"
      "heap_good k' xs fs bs'" "set (payloads 0 bs') = insert (q, c[i := v] @ d) (set (payloads 0 bs) - {(q, c @ d)})"
      using payload_store [OF k q(2) i, of "ucast v"] True v by (auto simp: list_update_append)
    have "owns (heap_base k') (set (payloads 0 bs')) ((live(p := None))(p \<mapsto> c[i := v]))"
      unfolding k'(2,4) q(1) by (rule owns_add [OF owns_remove [OF live]]) (use True in auto)
    then show ?thesis using Some True q(1) k'(1,3) by (auto simp: session_ok_def)
  qed
qed

lemma heap_client_step: "session_ok s \<Longrightarrow> \<exists>s'. heap_client r s = Some s' \<and> session_ok s'"
  using client_malloc client_calloc client_free client_store by (cases r; cases s) simp_all

lemma heap_run_ok: "session_ok s \<Longrightarrow> \<exists>s'. heap_run rs s = Some s' \<and> session_ok s'"
proof (induction rs arbitrary: s)
  case (Cons r rs)
  then show ?case using heap_client_step [OF Cons.prems, of r] by fastforce
qed simp

text \<open>What a session promises: the expected bytes are there, pointers are aligned and apart.\<close>

lemma session_facts:
  assumes "session_ok (k, live)"
  shows "kernel_heap_validate k = Some (heap_first k \<noteq> 0)"
    "live p = Some c \<Longrightarrow> load_bytes k p (length c) = Some c \<and> 16 dvd unat p"
    "live p = Some c \<Longrightarrow> live p' = Some c' \<Longrightarrow> p \<noteq> p' \<Longrightarrow> unat p + length c \<le> unat p' \<or> unat p' + length c' \<le> unat p"
proof -
  obtain xs fs bs where k: "heap_good k xs fs bs" and live: "owns (heap_base k) (set (payloads 0 bs)) live"
    using assms by (auto simp: session_ok_def)
  show "kernel_heap_validate k = Some (heap_first k \<noteq> 0)" by (rule kernel_heap_validate_correct [OF k])
  have payload: "\<exists>q d. p = ptr k q \<and> (q, c @ d) \<in> set (payloads 0 bs) \<and> unat p = unat (heap_base k) + 8 * q" if own: "live p = Some c" for p c
  proof -
    obtain q d where q: "p = ptr k q" "(q, c @ d) \<in> set (payloads 0 bs)" using live own unfolding owns_def by blast
    note f = heap_good_list [OF k q(2)]
    have "8 * q + length (c @ d) \<le> 8 * (512 * length fs)" using payload_bytes(2) [OF f(3) q(2)] f(4) by simp
    then have "q \<le> 512 * length fs" by simp
    from unat_ptr [OF f(5) this] q show ?thesis by auto
  qed
  show "load_bytes k p (length c) = Some c \<and> 16 dvd unat p" if own: "live p = Some c"
  proof -
    obtain q d where q: "p = ptr k q" "(q, c @ d) \<in> set (payloads 0 bs)" "unat p = unat (heap_base k) + 8 * q" using payload [OF own] by blast
    note f = heap_good_list [OF k q(2)]
    have "16 dvd unat (heap_base k)"
      using f(5) by (auto simp: heap_window_def window_ok_def page_aligned_def intro: dvd_trans [of _ 4096])
    moreover have "even q" using payload_bytes(5) [OF f(3) q(2)] by simp
    ultimately show ?thesis using load_payload [OF k q(2), of "length c"] q by auto
  qed
  show "unat p + length c \<le> unat p' \<or> unat p' + length c' \<le> unat p" if *: "live p = Some c" "live p' = Some c'" "p \<noteq> p'"
  proof -
    obtain q d q' d' where q: "p = ptr k q" "(q, c @ d) \<in> set (payloads 0 bs)" "unat p = unat (heap_base k) + 8 * q"
      "p' = ptr k q'" "(q', c' @ d') \<in> set (payloads 0 bs)" "unat p' = unat (heap_base k) + 8 * q'"
      using payload [OF *(1)] payload [OF *(2)] by blast
    have "(q', c' @ d') \<noteq> (q, c @ d)" using *(3) q by auto
    from payloads_disjoint [OF k q(2,5) this] show ?thesis unfolding q(3,6) by auto
  qed
qed

text \<open>
  C26: However its clients allocate, release and store into their blocks, the heap serves every
  request without a fault, hands out no pointer twice, and passes its own check once it has a block.
  Every client reads what it has stored last, or the zeros of \<open>kernel_calloc\<close>, whatever the others
  did in between; the pointers are aligned to 16 bytes and the blocks do not overlap.
\<close>

theorem heap_blocks_keep_contents:
  assumes "space_ok k (kernel_ptbr k) xs" "cpu_ptbr k = kernel_ptbr k"
    and "unat (direct_map_base k) + unat (direct_map_size k) + 0x4201000 \<le> 0x7FFFFFE000"
  shows "\<exists>ok k1. kernel_heap_init k = Some (ok, k1) \<and>
    (\<forall>rs. \<exists>k' live. heap_run rs (k1, Map.empty) = Some (k', live) \<and>
       kernel_heap_validate k' = Some (heap_first k' \<noteq> 0) \<and>
       (\<forall>p c. live p = Some c \<longrightarrow> load_bytes k' p (length c) = Some c \<and> 16 dvd unat p) \<and>
       (\<forall>p c p' c'. live p = Some c \<longrightarrow> live p' = Some c' \<longrightarrow> p \<noteq> p' \<longrightarrow>
          unat p + length c \<le> unat p' \<or> unat p' + length c' \<le> unat p))"
proof -
  obtain ok k1 ys fs bs where init: "kernel_heap_init k = Some (ok, k1)" "heap_good k1 ys fs bs" "payloads 0 bs = []"
    using kernel_heap_init_correct [OF assms] by blast
  have "session_ok (k1, Map.empty)" using init(2) by (auto simp: session_ok_def owns_def)
  then have run: "\<exists>k' live. heap_run rs (k1, Map.empty) = Some (k', live) \<and> session_ok (k', live)" for rs
    using heap_run_ok by fastforce
  show ?thesis
  proof (rule exI [of _ ok], rule exI [of _ k1], rule conjI [OF init(1)], rule allI)
    fix rs
    obtain k' live where "heap_run rs (k1, Map.empty) = Some (k', live)" and s: "session_ok (k', live)" using run by blast
    then show "\<exists>k' live. heap_run rs (k1, Map.empty) = Some (k', live) \<and> kernel_heap_validate k' = Some (heap_first k' \<noteq> 0) \<and>
       (\<forall>p c. live p = Some c \<longrightarrow> load_bytes k' p (length c) = Some c \<and> 16 dvd unat p) \<and>
       (\<forall>p c p' c'. live p = Some c \<longrightarrow> live p' = Some c' \<longrightarrow> p \<noteq> p' \<longrightarrow>
          unat p + length c \<le> unat p' \<or> unat p' + length c' \<le> unat p)"
      using session_facts [OF s] by blast
  qed
qed

text \<open>A kernel with 64 KiB of RAM whose root table is the last page.\<close>

definition sample_heap_map :: cvm_boot_info where
  "sample_heap_map =
     \<lparr>memory_map = [\<lparr>entry_base = 0x1000, entry_length = 0xE000, entry_type = CVM_MEMORY_USABLE\<rparr>], info_ram_size = 0x10000\<rparr>"

definition sample_heap :: kernel_heap where
  "sample_heap =
     \<lparr>memory = \<lparr>ram_data = (\<lambda>_. 0), ram_size = 0x10000\<rparr>, direct_map_base = 0x100000000,
      direct_map_size = 0x10000, pmm_boot_info = None, pmm_memory_map_index = 0, pmm_range_next = 0,
      pmm_range_end = 0, pmm_recycled_head = 0, pmm_free_count = 0, kernel_ptbr = 0xF000, cpu_ptbr = 0xF000, cpu_mmu = 1,
      heap_base = 0, heap_limit = 0, heap_mapped_size = 0, heap_first = 0, heap_last = 0\<rparr>"

abbreviation sample_kernel :: kernel_heap where
  "sample_kernel \<equiv> snd (kernel_pmm_init (Some sample_heap_map) sample_heap)"

lemma sample_kernel_fields:
  "memory sample_kernel = memory sample_heap" "pmm.more sample_kernel = pmm.more sample_heap"
  "direct_map_base sample_kernel = 0x100000000" "direct_map_size sample_kernel = 0x10000"
  by (simp_all add: kernel_pmm_init_def Let_def sample_heap_def split: prod.split)

lemma sample_kernel_space: "\<exists>xs. space_ok sample_kernel 0xF000 xs"
proof -
  let ?xs = "concat (map entry_pages (memory_map sample_heap_map))"
  have "fst (kernel_pmm_init (Some sample_heap_map) sample_heap)" by code_simp
  then have "kernel_pmm_init (Some sample_heap_map) sample_heap = (True, sample_kernel)" by (simp add: prod_eq_iff)
  note init = pmm_init_correct [OF this]
  have pool: "pool sample_kernel ?xs"
    by (rule init(1)) (simp_all add: memory_ok_def ram_wf_def SIZE_MAX_def sample_heap_def sample_heap_map_def memory_map_sorted_def)
  have "frame_ok sample_kernel 0xF000"
    unfolding frame_ok_def sample_kernel_fields by (simp add: sample_heap_def page_aligned_def)
  moreover have "word_at sample_kernel 0xF000 i = 0" for i
    unfolding word_at_def sample_kernel_fields by (rule bit_word_eqI) (simp add: sample_heap_def bit_assemble_le)
  moreover have "0xF000 \<notin> set ?xs"
  proof
    assume "0xF000 \<in> set ?xs"
    then obtain e where "e \<in> set (memory_map sample_heap_map)" and e: "0xF000 \<in> set (entry_pages e)" by auto
    then show False using entry_pages_inside(4) [OF e] by (auto simp: sample_heap_map_def)
  qed
  ultimately show ?thesis using empty_root_space [OF pool] by blast
qed

theorem heap_blocks_keep_contents_witness:
  "\<exists>ok k1 k' live. kernel_heap_init sample_kernel = Some (ok, k1) \<and>
     heap_run [Malloc 100, Calloc 3 40, Store 0x100210030 2 7, Free 0x100210030, Malloc 64] (k1, Map.empty) = Some (k', live) \<and>
     kernel_heap_validate k' = Some (heap_first k' \<noteq> 0)"
proof -
  have root: "kernel_ptbr sample_kernel = 0xF000" "cpu_ptbr sample_kernel = 0xF000"
    using mmu_more [OF sample_kernel_fields(2)] by (simp_all add: sample_heap_def)
  obtain xs where xs: "space_ok sample_kernel (kernel_ptbr sample_kernel) xs" unfolding root using sample_kernel_space by blast
  have room: "unat (direct_map_base sample_kernel) + unat (direct_map_size sample_kernel) + 0x4201000 \<le> 0x7FFFFFE000"
    unfolding sample_kernel_fields by simp
  have "cpu_ptbr sample_kernel = kernel_ptbr sample_kernel" using root by simp
  from heap_blocks_keep_contents [OF xs this room] show ?thesis by blast
qed

end
