(* ===== verification/Invariant_Machine.thy ===== *)
theory Invariant_Machine
  imports Main
begin

text \<open>
  The contract several components share: a deterministic machine whose operations are driven
  by events, with an invariant that every legal event keeps. What follows for any sequence of
  events is proved once here and reached by interpretation. A machine whose events are all
  legal is the special case \<open>invariant_machine\<close>.
\<close>

locale guarded_machine =
  fixes step :: "'e \<Rightarrow> 's \<Rightarrow> 's"
    and inv :: "'s \<Rightarrow> bool"
    and legal :: "'e \<Rightarrow> bool"
  assumes legal_step_inv: "inv s \<Longrightarrow> legal e \<Longrightarrow> inv (step e s)"
begin

lemma legal_run_inv: "inv s \<Longrightarrow> list_all legal es \<Longrightarrow> inv (fold step es s)"
  by (induction es arbitrary: s) (auto intro: legal_step_inv)

text \<open>A field that no legal step changes is the same at the end of every run.\<close>

lemma legal_run_frame:
  assumes "\<And>e s. inv s \<Longrightarrow> legal e \<Longrightarrow> f (step e s) = f s" and "inv s" and "list_all legal es"
  shows "f (fold step es s) = f s"
  using assms(2,3)
proof (induction es arbitrary: s)
  case (Cons e es)
  then show ?case using legal_step_inv assms(1) by simp
qed simp

end

locale invariant_machine =
  fixes step :: "'e \<Rightarrow> 's \<Rightarrow> 's"
    and inv :: "'s \<Rightarrow> bool"
  assumes step_inv: "inv s \<Longrightarrow> inv (step e s)"

sublocale invariant_machine \<subseteq> any: guarded_machine step inv "\<lambda>_. True"
  by unfold_locales (rule step_inv)

context invariant_machine
begin

lemma run_inv: "inv s \<Longrightarrow> inv (fold step es s)"
  by (rule any.legal_run_inv) (simp_all add: list_all_iff)

lemma run_frame:
  "(\<And>e s. inv s \<Longrightarrow> f (step e s) = f s) \<Longrightarrow> inv s \<Longrightarrow> f (fold step es s) = f s"
  by (rule any.legal_run_frame) (simp_all add: list_all_iff)

end

end
