(* ===== verification/Bus.thy ===== *)
theory Bus
  imports Invariant_Machine Ram
begin

text \<open>
  The system bus (\<^verbatim>\<open>src/bus.c\<close>): a table of 64 device mappings, one boot ROM and the RAM.

  Devices are code behind function pointers. A device is a record of four optional callbacks
  (\<open>None\<close> is the null pointer) that act on the RAM, which a device with DMA may
  write, and on a device world \<open>'w\<close>, which holds the state every \<^verbatim>\<open>context\<close> pointer
  reaches, the interrupt router included. The bus is polymorphic in \<open>'w\<close>. The locks of the
  table and of each mapping make an operation atomic and are not part of the record.
\<close>

section \<open>Devices, mappings and the bus\<close>

definition BUS_MAX_DEVICES :: nat where
  "BUS_MAX_DEVICES = 64"

record 'w bus_device =
  dev_read :: "(u64 \<Rightarrow> nat \<Rightarrow> ram \<times> 'w \<Rightarrow> u64 option \<times> ram \<times> 'w) option"
  dev_write :: "(u64 \<Rightarrow> nat \<Rightarrow> u64 \<Rightarrow> ram \<times> 'w \<Rightarrow> bool \<times> ram \<times> 'w) option"
  dev_tick :: "(u64 \<Rightarrow> ram \<times> 'w \<Rightarrow> ram \<times> 'w) option"
  dev_reset :: "(ram \<times> 'w \<Rightarrow> ram \<times> 'w) option"

definition null_device :: "'w bus_device" where
  "null_device = \<lparr>dev_read = None, dev_write = None, dev_tick = None, dev_reset = None\<rparr>"

record 'w bus_mapping =
  map_base :: u64
  map_size :: u64
  map_device :: "'w bus_device"
  present :: bool

definition empty_mapping :: "'w bus_mapping" where
  "empty_mapping = \<lparr>map_base = 0, map_size = 0, map_device = null_device, present = False\<rparr>"

record bus_rom_mapping =
  rom_base :: u64
  rom_size :: u64
  rom_data :: bytes
  rom_present :: bool

definition empty_rom :: bus_rom_mapping where
  "empty_rom = \<lparr>rom_base = 0, rom_size = 0, rom_data = (\<lambda>_. 0), rom_present = False\<rparr>"

record 'w bus =
  bus_ram :: ram
  mappings :: "'w bus_mapping list"
  bus_rom :: bus_rom_mapping
  mapping_count :: nat
  world :: 'w

section \<open>Ranges\<close>

definition range_valid :: "u64 \<Rightarrow> u64 \<Rightarrow> bool" where
  "range_valid base sz \<longleftrightarrow> sz \<noteq> 0 \<and> base \<le> UINT64_MAX - (sz - 1)"

definition ranges_overlap :: "u64 \<Rightarrow> u64 \<Rightarrow> u64 \<Rightarrow> u64 \<Rightarrow> bool" where
  "ranges_overlap first_base first_size second_base second_size \<longleftrightarrow>
     (let first_end = first_base + first_size - 1;
          second_end = second_base + second_size - 1
      in first_base \<le> second_end \<and> second_base \<le> first_end)"

definition mapping_contains :: "'w bus_mapping \<Rightarrow> u64 \<Rightarrow> nat \<Rightarrow> bool" where
  "mapping_contains mapping address width \<longleftrightarrow>
     (if address < map_base mapping then False
      else
        let offset = address - map_base mapping
        in offset < map_size mapping \<and> of_nat width \<le> map_size mapping - offset)"

definition rom_contains :: "bus_rom_mapping \<Rightarrow> u64 \<Rightarrow> nat \<Rightarrow> bool" where
  "rom_contains rom address width \<longleftrightarrow>
     (if \<not> rom_present rom \<or> address < rom_base rom then False
      else
        let offset = address - rom_base rom
        in offset < rom_size rom \<and> of_nat width \<le> rom_size rom - offset)"

definition rom_read :: "bus_rom_mapping \<Rightarrow> u64 \<Rightarrow> nat \<Rightarrow> u64 option" where
  "rom_read rom address width =
     (if width = 0 \<or> width > 8 \<or> \<not> rom_contains rom address width then None
      else
        let offset = unat (address - rom_base rom)
        in Some (assemble_le (\<lambda>i. rom_data rom (offset + i)) width))"

definition lock_mapping_for_address :: "'w bus \<Rightarrow> u64 \<Rightarrow> nat \<Rightarrow> 'w bus_mapping option" where
  "lock_mapping_for_address bus address width =
     find (\<lambda>mapping. present mapping \<and> mapping_contains mapping address width) (mappings bus)"

definition ram_contains :: "ram \<Rightarrow> u64 \<Rightarrow> nat \<Rightarrow> bool" where
  "ram_contains ram address width \<longleftrightarrow>
     (if unat address > SIZE_MAX then False
      else unat address \<le> ram_size ram \<and> width \<le> ram_size ram - unat address)"

section \<open>The mapping table\<close>

definition bus_init :: "ram \<Rightarrow> 'w \<Rightarrow> 'w bus" where
  "bus_init ram w =
     \<lparr>bus_ram = ram, mappings = replicate BUS_MAX_DEVICES empty_mapping, bus_rom = empty_rom,
      mapping_count = 0, world = w\<rparr>"

text \<open>The scan of \<open>bus_map_device\<close>: the first free index, or the failure on an overlap.\<close>

fun find_free_index ::
  "u64 \<Rightarrow> u64 \<Rightarrow> 'w bus_mapping list \<Rightarrow> nat \<Rightarrow> nat \<Rightarrow> nat option" where
  "find_free_index base sz [] i free_index = Some free_index"
| "find_free_index base sz (mapping # rest) i free_index =
     (if \<not> present mapping then
        find_free_index base sz rest (i + 1)
          (if free_index = BUS_MAX_DEVICES then i else free_index)
      else if ranges_overlap base sz (map_base mapping) (map_size mapping) then None
      else find_free_index base sz rest (i + 1) free_index)"

definition bus_map_device :: "'w bus \<Rightarrow> u64 \<Rightarrow> u64 \<Rightarrow> 'w bus_device \<Rightarrow> bool \<times> 'w bus" where
  "bus_map_device bus base sz device =
     (if \<not> range_valid base sz \<or>
         (dev_read device = None \<and> dev_write device = None \<and>
          dev_tick device = None \<and> dev_reset device = None) then (False, bus)
      else if ram_size (bus_ram bus) \<noteq> 0 \<and>
              ranges_overlap base sz 0 (of_nat (ram_size (bus_ram bus))) then (False, bus)
      else if mapping_count bus \<ge> BUS_MAX_DEVICES then (False, bus)
      else if rom_present (bus_rom bus) \<and>
              ranges_overlap base sz (rom_base (bus_rom bus)) (rom_size (bus_rom bus))
           then (False, bus)
      else
        case find_free_index base sz (mappings bus) 0 BUS_MAX_DEVICES of
          None \<Rightarrow> (False, bus)
        | Some free_index \<Rightarrow>
            if free_index = BUS_MAX_DEVICES then (False, bus)
            else
              (True, bus\<lparr>mappings := (mappings bus)
                 [free_index := \<lparr>map_base = base, map_size = sz, map_device = device,
                                 present = True\<rparr>],
               mapping_count := mapping_count bus + 1\<rparr>))"

definition bus_map_rom :: "'w bus \<Rightarrow> u64 \<Rightarrow> bytes \<Rightarrow> nat \<Rightarrow> bool \<times> 'w bus" where
  "bus_map_rom bus base data sz =
     (if sz = 0 \<or> \<not> range_valid base (of_nat sz) \<or>
         (ram_size (bus_ram bus) \<noteq> 0 \<and>
          ranges_overlap base (of_nat sz) 0 (of_nat (ram_size (bus_ram bus)))) then (False, bus)
      else if rom_present (bus_rom bus) then (False, bus)
      else if list_ex (\<lambda>mapping. present mapping \<and>
                ranges_overlap base (of_nat sz) (map_base mapping) (map_size mapping))
                (mappings bus) then (False, bus)
      else (True, bus\<lparr>bus_rom := \<lparr>rom_base = base, rom_size = of_nat sz, rom_data = data,
                                  rom_present = True\<rparr>\<rparr>))"

text \<open>The scan of \<open>bus_unmap_device\<close> for the index of the mapping.\<close>

fun find_mapping :: "u64 \<Rightarrow> u64 \<Rightarrow> 'w bus_mapping list \<Rightarrow> nat \<Rightarrow> nat option" where
  "find_mapping base sz [] i = None"
| "find_mapping base sz (mapping # rest) i =
     (if \<not> present mapping \<or> map_base mapping \<noteq> base \<or> map_size mapping \<noteq> sz
      then find_mapping base sz rest (i + 1) else Some i)"

definition bus_unmap_device :: "'w bus \<Rightarrow> u64 \<Rightarrow> u64 \<Rightarrow> bool \<times> 'w bus" where
  "bus_unmap_device bus base sz =
     (if \<not> range_valid base sz then (False, bus)
      else
        case find_mapping base sz (mappings bus) 0 of
          None \<Rightarrow> (False, bus)
        | Some i \<Rightarrow> (True, bus\<lparr>mappings := (mappings bus)[i := empty_mapping],
                                mapping_count := mapping_count bus - 1\<rparr>))"

section \<open>Accesses\<close>

definition bus_fetch :: "'w bus \<Rightarrow> u64 \<Rightarrow> nat \<Rightarrow> u64 option" where
  "bus_fetch bus address width =
     (if width = 0 \<or> width > 8 then None
      else if ram_contains (bus_ram bus) address width then ram_read (bus_ram bus) address width
      else rom_read (bus_rom bus) address width)"

definition bus_read :: "'w bus \<Rightarrow> u64 \<Rightarrow> nat \<Rightarrow> u64 option \<times> 'w bus" where
  "bus_read bus address width =
     (if width = 0 \<or> width > 8 then (None, bus)
      else
        case lock_mapping_for_address bus address width of
          Some mapping \<Rightarrow>
            (case dev_read (map_device mapping) of
               None \<Rightarrow> (None, bus)
             | Some rd \<Rightarrow>
                 let (result, ram, w) =
                   rd (address - map_base mapping) width (bus_ram bus, world bus)
                 in (result, bus\<lparr>bus_ram := ram, world := w\<rparr>))
        | None \<Rightarrow>
            (case rom_read (bus_rom bus) address width of
               Some value \<Rightarrow> (Some value, bus)
             | None \<Rightarrow>
                 if \<not> ram_contains (bus_ram bus) address width then (None, bus)
                 else (ram_read (bus_ram bus) address width, bus)))"

definition bus_write :: "'w bus \<Rightarrow> u64 \<Rightarrow> nat \<Rightarrow> u64 \<Rightarrow> bool \<times> 'w bus" where
  "bus_write bus address width value =
     (if width = 0 \<or> width > 8 then (False, bus)
      else
        case lock_mapping_for_address bus address width of
          Some mapping \<Rightarrow>
            (case dev_write (map_device mapping) of
               None \<Rightarrow> (False, bus)
             | Some wr \<Rightarrow>
                 let (result, ram, w) =
                   wr (address - map_base mapping) width value (bus_ram bus, world bus)
                 in (result, bus\<lparr>bus_ram := ram, world := w\<rparr>))
        | None \<Rightarrow>
            if rom_contains (bus_rom bus) address width then (False, bus)
            else if \<not> ram_contains (bus_ram bus) address width then (False, bus)
            else
              (case ram_write (bus_ram bus) address width value of
                 None \<Rightarrow> (False, bus)
               | Some ram \<Rightarrow> (True, bus\<lparr>bus_ram := ram\<rparr>)))"

definition bus_compare_exchange64 ::
  "'w bus \<Rightarrow> u64 \<Rightarrow> u64 \<Rightarrow> u64 \<Rightarrow> u64 option \<times> 'w bus" where
  "bus_compare_exchange64 bus address expected desired =
     (if \<not> ram_contains (bus_ram bus) address 8 then (None, bus)
      else
        case ram_compare_exchange64 (bus_ram bus) address expected desired of
          None \<Rightarrow> (None, bus)
        | Some (value, ram) \<Rightarrow> (Some value, bus\<lparr>bus_ram := ram\<rparr>))"

definition bus_exchange64 :: "'w bus \<Rightarrow> u64 \<Rightarrow> u64 \<Rightarrow> u64 option \<times> 'w bus" where
  "bus_exchange64 bus address value =
     (if \<not> ram_contains (bus_ram bus) address 8 then (None, bus)
      else
        case ram_exchange64 (bus_ram bus) address value of
          None \<Rightarrow> (None, bus)
        | Some (value, ram) \<Rightarrow> (Some value, bus\<lparr>bus_ram := ram\<rparr>))"

definition bus_fetch_add64 :: "'w bus \<Rightarrow> u64 \<Rightarrow> u64 \<Rightarrow> u64 option \<times> 'w bus" where
  "bus_fetch_add64 bus address value =
     (if \<not> ram_contains (bus_ram bus) address 8 then (None, bus)
      else
        case ram_fetch_add64 (bus_ram bus) address value of
          None \<Rightarrow> (None, bus)
        | Some (value, ram) \<Rightarrow> (Some value, bus\<lparr>bus_ram := ram\<rparr>))"

definition tick_mapping :: "u64 \<Rightarrow> 'w bus_mapping \<Rightarrow> 'w bus \<Rightarrow> 'w bus" where
  "tick_mapping ticks mapping bus =
     (if \<not> present mapping then bus
      else
        case dev_tick (map_device mapping) of
          None \<Rightarrow> bus
        | Some tick \<Rightarrow>
            let (ram, w) = tick ticks (bus_ram bus, world bus)
            in bus\<lparr>bus_ram := ram, world := w\<rparr>)"

definition bus_tick :: "'w bus \<Rightarrow> u64 \<Rightarrow> 'w bus" where
  "bus_tick bus ticks =
     (if ticks = 0 then bus else fold (tick_mapping ticks) (mappings bus) bus)"

definition reset_mapping :: "'w bus_mapping \<Rightarrow> 'w bus \<Rightarrow> 'w bus" where
  "reset_mapping mapping bus =
     (if \<not> present mapping then bus
      else
        case dev_reset (map_device mapping) of
          None \<Rightarrow> bus
        | Some reset \<Rightarrow>
            let (ram, w) = reset (bus_ram bus, world bus)
            in bus\<lparr>bus_ram := ram, world := w\<rparr>)"

definition bus_reset :: "'w bus \<Rightarrow> 'w bus" where
  "bus_reset bus = fold reset_mapping (mappings bus) bus"

section \<open>Events of the bus\<close>

datatype 'w bus_event =
    Map_Device u64 u64 "'w bus_device"
  | Unmap_Device u64 u64
  | Map_Rom u64 bytes nat
  | Read u64 nat
  | Write u64 nat u64
  | Compare_Exchange u64 u64 u64
  | Exchange u64 u64
  | Fetch_Add u64 u64
  | Tick u64
  | Reset

fun bus_step :: "'w bus_event \<Rightarrow> 'w bus \<Rightarrow> 'w bus" where
  "bus_step (Map_Device base sz device) bus = snd (bus_map_device bus base sz device)"
| "bus_step (Unmap_Device base sz) bus = snd (bus_unmap_device bus base sz)"
| "bus_step (Map_Rom base data sz) bus = snd (bus_map_rom bus base data sz)"
| "bus_step (Read address width) bus = snd (bus_read bus address width)"
| "bus_step (Write address width value) bus = snd (bus_write bus address width value)"
| "bus_step (Compare_Exchange address e d) bus = snd (bus_compare_exchange64 bus address e d)"
| "bus_step (Exchange address value) bus = snd (bus_exchange64 bus address value)"
| "bus_step (Fetch_Add address value) bus = snd (bus_fetch_add64 bus address value)"
| "bus_step (Tick ticks) bus = bus_tick bus ticks"
| "bus_step Reset bus = bus_reset bus"

text \<open>The devices of the repository reach the RAM through its accessors, none of which
  changes its size, and a ROM image is an object of the host, at most \<open>SIZE_MAX\<close> bytes.\<close>

definition device_keeps_size :: "'w bus_device \<Rightarrow> bool" where
  "device_keeps_size d \<longleftrightarrow>
     (\<forall>rd. dev_read d = Some rd \<longrightarrow>
        (\<forall>offset width ram w. ram_size (fst (snd (rd offset width (ram, w)))) = ram_size ram)) \<and>
     (\<forall>wr. dev_write d = Some wr \<longrightarrow>
        (\<forall>offset width v ram w. ram_size (fst (snd (wr offset width v (ram, w)))) = ram_size ram)) \<and>
     (\<forall>tk. dev_tick d = Some tk \<longrightarrow>
        (\<forall>n ram w. ram_size (fst (tk n (ram, w))) = ram_size ram)) \<and>
     (\<forall>rs. dev_reset d = Some rs \<longrightarrow>
        (\<forall>ram w. ram_size (fst (rs (ram, w))) = ram_size ram))"

fun bus_legal :: "'w bus_event \<Rightarrow> bool" where
  "bus_legal (Map_Device base sz device) \<longleftrightarrow> device_keeps_size device"
| "bus_legal (Map_Rom base data sz) \<longleftrightarrow> sz \<le> SIZE_MAX"
| "bus_legal _ \<longleftrightarrow> True"

section \<open>The invariant of the address space\<close>

definition span :: "u64 \<Rightarrow> u64 \<Rightarrow> nat set" where
  "span base sz = {unat base..<unat base + unat sz}"

definition fits :: "u64 \<Rightarrow> u64 \<Rightarrow> bool" where
  "fits base sz \<longleftrightarrow> 0 < unat sz \<and> unat base + unat sz \<le> 2 ^ 64"

abbreviation map_span :: "'w bus_mapping \<Rightarrow> nat set" where
  "map_span m \<equiv> span (map_base m) (map_size m)"

abbreviation rom_span :: "bus_rom_mapping \<Rightarrow> nat set" where
  "rom_span rom \<equiv> span (rom_base rom) (rom_size rom)"

abbreviation ram_span :: "ram \<Rightarrow> nat set" where
  "ram_span ram \<equiv> {0..<ram_size ram}"

definition slots_ok :: "'w bus_mapping list \<Rightarrow> bool" where
  "slots_ok ms \<longleftrightarrow>
     length ms = BUS_MAX_DEVICES \<and>
     (\<forall>m \<in> set ms. if present m then fits (map_base m) (map_size m) \<and> device_keeps_size (map_device m)
                   else m = empty_mapping) \<and>
     (\<forall>i < length ms. \<forall>j < length ms. i \<noteq> j \<longrightarrow> present (ms ! i) \<longrightarrow> present (ms ! j) \<longrightarrow>
        map_span (ms ! i) \<inter> map_span (ms ! j) = {})"

definition bus_ok :: "'w bus \<Rightarrow> bool" where
  "bus_ok b \<longleftrightarrow>
     ram_wf (bus_ram b) \<and> slots_ok (mappings b) \<and>
     mapping_count b = length (filter present (mappings b)) \<and>
     (\<forall>m \<in> set (mappings b). present m \<longrightarrow> map_span m \<inter> ram_span (bus_ram b) = {}) \<and>
     (rom_present (bus_rom b) \<longrightarrow>
        fits (rom_base (bus_rom b)) (rom_size (bus_rom b)) \<and>
        rom_span (bus_rom b) \<inter> ram_span (bus_ram b) = {} \<and>
        (\<forall>m \<in> set (mappings b). present m \<longrightarrow> map_span m \<inter> rom_span (bus_rom b) = {}))"

section \<open>Ranges as intervals\<close>

lemma unat_minus1: "(x :: u64) \<noteq> 0 \<Longrightarrow> unat (x - 1) = unat x - 1"
  using unat_sub [of 1 x] by (simp add: unat_gt_0 word_le_nat_alt Suc_le_eq)

lemma range_valid_iff: "range_valid base sz \<longleftrightarrow> fits base sz"
proof (cases "sz = 0")
  case False
  then have "unat (UINT64_MAX - (sz - 1)) = 2 ^ 64 - 1 - (unat sz - 1)"
    using unat_sub [of "sz - 1" UINT64_MAX] by (simp add: unat_minus1)
  then show ?thesis
    using False unat_u64_bound [of sz] unat_gt_0 [of sz]
    by (auto simp: range_valid_def fits_def word_le_nat_alt simp del: unat_u64_bound)
qed (simp add: range_valid_def fits_def)

lemma unat_last:
  assumes "fits base sz"
  shows "unat (base + sz - 1) = unat base + unat sz - 1"
proof -
  have "sz \<noteq> 0" using assms by (auto simp: fits_def)
  then have "unat (base + (sz - 1)) = unat base + unat (sz - 1)"
    using assms unat_minus1 [of sz] by (intro unat_add_lem [THEN iffD1]) (auto simp: fits_def)
  with \<open>sz \<noteq> 0\<close> assms unat_minus1 [of sz] show ?thesis
    by (simp add: fits_def add_diff_eq)
qed

lemma ranges_overlap_iff:
  assumes "fits b s" "fits c t"
  shows "ranges_overlap b s c t \<longleftrightarrow> span b s \<inter> span c t \<noteq> {}"
proof -
  have "0 < unat s" "0 < unat t" using assms by (auto simp: fits_def)
  then have "span b s \<inter> span c t \<noteq> {} \<longleftrightarrow>
      unat b < unat c + unat t \<and> unat c < unat b + unat s"
    by (auto simp: span_def)
  with \<open>0 < unat s\<close> \<open>0 < unat t\<close> show ?thesis
    unfolding ranges_overlap_def Let_def word_le_nat_alt unat_last [OF assms(1)]
      unat_last [OF assms(2)] by linarith
qed

lemma window_iff:
  assumes "fits base sz" "0 < width" "width \<le> 8"
  shows "\<not> address < base \<and> address - base < sz \<and> of_nat width \<le> sz - (address - base) \<longleftrightarrow>
    {unat address..<unat address + width} \<subseteq> span base sz"
proof (cases "unat base \<le> unat address")
  case True
  then have d: "unat (address - base) = unat address - unat base"
    by (simp add: unat_sub word_le_nat_alt)
  have w: "unat (of_nat width :: u64) = width"
    using assms(3) by (simp add: unat_of_nat take_bit_eq_mod)
  show ?thesis
  proof (cases "unat address - unat base < unat sz")
    case lt: True
    then have "unat (sz - (address - base)) = unat sz - (unat address - unat base)"
      by (simp add: unat_sub word_le_nat_alt d)
    with True lt d w assms(2) show ?thesis
      by (auto simp: word_le_nat_alt word_less_nat_alt span_def)
  qed (use True d assms(2) in \<open>auto simp: word_less_nat_alt span_def\<close>)
qed (use assms(2) in \<open>auto simp: word_less_nat_alt span_def\<close>)

lemma mapping_contains_iff:
  assumes "fits (map_base m) (map_size m)" "0 < width" "width \<le> 8"
  shows "mapping_contains m address width \<longleftrightarrow> {unat address..<unat address + width} \<subseteq> map_span m"
  using window_iff [OF assms, of address] by (auto simp: mapping_contains_def Let_def)

lemma rom_contains_iff:
  assumes "rom_present rom \<Longrightarrow> fits (rom_base rom) (rom_size rom)" "0 < width" "width \<le> 8"
  shows "rom_contains rom address width \<longleftrightarrow>
    rom_present rom \<and> {unat address..<unat address + width} \<subseteq> rom_span rom"
  using window_iff [OF assms(1) assms(2,3), of address] by (auto simp: rom_contains_def Let_def)

lemma ram_contains_iff:
  "0 < width \<Longrightarrow> ram_contains ram address width \<longleftrightarrow>
     {unat address..<unat address + width} \<subseteq> ram_span ram"
  by (auto simp: ram_contains_def)

lemma ram_fits:
  assumes "ram_wf ram" "ram_size ram \<noteq> 0"
  shows "fits 0 (of_nat (ram_size ram))" "span 0 (of_nat (ram_size ram)) = ram_span ram"
  using assms by (auto simp: ram_wf_def SIZE_MAX_def fits_def span_def unat_of_nat take_bit_eq_mod)

section \<open>The scans of the table\<close>

lemma find_free_index_taken:
  "free \<noteq> BUS_MAX_DEVICES \<Longrightarrow>
   find_free_index base sz ms i free =
     (if \<exists>m \<in> set ms. present m \<and> ranges_overlap base sz (map_base m) (map_size m)
      then None else Some free)"
  by (induction ms arbitrary: i) auto

lemma find_free_index_overlap:
  "find_free_index base sz ms i free = None \<longleftrightarrow>
     (\<exists>m \<in> set ms. present m \<and> ranges_overlap base sz (map_base m) (map_size m))"
  by (induction ms arbitrary: i free) auto

lemma find_free_index_Some:
  assumes "find_free_index base sz ms i BUS_MAX_DEVICES = Some k" "i + length ms \<le> BUS_MAX_DEVICES"
  shows "if list_all present ms then k = BUS_MAX_DEVICES
         else i \<le> k \<and> k < i + length ms \<and> \<not> present (ms ! (k - i))"
  using assms
proof (induction ms arbitrary: i)
  case (Cons m ms)
  show ?case
  proof (cases "present m")
    case True
    then have "if list_all present ms then k = BUS_MAX_DEVICES
        else i + 1 \<le> k \<and> k < i + 1 + length ms \<and> \<not> present (ms ! (k - (i + 1)))"
      using Cons.prems by (intro Cons.IH) (auto split: if_splits)
    moreover have "(m # ms) ! (k - i) = ms ! (k - (i + 1))" if "i + 1 \<le> k"
      using that by (simp add: nth_Cons')
    ultimately show ?thesis using True by (auto split: if_splits)
  next
    case False
    then have "k = i" using Cons.prems by (auto simp: find_free_index_taken split: if_splits)
    with False show ?thesis by simp
  qed
qed simp

lemma find_mapping_Some:
  "find_mapping base sz ms i = Some k \<Longrightarrow>
   i \<le> k \<and> k < i + length ms \<and> present (ms ! (k - i)) \<and>
   map_base (ms ! (k - i)) = base \<and> map_size (ms ! (k - i)) = sz"
proof (induction ms arbitrary: i)
  case (Cons m ms)
  show ?case
  proof (cases "find_mapping base sz ms (i + 1) = Some k \<and> k \<noteq> i")
    case True
    with Cons.IH [of "i + 1"] show ?thesis by (auto simp: nth_Cons')
  next
    case False
    with Cons.prems Cons.IH [of "i + 1"] have "k = i" by (auto split: if_splits)
    with Cons.prems Cons.IH [of "i + 1"] show ?thesis by (fastforce split: if_splits)
  qed
qed simp

lemma find_mapping_None:
  "find_mapping base sz ms i = None \<longleftrightarrow>
   (\<forall>m \<in> set ms. \<not> (present m \<and> map_base m = base \<and> map_size m = sz))"
  by (induction ms arbitrary: i) auto

lemma filter_update_add:
  "i < length xs \<Longrightarrow> \<not> P (xs ! i) \<Longrightarrow> P y \<Longrightarrow>
   length (filter P (xs[i := y])) = Suc (length (filter P xs))"
proof (induction xs arbitrary: i)
  case (Cons x xs)
  then show ?case by (cases i) auto
qed simp

lemma filter_update_remove:
  "i < length xs \<Longrightarrow> P (xs ! i) \<Longrightarrow> \<not> P y \<Longrightarrow>
   Suc (length (filter P (xs[i := y]))) = length (filter P xs)"
proof (induction xs arbitrary: i)
  case (Cons x xs)
  then show ?case by (cases i) auto
qed simp

section \<open>Every operation keeps the invariant\<close>

lemma empty_mapping_not_present [simp]: "\<not> present empty_mapping"
  by (simp add: empty_mapping_def)

lemma bus_init_ok: "ram_wf ram \<Longrightarrow> bus_ok (bus_init ram w)"
  by (simp add: bus_ok_def bus_init_def slots_ok_def empty_rom_def)

lemma slots_ok_install:
  assumes "slots_ok ms" "i < length ms" "fits base sz" "device_keeps_size d"
    and "\<forall>m \<in> set ms. present m \<longrightarrow> span base sz \<inter> map_span m = {}"
  shows "slots_ok (ms[i := \<lparr>map_base = base, map_size = sz, map_device = d, present = True\<rparr>])"
    (is "slots_ok (ms[i := ?m])")
proof -
  have "map_span (ms[i := ?m] ! j) \<inter> map_span (ms[i := ?m] ! k) = {}"
    if jk: "j < length ms" "k < length ms" "j \<noteq> k"
      "present (ms[i := ?m] ! j)" "present (ms[i := ?m] ! k)" for j k
  proof -
    have other: "span base sz \<inter> map_span (ms ! l) = {}" if "l < length ms" "present (ms ! l)" for l
      using assms(5) that nth_mem by blast
    consider "j = i" "k \<noteq> i" | "k = i" "j \<noteq> i" | "j \<noteq> i" "k \<noteq> i" using jk(3) by blast
    then show ?thesis
    proof cases
      case 1
      then show ?thesis using jk other [of k] assms(2) by simp
    next
      case 2
      then show ?thesis using jk other [of j] assms(2) by (simp add: Int_commute)
    next
      case 3
      then show ?thesis using jk assms(1) by (simp add: slots_ok_def)
    qed
  qed
  moreover have "\<forall>m \<in> set (ms[i := ?m]).
      if present m then fits (map_base m) (map_size m) \<and> device_keeps_size (map_device m)
      else m = empty_mapping"
    using assms(1,3,4) set_update_subset_insert [of ms i ?m] by (auto simp: slots_ok_def)
  ultimately show ?thesis using assms(1) by (simp add: slots_ok_def)
qed

lemma slots_ok_remove:
  assumes "slots_ok ms" "i < length ms"
  shows "slots_ok (ms[i := empty_mapping])"
proof -
  have "\<forall>m \<in> set (ms[i := empty_mapping]).
      if present m then fits (map_base m) (map_size m) \<and> device_keeps_size (map_device m)
      else m = empty_mapping"
    using assms(1) set_update_subset_insert [of ms i empty_mapping] by (auto simp: slots_ok_def)
  then show ?thesis using assms by (auto simp: slots_ok_def nth_list_update)
qed

text \<open>When \<open>bus_map_device\<close> succeeds, and what it does.\<close>

lemma bus_map_device_cases:
  assumes ok: "bus_ok b"
  obtains
    (rejected) "bus_map_device b base sz d = (False, b)"
      "\<not> (fits base sz \<and>
         (dev_read d \<noteq> None \<or> dev_write d \<noteq> None \<or> dev_tick d \<noteq> None \<or> dev_reset d \<noteq> None) \<and>
         span base sz \<inter> ram_span (bus_ram b) = {} \<and>
         (rom_present (bus_rom b) \<longrightarrow> span base sz \<inter> rom_span (bus_rom b) = {}) \<and>
         (\<forall>m \<in> set (mappings b). present m \<longrightarrow> span base sz \<inter> map_span m = {}) \<and>
         mapping_count b < BUS_MAX_DEVICES)"
  | (mapped) i where
      "bus_map_device b base sz d =
         (True, b\<lparr>mappings := (mappings b)
            [i := \<lparr>map_base = base, map_size = sz, map_device = d, present = True\<rparr>],
          mapping_count := mapping_count b + 1\<rparr>)"
      "i < length (mappings b)" "\<not> present (mappings b ! i)" "fits base sz"
      "dev_read d \<noteq> None \<or> dev_write d \<noteq> None \<or> dev_tick d \<noteq> None \<or> dev_reset d \<noteq> None"
      "span base sz \<inter> ram_span (bus_ram b) = {}"
      "rom_present (bus_rom b) \<Longrightarrow> span base sz \<inter> rom_span (bus_rom b) = {}"
      "\<forall>m \<in> set (mappings b). present m \<longrightarrow> span base sz \<inter> map_span m = {}"
      "mapping_count b < BUS_MAX_DEVICES"
proof -
  have ram: "ram_size (bus_ram b) \<noteq> 0 \<and> ranges_overlap base sz 0 (of_nat (ram_size (bus_ram b)))
      \<longleftrightarrow> span base sz \<inter> ram_span (bus_ram b) \<noteq> {}" if "fits base sz"
  proof (cases "ram_size (bus_ram b) = 0")
    case False
    have wf: "ram_wf (bus_ram b)" using ok by (simp add: bus_ok_def)
    from False show ?thesis
      using ranges_overlap_iff [OF that ram_fits(1) [OF wf False]] by (simp add: ram_fits(2) [OF wf])
  qed simp
  have rom: "ranges_overlap base sz (rom_base (bus_rom b)) (rom_size (bus_rom b)) \<longleftrightarrow>
      span base sz \<inter> rom_span (bus_rom b) \<noteq> {}" if "fits base sz" "rom_present (bus_rom b)"
    using ok that by (intro ranges_overlap_iff) (auto simp: bus_ok_def)
  have ms: "ranges_overlap base sz (map_base m) (map_size m) \<longleftrightarrow> span base sz \<inter> map_span m \<noteq> {}"
    if "fits base sz" "m \<in> set (mappings b)" "present m" for m
    using ok that by (intro ranges_overlap_iff) (auto simp: bus_ok_def slots_ok_def split: if_splits)
  let ?cond = "fits base sz \<and>
         (dev_read d \<noteq> None \<or> dev_write d \<noteq> None \<or> dev_tick d \<noteq> None \<or> dev_reset d \<noteq> None) \<and>
         span base sz \<inter> ram_span (bus_ram b) = {} \<and>
         (rom_present (bus_rom b) \<longrightarrow> span base sz \<inter> rom_span (bus_rom b) = {}) \<and>
         (\<forall>m \<in> set (mappings b). present m \<longrightarrow> span base sz \<inter> map_span m = {}) \<and>
         mapping_count b < BUS_MAX_DEVICES"
  show thesis
  proof (cases ?cond)
    case True
    then have "find_free_index base sz (mappings b) 0 BUS_MAX_DEVICES \<noteq> None"
      using ms by (auto simp: find_free_index_overlap)
    then obtain i where i: "find_free_index base sz (mappings b) 0 BUS_MAX_DEVICES = Some i" by blast
    have len: "length (mappings b) = BUS_MAX_DEVICES" using ok by (simp add: bus_ok_def slots_ok_def)
    have "\<not> list_all present (mappings b)"
    proof
      assume "list_all present (mappings b)"
      then have "filter present (mappings b) = mappings b" by (simp add: filter_id_conv list_all_iff)
      with True len ok show False by (simp add: bus_ok_def)
    qed
    with find_free_index_Some [OF i] len have "i < length (mappings b)" "\<not> present (mappings b ! i)"
      by auto
    moreover from this len i True ram rom
    have "bus_map_device b base sz d = (True, b\<lparr>mappings := (mappings b)
            [i := \<lparr>map_base = base, map_size = sz, map_device = d, present = True\<rparr>],
          mapping_count := mapping_count b + 1\<rparr>)"
      unfolding bus_map_device_def range_valid_iff by auto
    ultimately show ?thesis using True by (intro mapped [of i]) auto
  next
    case False
    have "bus_map_device b base sz d = (False, b)"
    proof (cases "fits base sz")
      case True
      show ?thesis
      proof (cases "\<exists>m \<in> set (mappings b). present m \<and> span base sz \<inter> map_span m \<noteq> {}")
        case overlap: True
        then have "find_free_index base sz (mappings b) 0 BUS_MAX_DEVICES = None"
          using ms [OF True] by (auto simp: find_free_index_overlap)
        then show ?thesis by (simp add: bus_map_device_def)
      qed (use False True ram rom in \<open>auto simp: bus_map_device_def range_valid_iff\<close>)
    qed (simp add: bus_map_device_def range_valid_iff)
    with False show ?thesis by (intro rejected) auto
  qed
qed

lemma bus_ok_table:
  assumes "bus_ok b" "slots_ok ms" "n = length (filter present ms)"
    and "\<And>m. m \<in> set ms \<Longrightarrow> present m \<Longrightarrow> m \<in> set (mappings b) \<or>
      (map_span m \<inter> ram_span (bus_ram b) = {} \<and>
       (rom_present (bus_rom b) \<longrightarrow> map_span m \<inter> rom_span (bus_rom b) = {}))"
  shows "bus_ok (b\<lparr>mappings := ms, mapping_count := n\<rparr>)"
proof -
  have "map_span m \<inter> ram_span (bus_ram b) = {} \<and>
      (rom_present (bus_rom b) \<longrightarrow> map_span m \<inter> rom_span (bus_rom b) = {})"
    if "m \<in> set ms" "present m" for m
    using assms(4) [OF that] that(2) assms(1) unfolding bus_ok_def by metis
  then show ?thesis using assms(1-3) by (simp add: bus_ok_def)
qed

lemma bus_map_device_ok:
  assumes ok: "bus_ok b" and "device_keeps_size d"
  shows "bus_ok (snd (bus_map_device b base sz d))"
  using ok
proof (cases rule: bus_map_device_cases [of b base sz d])
  case (mapped i)
  let ?m = "\<lparr>map_base = base, map_size = sz, map_device = d, present = True\<rparr>"
  have "slots_ok ((mappings b)[i := ?m])"
    using ok mapped assms(2) by (intro slots_ok_install) (auto simp: bus_ok_def)
  moreover have "length (filter present ((mappings b)[i := ?m])) = Suc (mapping_count b)"
    using ok mapped by (simp add: filter_update_add bus_ok_def)
  moreover have "m \<in> set (mappings b) \<or> m = ?m" if "m \<in> set ((mappings b)[i := ?m])" for m
    using that set_update_subset_insert [of "mappings b" i ?m] by auto
  ultimately show ?thesis
    unfolding mapped(1) snd_conv using mapped(6,7) by (intro bus_ok_table [OF ok]) fastforce+
qed (use ok in simp)

lemma bus_unmap_device_ok:
  assumes ok: "bus_ok b"
  shows "bus_ok (snd (bus_unmap_device b base sz))"
proof (cases "find_mapping base sz (mappings b) 0")
  case (Some i)
  then have i: "i < length (mappings b)" "present (mappings b ! i)"
    using find_mapping_Some [OF Some] by auto
  have "slots_ok ((mappings b)[i := empty_mapping])"
    using ok i by (intro slots_ok_remove) (auto simp: bus_ok_def)
  moreover have "Suc (length (filter present ((mappings b)[i := empty_mapping]))) = mapping_count b"
    using ok i by (simp add: filter_update_remove bus_ok_def)
  moreover have "m \<in> set (mappings b) \<or> m = empty_mapping"
    if "m \<in> set ((mappings b)[i := empty_mapping])" for m
    using that set_update_subset_insert [of "mappings b" i empty_mapping] by auto
  ultimately have "bus_ok (b\<lparr>mappings := (mappings b)[i := empty_mapping],
      mapping_count := mapping_count b - 1\<rparr>)"
    by (intro bus_ok_table [OF ok]) fastforce+
  then show ?thesis using ok Some by (simp add: bus_unmap_device_def)
qed (use ok in \<open>simp add: bus_unmap_device_def\<close>)

lemma bus_map_rom_ok:
  assumes ok: "bus_ok b" and "sz \<le> SIZE_MAX"
  shows "bus_ok (snd (bus_map_rom b base data sz))"
proof (cases "fst (bus_map_rom b base data sz)")
  case True
  let ?s = "of_nat sz :: u64"
  have fits: "fits base ?s"
    using True by (auto simp: bus_map_rom_def range_valid_iff split: if_splits)
  have "span base ?s \<inter> map_span m = {}" if "m \<in> set (mappings b)" "present m" for m
  proof -
    have "fits (map_base m) (map_size m)" using ok that by (auto simp: bus_ok_def slots_ok_def)
    from ranges_overlap_iff [OF fits this] show ?thesis
      using True that by (auto simp: bus_map_rom_def list_ex_iff split: if_splits)
  qed
  then have "map_span m \<inter> span base ?s = {}" if "m \<in> set (mappings b)" "present m" for m
    using that by (simp add: Int_commute)
  moreover have "span base ?s \<inter> ram_span (bus_ram b) = {}"
  proof (cases "ram_size (bus_ram b) = 0")
    case False
    have wf: "ram_wf (bus_ram b)" using ok by (simp add: bus_ok_def)
    from True False show ?thesis
      using ranges_overlap_iff [OF fits ram_fits(1) [OF wf False]]
      by (auto simp: ram_fits(2) [OF wf] bus_map_rom_def split: if_splits)
  qed simp
  moreover have "snd (bus_map_rom b base data sz) =
      b\<lparr>bus_rom := \<lparr>rom_base = base, rom_size = ?s, rom_data = data, rom_present = True\<rparr>\<rparr>"
    using True by (auto simp: bus_map_rom_def split: if_splits)
  ultimately show ?thesis using ok fits by (simp add: bus_ok_def)
next
  case False
  then have "snd (bus_map_rom b base data sz) = b" by (auto simp: bus_map_rom_def split: if_splits)
  then show ?thesis using ok by simp
qed

lemma bus_ok_ram:
  "bus_ok b \<Longrightarrow> ram_size ram = ram_size (bus_ram b) \<Longrightarrow> bus_ok (b\<lparr>bus_ram := ram, world := w\<rparr>)"
  by (simp add: bus_ok_def ram_wf_def)

lemma bus_ok_ram': "bus_ok b \<Longrightarrow> ram_size ram = ram_size (bus_ram b) \<Longrightarrow> bus_ok (b\<lparr>bus_ram := ram\<rparr>)"
  by (simp add: bus_ok_def ram_wf_def)

lemma present_keeps_size:
  "bus_ok b \<Longrightarrow> m \<in> set (mappings b) \<Longrightarrow> present m \<Longrightarrow> device_keeps_size (map_device m)"
  by (auto simp: bus_ok_def slots_ok_def)

lemma lock_mapping_Some:
  "lock_mapping_for_address b address width = Some m \<Longrightarrow>
   m \<in> set (mappings b) \<and> present m \<and> mapping_contains m address width"
  by (auto simp: lock_mapping_for_address_def find_Some_iff)

lemma bus_read_ok:
  assumes ok: "bus_ok b"
  shows "bus_ok (snd (bus_read b address width))"
proof (cases "lock_mapping_for_address b address width")
  case (Some m)
  with ok have "device_keeps_size (map_device m)" using lock_mapping_Some present_keeps_size by blast
  with ok Some show ?thesis
    by (auto simp: bus_read_def device_keeps_size_def split_beta split: option.split
        intro!: bus_ok_ram)
qed (use ok in \<open>auto simp: bus_read_def split: option.split\<close>)

lemma bus_write_ok:
  assumes ok: "bus_ok b"
  shows "bus_ok (snd (bus_write b address width value))"
proof (cases "lock_mapping_for_address b address width")
  case (Some m)
  with ok have "device_keeps_size (map_device m)" using lock_mapping_Some present_keeps_size by blast
  with ok Some show ?thesis
    by (auto simp: bus_write_def device_keeps_size_def split_beta split: option.split
        intro!: bus_ok_ram)
qed (use ok ram_write_size in
  \<open>auto simp: bus_write_def split: option.split intro!: bus_ok_ram'\<close>)

lemma set_atomic_object_size [simp]: "ram_size (set_atomic_object ram a v) = ram_size ram"
  by (simp add: set_atomic_object_def)

lemma bus_atomic_ok:
  assumes "bus_ok b"
  shows "bus_ok (snd (bus_compare_exchange64 b address expected desired))"
    "bus_ok (snd (bus_exchange64 b address value))"
    "bus_ok (snd (bus_fetch_add64 b address value))"
  using assms
  by (auto simp: bus_compare_exchange64_def ram_compare_exchange64_def bus_exchange64_def
      ram_exchange64_def bus_fetch_add64_def ram_fetch_add64_def Let_def
      split: option.splits if_splits intro!: bus_ok_ram')

lemma tick_mapping_frame [simp]:
  "mappings (tick_mapping ticks m b) = mappings b" "bus_rom (tick_mapping ticks m b) = bus_rom b"
  by (simp_all add: tick_mapping_def split_beta split: option.split)

lemma reset_mapping_frame [simp]:
  "mappings (reset_mapping m b) = mappings b" "bus_rom (reset_mapping m b) = bus_rom b"
  by (simp_all add: reset_mapping_def split_beta split: option.split)

lemma tick_reset_mapping_ok:
  assumes "bus_ok b" "present m \<Longrightarrow> device_keeps_size (map_device m)"
  shows "bus_ok (tick_mapping ticks m b)" "bus_ok (reset_mapping m b)"
  using assms
  by (auto simp: tick_mapping_def reset_mapping_def device_keeps_size_def split_beta
      split: option.split intro!: bus_ok_ram)

lemma fold_tick_reset_ok:
  assumes "bus_ok b" "\<And>m. m \<in> set ms \<Longrightarrow> present m \<Longrightarrow> device_keeps_size (map_device m)"
  shows "bus_ok (fold (tick_mapping ticks) ms b)" "bus_ok (fold reset_mapping ms b)"
  using assms by (induction ms arbitrary: b) (auto simp: tick_reset_mapping_ok)

lemma bus_tick_reset_ok:
  assumes "bus_ok b"
  shows "bus_ok (bus_tick b ticks)" "bus_ok (bus_reset b)"
  using assms by (simp_all add: bus_tick_def bus_reset_def fold_tick_reset_ok present_keeps_size)

lemma bus_step_ok: "bus_ok b \<Longrightarrow> bus_legal e \<Longrightarrow> bus_ok (bus_step e b)"
  by (cases e) (simp_all add: bus_map_device_ok bus_unmap_device_ok bus_map_rom_ok bus_read_ok
      bus_write_ok bus_atomic_ok bus_tick_reset_ok)

interpretation bus_machine: guarded_machine bus_step bus_ok bus_legal
  by unfold_locales (rule bus_step_ok)

section \<open>Who answers an access\<close>

lemma lock_mapping_disjoint:
  assumes "bus_ok b" "0 < width" "width \<le> 8"
    and "{unat address..<unat address + width} \<inter> S \<noteq> {}"
    and "\<forall>m \<in> set (mappings b). present m \<longrightarrow> map_span m \<inter> S = {}"
  shows "lock_mapping_for_address b address width = None"
proof (rule ccontr)
  assume "lock_mapping_for_address b address width \<noteq> None"
  then obtain m where m: "m \<in> set (mappings b)" "present m" "mapping_contains m address width"
    using lock_mapping_Some by blast
  then have "fits (map_base m) (map_size m)"
    using assms(1) by (auto simp: bus_ok_def slots_ok_def)
  with m(3) assms(2,3) have "{unat address..<unat address + width} \<subseteq> map_span m"
    by (simp add: mapping_contains_iff)
  with assms(4,5) m show False by blast
qed

text \<open>An access inside the RAM reaches the RAM, whatever is mapped.\<close>

lemma bus_ram_access:
  assumes ok: "bus_ok b" and valid: "ram_range_valid (bus_ram b) address width"
  shows "bus_read b address width = (ram_read (bus_ram b) address width, b)"
    "bus_write b address width value =
       (True, b\<lparr>bus_ram := the (ram_write (bus_ram b) address width value)\<rparr>)"
    "bus_fetch b address width = ram_read (bus_ram b) address width"
proof -
  have w: "0 < width" "width \<le> 8" "unat address + width \<le> ram_size (bus_ram b)"
    using valid by (auto simp: ram_range_valid_iff)
  have none: "lock_mapping_for_address b address width = None"
    using ok w by (intro lock_mapping_disjoint [where S = "ram_span (bus_ram b)"])
      (auto simp: bus_ok_def)
  have rom: "\<not> rom_contains (bus_rom b) address width"
  proof
    assume "rom_contains (bus_rom b) address width"
    then have "rom_present (bus_rom b)" "{unat address..<unat address + width} \<subseteq> rom_span (bus_rom b)"
      using ok w rom_contains_iff [of "bus_rom b" width address] by (auto simp: bus_ok_def)
    then have "unat address \<in> rom_span (bus_rom b) \<inter> ram_span (bus_ram b)" using w by auto
    with ok \<open>rom_present (bus_rom b)\<close> show False by (simp add: bus_ok_def)
  qed
  have ram: "ram_contains (bus_ram b) address width" using w by (simp add: ram_contains_iff)
  show "bus_read b address width = (ram_read (bus_ram b) address width, b)"
    using w none rom ram by (simp add: bus_read_def rom_read_def)
  show "bus_write b address width value =
      (True, b\<lparr>bus_ram := the (ram_write (bus_ram b) address width value)\<rparr>)"
    using w none rom ram valid by (simp add: bus_write_def ram_write_eq)
  show "bus_fetch b address width = ram_read (bus_ram b) address width"
    using w ram by (simp add: bus_fetch_def)
qed

section \<open>A sample device\<close>

text \<open>A register that reads back the last value written to it, for the concrete examples.\<close>

definition latch :: "u64 bus_device" where
  "latch = \<lparr>dev_read = Some (\<lambda>offset width (ram, w). (Some w, ram, w)),
     dev_write = Some (\<lambda>offset width v (ram, w). (True, ram, v)),
     dev_tick = None, dev_reset = Some (\<lambda>(ram, w). (ram, 0))\<rparr>"

definition small_ram :: ram where
  "small_ram = \<lparr>ram_data = (\<lambda>_. 0), ram_size = 4096\<rparr>"

lemma latch_keeps_size: "device_keeps_size latch"
  by (simp add: device_keeps_size_def latch_def)

lemma small_ram_wf: "ram_wf small_ram"
  by (simp add: ram_wf_def small_ram_def SIZE_MAX_def)

section \<open>Properties\<close>

text \<open>C14: Whatever devices are mapped, unmapped, read, written, ticked and reset and whatever
  ROM is installed, in any order, the address space stays partitioned: two mapped devices never
  overlap each other, the RAM or the ROM, and the count of mappings is the number of occupied
  slots.\<close>

theorem bus_address_space_partitioned:
  assumes "ram_wf ram" and "list_all bus_legal es" and "b = fold bus_step es (bus_init ram w)"
  shows "mapping_count b = length (filter present (mappings b)) \<and>
    length (mappings b) = BUS_MAX_DEVICES \<and>
    (\<forall>i < BUS_MAX_DEVICES. \<forall>j < BUS_MAX_DEVICES.
       i \<noteq> j \<and> present (mappings b ! i) \<and> present (mappings b ! j) \<longrightarrow>
       map_span (mappings b ! i) \<inter> map_span (mappings b ! j) = {}) \<and>
    (\<forall>m \<in> set (mappings b). present m \<longrightarrow>
       map_span m \<inter> ram_span (bus_ram b) = {} \<and>
       (rom_present (bus_rom b) \<longrightarrow> map_span m \<inter> rom_span (bus_rom b) = {})) \<and>
    (rom_present (bus_rom b) \<longrightarrow> rom_span (bus_rom b) \<inter> ram_span (bus_ram b) = {})"
proof -
  have "bus_ok b"
    unfolding assms(3) by (rule bus_machine.legal_run_inv [OF bus_init_ok assms(2)]) (fact assms(1))
  then show ?thesis by (simp add: bus_ok_def slots_ok_def)
qed

theorem bus_address_space_partitioned_witness:
  "mapping_count (fold bus_step [Map_Device 0x10000 0x100 latch, Map_Device 0x10080 0x100 latch,
     Map_Device 0x10100 0x100 latch] (bus_init small_ram (0 :: u64))) = 2"
proof -
  let ?es = "[Map_Device 0x10000 0x100 latch, Map_Device 0x10080 0x100 latch,
     Map_Device 0x10100 0x100 latch]"
  have legal: "list_all bus_legal ?es" by (simp add: latch_keeps_size)
  have "length (filter present (mappings (fold bus_step ?es (bus_init small_ram (0 :: u64))))) = 2"
    by code_simp
  with bus_address_space_partitioned [OF small_ram_wf legal refl] show ?thesis by simp
qed

text \<open>C15: A device is mapped exactly when its range does not wrap, it has a callback, the range
  meets neither the RAM nor the ROM nor a mapped device, and a slot is free. Afterwards every
  access inside the range reaches its callbacks at the offset from the base, and unmapping the
  range succeeds and gives back the bus as it was.\<close>

theorem bus_map_device_correct:
  assumes ok: "bus_ok b"
  shows "(fst (bus_map_device b base sz d) \<longleftrightarrow>
       fits base sz \<and>
       (dev_read d \<noteq> None \<or> dev_write d \<noteq> None \<or> dev_tick d \<noteq> None \<or> dev_reset d \<noteq> None) \<and>
       span base sz \<inter> ram_span (bus_ram b) = {} \<and>
       (rom_present (bus_rom b) \<longrightarrow> span base sz \<inter> rom_span (bus_rom b) = {}) \<and>
       (\<forall>m \<in> set (mappings b). present m \<longrightarrow> span base sz \<inter> map_span m = {}) \<and>
       mapping_count b < BUS_MAX_DEVICES) \<and>
    (fst (bus_map_device b base sz d) \<and> device_keeps_size d \<longrightarrow>
       bus_unmap_device (snd (bus_map_device b base sz d)) base sz = (True, b) \<and>
       (\<forall>address width. 0 < width \<and> width \<le> 8 \<and>
          {unat address..<unat address + width} \<subseteq> span base sz \<longrightarrow>
          lock_mapping_for_address (snd (bus_map_device b base sz d)) address width =
            Some \<lparr>map_base = base, map_size = sz, map_device = d, present = True\<rparr>))"
  using ok
proof (cases rule: bus_map_device_cases [of b base sz d])
  case (mapped i)
  let ?m = "\<lparr>map_base = base, map_size = sz, map_device = d, present = True\<rparr>"
  let ?ms = "(mappings b)[i := ?m]"
  let ?b = "b\<lparr>mappings := ?ms, mapping_count := mapping_count b + 1\<rparr>"
  have old: "mappings b ! i = empty_mapping"
    using ok mapped(2,3) nth_mem [of i "mappings b"] by (auto simp: bus_ok_def slots_ok_def)
  have only: "m = ?m" if "m \<in> set ?ms" "present m" "map_span m \<inter> span base sz \<noteq> {}" for m
    using that mapped(8) set_update_subset_insert [of "mappings b" i ?m] by blast
  have nonempty: "span base sz \<noteq> {}" using mapped(4) by (auto simp: fits_def span_def)
  obtain k where k: "find_mapping base sz ?ms 0 = Some k"
    using mapped(2) find_mapping_None [of base sz ?ms 0] set_update_memI [of i "mappings b" ?m]
    by (cases "find_mapping base sz ?ms 0") auto
  have "k = i"
  proof (rule ccontr)
    assume "k \<noteq> i"
    with find_mapping_Some [OF k] have "k < length (mappings b)" "present (mappings b ! k)"
      "map_span (mappings b ! k) = span base sz" by auto
    with mapped(8) nonempty nth_mem [of k "mappings b"] show False by auto
  qed
  moreover have "(mappings b)[i := empty_mapping] = mappings b"
    using list_update_id [of "mappings b" i] old by simp
  ultimately have unmap: "bus_unmap_device ?b base sz = (True, b)"
    using k mapped(4) by (simp add: bus_unmap_device_def range_valid_iff)
  have acc: "lock_mapping_for_address ?b address width = Some ?m"
    if keeps: "device_keeps_size d" and w: "0 < width" "width \<le> 8"
      and sub: "{unat address..<unat address + width} \<subseteq> span base sz" for address width
  proof -
    have "bus_ok ?b" using bus_map_device_ok [OF ok keeps, of base sz] mapped(1) by simp
    have inm: "mapping_contains ?m address width" using mapping_contains_iff [of ?m width] mapped(4) w sub by simp
    then have "\<exists>m \<in> set ?ms. present m \<and> mapping_contains m address width"
      using set_update_memI [OF mapped(2), of ?m] by (intro bexI [of _ ?m]) simp_all
    then have "lock_mapping_for_address ?b address width \<noteq> None"
      by (auto simp: lock_mapping_for_address_def find_None_iff)
    then obtain m where m: "lock_mapping_for_address ?b address width = Some m" by blast
    then have m': "m \<in> set ?ms" "present m" "mapping_contains m address width"
      using lock_mapping_Some [OF m] by auto
    then have "fits (map_base m) (map_size m)"
      using \<open>bus_ok ?b\<close> by (auto simp: bus_ok_def slots_ok_def)
    then have "unat address \<in> map_span m \<inter> span base sz"
      using mapping_contains_iff [of m width address] m'(3) w sub by auto
    then show ?thesis using only [OF m'(1,2)] m by blast
  qed
  show ?thesis using mapped unmap acc by simp
qed simp

lemma bus_init_sample_ok: "bus_ok (bus_init small_ram (0 :: u64))"
  by (rule bus_init_ok [OF small_ram_wf])

lemma sample_range_ok:
  "fits 0x10000 0x100" "span 0x10000 0x100 \<inter> ram_span (bus_ram (bus_init small_ram (0 :: u64))) = {}"
  by (auto simp: fits_def span_def bus_init_def small_ram_def)

theorem bus_map_device_correct_witness:
  "bus_unmap_device (snd (bus_map_device (bus_init small_ram (0 :: u64)) 0x10000 0x100 latch))
     0x10000 0x100 = (True, bus_init small_ram 0)"
proof -
  have "fst (bus_map_device (bus_init small_ram (0 :: u64)) 0x10000 0x100 latch)" by code_simp
  from bus_map_device_correct [OF bus_init_sample_ok, THEN conjunct2, rule_format, THEN conjunct1,
      OF conjI, OF this latch_keeps_size] show ?thesis .
qed

text \<open>C16: An access that lies in the RAM is an access of the RAM and touches no device, and an
  access that lies in the ROM reads the image and can neither change it nor anything else.\<close>

theorem bus_ram_and_rom_accesses:
  assumes ok: "bus_ok b" and w: "0 < width" "width \<le> 8"
  shows "({unat a..<unat a + width} \<subseteq> ram_span (bus_ram b) \<longrightarrow>
       bus_read b a width = (ram_read (bus_ram b) a width, b) \<and>
       bus_fetch b a width = ram_read (bus_ram b) a width \<and>
       bus_write b a width v = (True, b\<lparr>bus_ram := the (ram_write (bus_ram b) a width v)\<rparr>)) \<and>
    (rom_present (bus_rom b) \<and> {unat a..<unat a + width} \<subseteq> rom_span (bus_rom b) \<longrightarrow>
       bus_read b a width =
         (Some (assemble_le (\<lambda>i. rom_data (bus_rom b) (unat a - unat (rom_base (bus_rom b)) + i)) width), b) \<and>
       bus_write b a width v = (False, b))"
proof -
  have "bus_read b a width =
      (Some (assemble_le (\<lambda>i. rom_data (bus_rom b) (unat a - unat (rom_base (bus_rom b)) + i)) width), b) \<and>
      bus_write b a width v = (False, b)"
    if rom: "rom_present (bus_rom b)" "{unat a..<unat a + width} \<subseteq> rom_span (bus_rom b)"
  proof -
    have "unat a \<in> {unat a..<unat a + width} \<inter> rom_span (bus_rom b)" using rom(2) w by auto
    then have "{unat a..<unat a + width} \<inter> rom_span (bus_rom b) \<noteq> {}" by blast
    moreover have "\<forall>m \<in> set (mappings b). present m \<longrightarrow> map_span m \<inter> rom_span (bus_rom b) = {}"
      using ok rom(1) by (simp add: bus_ok_def)
    ultimately have none: "lock_mapping_for_address b a width = None"
      using ok w by (intro lock_mapping_disjoint)
    have con: "rom_contains (bus_rom b) a width"
      using ok w rom rom_contains_iff [of "bus_rom b" width a] by (auto simp: bus_ok_def)
    have "unat a \<in> rom_span (bus_rom b)" using rom(2) w by auto
    then have "unat (a - rom_base (bus_rom b)) = unat a - unat (rom_base (bus_rom b))"
      by (simp add: span_def unat_sub word_le_nat_alt)
    with none con w show ?thesis by (simp add: bus_read_def bus_write_def rom_read_def)
  qed
  moreover have "ram_range_valid (bus_ram b) a width"
    if "{unat a..<unat a + width} \<subseteq> ram_span (bus_ram b)"
    using that w by (auto simp: ram_range_valid_iff)
  ultimately show ?thesis
    using bus_ram_access(1,3) [OF ok, of a width] bus_ram_access(2) [OF ok, of a width v] by blast
qed

theorem bus_ram_and_rom_accesses_witness:
  "fst (bus_read (bus_init small_ram (0 :: u64)) 16 8) = Some 0"
proof -
  let ?b = "bus_init small_ram (0 :: u64)"
  have eq: "ram_read small_ram 16 8 = Some 0" by code_simp
  have ram: "bus_ram ?b = small_ram" by (simp add: bus_init_def)
  have "{unat (16 :: u64)..<unat (16 :: u64) + 8} \<subseteq> ram_span (bus_ram ?b)"
    unfolding ram by (simp add: small_ram_def)
  from bus_ram_and_rom_accesses [OF bus_init_sample_ok, of 8 16, THEN conjunct1, rule_format, OF _ _ this]
  have "bus_read ?b 16 8 = (ram_read (bus_ram ?b) 16 8, ?b)" by simp
  then show ?thesis unfolding ram eq by (simp only: fst_conv)
qed

end
