(* ===== verification/Interrupt.thy ===== *)
theory Interrupt
  imports Invariant_Machine Prelude
begin

text \<open>
  Interrupt delivery (\<^verbatim>\<open>src/interrupt.c\<close>): the per-thread controllers, each a word of
  pending lines, and the router that maps 48 external lines to targets with masking, fixed
  priority and end-of-interrupt.

  The controllers the router points to are the list \<open>targets\<close> of its record; the number
  of targets is its length. Every operation is the critical section under the router lock.
  The compare-and-swap loop of \<open>interrupt_controller_take_next\<close> is its successful
  iteration. Operations that return an \<^verbatim>\<open>int\<close> return a \<open>bool\<close> with the new state.
\<close>

section \<open>Lines\<close>

definition INTERRUPT_LINE_COUNT :: nat where
  "INTERRUPT_LINE_COUNT = 64"

definition INTERRUPT_EXTERNAL_LINE_COUNT :: nat where
  "INTERRUPT_EXTERNAL_LINE_COUNT = 48"

definition INTERRUPT_EXTERNAL_LINE_MASK :: u64 where
  "INTERRUPT_EXTERNAL_LINE_MASK = push_bit INTERRUPT_EXTERNAL_LINE_COUNT 1 - 1"

section \<open>Controllers\<close>

definition interrupt_controller_init :: u64 where
  "interrupt_controller_init = 0"

definition interrupt_controller_raise :: "u64 \<Rightarrow> nat \<Rightarrow> bool \<times> u64" where
  "interrupt_controller_raise controller line =
     (if line \<ge> INTERRUPT_LINE_COUNT then (False, controller)
      else (True, controller OR BIT line))"

definition interrupt_controller_clear :: "u64 \<Rightarrow> nat \<Rightarrow> bool \<times> u64" where
  "interrupt_controller_clear controller line =
     (if line \<ge> INTERRUPT_LINE_COUNT then (False, controller)
      else (True, controller AND NOT (BIT line)))"

text \<open>The loop of \<open>lowest_set_bit\<close> does not return on 0; \<open>None\<close> stands for that.\<close>

partial_function (option) lowest_set_bit_loop :: "u64 \<Rightarrow> nat \<Rightarrow> nat option" where
  "lowest_set_bit_loop value n =
     (if value AND 1 = 0 then lowest_set_bit_loop (drop_bit 1 value) (n + 1) else Some n)"

definition lowest_set_bit :: "u64 \<Rightarrow> nat option" where
  "lowest_set_bit value = lowest_set_bit_loop value 0"

definition interrupt_controller_take_next :: "u64 \<Rightarrow> nat option \<times> u64" where
  "interrupt_controller_take_next controller =
     (let available = controller
      in if available = 0 then (None, controller)
         else
           let ipi_available = available AND NOT INTERRUPT_EXTERNAL_LINE_MASK;
               selected = the (lowest_set_bit
                 (if ipi_available \<noteq> 0 then ipi_available else available))
           in (Some selected, controller AND NOT (BIT selected)))"

section \<open>The router\<close>

record interrupt_router =
  targets :: "u64 list"
  routes :: "nat \<Rightarrow> nat"
  enabled :: u64
  pending :: u64
  active :: u64
  programmable :: bool

abbreviation target_count :: "interrupt_router \<Rightarrow> nat" where
  "target_count router \<equiv> length (targets router)"

definition target_has_active_locked :: "interrupt_router \<Rightarrow> nat \<Rightarrow> bool" where
  "target_has_active_locked router target \<longleftrightarrow>
     list_ex (\<lambda>line. active router AND BIT line \<noteq> 0 \<and> routes router line = target)
       [0..<INTERRUPT_EXTERNAL_LINE_COUNT]"

definition dispatch_target_locked :: "interrupt_router \<Rightarrow> nat \<Rightarrow> interrupt_router" where
  "dispatch_target_locked router target =
     (if target \<ge> target_count router \<or> target_has_active_locked router target then router
      else
        let deliverable = pending router AND enabled router AND INTERRUPT_EXTERNAL_LINE_MASK
        in case find (\<lambda>line. \<not> (deliverable AND BIT line = 0 \<or> routes router line \<noteq> target))
                  [0..<INTERRUPT_EXTERNAL_LINE_COUNT] of
             None \<Rightarrow> router
           | Some line \<Rightarrow>
               router\<lparr>pending := pending router AND NOT (BIT line),
                      active := active router OR BIT line,
                      targets := (targets router)
                        [target := snd (interrupt_controller_raise (targets router ! target) line)]\<rparr>)"

definition dispatch_all_locked :: "interrupt_router \<Rightarrow> interrupt_router" where
  "dispatch_all_locked router =
     fold (\<lambda>target r. dispatch_target_locked r target) [0..<target_count router] router"

definition interrupt_router_init :: "u64 list \<Rightarrow> interrupt_router option" where
  "interrupt_router_init ts =
     (if ts = [] then None
      else Some \<lparr>targets = ts, routes = (\<lambda>_. 0), enabled = UINT64_MAX, pending = 0, active = 0,
                 programmable = False\<rparr>)"

definition interrupt_router_set_route ::
  "interrupt_router \<Rightarrow> nat \<Rightarrow> nat \<Rightarrow> bool \<times> interrupt_router" where
  "interrupt_router_set_route router line target_index =
     (if line \<ge> INTERRUPT_LINE_COUNT \<or> target_index \<ge> target_count router then (False, router)
      else if programmable router \<and>
              (line \<ge> INTERRUPT_EXTERNAL_LINE_COUNT \<or> active router AND BIT line \<noteq> 0)
           then (False, router)
      else
        let router = router\<lparr>routes := (routes router)(line := target_index)\<rparr>
        in (True, if programmable router then dispatch_target_locked router target_index
                  else router))"

definition interrupt_router_raise :: "interrupt_router \<Rightarrow> nat \<Rightarrow> bool \<times> interrupt_router" where
  "interrupt_router_raise router line =
     (if line \<ge> INTERRUPT_LINE_COUNT then (False, router)
      else if \<not> programmable router then
        let target = routes router line
        in if target < target_count router then
             let (result, controller) = interrupt_controller_raise (targets router ! target) line
             in (result, router\<lparr>targets := (targets router)[target := controller]\<rparr>)
           else (False, router)
      else if line \<ge> INTERRUPT_EXTERNAL_LINE_COUNT then (False, router)
      else
        let router = router\<lparr>pending := pending router OR BIT line\<rparr>
        in (True, if active router AND BIT line = 0
                  then dispatch_target_locked router (routes router line) else router))"

definition interrupt_router_clear :: "interrupt_router \<Rightarrow> nat \<Rightarrow> bool \<times> interrupt_router" where
  "interrupt_router_clear router line =
     (if line \<ge> INTERRUPT_LINE_COUNT then (False, router)
      else if programmable router then
        if line \<ge> INTERRUPT_EXTERNAL_LINE_COUNT then (False, router)
        else
          let target = routes router line;
              router = router\<lparr>pending := pending router AND NOT (BIT line)\<rparr>
          in if active router AND BIT line \<noteq> 0 then
               let router = router\<lparr>active := active router AND NOT (BIT line)\<rparr>
               in (True,
                   if target < target_count router then
                     dispatch_target_locked
                       (router\<lparr>targets := (targets router)
                          [target := snd (interrupt_controller_clear (targets router ! target) line)]\<rparr>)
                       target
                   else router)
             else (True, router)
      else
        let target = routes router line
        in if target < target_count router then
             let (result, controller) = interrupt_controller_clear (targets router ! target) line
             in (result, router\<lparr>targets := (targets router)[target := controller]\<rparr>)
           else (False, router))"

definition interrupt_router_programmable_reset :: "interrupt_router \<Rightarrow> interrupt_router" where
  "interrupt_router_programmable_reset router =
     \<lparr>targets = map (\<lambda>_. interrupt_controller_init) (targets router),
      routes = (\<lambda>line. if line < INTERRUPT_LINE_COUNT then 0 else routes router line),
      enabled = 0, pending = 0, active = 0, programmable = True\<rparr>"

definition interrupt_router_set_enabled :: "interrupt_router \<Rightarrow> u64 \<Rightarrow> bool \<times> interrupt_router" where
  "interrupt_router_set_enabled router lines =
     (if lines AND NOT INTERRUPT_EXTERNAL_LINE_MASK \<noteq> 0 then (False, router)
      else if \<not> programmable router then (False, router)
      else (True, dispatch_all_locked (router\<lparr>enabled := lines\<rparr>)))"

definition interrupt_router_enable_lines :: "interrupt_router \<Rightarrow> u64 \<Rightarrow> bool \<times> interrupt_router" where
  "interrupt_router_enable_lines router lines =
     (if lines AND NOT INTERRUPT_EXTERNAL_LINE_MASK \<noteq> 0 then (False, router)
      else if \<not> programmable router then (False, router)
      else (True, dispatch_all_locked (router\<lparr>enabled := enabled router OR lines\<rparr>)))"

definition interrupt_router_disable_lines :: "interrupt_router \<Rightarrow> u64 \<Rightarrow> bool \<times> interrupt_router" where
  "interrupt_router_disable_lines router lines =
     (if lines AND NOT INTERRUPT_EXTERNAL_LINE_MASK \<noteq> 0 then (False, router)
      else if \<not> programmable router then (False, router)
      else (True, router\<lparr>enabled := enabled router AND NOT lines\<rparr>))"

definition interrupt_router_enabled :: "interrupt_router \<Rightarrow> u64" where
  "interrupt_router_enabled router = enabled router"

definition interrupt_router_pending :: "interrupt_router \<Rightarrow> u64" where
  "interrupt_router_pending router = pending router"

definition interrupt_router_active :: "interrupt_router \<Rightarrow> u64" where
  "interrupt_router_active router = active router"

definition interrupt_router_get_route :: "interrupt_router \<Rightarrow> nat \<Rightarrow> nat option" where
  "interrupt_router_get_route router line =
     (if line \<ge> INTERRUPT_EXTERNAL_LINE_COUNT then None else Some (routes router line))"

definition interrupt_router_eoi :: "interrupt_router \<Rightarrow> nat \<Rightarrow> bool \<times> interrupt_router" where
  "interrupt_router_eoi router line =
     (if line \<ge> INTERRUPT_EXTERNAL_LINE_COUNT then (False, router)
      else if \<not> programmable router \<or> active router AND BIT line = 0 then (False, router)
      else
        let target = routes router line
        in (True, dispatch_target_locked
                    (router\<lparr>active := active router AND NOT (BIT line)\<rparr>) target))"

text \<open>
  The events that reach a router in programmable mode: the device lines and the register
  writes of the interrupt controller device, a hardware thread taking its next interrupt, and
  an inter-processor interrupt, which goes to a controller directly.
\<close>

datatype router_event =
    Raise nat
  | Clear nat
  | Set_Route nat nat
  | Set_Enabled u64
  | Enable_Lines u64
  | Disable_Lines u64
  | Eoi nat
  | Take_Next nat
  | Raise_Ipi nat nat

fun router_step :: "router_event \<Rightarrow> interrupt_router \<Rightarrow> interrupt_router" where
  "router_step (Raise line) router = snd (interrupt_router_raise router line)"
| "router_step (Clear line) router = snd (interrupt_router_clear router line)"
| "router_step (Set_Route line t) router = snd (interrupt_router_set_route router line t)"
| "router_step (Set_Enabled lines) router = snd (interrupt_router_set_enabled router lines)"
| "router_step (Enable_Lines lines) router = snd (interrupt_router_enable_lines router lines)"
| "router_step (Disable_Lines lines) router = snd (interrupt_router_disable_lines router lines)"
| "router_step (Eoi line) router = snd (interrupt_router_eoi router line)"
| "router_step (Take_Next t) router =
     router\<lparr>targets := (targets router)
       [t := snd (interrupt_controller_take_next (targets router ! t))]\<rparr>"
| "router_step (Raise_Ipi t line) router =
     router\<lparr>targets := (targets router)
       [t := snd (interrupt_controller_raise (targets router ! t) line)]\<rparr>"

section \<open>The invariant of programmable mode\<close>

text \<open>The target of a line has work when a line routed to it is active.\<close>

definition target_busy :: "interrupt_router \<Rightarrow> nat \<Rightarrow> bool" where
  "target_busy r t \<longleftrightarrow>
     (\<exists>line < INTERRUPT_EXTERNAL_LINE_COUNT. bit (active r) line \<and> routes r line = t)"

definition deliverable_line :: "interrupt_router \<Rightarrow> nat \<Rightarrow> nat \<Rightarrow> bool" where
  "deliverable_line r t line \<longleftrightarrow>
     line < INTERRUPT_EXTERNAL_LINE_COUNT \<and> bit (pending r) line \<and> bit (enabled r) line \<and>
     routes r line = t"

definition router_shape :: "interrupt_router \<Rightarrow> bool" where
  "router_shape r \<longleftrightarrow>
     programmable r \<and>
     (\<forall>line. bit (pending r) line \<or> bit (active r) line \<or> bit (enabled r) line \<longrightarrow>
        line < INTERRUPT_EXTERNAL_LINE_COUNT) \<and>
     (\<forall>line < INTERRUPT_EXTERNAL_LINE_COUNT. routes r line < target_count r)"

definition one_active_line :: "interrupt_router \<Rightarrow> bool" where
  "one_active_line r \<longleftrightarrow>
     (\<forall>k l. bit (active r) k \<and> bit (active r) l \<and> routes r k = routes r l \<longrightarrow> k = l)"

definition settled_at :: "interrupt_router \<Rightarrow> nat \<Rightarrow> bool" where
  "settled_at r t \<longleftrightarrow> (\<exists>line. deliverable_line r t line) \<longrightarrow> target_busy r t"

definition router_ok :: "interrupt_router \<Rightarrow> bool" where
  "router_ok r \<longleftrightarrow> router_shape r \<and> one_active_line r \<and> (\<forall>t. settled_at r t)"

section \<open>Selection of a line\<close>

lemma bit_external_mask [bit_simps]:
  "bit INTERRUPT_EXTERNAL_LINE_MASK n \<longleftrightarrow> n < INTERRUPT_EXTERNAL_LINE_COUNT"
proof -
  have eq: "INTERRUPT_EXTERNAL_LINE_MASK = mask INTERRUPT_EXTERNAL_LINE_COUNT"
    by (simp add: INTERRUPT_EXTERNAL_LINE_MASK_def mask_eq_exp_minus_1)
  show ?thesis by (auto simp: eq bit_mask_iff INTERRUPT_EXTERNAL_LINE_COUNT_def)
qed

lemma word_nonzero_bit:
  fixes v :: u64
  assumes "v \<noteq> 0"
  shows "\<exists>k. bit v k"
proof (rule ccontr)
  assume "\<nexists>k. bit v k"
  then have "v = 0" by (intro bit_word_eqI) simp
  with assms show False by simp
qed

lemma external_line_64: "line < INTERRUPT_EXTERNAL_LINE_COUNT \<Longrightarrow> line < 64"
  by (simp add: INTERRUPT_EXTERNAL_LINE_COUNT_def)

lemma lowest_set_bit_loop_Some:
  "bit v n \<Longrightarrow> \<forall>m < n. \<not> bit v m \<Longrightarrow> lowest_set_bit_loop v k = Some (k + n)"
proof (induction n arbitrary: v k)
  case 0
  then have "v AND 1 \<noteq> 0" by (simp add: and_one_eq mod2_eq_if bit_0)
  then show ?case by (subst lowest_set_bit_loop.simps) (simp only: if_False add_0_right)
next
  case (Suc n)
  then have "\<not> bit v 0" by blast
  then have "v AND 1 = 0" by (simp add: and_one_eq mod2_eq_if bit_0)
  moreover have "bit (drop_bit 1 v) n" "\<forall>m < n. \<not> bit (drop_bit 1 v) m"
    using Suc.prems by (auto simp: bit_drop_bit_eq)
  ultimately show ?case
    using Suc.IH [of "drop_bit 1 v" "k + 1"] by (subst lowest_set_bit_loop.simps) simp
qed

text \<open>On a nonzero word the loop returns, with the least set bit.\<close>

lemma lowest_set_bit_Some:
  assumes "v \<noteq> 0"
  shows "\<exists>n. lowest_set_bit v = Some n \<and> bit v n \<and> (\<forall>m < n. \<not> bit v m)"
proof -
  obtain k where "bit v k" using assms word_nonzero_bit by blast
  then have least: "bit v (LEAST n. bit v n)" "\<forall>m < (LEAST n. bit v n). \<not> bit v m"
    by (rule LeastI) (blast dest: not_less_Least)
  from lowest_set_bit_loop_Some [OF this, of 0] least show ?thesis
    unfolding lowest_set_bit_def add_0 by blast
qed

section \<open>What dispatching does\<close>

lemma target_has_active_iff: "target_has_active_locked r t \<longleftrightarrow> target_busy r t"
  by (auto simp: target_has_active_locked_def target_busy_def list_ex_iff BIT_test
      external_line_64 Bex_def)

lemma find_deliverable_iff:
  "line < INTERRUPT_EXTERNAL_LINE_COUNT \<Longrightarrow>
   \<not> ((pending r AND enabled r AND INTERRUPT_EXTERNAL_LINE_MASK) AND BIT line = 0 \<or>
      routes r line \<noteq> t) \<longleftrightarrow> deliverable_line r t line"
  by (auto simp: BIT_test external_line_64 deliverable_line_def bit_simps)

lemma find_upt_Some:
  "find P [0..<n] = Some x \<Longrightarrow> x < n \<and> P x \<and> (\<forall>y < x. \<not> P y)"
  by (auto simp: find_Some_iff)

text \<open>The three outcomes of \<open>dispatch_target_locked\<close>: the target is busy, it has nothing to
  deliver, or its lowest deliverable line becomes active and pending in the controller.\<close>

definition activate :: "interrupt_router \<Rightarrow> nat \<Rightarrow> nat \<Rightarrow> interrupt_router" where
  "activate r t line = r\<lparr>pending := pending r AND NOT (BIT line), active := active r OR BIT line,
     targets := (targets r)[t := targets r ! t OR BIT line]\<rparr>"

lemma dispatch_cases:
  assumes "t < target_count r"
  obtains
    (busy) "target_busy r t" "dispatch_target_locked r t = r"
  | (idle) "\<not> target_busy r t" "\<nexists>line. deliverable_line r t line" "dispatch_target_locked r t = r"
  | (deliver) line where "\<not> target_busy r t" "deliverable_line r t line"
      "\<forall>m < line. \<not> deliverable_line r t m" "dispatch_target_locked r t = activate r t line"
proof (cases "target_busy r t")
  case True
  then show thesis using busy by (simp add: dispatch_target_locked_def target_has_active_iff)
next
  case False
  let ?P = "\<lambda>line. \<not> ((pending r AND enabled r AND INTERRUPT_EXTERNAL_LINE_MASK) AND BIT line = 0 \<or>
      routes r line \<noteq> t)"
  show thesis
  proof (cases "find ?P [0..<INTERRUPT_EXTERNAL_LINE_COUNT]")
    case None
    then have "\<forall>line < INTERRUPT_EXTERNAL_LINE_COUNT. \<not> ?P line" by (auto simp: find_None_iff)
    then have "\<nexists>line. deliverable_line r t line"
      using find_deliverable_iff deliverable_line_def by blast
    with None False show thesis
      using idle by (simp add: dispatch_target_locked_def target_has_active_iff)
  next
    case (Some line)
    note line = find_upt_Some [OF Some]
    then have "deliverable_line r t line" "\<forall>m < line. \<not> deliverable_line r t m"
      using find_deliverable_iff deliverable_line_def by blast+
    moreover have "dispatch_target_locked r t = activate r t line"
      using Some False assms line
      by (simp add: dispatch_target_locked_def target_has_active_iff activate_def
          interrupt_controller_raise_def INTERRUPT_LINE_COUNT_def INTERRUPT_EXTERNAL_LINE_COUNT_def)
    ultimately show thesis using deliver False by blast
  qed
qed

lemma bit_activate:
  "line < 64 \<Longrightarrow> bit (pending (activate r t line)) k \<longleftrightarrow> bit (pending r) k \<and> k \<noteq> line"
  "line < 64 \<Longrightarrow> bit (active (activate r t line)) k \<longleftrightarrow> bit (active r) k \<or> k = line"
  by (auto simp: activate_def bit_simps bit_BIT dest: bit_u64_less)

lemma activate_frame [simp]:
  "enabled (activate r t line) = enabled r" "routes (activate r t line) = routes r"
  "programmable (activate r t line) = programmable r"
  "target_count (activate r t line) = target_count r"
  by (simp_all add: activate_def)

lemma deliverable_line_64: "deliverable_line r t line \<Longrightarrow> line < 64"
  by (simp add: deliverable_line_def external_line_64)

lemma dispatch_frame [simp]:
  "enabled (dispatch_target_locked r t) = enabled r"
  "routes (dispatch_target_locked r t) = routes r"
  "programmable (dispatch_target_locked r t) = programmable r"
  "target_count (dispatch_target_locked r t) = target_count r"
  by (auto simp: dispatch_target_locked_def Let_def split: option.split)

lemma dispatch_out_of_range: "\<not> t < target_count r \<Longrightarrow> dispatch_target_locked r t = r"
  by (simp add: dispatch_target_locked_def)

lemma dispatch_shape:
  assumes "router_shape r"
  shows "router_shape (dispatch_target_locked r t)"
proof (cases "t < target_count r")
  case True
  then show ?thesis
  proof (cases rule: dispatch_cases)
    case (deliver line)
    then have "line < INTERRUPT_EXTERNAL_LINE_COUNT" by (simp add: deliverable_line_def)
    then show ?thesis
      using assms deliver by (auto simp: router_shape_def bit_activate external_line_64)
  qed (use assms in auto)
qed (use assms dispatch_out_of_range in simp)

lemma dispatch_one_active:
  assumes "one_active_line r" "router_shape r"
  shows "one_active_line (dispatch_target_locked r t)"
proof (cases "t < target_count r")
  case True
  then show ?thesis
  proof (cases rule: dispatch_cases)
    case (deliver line)
    have "\<forall>k. bit (active r) k \<longrightarrow> routes r k \<noteq> routes r line"
      using deliver(1,2) assms(2) by (auto simp: target_busy_def deliverable_line_def router_shape_def)
    then show ?thesis
      using assms(1) deliver(4) deliverable_line_64 [OF deliver(2)]
      by (simp add: one_active_line_def bit_activate) metis
  qed (use assms in auto)
qed (use assms dispatch_out_of_range in simp)

lemma target_busy_activate:
  "line < 64 \<Longrightarrow> target_busy r u \<Longrightarrow> target_busy (activate r t line) u"
  by (auto simp: target_busy_def bit_activate)

lemma dispatch_settled:
  assumes "settled_at r u"
  shows "settled_at (dispatch_target_locked r t) u"
proof (cases "t < target_count r")
  case True
  then show ?thesis
  proof (cases rule: dispatch_cases)
    case (deliver line)
    note l = deliverable_line_64 [OF deliver(2)]
    have "\<forall>k. deliverable_line (activate r t line) u k \<longrightarrow> deliverable_line r u k"
      using l by (auto simp: deliverable_line_def bit_activate)
    then show ?thesis
      using assms deliver l target_busy_activate unfolding settled_at_def by metis
  qed (use assms in auto)
qed (use assms dispatch_out_of_range in simp)

lemma dispatch_settles:
  assumes "t < target_count r"
  shows "settled_at (dispatch_target_locked r t) t"
  using assms
proof (cases rule: dispatch_cases)
  case (deliver line)
  then have "target_busy (activate r t line) t"
    by (auto simp: target_busy_def deliverable_line_def bit_activate external_line_64)
  with deliver show ?thesis by (simp add: settled_at_def)
qed (auto simp: settled_at_def)

lemma dispatch_all_inv:
  assumes "router_shape r" "one_active_line r"
  shows "router_ok (dispatch_all_locked r)"
proof -
  let ?d = "\<lambda>n. fold (\<lambda>t r. dispatch_target_locked r t) [0..<n] r"
  have "router_shape (?d n) \<and> one_active_line (?d n) \<and> target_count (?d n) = target_count r \<and>
      (\<forall>t < n. settled_at (?d n) t)" if "n \<le> target_count r" for n
    using that
  proof (induction n)
    case (Suc n)
    then show ?case
      using dispatch_shape dispatch_one_active dispatch_settled dispatch_settles
      by (auto simp: less_Suc_eq)
  qed (use assms in auto)
  then have "router_shape (dispatch_all_locked r)" "one_active_line (dispatch_all_locked r)"
    "target_count (dispatch_all_locked r) = target_count r"
    "\<forall>t < target_count r. settled_at (dispatch_all_locked r) t"
    by (auto simp: dispatch_all_locked_def)
  then show ?thesis
    by (auto simp: router_ok_def settled_at_def deliverable_line_def router_shape_def)
qed

section \<open>Every operation keeps the invariant\<close>

lemma router_okD:
  assumes "router_ok r"
  shows "router_shape r" "one_active_line r" "settled_at r t" "programmable r"
  using assms by (auto simp: router_ok_def router_shape_def)

text \<open>A change that leaves every other target settled, followed by a dispatch of the target
  it concerns, keeps the invariant.\<close>

lemma dispatch_restores:
  assumes "router_shape r" "one_active_line r" "\<And>u. u \<noteq> t \<Longrightarrow> settled_at r u" "t < target_count r"
  shows "router_ok (dispatch_target_locked r t)"
  using assms dispatch_shape dispatch_one_active dispatch_settled dispatch_settles
  unfolding router_ok_def by metis

lemma targets_update_ok:
  assumes "router_ok r" "length ts = target_count r"
  shows "router_ok (r\<lparr>targets := ts\<rparr>)"
  using assms
  by (simp add: router_ok_def router_shape_def one_active_line_def settled_at_def target_busy_def
      deliverable_line_def)

lemma raise_ok:
  assumes ok: "router_ok r"
  shows "router_ok (snd (interrupt_router_raise r line))"
proof (cases "line < INTERRUPT_EXTERNAL_LINE_COUNT")
  case True
  let ?r = "r\<lparr>pending := pending r OR BIT line\<rparr>"
  note l = external_line_64 [OF True]
  have shape: "router_shape ?r" and one: "one_active_line ?r"
    using router_okD [OF ok] True
    by (auto simp: router_shape_def one_active_line_def bit_or_iff bit_BIT)
  have other: "settled_at ?r u" if "u \<noteq> routes r line \<or> bit (active r) line" for u
  proof -
    have "deliverable_line r u k \<or> u = routes r line" if "deliverable_line ?r u k" for k
      using that by (auto simp: deliverable_line_def bit_or_iff bit_BIT)
    moreover have "target_busy ?r u = target_busy r u" by (simp add: target_busy_def)
    moreover have "bit (active r) line \<Longrightarrow> target_busy r (routes r line)"
      using True by (auto simp: target_busy_def)
    ultimately show ?thesis
      using router_okD(3) [OF ok, of u] that unfolding settled_at_def by blast
  qed
  have "routes r line < target_count r" using router_okD(1) [OF ok] True
    by (simp add: router_shape_def)
  then have "router_ok (dispatch_target_locked ?r (routes r line))"
    using shape one other by (intro dispatch_restores) auto
  moreover have "bit (active r) line \<Longrightarrow> router_ok ?r"
    using shape one other by (simp add: router_ok_def)
  ultimately show ?thesis
    using True l router_okD(4) [OF ok]
    by (simp add: interrupt_router_raise_def BIT_test Let_def INTERRUPT_LINE_COUNT_def)
qed (use ok in \<open>simp add: interrupt_router_raise_def router_okD\<close>)

lemma settled_retire:
  assumes "settled_at r u" "u \<noteq> routes r line"
  shows "settled_at (r\<lparr>active := active r AND NOT (BIT line)\<rparr>) u"
proof -
  let ?r = "r\<lparr>active := active r AND NOT (BIT line)\<rparr>"
  have "target_busy ?r u" if "target_busy r u"
  proof -
    obtain k where "k < INTERRUPT_EXTERNAL_LINE_COUNT" "bit (active r) k" "routes r k = u"
      using \<open>target_busy r u\<close> unfolding target_busy_def by blast
    then have "bit (active ?r) k" using assms(2) external_line_64 [of k]
      by (auto simp: bit_and_iff bit_not_iff bit_BIT)
    with \<open>k < INTERRUPT_EXTERNAL_LINE_COUNT\<close> \<open>routes r k = u\<close> show ?thesis
      unfolding target_busy_def by auto
  qed
  then show ?thesis using assms(1) unfolding settled_at_def deliverable_line_def by simp
qed

text \<open>Ending the service of a line, by an end of interrupt or a clear, hands its target on.\<close>

lemma retire_ok:
  assumes ok: "router_ok r" and line: "line < INTERRUPT_EXTERNAL_LINE_COUNT"
    and "length ts = target_count r"
  shows "router_ok (dispatch_target_locked
    (r\<lparr>active := active r AND NOT (BIT line), targets := ts\<rparr>) (routes r line))"
proof (rule dispatch_restores)
  let ?r = "r\<lparr>active := active r AND NOT (BIT line), targets := ts\<rparr>"
  show "router_shape ?r" "one_active_line ?r"
    using router_okD [OF ok] assms(3)
    by (auto simp: router_shape_def one_active_line_def bit_and_iff)
  show "routes r line < target_count ?r" using router_okD(1) [OF ok] line assms(3)
    by (simp add: router_shape_def)
  fix u assume "u \<noteq> routes r line"
  from settled_retire [OF router_okD(3) [OF ok] this] show "settled_at ?r u"
    by (simp add: settled_at_def deliverable_line_def target_busy_def)
qed

lemma mask_pending_ok:
  assumes "router_ok r"
  shows "router_ok (r\<lparr>pending := pending r AND p, enabled := enabled r AND e\<rparr>)"
proof -
  let ?r = "r\<lparr>pending := pending r AND p, enabled := enabled r AND e\<rparr>"
  have "target_busy ?r t = target_busy r t" for t by (simp add: target_busy_def)
  moreover have "deliverable_line r t k" if "deliverable_line ?r t k" for t k
    using that by (simp add: deliverable_line_def bit_and_iff)
  ultimately have "settled_at ?r t" for t
    using router_okD(3) [OF assms, of t] unfolding settled_at_def by blast
  moreover have "router_shape ?r" "one_active_line ?r"
    using router_okD [OF assms] by (auto simp: router_shape_def one_active_line_def bit_and_iff)
  ultimately show ?thesis by (simp add: router_ok_def)
qed

lemma eoi_ok:
  assumes "router_ok r"
  shows "router_ok (snd (interrupt_router_eoi r line))"
  using assms retire_ok [OF assms, of line "targets r"]
  by (simp add: interrupt_router_eoi_def Let_def)

lemma clear_ok:
  assumes "router_ok r"
  shows "router_ok (snd (interrupt_router_clear r line))"
proof (cases "line < INTERRUPT_EXTERNAL_LINE_COUNT")
  case True
  let ?p = "r\<lparr>pending := pending r AND NOT (BIT line)\<rparr>"
  have "router_ok ?p" using mask_pending_ok [OF assms, where p = "NOT (BIT line)" and e = "enabled r"] by simp
  with retire_ok [OF this True, of "(targets r)[routes r line :=
    snd (interrupt_controller_clear (targets r ! routes r line) line)]"]
  show ?thesis using router_okD(1) [OF assms] True
    by (simp add: interrupt_router_clear_def Let_def router_shape_def INTERRUPT_LINE_COUNT_def
        INTERRUPT_EXTERNAL_LINE_COUNT_def)
qed (use assms in \<open>simp add: interrupt_router_clear_def router_okD\<close>)

lemma set_route_ok:
  assumes ok: "router_ok r"
  shows "router_ok (snd (interrupt_router_set_route r line t))"
proof (cases "line < INTERRUPT_EXTERNAL_LINE_COUNT \<and> t < target_count r \<and> \<not> bit (active r) line")
  case True
  let ?r = "r\<lparr>routes := (routes r)(line := t)\<rparr>"
  have "router_shape ?r" using router_okD(1) [OF ok] True by (simp add: router_shape_def)
  moreover have "one_active_line ?r" unfolding one_active_line_def
  proof (intro allI impI)
    fix k l
    assume *: "bit (active ?r) k \<and> bit (active ?r) l \<and> routes ?r k = routes ?r l"
    then have "k \<noteq> line" "l \<noteq> line" using True by auto
    with * router_okD(2) [OF ok] show "k = l" by (simp add: one_active_line_def)
  qed
  moreover have "settled_at ?r u" if "u \<noteq> t" for u
  proof -
    have "deliverable_line ?r u k \<Longrightarrow> deliverable_line r u k" for k
      using that by (simp add: deliverable_line_def split: if_splits)
    moreover have "target_busy r u \<Longrightarrow> target_busy ?r u"
    proof -
      assume "target_busy r u"
      then obtain k where k: "k < INTERRUPT_EXTERNAL_LINE_COUNT" "bit (active r) k" "routes r k = u"
        unfolding target_busy_def by blast
      then have "k \<noteq> line" using True by blast
      with k show "target_busy ?r u" unfolding target_busy_def by auto
    qed
    ultimately show ?thesis
      using router_okD(3) [OF ok, of u] unfolding settled_at_def by blast
  qed
  ultimately have "router_ok (dispatch_target_locked ?r t)"
    using True by (intro dispatch_restores) simp_all
  then show ?thesis using router_okD(4) [OF ok] True external_line_64 [of line]
    by (simp add: interrupt_router_set_route_def Let_def BIT_test INTERRUPT_LINE_COUNT_def)
next
  case False
  then have "interrupt_router_set_route r line t = (False, r)"
    using router_okD(4) [OF ok] BIT_test [OF external_line_64, of line "active r"]
    unfolding interrupt_router_set_route_def by auto
  then show ?thesis using ok by simp
qed

lemma masked_lines:
  fixes lines :: u64
  assumes "lines AND NOT INTERRUPT_EXTERNAL_LINE_MASK = 0" "bit lines k"
  shows "k < INTERRUPT_EXTERNAL_LINE_COUNT"
proof -
  have "\<not> bit (lines AND NOT INTERRUPT_EXTERNAL_LINE_MASK) k" using assms(1) by simp
  then show ?thesis using assms(2) bit_u64_less [OF assms(2)] by (simp add: bit_simps)
qed

lemma enable_ok:
  assumes "router_ok r"
  shows "router_ok (snd (interrupt_router_set_enabled r lines))"
    "router_ok (snd (interrupt_router_enable_lines r lines))"
    "router_ok (snd (interrupt_router_disable_lines r lines))"
proof -
  have enable: "router_ok (dispatch_all_locked (r\<lparr>enabled := e\<rparr>))"
    if "\<And>k. bit e k \<Longrightarrow> k < INTERRUPT_EXTERNAL_LINE_COUNT" for e
    using router_okD [OF assms] that
    by (intro dispatch_all_inv) (auto simp: router_shape_def one_active_line_def)
  have old: "bit (enabled r) k \<Longrightarrow> k < INTERRUPT_EXTERNAL_LINE_COUNT" for k
    using router_okD(1) [OF assms] by (simp add: router_shape_def)
  show "router_ok (snd (interrupt_router_set_enabled r lines))"
    using assms masked_lines by (auto simp: interrupt_router_set_enabled_def intro!: enable)
  show "router_ok (snd (interrupt_router_enable_lines r lines))"
    using assms masked_lines old
    by (auto simp: interrupt_router_enable_lines_def bit_or_iff intro!: enable)
  have "router_ok (r\<lparr>enabled := enabled r AND NOT lines\<rparr>)"
    using mask_pending_ok [OF assms, where p = "pending r" and e = "NOT lines"] by simp
  then show "router_ok (snd (interrupt_router_disable_lines r lines))"
    using assms by (simp add: interrupt_router_disable_lines_def)
qed

lemma router_step_ok: "router_ok r \<Longrightarrow> router_ok (router_step e r)"
  by (cases e) (auto intro: raise_ok eoi_ok clear_ok set_route_ok enable_ok targets_update_ok)

lemma reset_ok: "targets r \<noteq> [] \<Longrightarrow> router_ok (interrupt_router_programmable_reset r)"
  by (simp add: interrupt_router_programmable_reset_def router_ok_def router_shape_def
      one_active_line_def settled_at_def deliverable_line_def INTERRUPT_EXTERNAL_LINE_COUNT_def
      INTERRUPT_LINE_COUNT_def)

interpretation router_machine: invariant_machine router_step router_ok
  by unfold_locales (rule router_step_ok)

lemma sample_router: "interrupt_router_init [0, 0] = Some
  \<lparr>targets = [0, 0], routes = (\<lambda>_. 0), enabled = UINT64_MAX, pending = 0, active = 0,
   programmable = False\<rparr>"
  by (simp add: interrupt_router_init_def)

section \<open>Properties\<close>

text \<open>C11: After the router has entered programmable mode, whatever sequence of device
  interrupts, register writes, ends of interrupt, inter-processor interrupts and deliveries
  follows, two active lines never share a target, every route is a valid target, and no
  interrupt is lost: a line that is pending and enabled waits only while a line is active on
  its target, which is another line or the same line, raised again before its end of
  interrupt.\<close>

theorem router_serves_every_line:
  assumes "interrupt_router_init ts = Some r"
    and "s = fold router_step es (interrupt_router_programmable_reset r)"
  shows "(\<forall>k l. bit (active s) k \<and> bit (active s) l \<and> routes s k = routes s l \<longrightarrow> k = l) \<and>
    (\<forall>line < INTERRUPT_EXTERNAL_LINE_COUNT. routes s line < target_count s) \<and>
    (\<forall>line. bit (pending s) line \<and> bit (enabled s) line \<longrightarrow>
       (\<exists>k < INTERRUPT_EXTERNAL_LINE_COUNT. bit (active s) k \<and> routes s k = routes s line))"
proof -
  have "targets r \<noteq> []" using assms(1) by (auto simp: interrupt_router_init_def split: if_splits)
  then have ok: "router_ok s" unfolding assms(2) by (intro router_machine.run_inv reset_ok)
  have "target_busy s (routes s line)" if "bit (pending s) line" "bit (enabled s) line" for line
    using router_okD(3) [OF ok, of "routes s line"] router_okD(1) [OF ok] that
    by (auto simp: settled_at_def deliverable_line_def router_shape_def)
  then show ?thesis
    using router_okD(1,2) [OF ok]
    unfolding target_busy_def one_active_line_def router_shape_def by blast
qed

theorem router_serves_every_line_witness:
  "\<exists>s. s = fold router_step [Enable_Lines 6, Set_Route 2 1, Raise 1, Raise 2, Eoi 1]
     (interrupt_router_programmable_reset
       \<lparr>targets = [0, 0], routes = (\<lambda>_. 0), enabled = UINT64_MAX, pending = 0, active = 0,
        programmable = False\<rparr>) \<and>
   (\<forall>k l. bit (active s) k \<and> bit (active s) l \<and> routes s k = routes s l \<longrightarrow> k = l)"
  using router_serves_every_line [OF sample_router refl,
    of "[Enable_Lines 6, Set_Route 2 1, Raise 1, Raise 2, Eoi 1]"]
  by blast

text \<open>C12: An end of interrupt for an active line retires it and hands its target to the
  lowest-numbered line that is pending, enabled and routed there, which becomes active, leaves
  the pending set and is raised in the controller of the target; if there is none, the target
  has no active line afterwards.\<close>

theorem eoi_hands_target_on:
  assumes ok: "router_ok r" and line: "bit (active r) line"
    and eoi: "interrupt_router_eoi r line = (b, s)"
  shows "b \<and> (case find (deliverable_line r (routes r line)) [0..<INTERRUPT_EXTERNAL_LINE_COUNT] of
      None \<Rightarrow> \<not> target_busy s (routes r line) \<and> targets s = targets r
    | Some next \<Rightarrow>
        bit (active s) next \<and> \<not> bit (pending s) next \<and>
        bit (targets s ! routes r line) next \<and>
        (\<forall>k. bit (active s) k \<and> routes s k = routes r line \<longrightarrow> k = next))"
proof -
  let ?t = "routes r line" and ?r = "r\<lparr>active := active r AND NOT (BIT line)\<rparr>"
  have ext: "line < INTERRUPT_EXTERNAL_LINE_COUNT" and t: "?t < target_count ?r"
    using router_okD(1) [OF ok] line by (auto simp: router_shape_def)
  have b: b and s: "s = dispatch_target_locked ?r ?t"
    using eoi line ext router_okD(4) [OF ok] external_line_64 [OF ext]
    by (auto simp: interrupt_router_eoi_def BIT_test Let_def)
  have dl: "deliverable_line ?r ?t = deliverable_line r ?t"
    by (simp add: deliverable_line_def fun_eq_iff)
  have idle: "\<not> target_busy ?r ?t"
    using router_okD(2) [OF ok] line external_line_64 [OF ext]
    by (auto simp: target_busy_def one_active_line_def bit_and_iff bit_not_iff bit_BIT)
  have "router_ok s" unfolding s using retire_ok [OF ok ext, of "targets r"] by simp
  then have one: "one_active_line s" by (rule router_okD)
  from t show ?thesis
  proof (cases rule: dispatch_cases)
    case busy
    with idle show ?thesis by blast
  next
    case none: idle
    then have "find (deliverable_line r ?t) [0..<INTERRUPT_EXTERNAL_LINE_COUNT] = None"
      unfolding dl find_None_iff by blast
    with b s none show ?thesis by simp
  next
    case (deliver l)
    then have l: "l < INTERRUPT_EXTERNAL_LINE_COUNT" "routes r l = ?t"
      by (auto simp: deliverable_line_def)
    have "find (deliverable_line r ?t) [0..<INTERRUPT_EXTERNAL_LINE_COUNT] = Some l"
      unfolding find_Some_iff using l deliver(2,3) unfolding dl by (intro exI [of _ l]) auto
    moreover have "bit (active s) l \<and> \<not> bit (pending s) l \<and> bit (targets s ! ?t) l"
      using deliver(4) t external_line_64 [OF l(1)] unfolding s
      by (simp add: bit_activate) (simp add: activate_def bit_or_iff bit_BIT)
    moreover have "routes s = routes r" by (simp add: s)
    ultimately show ?thesis using b one l(2) by (simp add: one_active_line_def)
  qed
qed

theorem eoi_hands_target_on_witness:
  "\<exists>s. s = snd (interrupt_router_eoi (fold router_step [Enable_Lines 6, Raise 1, Raise 2]
      (interrupt_router_programmable_reset
       \<lparr>targets = [0], routes = (\<lambda>_. 0), enabled = 0, pending = 0, active = 0,
        programmable = False\<rparr>)) 1) \<and> bit (active s) 2"
proof -
  let ?r0 = "interrupt_router_programmable_reset \<lparr>targets = [0], routes = (\<lambda>_. 0), enabled = 0,
    pending = 0, active = 0, programmable = False\<rparr>"
  let ?r = "fold router_step [Enable_Lines 6, Raise 1, Raise 2] ?r0"
  have ok: "router_ok ?r" by (intro router_machine.run_inv reset_ok) simp
  have act: "bit (active ?r) 1" by code_simp
  have "find (deliverable_line ?r (routes ?r 1)) [0..<INTERRUPT_EXTERNAL_LINE_COUNT] = Some 2"
    by code_simp
  with eoi_hands_target_on [OF ok act surjective_pairing] show ?thesis by auto
qed

text \<open>C13: A hardware thread takes an inter-processor interrupt before any external line and
  the lowest line of its class first; the line taken, and no other, leaves the pending set, and
  the selection returns unless nothing is pending.\<close>

theorem take_next_priority:
  "case interrupt_controller_take_next c of
     (None, c') \<Rightarrow> c = 0 \<and> c' = c
   | (Some line, c') \<Rightarrow>
       bit c line \<and>
       (\<forall>k. bit c k \<longrightarrow>
          (if line < INTERRUPT_EXTERNAL_LINE_COUNT then line \<le> k \<and> k < INTERRUPT_EXTERNAL_LINE_COUNT
           else k < INTERRUPT_EXTERNAL_LINE_COUNT \<or> line \<le> k)) \<and>
       (\<forall>k. bit c' k \<longleftrightarrow> bit c k \<and> k \<noteq> line)"
proof (cases "c = 0")
  case False
  define ipi where "ipi = c AND NOT INTERRUPT_EXTERNAL_LINE_MASK"
  define v where "v = (if ipi \<noteq> 0 then ipi else c)"
  have ipi: "bit ipi k \<longleftrightarrow> bit c k \<and> INTERRUPT_EXTERNAL_LINE_COUNT \<le> k" for k
    using bit_u64_less [of c k]
    by (auto simp: ipi_def bit_and_iff bit_not_iff bit_external_mask)
  have "v \<noteq> 0" using False by (simp add: v_def)
  then obtain n where n: "lowest_set_bit v = Some n" "bit v n" "\<forall>m < n. \<not> bit v m"
    using lowest_set_bit_Some by blast
  have next_line: "interrupt_controller_take_next c = (Some n, c AND NOT (BIT n))"
    using False n(1) 
    by (simp only: interrupt_controller_take_next_def Let_def ipi_def [symmetric] v_def [symmetric]
        if_False option.sel)
  have bit_c: "bit c n" using n(2) ipi by (auto simp: v_def split: if_splits)
  have sel: "if n < INTERRUPT_EXTERNAL_LINE_COUNT then n \<le> k \<and> k < INTERRUPT_EXTERNAL_LINE_COUNT
      else k < INTERRUPT_EXTERNAL_LINE_COUNT \<or> n \<le> k" if "bit c k" for k
  proof (cases "ipi = 0")
    case True
    then have "\<not> bit ipi j" for j by simp
    then have "j < INTERRUPT_EXTERNAL_LINE_COUNT" if "bit c j" for j
      using ipi that not_less by blast
    with True n(3) that bit_c show ?thesis by (auto simp: v_def not_less [symmetric])
  next
    case False
    then show ?thesis using n(2,3) that ipi by (auto simp: v_def) (meson not_less)
  qed
  have rest: "bit (c AND NOT (BIT n)) k \<longleftrightarrow> bit c k \<and> k \<noteq> n" for k
    using bit_u64_less [OF bit_c] bit_u64_less [of c k]
    by (auto simp: bit_and_iff bit_not_iff bit_BIT)
  show ?thesis unfolding next_line using bit_c sel rest by simp
qed (simp add: interrupt_controller_take_next_def)

theorem take_next_priority_witness:
  "interrupt_controller_take_next (BIT 3 OR BIT 50) = (Some 50, BIT 3)"
proof -
  let ?c = "BIT 3 OR BIT 50 :: u64"
  have bits: "bit ?c k \<longleftrightarrow> k = 3 \<or> k = 50" for k by (auto simp: bit_or_iff bit_BIT)
  obtain x c' where t: "interrupt_controller_take_next ?c = (x, c')" by fastforce
  have "?c \<noteq> 0" using bits [of 3] by force
  with take_next_priority [of ?c] t obtain line where x: "x = Some line" by (cases x) auto
  note all = take_next_priority [of ?c, unfolded t x prod.case option.case]
  have "line = 3 \<or> line = 50" using all [THEN conjunct1] unfolding bits .
  moreover have "\<not> line < INTERRUPT_EXTERNAL_LINE_COUNT"
    using all [THEN conjunct2, THEN conjunct1, THEN spec [of _ 50]] unfolding bits INTERRUPT_EXTERNAL_LINE_COUNT_def
    by (simp split: if_splits)
  ultimately have line: "line = 50" by (auto simp: INTERRUPT_EXTERNAL_LINE_COUNT_def)
  have "bit c' k = bit (BIT 3 :: u64) k" for k
    using all [THEN conjunct2, THEN conjunct2, THEN spec [of _ k]] unfolding bits line by (auto simp: bit_BIT)
  then have "c' = BIT 3" by (intro bit_word_eqI)
  then show ?thesis using t x line by simp
qed

end
