(* ===== verification/Cpu_State.thy ===== *)
theory Cpu_State
  imports Bus Mmu Interrupt
begin

text \<open>
  The processor state of \<^verbatim>\<open>include/cpu.h\<close> and the vocabulary of the instruction handlers of
  \<^verbatim>\<open>src/cpu.c\<close>: a machine is a processor with the bus it is attached to, and an operation maps
  a machine to an optional result and a machine. \<open>None\<close> is the C result 0; the machine is
  returned in both cases, since a failing operation may already have changed it. The RAM
  argument of the C functions is always \<^verbatim>\<open>bus->ram\<close>, so it is the RAM of the bus here, and the
  \<^verbatim>\<open>bus\<close> pointer of the processor, which \<open>cpu_step\<close> and \<open>cpu_check_interrupt\<close> set before
  use, has no counterpart.
\<close>

section \<open>Constants\<close>

definition REGISTER_COUNT :: nat where "REGISTER_COUNT = 16"
definition REGISTER_SP :: nat where "REGISTER_SP = 15"
definition VECTOR_REGISTER_COUNT :: nat where "VECTOR_REGISTER_COUNT = 16"
definition VECTOR_REGISTER_SIZE :: nat where "VECTOR_REGISTER_SIZE = 16"

datatype cpu_exception =
    CPU_EXCEPTION_NONE
  | CPU_EXCEPTION_ILLEGAL_INSTRUCTION
  | CPU_EXCEPTION_INSTRUCTION_ACCESS
  | CPU_EXCEPTION_DATA_ACCESS
  | CPU_EXCEPTION_DIVIDE_BY_ZERO
  | CPU_EXCEPTION_ARITHMETIC_OVERFLOW
  | CPU_EXCEPTION_STACK_FAULT
  | CPU_EXCEPTION_PRIVILEGE_VIOLATION
  | CPU_EXCEPTION_INSTRUCTION_PAGE_FAULT
  | CPU_EXCEPTION_LOAD_PAGE_FAULT
  | CPU_EXCEPTION_STORE_PAGE_FAULT
  | CPU_EXCEPTION_MMU_CONFIGURATION

fun exception_code :: "cpu_exception \<Rightarrow> u64" where
  "exception_code CPU_EXCEPTION_NONE = 0"
| "exception_code CPU_EXCEPTION_ILLEGAL_INSTRUCTION = 1"
| "exception_code CPU_EXCEPTION_INSTRUCTION_ACCESS = 2"
| "exception_code CPU_EXCEPTION_DATA_ACCESS = 3"
| "exception_code CPU_EXCEPTION_DIVIDE_BY_ZERO = 4"
| "exception_code CPU_EXCEPTION_ARITHMETIC_OVERFLOW = 5"
| "exception_code CPU_EXCEPTION_STACK_FAULT = 6"
| "exception_code CPU_EXCEPTION_PRIVILEGE_VIOLATION = 7"
| "exception_code CPU_EXCEPTION_INSTRUCTION_PAGE_FAULT = 8"
| "exception_code CPU_EXCEPTION_LOAD_PAGE_FAULT = 9"
| "exception_code CPU_EXCEPTION_STORE_PAGE_FAULT = 10"
| "exception_code CPU_EXCEPTION_MMU_CONFIGURATION = 11"

definition CPU_EXCEPTION_COUNT :: nat where "CPU_EXCEPTION_COUNT = 12"
definition CPU_VECTOR_INTERRUPT_BASE :: nat where "CPU_VECTOR_INTERRUPT_BASE = 0"
definition CPU_VECTOR_EXCEPTION_BASE :: nat where "CPU_VECTOR_EXCEPTION_BASE = INTERRUPT_LINE_COUNT"
definition CPU_VECTOR_SYSCALL :: nat where
  "CPU_VECTOR_SYSCALL = CPU_VECTOR_EXCEPTION_BASE + CPU_EXCEPTION_COUNT"
definition CPU_VECTOR_ENTRY_SIZE :: nat where "CPU_VECTOR_ENTRY_SIZE = 8"
definition CPU_VECTOR_ENTRY_COUNT :: nat where "CPU_VECTOR_ENTRY_COUNT = CPU_VECTOR_SYSCALL + 1"
definition CPU_VECTOR_TABLE_SIZE :: nat where
  "CPU_VECTOR_TABLE_SIZE = CPU_VECTOR_ENTRY_COUNT * CPU_VECTOR_ENTRY_SIZE"

definition CPU_FLAG_ZERO :: u64 where "CPU_FLAG_ZERO = BIT 0"
definition CPU_FLAG_NEGATIVE :: u64 where "CPU_FLAG_NEGATIVE = BIT 1"
definition CPU_FLAG_CARRY :: u64 where "CPU_FLAG_CARRY = BIT 2"
definition CPU_FLAG_OVERFLOW :: u64 where "CPU_FLAG_OVERFLOW = BIT 3"
definition CPU_FLAG_INTERRUPT_ENABLE :: u64 where "CPU_FLAG_INTERRUPT_ENABLE = BIT 4"
definition CPU_FLAG_UNORDERED :: u64 where "CPU_FLAG_UNORDERED = BIT 5"

definition SIGN_BIT :: u64 where "SIGN_BIT = BIT 63"

definition CPU_FLAG_MASK :: u64 where
  "CPU_FLAG_MASK = CPU_FLAG_ZERO OR CPU_FLAG_NEGATIVE OR CPU_FLAG_CARRY OR CPU_FLAG_OVERFLOW OR
     CPU_FLAG_INTERRUPT_ENABLE OR CPU_FLAG_UNORDERED"

definition CPU_SAVED_FLAG_EXCEPTION_FRAME :: u64 where "CPU_SAVED_FLAG_EXCEPTION_FRAME = BIT 63"
definition CPU_SAVED_FLAG_USER_MODE :: u64 where "CPU_SAVED_FLAG_USER_MODE = BIT 62"

definition CPU_EINFO_BADADDR_VALID :: u64 where "CPU_EINFO_BADADDR_VALID = BIT 0"
definition CPU_EINFO_ACCESS_READ :: u64 where "CPU_EINFO_ACCESS_READ = BIT 1"
definition CPU_EINFO_ACCESS_WRITE :: u64 where "CPU_EINFO_ACCESS_WRITE = BIT 2"
definition CPU_EINFO_ACCESS_EXECUTE :: u64 where "CPU_EINFO_ACCESS_EXECUTE = BIT 3"
definition CPU_EINFO_ACCESS_ATOMIC :: u64 where "CPU_EINFO_ACCESS_ATOMIC = BIT 4"
definition CPU_EINFO_ORIGIN_USER :: u64 where "CPU_EINFO_ORIGIN_USER = BIT 5"
definition CPU_EINFO_MMU_ENABLED :: u64 where "CPU_EINFO_MMU_ENABLED = BIT 6"
definition CPU_EINFO_PAGE_INVALID_VA :: u64 where "CPU_EINFO_PAGE_INVALID_VA = BIT 8"
definition CPU_EINFO_PAGE_INVALID_ROOT :: u64 where "CPU_EINFO_PAGE_INVALID_ROOT = BIT 9"
definition CPU_EINFO_PAGE_NOT_PRESENT :: u64 where "CPU_EINFO_PAGE_NOT_PRESENT = BIT 10"
definition CPU_EINFO_PAGE_MALFORMED :: u64 where "CPU_EINFO_PAGE_MALFORMED = BIT 11"
definition CPU_EINFO_PAGE_PERMISSION :: u64 where "CPU_EINFO_PAGE_PERMISSION = BIT 12"

section \<open>Processor and machine\<close>

datatype cpu_mode = CPU_MODE_USER | CPU_MODE_SUPERVISOR

record cpu =
  registers :: "nat \<Rightarrow> u64"
  vector_registers :: "nat \<Rightarrow> bytes"
  pc :: u64
  flags :: u64
  fp_status :: u64
  vbr :: u64
  ptbr :: u64
  ksp :: u64
  epc :: u64
  ecause :: u64
  badaddr :: u64
  einfo :: u64
  instruction_pc :: u64
  core_id :: u32
  thread_id :: u32
  cpu_mode :: cpu_mode
  halted :: bool
  waiting :: bool
  vbr_enabled :: bool
  ptbr_set :: bool
  mmu_enabled :: bool
  exception_pending :: bool
  exception_active :: bool

record 'w machine =
  cpu :: cpu
  bus :: "'w bus"

abbreviation mach_ram :: "'w machine \<Rightarrow> ram" where
  "mach_ram m \<equiv> bus_ram (bus m)"

section \<open>Operations\<close>

type_synonym ('a, 'w) operation = "'w machine \<Rightarrow> 'a option \<times> 'w machine"

definition give :: "'a \<Rightarrow> ('a, 'w) operation" where
  "give x m = (Some x, m)"

definition fail :: "('a, 'w) operation" where
  "fail m = (None, m)"

text \<open>\<^verbatim>\<open>if (!f(cpu, ram, &x)) return 0;\<close> followed by the rest.\<close>

definition and_then :: "('a, 'w) operation \<Rightarrow> ('a \<Rightarrow> ('b, 'w) operation) \<Rightarrow> ('b, 'w) operation" where
  "and_then f g m =
     (case f m of (None, m') \<Rightarrow> (None, m') | (Some x, m') \<Rightarrow> g x m')"

definition get_cpu :: "(cpu \<Rightarrow> 'a) \<Rightarrow> ('a, 'w) operation" where
  "get_cpu f m = (Some (f (cpu m)), m)"

definition set_cpu :: "(cpu \<Rightarrow> cpu) \<Rightarrow> (unit, 'w) operation" where
  "set_cpu f m = (Some (), m\<lparr>cpu := f (cpu m)\<rparr>)"

definition get_register :: "u8 \<Rightarrow> (u64, 'w) operation" where
  "get_register reg = get_cpu (\<lambda>c. registers c (unat reg))"

definition set_register :: "u8 \<Rightarrow> u64 \<Rightarrow> (unit, 'w) operation" where
  "set_register reg value =
     set_cpu (\<lambda>c. c\<lparr>registers := (registers c)(unat reg := value)\<rparr>)"

section \<open>Exceptions\<close>

definition set_exception :: "cpu_exception \<Rightarrow> u64 \<Rightarrow> u64 \<Rightarrow> ('a, 'w) operation" where
  "set_exception exception bad info m =
     (let c = cpu m
      in (None,
          if exception_pending c then m
          else m\<lparr>cpu := c\<lparr>exception_pending := True,
                          epc := instruction_pc c,
                          ecause := exception_code exception,
                          badaddr := bad,
                          einfo := info OR
                            (if cpu_mode c = CPU_MODE_USER then CPU_EINFO_ORIGIN_USER else 0) OR
                            (if mmu_enabled c then CPU_EINFO_MMU_ENABLED else 0)\<rparr>\<rparr>))"

definition require_supervisor :: "(unit, 'w) operation" where
  "require_supervisor m =
     (if cpu_mode (cpu m) = CPU_MODE_SUPERVISOR then (Some (), m)
      else set_exception CPU_EXCEPTION_PRIVILEGE_VIOLATION 0 0 m)"

definition cpu_internal_illegal_instruction :: "('a, 'w) operation" where
  "cpu_internal_illegal_instruction = set_exception CPU_EXCEPTION_ILLEGAL_INSTRUCTION 0 0"

definition make_saved_flags :: "cpu \<Rightarrow> bool \<Rightarrow> u64" where
  "make_saved_flags c exception_frame =
     (flags c AND CPU_FLAG_MASK) OR
     (if cpu_mode c = CPU_MODE_USER then CPU_SAVED_FLAG_USER_MODE else 0) OR
     (if exception_frame then CPU_SAVED_FLAG_EXCEPTION_FRAME else 0)"

fun access_exception_info :: "mmu_access \<Rightarrow> u64" where
  "access_exception_info MMU_ACCESS_READ = CPU_EINFO_ACCESS_READ"
| "access_exception_info MMU_ACCESS_WRITE = CPU_EINFO_ACCESS_WRITE"
| "access_exception_info MMU_ACCESS_EXECUTE = CPU_EINFO_ACCESS_EXECUTE"
| "access_exception_info MMU_ACCESS_ATOMIC =
     CPU_EINFO_ACCESS_READ OR CPU_EINFO_ACCESS_WRITE OR CPU_EINFO_ACCESS_ATOMIC"

fun mmu_result_exception_info :: "mmu_result \<Rightarrow> u64" where
  "mmu_result_exception_info (MMU_RESULT_OK _) = 0"
| "mmu_result_exception_info MMU_RESULT_INVALID_VIRTUAL_ADDRESS = CPU_EINFO_PAGE_INVALID_VA"
| "mmu_result_exception_info MMU_RESULT_INVALID_ROOT = CPU_EINFO_PAGE_INVALID_ROOT"
| "mmu_result_exception_info MMU_RESULT_NOT_PRESENT = CPU_EINFO_PAGE_NOT_PRESENT"
| "mmu_result_exception_info MMU_RESULT_MALFORMED_ENTRY = CPU_EINFO_PAGE_MALFORMED"
| "mmu_result_exception_info MMU_RESULT_PERMISSION_DENIED = CPU_EINFO_PAGE_PERMISSION"

text \<open>The callers that pass \<^verbatim>\<open>MMU_RESULT_OK\<close> carry no physical address.\<close>

definition MMU_OK :: mmu_result where "MMU_OK = MMU_RESULT_OK 0"

definition set_access_exception ::
  "cpu_exception \<Rightarrow> u64 \<Rightarrow> mmu_access \<Rightarrow> mmu_result \<Rightarrow> ('a, 'w) operation" where
  "set_access_exception exception address access mmu_result =
     set_exception exception address
       (CPU_EINFO_BADADDR_VALID OR access_exception_info access OR
        mmu_result_exception_info mmu_result)"

fun page_fault_for_access :: "mmu_access \<Rightarrow> cpu_exception" where
  "page_fault_for_access access =
     (if access = MMU_ACCESS_EXECUTE then CPU_EXCEPTION_INSTRUCTION_PAGE_FAULT
      else if access = MMU_ACCESS_READ then CPU_EXCEPTION_LOAD_PAGE_FAULT
      else CPU_EXCEPTION_STORE_PAGE_FAULT)"

section \<open>Memory accesses\<close>

definition translate_address :: "u64 \<Rightarrow> mmu_access \<Rightarrow> bool \<Rightarrow> (u64, 'w) operation" where
  "translate_address virtual_address access report_fault m =
     (let c = cpu m
      in if \<not> mmu_enabled c then (Some virtual_address, m)
         else
           case mmu_translate (mach_ram m) (ptbr c) (cpu_mode c = CPU_MODE_USER)
                  virtual_address access of
             MMU_RESULT_OK physical_address \<Rightarrow> (Some physical_address, m)
           | result \<Rightarrow>
               if report_fault then
                 set_access_exception (page_fault_for_access access) virtual_address access result m
               else (None, m))"

record memory_segment =
  seg_virtual_address :: u64
  seg_physical_address :: u64
  seg_width :: nat
  seg_byte_offset :: nat

text \<open>The loop that cuts an access at page boundaries; \<open>slots\<close> is the room left in the array
  of two segments.\<close>

fun segment_loop ::
  "nat \<Rightarrow> mmu_access \<Rightarrow> bool \<Rightarrow> u64 \<Rightarrow> nat \<Rightarrow> nat \<Rightarrow> (memory_segment list, 'w) operation" where
  "segment_loop slots access report_fault cursor byte_offset remaining =
     (if remaining = 0 then give []
      else
        case slots of
          0 \<Rightarrow> fail
        | Suc slots' \<Rightarrow>
            let page_remaining = unat (MMU_PAGE_SIZE - (cursor AND MMU_PAGE_MASK));
                chunk = (if remaining < page_remaining then remaining else page_remaining)
            in and_then (translate_address cursor access report_fault) (\<lambda>physical_address.
               and_then (segment_loop slots' access report_fault (cursor + of_nat chunk)
                          (byte_offset + chunk) (remaining - chunk)) (\<lambda>segments.
               give (\<lparr>seg_virtual_address = cursor, seg_physical_address = physical_address,
                      seg_width = chunk, seg_byte_offset = byte_offset\<rparr> # segments))))"

declare segment_loop.simps [simp del]

definition build_memory_segments ::
  "u64 \<Rightarrow> nat \<Rightarrow> mmu_access \<Rightarrow> cpu_exception \<Rightarrow> bool \<Rightarrow> (memory_segment list, 'w) operation" where
  "build_memory_segments virtual_address width access physical_exception report_fault m =
     (if width = 0 \<or> width > VECTOR_REGISTER_SIZE \<or>
         virtual_address > UINT64_MAX - of_nat (width - 1) then
        if report_fault then
          set_access_exception
            (if mmu_enabled (cpu m) then page_fault_for_access access else physical_exception)
            virtual_address access
            (if mmu_enabled (cpu m) then MMU_RESULT_INVALID_VIRTUAL_ADDRESS else MMU_OK) m
        else (None, m)
      else if \<not> mmu_enabled (cpu m) then
        (Some [\<lparr>seg_virtual_address = virtual_address, seg_physical_address = virtual_address,
                seg_width = width, seg_byte_offset = 0\<rparr>], m)
      else segment_loop 2 access report_fault virtual_address 0 width m)"

text \<open>A failing access raises its exception when faults are reported.\<close>

definition fault_at ::
  "bool \<Rightarrow> cpu_exception \<Rightarrow> u64 \<Rightarrow> mmu_access \<Rightarrow> ('a, 'w) operation" where
  "fault_at report_fault exception address access =
     (if report_fault then set_access_exception exception address access MMU_OK else fail)"

definition segment_read :: "mmu_access \<Rightarrow> bool \<Rightarrow> memory_segment \<Rightarrow> (u64, 'w) operation" where
  "segment_read access use_bus s m =
     (if access = MMU_ACCESS_EXECUTE then
        (bus_fetch (bus m) (seg_physical_address s) (seg_width s), m)
      else if use_bus then
        let (part, b) = bus_read (bus m) (seg_physical_address s) (seg_width s)
        in (part, m\<lparr>bus := b\<rparr>)
      else (ram_read (mach_ram m) (seg_physical_address s) (seg_width s), m))"

fun read_segments ::
  "mmu_access \<Rightarrow> bool \<Rightarrow> cpu_exception \<Rightarrow> bool \<Rightarrow> memory_segment list \<Rightarrow> u64 \<Rightarrow> (u64, 'w) operation" where
  "read_segments access use_bus physical_exception report_fault [] result m = (Some result, m)"
| "read_segments access use_bus physical_exception report_fault (s # segments) result m =
     (case segment_read access use_bus s m of
        (None, m') \<Rightarrow>
          fault_at report_fault physical_exception (seg_virtual_address s) access m'
      | (Some part, m') \<Rightarrow>
          read_segments access use_bus physical_exception report_fault segments
            (result OR push_bit (seg_byte_offset s * 8) part) m')"

definition memory_read ::
  "u64 \<Rightarrow> nat \<Rightarrow> mmu_access \<Rightarrow> bool \<Rightarrow> cpu_exception \<Rightarrow> bool \<Rightarrow> (u64, 'w) operation" where
  "memory_read virtual_address width access use_bus physical_exception report_fault =
     and_then (build_memory_segments virtual_address width access physical_exception report_fault)
       (\<lambda>segments. read_segments access use_bus physical_exception report_fault segments 0)"

text \<open>\<open>ram_range_valid\<close> of \<^verbatim>\<open>cpu.c\<close>, which unlike the function of \<^verbatim>\<open>ram.c\<close> bounds no width.\<close>

definition cpu_ram_range_valid :: "ram \<Rightarrow> u64 \<Rightarrow> nat \<Rightarrow> bool" where
  "cpu_ram_range_valid ram address width \<longleftrightarrow>
     (if unat address \<le> SIZE_MAX then
        unat address \<le> ram_size ram \<and> width \<le> ram_size ram - unat address
      else False)"

fun check_segments ::
  "cpu_exception \<Rightarrow> bool \<Rightarrow> mmu_access \<Rightarrow> memory_segment list \<Rightarrow> (unit, 'w) operation" where
  "check_segments physical_exception report_fault access [] m = (Some (), m)"
| "check_segments physical_exception report_fault access (s # segments) m =
     (if \<not> cpu_ram_range_valid (mach_ram m) (seg_physical_address s) (seg_width s) then
        fault_at report_fault physical_exception (seg_virtual_address s) access m
      else check_segments physical_exception report_fault access segments m)"

definition segment_write :: "bool \<Rightarrow> memory_segment \<Rightarrow> u64 \<Rightarrow> (unit, 'w) operation" where
  "segment_write use_bus s part m =
     (if use_bus then
        let (success, b) = bus_write (bus m) (seg_physical_address s) (seg_width s) part
        in (if success then Some () else None, m\<lparr>bus := b\<rparr>)
      else
        case ram_write (mach_ram m) (seg_physical_address s) (seg_width s) part of
          None \<Rightarrow> (None, m)
        | Some ram \<Rightarrow> (Some (), m\<lparr>bus := (bus m)\<lparr>bus_ram := ram\<rparr>\<rparr>))"

fun write_segments ::
  "mmu_access \<Rightarrow> bool \<Rightarrow> cpu_exception \<Rightarrow> bool \<Rightarrow> u64 \<Rightarrow> memory_segment list \<Rightarrow> (unit, 'w) operation" where
  "write_segments access use_bus physical_exception report_fault value [] m = (Some (), m)"
| "write_segments access use_bus physical_exception report_fault value (s # segments) m =
     (case segment_write use_bus s (drop_bit (seg_byte_offset s * 8) value) m of
        (None, m') \<Rightarrow>
          fault_at report_fault physical_exception (seg_virtual_address s) access m'
      | (Some _, m') \<Rightarrow>
          write_segments access use_bus physical_exception report_fault value segments m')"

definition memory_write ::
  "u64 \<Rightarrow> nat \<Rightarrow> mmu_access \<Rightarrow> bool \<Rightarrow> cpu_exception \<Rightarrow> bool \<Rightarrow> u64 \<Rightarrow> (unit, 'w) operation" where
  "memory_write virtual_address width access use_bus physical_exception report_fault value =
     and_then (build_memory_segments virtual_address width access physical_exception report_fault)
       (\<lambda>segments.
        and_then (if \<not> use_bus then check_segments physical_exception report_fault access segments
                  else give ())
       (\<lambda>_. write_segments access use_bus physical_exception report_fault value segments))"

definition cpu_internal_data_read :: "u64 \<Rightarrow> nat \<Rightarrow> (u64, 'w) operation" where
  "cpu_internal_data_read address width =
     memory_read address width MMU_ACCESS_READ True CPU_EXCEPTION_DATA_ACCESS True"

definition cpu_internal_data_write :: "u64 \<Rightarrow> nat \<Rightarrow> u64 \<Rightarrow> (unit, 'w) operation" where
  "cpu_internal_data_write address width value =
     memory_write address width MMU_ACCESS_WRITE True CPU_EXCEPTION_DATA_ACCESS True value"

section \<open>Sequencing\<close>

lemma and_then_assoc: "and_then (and_then f g) h = and_then f (\<lambda>x. and_then (g x) h)"
  by (rule ext) (simp add: and_then_def split: option.split prod.split)

lemma and_then_give [simp]: "and_then (give x) f = f x"
  by (rule ext) (simp add: and_then_def give_def)

end
