(* ===== verification/Cpu_Exec.thy ===== *)
theory Cpu_Exec
  imports Cpu_State
begin

text \<open>
  The integer instruction handlers of \<^verbatim>\<open>src/cpu.c\<close>, in the order of the source: fetching of
  operands, flags, the stack, entry of a privileged handler, and one definition per
  \<^verbatim>\<open>execute_\<dots>\<close> function.
\<close>

section \<open>Accessibility\<close>

definition ram_write_accessible :: "u64 \<Rightarrow> nat \<Rightarrow> bool \<Rightarrow> (unit, 'w) operation" where
  "ram_write_accessible virtual_address width report_fault =
     and_then (build_memory_segments virtual_address width MMU_ACCESS_WRITE
                CPU_EXCEPTION_STACK_FAULT report_fault)
       (check_segments CPU_EXCEPTION_STACK_FAULT report_fault MMU_ACCESS_WRITE)"

definition instruction_address_valid_for_mode ::
  "u64 \<Rightarrow> cpu_mode \<Rightarrow> bool \<Rightarrow> (unit, 'w) operation" where
  "instruction_address_valid_for_mode address mode report_fault m =
     (let c = cpu m;
          result = (if mmu_enabled c
                    then mmu_translate (mach_ram m) (ptbr c) (mode = CPU_MODE_USER) address
                           MMU_ACCESS_EXECUTE
                    else MMU_RESULT_OK address)
      in case result of
           MMU_RESULT_OK physical_address \<Rightarrow>
             if bus_fetch (bus m) physical_address 1 = None then
               fault_at report_fault CPU_EXCEPTION_INSTRUCTION_ACCESS address MMU_ACCESS_EXECUTE m
             else (Some (), m)
         | _ \<Rightarrow>
             if report_fault then
               set_access_exception CPU_EXCEPTION_INSTRUCTION_PAGE_FAULT address
                 MMU_ACCESS_EXECUTE result m
             else (None, m))"

definition instruction_address_valid :: "u64 \<Rightarrow> (unit, 'w) operation" where
  "instruction_address_valid address m =
     instruction_address_valid_for_mode address (cpu_mode (cpu m)) True m"

section \<open>Fetching\<close>

definition advance_pc :: "u64 \<Rightarrow> (unit, 'w) operation" where
  "advance_pc n = set_cpu (\<lambda>c. c\<lparr>pc := pc c + n\<rparr>)"

definition fetch_value :: "nat \<Rightarrow> (u64, 'w) operation" where
  "fetch_value width m =
     memory_read (pc (cpu m)) width MMU_ACCESS_EXECUTE False CPU_EXCEPTION_INSTRUCTION_ACCESS True m"

definition fetch_u8 :: "(u8, 'w) operation" where
  "fetch_u8 = and_then (fetch_value 1) (\<lambda>value. and_then (advance_pc 1) (\<lambda>_. give (ucast value)))"

definition cpu_internal_fetch_u8 :: "(u8, 'w) operation" where
  "cpu_internal_fetch_u8 = fetch_u8"

definition fetch_u64_le :: "(u64, 'w) operation" where
  "fetch_u64_le = and_then (fetch_value 8) (\<lambda>value. and_then (advance_pc 8) (\<lambda>_. give value))"

definition fetch_u32_le :: "(u32, 'w) operation" where
  "fetch_u32_le = and_then (fetch_value 4) (\<lambda>value. and_then (advance_pc 4) (\<lambda>_. give (ucast value)))"

definition register_valid :: "u8 \<Rightarrow> (unit, 'w) operation" where
  "register_valid reg =
     (if unat reg < REGISTER_COUNT then give ()
      else set_exception CPU_EXCEPTION_ILLEGAL_INSTRUCTION 0 0)"

definition fetch_register :: "(u8, 'w) operation" where
  "fetch_register = and_then fetch_u8 (\<lambda>reg. and_then (register_valid reg) (\<lambda>_. give reg))"

definition fetch_register_pair :: "(u8 \<times> u8, 'w) operation" where
  "fetch_register_pair =
     and_then fetch_u8 (\<lambda>first.
     and_then fetch_u8 (\<lambda>second.
     and_then (register_valid first) (\<lambda>_.
     and_then (register_valid second) (\<lambda>_. give (first, second)))))"

section \<open>Values and flags\<close>

definition sign_extend :: "u64 \<Rightarrow> nat \<Rightarrow> u64" where
  "sign_extend value width =
     (if width \<ge> 8 then value
      else
        let bits = width * 8;
            sign = BIT (bits - 1)
        in if value AND sign \<noteq> 0 then value OR push_bit bits UINT64_MAX else value)"

definition zero_negative_flags :: "u64 \<Rightarrow> u64 \<Rightarrow> u64" where
  "zero_negative_flags old result =
     (old AND CPU_FLAG_INTERRUPT_ENABLE) OR
     (if result = 0 then CPU_FLAG_ZERO else 0) OR
     (if result AND SIGN_BIT \<noteq> 0 then CPU_FLAG_NEGATIVE else 0)"

definition set_zero_negative_flags :: "u64 \<Rightarrow> (unit, 'w) operation" where
  "set_zero_negative_flags result =
     set_cpu (\<lambda>c. c\<lparr>flags := zero_negative_flags (flags c) result\<rparr>)"

definition set_add_flags :: "u64 \<Rightarrow> u64 \<Rightarrow> u64 \<Rightarrow> (unit, 'w) operation" where
  "set_add_flags left right result =
     and_then (set_zero_negative_flags result) (\<lambda>_.
     set_cpu (\<lambda>c. c\<lparr>flags := flags c OR
       (if result < left then CPU_FLAG_CARRY else 0) OR
       (if (NOT (left XOR right) AND (left XOR result)) AND SIGN_BIT \<noteq> 0
        then CPU_FLAG_OVERFLOW else 0)\<rparr>))"

definition set_sub_flags :: "u64 \<Rightarrow> u64 \<Rightarrow> u64 \<Rightarrow> (unit, 'w) operation" where
  "set_sub_flags left right result =
     and_then (set_zero_negative_flags result) (\<lambda>_.
     set_cpu (\<lambda>c. c\<lparr>flags := flags c OR
       (if left \<ge> right then CPU_FLAG_CARRY else 0) OR
       (if ((left XOR right) AND (left XOR result)) AND SIGN_BIT \<noteq> 0
        then CPU_FLAG_OVERFLOW else 0)\<rparr>))"

text \<open>A result goes to its register and sets the zero and negative flags.\<close>

definition set_result :: "u8 \<Rightarrow> u64 \<Rightarrow> (unit, 'w) operation" where
  "set_result destination result =
     and_then (set_register destination result) (\<lambda>_. set_zero_negative_flags result)"

section \<open>The stack\<close>

definition set_sp :: "u64 \<Rightarrow> (unit, 'w) operation" where
  "set_sp sp = set_cpu (\<lambda>c. c\<lparr>registers := (registers c)(REGISTER_SP := sp)\<rparr>)"

definition get_sp :: "(u64, 'w) operation" where
  "get_sp = get_cpu (\<lambda>c. registers c REGISTER_SP)"

definition stack_push_u64 :: "u64 \<Rightarrow> (unit, 'w) operation" where
  "stack_push_u64 value =
     and_then get_sp (\<lambda>sp.
     if sp < 8 then
       set_access_exception CPU_EXCEPTION_STACK_FAULT sp MMU_ACCESS_WRITE MMU_OK
     else
       let next_sp = sp - 8
       in and_then (memory_write next_sp 8 MMU_ACCESS_WRITE False CPU_EXCEPTION_STACK_FAULT True value)
            (\<lambda>_. set_sp next_sp))"

definition stack_read_u64 :: "u64 \<Rightarrow> (u64, 'w) operation" where
  "stack_read_u64 address =
     memory_read address 8 MMU_ACCESS_READ False CPU_EXCEPTION_STACK_FAULT True"

definition stack_pop_u64 :: "(u64, 'w) operation" where
  "stack_pop_u64 =
     and_then get_sp (\<lambda>sp.
     and_then (stack_read_u64 sp) (\<lambda>value.
     and_then (set_sp (sp + 8)) (\<lambda>_. give value)))"

section \<open>Vectors and trap entry\<close>

definition read_vector :: "nat \<Rightarrow> (u64, 'w) operation" where
  "read_vector vector_index m =
     (let c = cpu m
      in if \<not> vbr_enabled c \<or> vector_index \<ge> CPU_VECTOR_ENTRY_COUNT then (None, m)
         else
           let offset = of_nat vector_index * of_nat CPU_VECTOR_ENTRY_SIZE
           in if vbr c > UINT64_MAX - offset then (None, m)
              else
                let entry_address = vbr c + offset
                in if \<not> cpu_ram_range_valid (mach_ram m) entry_address CPU_VECTOR_ENTRY_SIZE
                   then (None, m)
                   else
                     case ram_read (mach_ram m) entry_address CPU_VECTOR_ENTRY_SIZE of
                       None \<Rightarrow> (None, m)
                     | Some handler \<Rightarrow>
                         if handler = UINT64_MAX then (None, m)
                         else and_then
                                (instruction_address_valid_for_mode handler CPU_MODE_SUPERVISOR False)
                                (\<lambda>_. give handler) m)"

definition frame_write :: "u64 \<Rightarrow> u64 \<Rightarrow> (unit, 'w) operation" where
  "frame_write address value =
     memory_write address 8 MMU_ACCESS_WRITE False CPU_EXCEPTION_STACK_FAULT False value"

definition write_frame :: "cpu_mode \<Rightarrow> u64 \<Rightarrow> u64 \<Rightarrow> u64 \<Rightarrow> u64 \<Rightarrow> (unit, 'w) operation" where
  "write_frame previous_mode frame return_address saved_flags previous_sp =
     and_then (ram_write_accessible frame 8 False) (\<lambda>_.
     and_then (ram_write_accessible (frame + 8) 8 False) (\<lambda>_.
     and_then (if previous_mode \<noteq> CPU_MODE_USER then give ()
               else ram_write_accessible (frame + 16) 8 False) (\<lambda>_.
     and_then (frame_write frame return_address) (\<lambda>_.
     and_then (frame_write (frame + 8) saved_flags) (\<lambda>_.
     if previous_mode \<noteq> CPU_MODE_USER then give ()
     else frame_write (frame + 16) previous_sp)))))"

definition enter_privileged_handler :: "u64 \<Rightarrow> u64 \<Rightarrow> bool \<Rightarrow> (unit, 'w) operation" where
  "enter_privileged_handler handler return_address exception_frame m =
     (let c = cpu m;
          previous_mode = cpu_mode c;
          previous_sp = registers c REGISTER_SP;
          stack_top = (if previous_mode = CPU_MODE_USER then ksp c else previous_sp);
          frame_size = (if previous_mode = CPU_MODE_USER then 24 else 16);
          saved_flags = make_saved_flags c exception_frame
      in if stack_top < frame_size then
           set_access_exception CPU_EXCEPTION_STACK_FAULT stack_top MMU_ACCESS_WRITE MMU_OK m
         else
           let frame = stack_top - frame_size
           in case write_frame previous_mode frame return_address saved_flags previous_sp
                     (m\<lparr>cpu := c\<lparr>cpu_mode := CPU_MODE_SUPERVISOR\<rparr>\<rparr>) of
                (None, m') \<Rightarrow>
                  set_access_exception CPU_EXCEPTION_STACK_FAULT frame MMU_ACCESS_WRITE MMU_OK
                    (m'\<lparr>cpu := (cpu m')\<lparr>cpu_mode := previous_mode,
                       registers := (registers (cpu m'))(REGISTER_SP := previous_sp)\<rparr>\<rparr>)
              | (Some _, m') \<Rightarrow>
                  (Some (),
                   m'\<lparr>cpu := (cpu m')\<lparr>
                      registers := (registers (cpu m'))(REGISTER_SP := frame),
                      flags := flags (cpu m') AND NOT CPU_FLAG_INTERRUPT_ENABLE,
                      pc := handler,
                      waiting := False\<rparr>\<rparr>))"

text \<open>The result of \<open>deliver_exception\<close> is the result of the step: 0 is an unhandled
  exception, which stops the processor.\<close>

definition deliver_exception :: "(unit, 'w) operation" where
  "deliver_exception m =
     (let m = (if ecause (cpu m) = 0 \<or> ecause (cpu m) \<ge> of_nat CPU_EXCEPTION_COUNT
               then m\<lparr>cpu := (cpu m)\<lparr>ecause := exception_code CPU_EXCEPTION_ILLEGAL_INSTRUCTION\<rparr>\<rparr>
               else m);
          vector_index = CPU_VECTOR_EXCEPTION_BASE + unat (ecause (cpu m))
      in if exception_active (cpu m) then (None, m)
         else
           and_then (read_vector vector_index) (\<lambda>handler.
           and_then (get_cpu epc) (\<lambda>return_address.
           and_then (enter_privileged_handler handler return_address True) (\<lambda>_.
           set_cpu (\<lambda>c. c\<lparr>exception_pending := False, exception_active := True\<rparr>)))) m)"

section \<open>Control and moves\<close>

definition execute_nop :: "(unit, 'w) operation" where
  "execute_nop =
     give ()"

definition execute_halt :: "(unit, 'w) operation" where
  "execute_halt =
     and_then require_supervisor (\<lambda>_.
     set_cpu (\<lambda>c. c\<lparr>waiting := False, halted := True\<rparr>))"

definition execute_wait :: "(unit, 'w) operation" where
  "execute_wait =
     set_cpu (\<lambda>c. c\<lparr>waiting := True\<rparr>)"

definition execute_movi64 :: "(unit, 'w) operation" where
  "execute_movi64 =
     and_then fetch_register (\<lambda>destination.
     and_then fetch_u64_le (\<lambda>immediate.
     set_register destination immediate))"

definition execute_mov :: "(unit, 'w) operation" where
  "execute_mov =
     and_then fetch_register_pair (\<lambda>(destination, source).
     and_then (get_register source) (\<lambda>value.
     set_register destination value))"

definition fetch_register_immediate32 :: "(u8 \<times> u32, 'w) operation" where
  "fetch_register_immediate32 =
     and_then fetch_register (\<lambda>reg.
     and_then fetch_u32_le (\<lambda>immediate. give (reg, immediate)))"

definition execute_movi32u :: "(unit, 'w) operation" where
  "execute_movi32u =
     and_then fetch_register_immediate32 (\<lambda>(destination, immediate).
     set_register destination (ucast immediate))"

definition execute_movi32s :: "(unit, 'w) operation" where
  "execute_movi32s =
     and_then fetch_register_immediate32 (\<lambda>(destination, immediate).
     set_register destination (sign_extend (ucast immediate) 4))"

definition execute_addi32 :: "(unit, 'w) operation" where
  "execute_addi32 =
     and_then fetch_register_immediate32 (\<lambda>(destination, immediate).
     and_then (get_register destination) (\<lambda>left.
     let right = sign_extend (ucast immediate) 4;
         result = left + right
     in and_then (set_register destination result) (\<lambda>_.
        set_add_flags left right result)))"

definition execute_cmpi32 :: "(unit, 'w) operation" where
  "execute_cmpi32 =
     and_then fetch_register_immediate32 (\<lambda>(left_register, immediate).
     and_then (get_register left_register) (\<lambda>left.
     let right = sign_extend (ucast immediate) 4
     in set_sub_flags left right (left - right)))"

definition execute_andi32 :: "(unit, 'w) operation" where
  "execute_andi32 =
     and_then fetch_register_immediate32 (\<lambda>(destination, immediate).
     and_then (get_register destination) (\<lambda>value.
     set_result destination (value AND ucast immediate)))"

definition execute_ori32 :: "(unit, 'w) operation" where
  "execute_ori32 =
     and_then fetch_register_immediate32 (\<lambda>(destination, immediate).
     and_then (get_register destination) (\<lambda>value.
     set_result destination (value OR ucast immediate)))"

definition execute_xori32 :: "(unit, 'w) operation" where
  "execute_xori32 =
     and_then fetch_register_immediate32 (\<lambda>(destination, immediate).
     and_then (get_register destination) (\<lambda>value.
     set_result destination (value XOR ucast immediate)))"

definition execute_testi32 :: "(unit, 'w) operation" where
  "execute_testi32 =
     and_then fetch_register_immediate32 (\<lambda>(left_register, immediate).
     and_then (get_register left_register) (\<lambda>value.
     set_zero_negative_flags (value AND ucast immediate)))"

definition execute_lea :: "(unit, 'w) operation" where
  "execute_lea =
     and_then fetch_register_pair (\<lambda>(destination, base).
     and_then fetch_u32_le (\<lambda>displacement.
     and_then (get_register base) (\<lambda>address.
     set_register destination (address + sign_extend (ucast displacement) 4))))"

section \<open>Loads and stores\<close>

definition execute_load :: "nat \<Rightarrow> bool \<Rightarrow> (unit, 'w) operation" where
  "execute_load width is_signed =
     and_then fetch_register_pair (\<lambda>(destination, address_register).
     and_then (get_register address_register) (\<lambda>address.
     and_then (memory_read address width MMU_ACCESS_READ True CPU_EXCEPTION_DATA_ACCESS True) (\<lambda>value.
     set_register destination (if is_signed then sign_extend value width else value))))"

definition execute_load8u :: "(unit, 'w) operation" where
  "execute_load8u =
     execute_load 1 False"

definition execute_load16u :: "(unit, 'w) operation" where
  "execute_load16u =
     execute_load 2 False"

definition execute_load32u :: "(unit, 'w) operation" where
  "execute_load32u =
     execute_load 4 False"

definition execute_load64 :: "(unit, 'w) operation" where
  "execute_load64 =
     execute_load 8 False"

definition execute_load8s :: "(unit, 'w) operation" where
  "execute_load8s =
     execute_load 1 True"

definition execute_load16s :: "(unit, 'w) operation" where
  "execute_load16s =
     execute_load 2 True"

definition execute_load32s :: "(unit, 'w) operation" where
  "execute_load32s =
     execute_load 4 True"

definition execute_store :: "nat \<Rightarrow> (unit, 'w) operation" where
  "execute_store width =
     and_then fetch_register_pair (\<lambda>(address_register, source).
     and_then (get_register address_register) (\<lambda>address.
     and_then (get_register source) (\<lambda>value.
     memory_write address width MMU_ACCESS_WRITE True CPU_EXCEPTION_DATA_ACCESS True value)))"

definition execute_store8 :: "(unit, 'w) operation" where
  "execute_store8 =
     execute_store 1"

definition execute_store16 :: "(unit, 'w) operation" where
  "execute_store16 =
     execute_store 2"

definition execute_store32 :: "(unit, 'w) operation" where
  "execute_store32 =
     execute_store 4"

definition execute_store64 :: "(unit, 'w) operation" where
  "execute_store64 =
     execute_store 8"

definition execute_load_offset :: "nat \<Rightarrow> bool \<Rightarrow> (unit, 'w) operation" where
  "execute_load_offset width is_signed =
     and_then fetch_register_pair (\<lambda>(destination, base).
     and_then fetch_u32_le (\<lambda>displacement.
     and_then (get_register base) (\<lambda>base_value.
     let address = base_value + sign_extend (ucast displacement) 4
     in and_then (memory_read address width MMU_ACCESS_READ True CPU_EXCEPTION_DATA_ACCESS True) (\<lambda>value.
        set_register destination (if is_signed then sign_extend value width else value)))))"

definition execute_load8uo :: "(unit, 'w) operation" where
  "execute_load8uo =
     execute_load_offset 1 False"

definition execute_load16uo :: "(unit, 'w) operation" where
  "execute_load16uo =
     execute_load_offset 2 False"

definition execute_load32uo :: "(unit, 'w) operation" where
  "execute_load32uo =
     execute_load_offset 4 False"

definition execute_load64o :: "(unit, 'w) operation" where
  "execute_load64o =
     execute_load_offset 8 False"

definition execute_load8so :: "(unit, 'w) operation" where
  "execute_load8so =
     execute_load_offset 1 True"

definition execute_load16so :: "(unit, 'w) operation" where
  "execute_load16so =
     execute_load_offset 2 True"

definition execute_load32so :: "(unit, 'w) operation" where
  "execute_load32so =
     execute_load_offset 4 True"

definition execute_store_offset :: "nat \<Rightarrow> (unit, 'w) operation" where
  "execute_store_offset width =
     and_then fetch_register_pair (\<lambda>(base, source).
     and_then fetch_u32_le (\<lambda>displacement.
     and_then (get_register base) (\<lambda>base_value.
     and_then (get_register source) (\<lambda>value.
     let address = base_value + sign_extend (ucast displacement) 4
     in memory_write address width MMU_ACCESS_WRITE True CPU_EXCEPTION_DATA_ACCESS True value))))"

definition execute_store8o :: "(unit, 'w) operation" where
  "execute_store8o =
     execute_store_offset 1"

definition execute_store16o :: "(unit, 'w) operation" where
  "execute_store16o =
     execute_store_offset 2"

definition execute_store32o :: "(unit, 'w) operation" where
  "execute_store32o =
     execute_store_offset 4"

definition execute_store64o :: "(unit, 'w) operation" where
  "execute_store64o =
     execute_store_offset 8"

section \<open>Arithmetic and logic\<close>

text \<open>The two register operands of an instruction with the values they hold.\<close>

definition fetch_operands :: "(u8 \<times> u64 \<times> u64, 'w) operation" where
  "fetch_operands =
     and_then fetch_register_pair (\<lambda>(destination, source).
     and_then (get_register destination) (\<lambda>left.
     and_then (get_register source) (\<lambda>right. give (destination, left, right))))"

definition execute_add :: "(unit, 'w) operation" where
  "execute_add =
     and_then fetch_operands (\<lambda>(destination, left, right).
     let result = left + right
     in and_then (set_register destination result) (\<lambda>_. set_add_flags left right result))"

definition execute_sub :: "(unit, 'w) operation" where
  "execute_sub =
     and_then fetch_operands (\<lambda>(destination, left, right).
     let result = left - right
     in and_then (set_register destination result) (\<lambda>_. set_sub_flags left right result))"

definition execute_mul :: "(unit, 'w) operation" where
  "execute_mul =
     and_then fetch_operands (\<lambda>(destination, left, right).
     let result = left * right;
         overflow = (left \<noteq> 0 \<and> right > UINT64_MAX div left)
     in and_then (set_result destination result) (\<lambda>_.
        if overflow then set_cpu (\<lambda>c. c\<lparr>flags := flags c OR CPU_FLAG_CARRY\<rparr>) else give ()))"

definition execute_divu :: "(unit, 'w) operation" where
  "execute_divu =
     and_then fetch_operands (\<lambda>(destination, dividend, divisor).
     if divisor = 0 then set_exception CPU_EXCEPTION_DIVIDE_BY_ZERO 0 0
     else set_result destination (dividend div divisor))"

definition execute_modu :: "(unit, 'w) operation" where
  "execute_modu =
     and_then fetch_operands (\<lambda>(destination, dividend, divisor).
     if divisor = 0 then set_exception CPU_EXCEPTION_DIVIDE_BY_ZERO 0 0
     else set_result destination (dividend mod divisor))"

definition twos_complement_magnitude :: "u64 \<Rightarrow> u64" where
  "twos_complement_magnitude value = (if value AND SIGN_BIT \<noteq> 0 then NOT value + 1 else value)"

definition apply_twos_complement_sign :: "u64 \<Rightarrow> bool \<Rightarrow> u64" where
  "apply_twos_complement_sign magnitude negative = (if negative then NOT magnitude + 1 else magnitude)"

definition divs_result :: "u64 \<Rightarrow> u64 \<Rightarrow> u64" where
  "divs_result dividend divisor =
     (let negative = ((dividend XOR divisor) AND SIGN_BIT \<noteq> 0);
          result = twos_complement_magnitude dividend div twos_complement_magnitude divisor
      in apply_twos_complement_sign result negative)"

definition mods_result :: "u64 \<Rightarrow> u64 \<Rightarrow> u64" where
  "mods_result dividend divisor =
     (let result = twos_complement_magnitude dividend mod twos_complement_magnitude divisor
      in apply_twos_complement_sign result (dividend AND SIGN_BIT \<noteq> 0))"

definition execute_divs :: "(unit, 'w) operation" where
  "execute_divs =
     and_then fetch_operands (\<lambda>(destination, dividend, divisor).
     if divisor = 0 then set_exception CPU_EXCEPTION_DIVIDE_BY_ZERO 0 0
     else if dividend = SIGN_BIT \<and> divisor = UINT64_MAX
          then set_exception CPU_EXCEPTION_ARITHMETIC_OVERFLOW 0 0
     else set_result destination (divs_result dividend divisor))"

definition execute_mods :: "(unit, 'w) operation" where
  "execute_mods =
     and_then fetch_operands (\<lambda>(destination, dividend, divisor).
     if divisor = 0 then set_exception CPU_EXCEPTION_DIVIDE_BY_ZERO 0 0
     else set_result destination (mods_result dividend divisor))"

definition execute_and :: "(unit, 'w) operation" where
  "execute_and =
     and_then fetch_operands (\<lambda>(destination, left, right).
     set_result destination (left AND right))"

definition execute_or :: "(unit, 'w) operation" where
  "execute_or =
     and_then fetch_operands (\<lambda>(destination, left, right).
     set_result destination (left OR right))"

definition execute_xor :: "(unit, 'w) operation" where
  "execute_xor =
     and_then fetch_operands (\<lambda>(destination, left, right).
     set_result destination (left XOR right))"

definition execute_not :: "(unit, 'w) operation" where
  "execute_not =
     and_then fetch_register (\<lambda>destination.
     and_then (get_register destination) (\<lambda>value.
     set_result destination (NOT value)))"

section \<open>Shifts and extensions\<close>

definition fetch_shift_operands :: "(u8 \<times> nat, 'w) operation" where
  "fetch_shift_operands =
     and_then fetch_u8 (\<lambda>destination.
     and_then fetch_u8 (\<lambda>amount.
     and_then (register_valid destination) (\<lambda>_.
     if unat amount \<ge> 64 then set_exception CPU_EXCEPTION_ILLEGAL_INSTRUCTION 0 0
     else give (destination, unat amount))))"

definition arithmetic_shift_right :: "u64 \<Rightarrow> nat \<Rightarrow> u64" where
  "arithmetic_shift_right value amount =
     (if amount = 0 then value
      else
        let result = drop_bit amount value
        in if value AND SIGN_BIT \<noteq> 0 then result OR push_bit (64 - amount) UINT64_MAX else result)"

definition execute_shl :: "(unit, 'w) operation" where
  "execute_shl =
     and_then fetch_shift_operands (\<lambda>(destination, amount).
     and_then (get_register destination) (\<lambda>value.
     set_result destination (push_bit amount value)))"

definition execute_shr :: "(unit, 'w) operation" where
  "execute_shr =
     and_then fetch_shift_operands (\<lambda>(destination, amount).
     and_then (get_register destination) (\<lambda>value.
     set_result destination (drop_bit amount value)))"

definition execute_sar :: "(unit, 'w) operation" where
  "execute_sar =
     and_then fetch_shift_operands (\<lambda>(destination, amount).
     and_then (get_register destination) (\<lambda>value.
     set_result destination (arithmetic_shift_right value amount)))"

definition execute_shlv :: "(unit, 'w) operation" where
  "execute_shlv =
     and_then fetch_operands (\<lambda>(destination, value, amount_value).
     let amount = unat (amount_value AND 63)
     in set_result destination (push_bit amount value))"

definition execute_shrv :: "(unit, 'w) operation" where
  "execute_shrv =
     and_then fetch_operands (\<lambda>(destination, value, amount_value).
     let amount = unat (amount_value AND 63)
     in set_result destination (drop_bit amount value))"

definition execute_sarv :: "(unit, 'w) operation" where
  "execute_sarv =
     and_then fetch_operands (\<lambda>(destination, value, amount_value).
     let amount = unat (amount_value AND 63)
     in set_result destination (arithmetic_shift_right value amount))"

definition execute_extend :: "nat \<Rightarrow> bool \<Rightarrow> (unit, 'w) operation" where
  "execute_extend width is_signed =
     and_then fetch_register_pair (\<lambda>(destination, source).
     and_then (get_register source) (\<lambda>source_value.
     let bits = (if width = 1 then 0xFF else if width = 2 then 0xFFFF else 0xFFFFFFFF);
         value = source_value AND bits
     in set_register destination (if is_signed then sign_extend value width else value)))"

definition execute_sext8 :: "(unit, 'w) operation" where
  "execute_sext8 =
     execute_extend 1 True"

definition execute_sext16 :: "(unit, 'w) operation" where
  "execute_sext16 =
     execute_extend 2 True"

definition execute_sext32 :: "(unit, 'w) operation" where
  "execute_sext32 =
     execute_extend 4 True"

definition execute_zext8 :: "(unit, 'w) operation" where
  "execute_zext8 =
     execute_extend 1 False"

definition execute_zext16 :: "(unit, 'w) operation" where
  "execute_zext16 =
     execute_extend 2 False"

definition execute_zext32 :: "(unit, 'w) operation" where
  "execute_zext32 =
     execute_extend 4 False"

definition execute_cmp :: "(unit, 'w) operation" where
  "execute_cmp =
     and_then fetch_operands (\<lambda>(_, left, right).
     set_sub_flags left right (left - right))"

section \<open>Branches\<close>

definition set_pc :: "u64 \<Rightarrow> (unit, 'w) operation" where
  "set_pc target = set_cpu (\<lambda>c. c\<lparr>pc := target\<rparr>)"

definition flag_set :: "cpu \<Rightarrow> u64 \<Rightarrow> bool" where
  "flag_set c flag \<longleftrightarrow> flags c AND flag \<noteq> 0"

definition execute_branch :: "bool \<Rightarrow> (unit, 'w) operation" where
  "execute_branch condition =
     and_then fetch_u64_le (\<lambda>target.
     if \<not> condition then give ()
     else and_then (instruction_address_valid target) (\<lambda>_. set_pc target))"

definition execute_jump :: "(unit, 'w) operation" where
  "execute_jump =
     execute_branch True"

definition execute_jumpr :: "(unit, 'w) operation" where
  "execute_jumpr =
     and_then fetch_register (\<lambda>target_register.
     and_then (get_register target_register) (\<lambda>target.
     and_then (instruction_address_valid target) (\<lambda>_. set_pc target)))"

definition relative_target :: "u32 \<Rightarrow> (u64, 'w) operation" where
  "relative_target displacement = get_cpu (\<lambda>c. pc c + sign_extend (ucast displacement) 4)"

definition execute_jumprel :: "(unit, 'w) operation" where
  "execute_jumprel =
     and_then fetch_u32_le (\<lambda>displacement.
     and_then (relative_target displacement) (\<lambda>target.
     and_then (instruction_address_valid target) (\<lambda>_. set_pc target)))"

definition CPU_CONDITION_COUNT :: nat where "CPU_CONDITION_COUNT = 13"

text \<open>The conditions in the order of the enumeration, from \<^verbatim>\<open>CPU_CONDITION_ALWAYS\<close> (0) to
  \<^verbatim>\<open>CPU_CONDITION_UNORDERED\<close> (12).\<close>

definition condition_matches :: "cpu \<Rightarrow> nat \<Rightarrow> bool" where
  "condition_matches c condition =
     (let zero = flag_set c CPU_FLAG_ZERO;
          negative = flag_set c CPU_FLAG_NEGATIVE;
          carry = flag_set c CPU_FLAG_CARRY;
          overflow = flag_set c CPU_FLAG_OVERFLOW;
          unordered = flag_set c CPU_FLAG_UNORDERED
      in [True,
          zero,
          \<not> zero,
          \<not> unordered \<and> negative \<noteq> overflow,
          \<not> unordered \<and> (zero \<or> negative \<noteq> overflow),
          \<not> unordered \<and> \<not> zero \<and> negative = overflow,
          \<not> unordered \<and> negative = overflow,
          \<not> carry,
          \<not> carry \<or> zero,
          carry \<and> \<not> zero,
          carry,
          \<not> unordered,
          unordered] ! condition)"

definition evaluate_condition :: "u8 \<Rightarrow> (bool, 'w) operation" where
  "evaluate_condition condition =
     (if unat condition \<ge> CPU_CONDITION_COUNT
      then set_exception CPU_EXCEPTION_ILLEGAL_INSTRUCTION 0 0
      else get_cpu (\<lambda>c. condition_matches c (unat condition)))"

definition execute_brcc :: "(unit, 'w) operation" where
  "execute_brcc =
     and_then fetch_u8 (\<lambda>condition.
     and_then fetch_u32_le (\<lambda>displacement.
     and_then (evaluate_condition condition) (\<lambda>matches.
     if \<not> matches then give ()
     else and_then (relative_target displacement) (\<lambda>target.
          and_then (instruction_address_valid target) (\<lambda>_. set_pc target)))))"

definition execute_jz :: "(unit, 'w) operation" where
  "execute_jz =
     and_then (get_cpu (\<lambda>c. flag_set c CPU_FLAG_ZERO)) execute_branch"

definition execute_jnz :: "(unit, 'w) operation" where
  "execute_jnz =
     and_then (get_cpu (\<lambda>c. \<not> flag_set c CPU_FLAG_ZERO)) execute_branch"

definition execute_jlt :: "(unit, 'w) operation" where
  "execute_jlt =
     and_then (get_cpu (\<lambda>c. \<not> flag_set c CPU_FLAG_UNORDERED \<and>
       flag_set c CPU_FLAG_NEGATIVE \<noteq> flag_set c CPU_FLAG_OVERFLOW)) execute_branch"

definition execute_jle :: "(unit, 'w) operation" where
  "execute_jle =
     and_then (get_cpu (\<lambda>c. \<not> flag_set c CPU_FLAG_UNORDERED \<and>
       (flag_set c CPU_FLAG_ZERO \<or> flag_set c CPU_FLAG_NEGATIVE \<noteq> flag_set c CPU_FLAG_OVERFLOW))) execute_branch"

definition execute_jgt :: "(unit, 'w) operation" where
  "execute_jgt =
     and_then (get_cpu (\<lambda>c. \<not> flag_set c CPU_FLAG_UNORDERED \<and> \<not> flag_set c CPU_FLAG_ZERO \<and>
       flag_set c CPU_FLAG_NEGATIVE = flag_set c CPU_FLAG_OVERFLOW)) execute_branch"

definition execute_jge :: "(unit, 'w) operation" where
  "execute_jge =
     and_then (get_cpu (\<lambda>c. \<not> flag_set c CPU_FLAG_UNORDERED \<and>
       flag_set c CPU_FLAG_NEGATIVE = flag_set c CPU_FLAG_OVERFLOW)) execute_branch"

definition execute_jltu :: "(unit, 'w) operation" where
  "execute_jltu =
     and_then (get_cpu (\<lambda>c. \<not> flag_set c CPU_FLAG_CARRY)) execute_branch"

definition execute_jleu :: "(unit, 'w) operation" where
  "execute_jleu =
     and_then (get_cpu (\<lambda>c. \<not> flag_set c CPU_FLAG_CARRY \<or> flag_set c CPU_FLAG_ZERO)) execute_branch"

definition execute_jgtu :: "(unit, 'w) operation" where
  "execute_jgtu =
     and_then (get_cpu (\<lambda>c. flag_set c CPU_FLAG_CARRY \<and> \<not> flag_set c CPU_FLAG_ZERO)) execute_branch"

definition execute_jgeu :: "(unit, 'w) operation" where
  "execute_jgeu =
     and_then (get_cpu (\<lambda>c. flag_set c CPU_FLAG_CARRY)) execute_branch"

section \<open>Calls and the stack\<close>

definition execute_call :: "(unit, 'w) operation" where
  "execute_call =
     and_then fetch_u64_le (\<lambda>target.
     and_then (instruction_address_valid target) (\<lambda>_.
     and_then (get_cpu pc) (\<lambda>return_address.
     and_then (stack_push_u64 return_address) (\<lambda>_. set_pc target))))"

definition execute_callr :: "(unit, 'w) operation" where
  "execute_callr =
     and_then fetch_register (\<lambda>target_register.
     and_then (get_register target_register) (\<lambda>target.
     and_then (instruction_address_valid target) (\<lambda>_.
     and_then (get_cpu pc) (\<lambda>return_address.
     and_then (stack_push_u64 return_address) (\<lambda>_. set_pc target)))))"

definition execute_callrel :: "(unit, 'w) operation" where
  "execute_callrel =
     and_then fetch_u32_le (\<lambda>displacement.
     and_then (relative_target displacement) (\<lambda>target.
     and_then (instruction_address_valid target) (\<lambda>_.
     and_then (get_cpu pc) (\<lambda>return_address.
     and_then (stack_push_u64 return_address) (\<lambda>_. set_pc target)))))"

definition execute_ret :: "(unit, 'w) operation" where
  "execute_ret =
     and_then get_sp (\<lambda>sp.
     and_then (stack_read_u64 sp) (\<lambda>return_address.
     and_then (instruction_address_valid return_address) (\<lambda>_.
     and_then (set_sp (sp + 8)) (\<lambda>_. set_pc return_address))))"

definition execute_push :: "(unit, 'w) operation" where
  "execute_push =
     and_then fetch_register (\<lambda>source.
     and_then (get_register source) stack_push_u64)"

definition execute_pop :: "(unit, 'w) operation" where
  "execute_pop =
     and_then fetch_register (\<lambda>destination.
     and_then stack_pop_u64 (\<lambda>value. set_register destination value))"

section \<open>Interrupt flag and return from a handler\<close>

definition execute_ei :: "(unit, 'w) operation" where
  "execute_ei =
     and_then require_supervisor (\<lambda>_.
     set_cpu (\<lambda>c. c\<lparr>flags := flags c OR CPU_FLAG_INTERRUPT_ENABLE\<rparr>))"

definition execute_di :: "(unit, 'w) operation" where
  "execute_di =
     and_then require_supervisor (\<lambda>_.
     set_cpu (\<lambda>c. c\<lparr>flags := flags c AND NOT CPU_FLAG_INTERRUPT_ENABLE\<rparr>))"

text \<open>The state a return restores, from the stack pointer and the words of the frame.\<close>

definition restore_frame :: "u64 \<Rightarrow> u64 \<Rightarrow> u64 \<Rightarrow> u64 \<Rightarrow> cpu \<Rightarrow> cpu" where
  "restore_frame sp return_address saved_flags saved_user_sp c =
     (let user = saved_flags AND CPU_SAVED_FLAG_USER_MODE \<noteq> 0
      in c\<lparr>ksp := (if user then sp + 24 else ksp c),
           registers := (registers c)(REGISTER_SP := if user then saved_user_sp else sp + 16),
           pc := return_address,
           flags := saved_flags AND CPU_FLAG_MASK,
           cpu_mode := (if user then CPU_MODE_USER else CPU_MODE_SUPERVISOR),
           exception_active :=
             (if saved_flags AND CPU_SAVED_FLAG_EXCEPTION_FRAME \<noteq> 0 then False
              else exception_active c)\<rparr>)"

definition execute_iret :: "(unit, 'w) operation" where
  "execute_iret =
     and_then require_supervisor (\<lambda>_.
     and_then get_sp (\<lambda>sp.
     and_then (if sp > UINT64_MAX - 8 then fail else stack_read_u64 sp) (\<lambda>return_address.
     and_then (stack_read_u64 (sp + 8)) (\<lambda>saved_flags.
     let return_mode = (if saved_flags AND CPU_SAVED_FLAG_USER_MODE \<noteq> 0
                        then CPU_MODE_USER else CPU_MODE_SUPERVISOR)
     in and_then (if return_mode = CPU_MODE_USER then
                    if sp > UINT64_MAX - 24 then fail else stack_read_u64 (sp + 16)
                  else give 0) (\<lambda>saved_user_sp.
        if return_mode = CPU_MODE_SUPERVISOR \<and> sp > UINT64_MAX - 16 then
          set_access_exception CPU_EXCEPTION_STACK_FAULT sp MMU_ACCESS_READ MMU_OK
        else
          and_then (instruction_address_valid_for_mode return_address return_mode True) (\<lambda>_.
          set_cpu (restore_frame sp return_address saved_flags saved_user_sp)))))))"

section \<open>Atomic instructions\<close>

definition bus_atomic ::
  "('w bus \<Rightarrow> u64 option \<times> 'w bus) \<Rightarrow> u64 \<Rightarrow> (u64, 'w) operation" where
  "bus_atomic f virtual_address m =
     (case f (bus m) of
        (None, b) \<Rightarrow>
          set_access_exception CPU_EXCEPTION_DATA_ACCESS virtual_address MMU_ACCESS_ATOMIC MMU_OK
            (m\<lparr>bus := b\<rparr>)
      | (Some value, b) \<Rightarrow> (Some value, m\<lparr>bus := b\<rparr>))"

definition execute_cas64 :: "(unit, 'w) operation" where
  "execute_cas64 =
     and_then fetch_u8 (\<lambda>address_register.
     and_then fetch_u8 (\<lambda>expected_register.
     and_then fetch_u8 (\<lambda>desired_register.
     and_then fetch_u8 (\<lambda>result_register.
     and_then (register_valid address_register) (\<lambda>_.
     and_then (register_valid expected_register) (\<lambda>_.
     and_then (register_valid desired_register) (\<lambda>_.
     and_then (register_valid result_register) (\<lambda>_.
     and_then (get_register expected_register) (\<lambda>expected.
     and_then (get_register address_register) (\<lambda>virtual_address.
     and_then (translate_address virtual_address MMU_ACCESS_ATOMIC True) (\<lambda>physical_address.
     and_then (get_register desired_register) (\<lambda>desired.
     and_then (bus_atomic (\<lambda>b. bus_compare_exchange64 b physical_address expected desired)
                virtual_address) (\<lambda>observed.
     and_then (set_register result_register observed) (\<lambda>_.
     set_cpu (\<lambda>c. c\<lparr>flags := (flags c AND CPU_FLAG_INTERRUPT_ENABLE) OR
       (if observed = expected then CPU_FLAG_ZERO else 0)\<rparr>)))))))))))))))"

definition execute_xchg64 :: "(unit, 'w) operation" where
  "execute_xchg64 =
     and_then fetch_register_pair (\<lambda>(address_register, value_register).
     and_then (get_register address_register) (\<lambda>virtual_address.
     and_then (translate_address virtual_address MMU_ACCESS_ATOMIC True) (\<lambda>physical_address.
     and_then (get_register value_register) (\<lambda>value.
     and_then (bus_atomic (\<lambda>b. bus_exchange64 b physical_address value) virtual_address) (\<lambda>old.
     set_register value_register old)))))"

definition execute_atomic_add64 :: "(unit, 'w) operation" where
  "execute_atomic_add64 =
     and_then fetch_u8 (\<lambda>address_register.
     and_then fetch_u8 (\<lambda>value_register.
     and_then fetch_u8 (\<lambda>result_register.
     and_then (register_valid address_register) (\<lambda>_.
     and_then (register_valid value_register) (\<lambda>_.
     and_then (register_valid result_register) (\<lambda>_.
     and_then (get_register address_register) (\<lambda>virtual_address.
     and_then (translate_address virtual_address MMU_ACCESS_ATOMIC True) (\<lambda>physical_address.
     and_then (get_register value_register) (\<lambda>value.
     and_then (bus_atomic (\<lambda>b. bus_fetch_add64 b physical_address value) virtual_address) (\<lambda>old.
     set_register result_register old))))))))))"

text \<open>The fence orders host memory accesses; the model is sequentially consistent.\<close>

definition execute_fence :: "(unit, 'w) operation" where
  "execute_fence =
     give ()"

section \<open>System registers\<close>

definition read_special :: "(cpu \<Rightarrow> u64) \<Rightarrow> (unit, 'w) operation" where
  "read_special field =
     and_then fetch_register (\<lambda>destination.
     and_then (get_cpu field) (\<lambda>value. set_register destination value))"

definition execute_coreid :: "(unit, 'w) operation" where
  "execute_coreid =
     read_special (\<lambda>c. ucast (core_id c))"

definition execute_threadid :: "(unit, 'w) operation" where
  "execute_threadid =
     read_special (\<lambda>c. ucast (thread_id c))"

definition execute_excause :: "(unit, 'w) operation" where
  "execute_excause =
     read_special ecause"

definition execute_exaddr :: "(unit, 'w) operation" where
  "execute_exaddr =
     read_special badaddr"

definition execute_expc :: "(unit, 'w) operation" where
  "execute_expc =
     read_special epc"

definition execute_exinfo :: "(unit, 'w) operation" where
  "execute_exinfo =
     read_special einfo"

definition cpu_set_vector_base :: "u64 \<Rightarrow> (unit, 'w) operation" where
  "cpu_set_vector_base address m =
     (if address AND 7 \<noteq> 0 \<or> \<not> cpu_ram_range_valid (mach_ram m) address CPU_VECTOR_TABLE_SIZE
      then (None, m)
      else (Some (), m\<lparr>cpu := (cpu m)\<lparr>vbr := address, vbr_enabled := True\<rparr>\<rparr>))"

definition execute_setvbr :: "(unit, 'w) operation" where
  "execute_setvbr =
     and_then require_supervisor (\<lambda>_.
     and_then fetch_register (\<lambda>source.
     and_then (get_register source) (\<lambda>address. \<lambda>m.
       case cpu_set_vector_base address m of
         (None, m') \<Rightarrow>
           set_access_exception CPU_EXCEPTION_DATA_ACCESS address MMU_ACCESS_READ MMU_OK m'
       | (Some _, m') \<Rightarrow> (Some (), m'))))"

definition execute_getvbr :: "(unit, 'w) operation" where
  "execute_getvbr =
     and_then require_supervisor (\<lambda>_. read_special vbr)"

definition execute_getmode :: "(unit, 'w) operation" where
  "execute_getmode =
     read_special (\<lambda>c. case cpu_mode c of CPU_MODE_USER \<Rightarrow> 0 | CPU_MODE_SUPERVISOR \<Rightarrow> 1)"

definition execute_enteruser :: "(unit, 'w) operation" where
  "execute_enteruser =
     and_then require_supervisor (\<lambda>_.
     set_cpu (\<lambda>c. c\<lparr>cpu_mode := CPU_MODE_USER\<rparr>))"

definition execute_syscall :: "(unit, 'w) operation" where
  "execute_syscall m =
     (case read_vector CPU_VECTOR_SYSCALL m of
        (None, m') \<Rightarrow> set_exception CPU_EXCEPTION_ILLEGAL_INSTRUCTION 0 0 m'
      | (Some handler, m') \<Rightarrow> enter_privileged_handler handler (pc (cpu m')) False m')"

definition execute_setksp :: "(unit, 'w) operation" where
  "execute_setksp =
     and_then require_supervisor (\<lambda>_.
     and_then fetch_register (\<lambda>source.
     and_then (get_register source) (\<lambda>value.
     set_cpu (\<lambda>c. c\<lparr>ksp := value\<rparr>))))"

definition execute_getksp :: "(unit, 'w) operation" where
  "execute_getksp =
     and_then require_supervisor (\<lambda>_. read_special ksp)"

definition page_table_can_execute :: "ram \<Rightarrow> u64 \<Rightarrow> cpu_mode \<Rightarrow> u64 \<Rightarrow> bool" where
  "page_table_can_execute ram root mode address =
     (case mmu_translate ram root (mode = CPU_MODE_USER) address MMU_ACCESS_EXECUTE of
        MMU_RESULT_OK physical_address \<Rightarrow> cpu_ram_range_valid ram physical_address 1
      | _ \<Rightarrow> False)"

definition execute_setptbr :: "(unit, 'w) operation" where
  "execute_setptbr =
     and_then require_supervisor (\<lambda>_.
     and_then fetch_register (\<lambda>source.
     and_then (get_register source) (\<lambda>address. \<lambda>m.
       let c = cpu m
       in if \<not> mmu_root_valid (mach_ram m) address then
            set_access_exception CPU_EXCEPTION_MMU_CONFIGURATION address MMU_ACCESS_READ
              MMU_RESULT_INVALID_ROOT m
          else if mmu_enabled c \<and>
                  \<not> page_table_can_execute (mach_ram m) address (cpu_mode c) (pc c) then
            set_access_exception CPU_EXCEPTION_MMU_CONFIGURATION (pc c) MMU_ACCESS_EXECUTE MMU_OK m
          else (Some (), m\<lparr>cpu := c\<lparr>ptbr := address, ptbr_set := True\<rparr>\<rparr>))))"

definition execute_getptbr :: "(unit, 'w) operation" where
  "execute_getptbr =
     and_then require_supervisor (\<lambda>_. read_special ptbr)"

definition execute_mmuon :: "(unit, 'w) operation" where
  "execute_mmuon =
     and_then require_supervisor (\<lambda>_ m.
       let c = cpu m
       in if mmu_enabled c then (Some (), m)
          else if \<not> ptbr_set c \<or> \<not> mmu_root_valid (mach_ram m) (ptbr c) then
            set_exception CPU_EXCEPTION_MMU_CONFIGURATION (ptbr c)
              (if ptbr_set c
               then CPU_EINFO_BADADDR_VALID OR CPU_EINFO_ACCESS_READ OR CPU_EINFO_PAGE_INVALID_ROOT
               else CPU_EINFO_PAGE_INVALID_ROOT) m
          else if \<not> page_table_can_execute (mach_ram m) (ptbr c) (cpu_mode c) (pc c) then
            set_access_exception CPU_EXCEPTION_MMU_CONFIGURATION (pc c) MMU_ACCESS_EXECUTE MMU_OK m
          else (Some (), m\<lparr>cpu := c\<lparr>mmu_enabled := True\<rparr>\<rparr>))"

definition execute_mmuoff :: "(unit, 'w) operation" where
  "execute_mmuoff =
     and_then require_supervisor (\<lambda>_ m.
       let c = cpu m
       in if \<not> mmu_enabled c then (Some (), m)
          else if \<not> cpu_ram_range_valid (mach_ram m) (pc c) 1 then
            set_access_exception CPU_EXCEPTION_MMU_CONFIGURATION (pc c) MMU_ACCESS_EXECUTE MMU_OK m
          else (Some (), m\<lparr>cpu := c\<lparr>mmu_enabled := False\<rparr>\<rparr>))"

definition execute_getmmu :: "(unit, 'w) operation" where
  "execute_getmmu =
     read_special (\<lambda>c. if mmu_enabled c then 1 else 0)"

end
