(* ===== verification/Cpu_Float.thy ===== *)
theory Cpu_Float
  imports Complex_Main "HOL-Library.Log_Nat" Prelude
begin

text \<open>
  The \<^verbatim>\<open>float\<close> and \<^verbatim>\<open>double\<close> arithmetic that \<^verbatim>\<open>src/cpu_vector.c\<close> uses, on bit patterns:
  IEEE 754 binary32 and binary64, which the static assertions of that file require, with
  rounding to nearest even and no excess precision. Every finite operation is the exact
  rational result rounded once. The bit pattern of a NaN result is chosen by the host, so it is
  a parameter (\<open>host_nan\<close>), of which IEEE 754 promises only that it is a NaN.
\<close>

section \<open>Formats and fields\<close>

record float_format =
  mantissa_bits :: nat
  exponent_bits :: nat

definition binary32 :: float_format where
  "binary32 = \<lparr>mantissa_bits = 23, exponent_bits = 8\<rparr>"

definition binary64 :: float_format where
  "binary64 = \<lparr>mantissa_bits = 52, exponent_bits = 11\<rparr>"

definition fp_sign :: "float_format \<Rightarrow> u64 \<Rightarrow> bool" where
  "fp_sign f x \<longleftrightarrow> bit x (exponent_bits f + mantissa_bits f)"

definition fp_exponent :: "float_format \<Rightarrow> u64 \<Rightarrow> nat" where
  "fp_exponent f x = unat x div 2 ^ mantissa_bits f mod 2 ^ exponent_bits f"

definition fp_mantissa :: "float_format \<Rightarrow> u64 \<Rightarrow> nat" where
  "fp_mantissa f x = unat x mod 2 ^ mantissa_bits f"

definition fp_magnitude :: "float_format \<Rightarrow> u64 \<Rightarrow> nat" where
  "fp_magnitude f x = unat x mod 2 ^ (exponent_bits f + mantissa_bits f)"

definition fp_exponent_max :: "float_format \<Rightarrow> nat" where
  "fp_exponent_max f = 2 ^ exponent_bits f - 1"

definition fp_bias :: "float_format \<Rightarrow> int" where
  "fp_bias f = 2 ^ (exponent_bits f - 1) - 1"

section \<open>Classification and comparison\<close>

definition isnan :: "float_format \<Rightarrow> u64 \<Rightarrow> bool" where
  "isnan f x \<longleftrightarrow> fp_exponent f x = fp_exponent_max f \<and> fp_mantissa f x \<noteq> 0"

definition isinf :: "float_format \<Rightarrow> u64 \<Rightarrow> bool" where
  "isinf f x \<longleftrightarrow> fp_exponent f x = fp_exponent_max f \<and> fp_mantissa f x = 0"

definition isfinite :: "float_format \<Rightarrow> u64 \<Rightarrow> bool" where
  "isfinite f x \<longleftrightarrow> fp_exponent f x \<noteq> fp_exponent_max f"

definition fp_zero :: "float_format \<Rightarrow> u64 \<Rightarrow> bool" where
  "fp_zero f x \<longleftrightarrow> fp_magnitude f x = 0"

definition fp_subnormal :: "float_format \<Rightarrow> u64 \<Rightarrow> bool" where
  "fp_subnormal f x \<longleftrightarrow> fp_exponent f x = 0 \<and> fp_mantissa f x \<noteq> 0"

text \<open>The order of the patterns that are not NaN: sign and magnitude, the two zeros equal.\<close>

definition fp_key :: "float_format \<Rightarrow> u64 \<Rightarrow> int" where
  "fp_key f x = (if fp_sign f x then - int (fp_magnitude f x) else int (fp_magnitude f x))"

definition fp_eq :: "float_format \<Rightarrow> u64 \<Rightarrow> u64 \<Rightarrow> bool" where
  "fp_eq f x y \<longleftrightarrow> \<not> isnan f x \<and> \<not> isnan f y \<and> fp_key f x = fp_key f y"

definition fp_less :: "float_format \<Rightarrow> u64 \<Rightarrow> u64 \<Rightarrow> bool" where
  "fp_less f x y \<longleftrightarrow> \<not> isnan f x \<and> \<not> isnan f y \<and> fp_key f x < fp_key f y"

definition fp_le :: "float_format \<Rightarrow> u64 \<Rightarrow> u64 \<Rightarrow> bool" where
  "fp_le f x y \<longleftrightarrow> \<not> isnan f x \<and> \<not> isnan f y \<and> fp_key f x \<le> fp_key f y"

section \<open>Values and rounding\<close>

definition pow2 :: "int \<Rightarrow> rat" where
  "pow2 k = (if 0 \<le> k then 2 ^ nat k else 1 / 2 ^ nat (- k))"

text \<open>The smallest exponent of a normal number; subnormal numbers share it.\<close>

definition fp_emin :: "float_format \<Rightarrow> int" where
  "fp_emin f = 1 - fp_bias f"

definition fp_abs_value :: "float_format \<Rightarrow> u64 \<Rightarrow> rat" where
  "fp_abs_value f x =
     (let e = fp_exponent f x; m = fp_mantissa f x
      in if e = 0 then of_nat m * pow2 (fp_emin f - int (mantissa_bits f))
         else of_nat (2 ^ mantissa_bits f + m) * pow2 (int e - fp_bias f - int (mantissa_bits f)))"

definition fp_value :: "float_format \<Rightarrow> u64 \<Rightarrow> rat" where
  "fp_value f x = (if fp_sign f x then - fp_abs_value f x else fp_abs_value f x)"

definition fp_encode :: "float_format \<Rightarrow> bool \<Rightarrow> nat \<Rightarrow> u64" where
  "fp_encode f s magnitude =
     of_nat ((if s then 2 ^ (exponent_bits f + mantissa_bits f) else 0) + magnitude)"

definition fp_infinity :: "float_format \<Rightarrow> bool \<Rightarrow> u64" where
  "fp_infinity f s = fp_encode f s (fp_exponent_max f * 2 ^ mantissa_bits f)"

definition round_half_even :: "rat \<Rightarrow> int" where
  "round_half_even q =
     (let n = \<lfloor>q\<rfloor>; r = q - of_int n
      in if r < 1 / 2 then n else if r > 1 / 2 then n + 1 else if even n then n else n + 1)"

text \<open>The exponent of the leading binary digit of a positive rational.\<close>

definition leading_exponent :: "rat \<Rightarrow> int" where
  "leading_exponent q =
     (let (n, d) = quotient_of q;
          e = int (floorlog 2 (nat n)) - int (floorlog 2 (nat d))
      in if pow2 e \<le> q then e else e - 1)"

text \<open>Rounding of a nonnegative rational to a bit pattern with the given sign. The magnitude
  counts units in the last place from zero, so a carry out of the mantissa is the next exponent
  and a magnitude beyond the largest finite one is an infinity.\<close>

definition fp_round :: "float_format \<Rightarrow> bool \<Rightarrow> rat \<Rightarrow> u64" where
  "fp_round f s q =
     (if q = 0 then fp_encode f s 0
      else
        let e = max (leading_exponent q) (fp_emin f);
            units = round_half_even (q / pow2 (e - int (mantissa_bits f)));
            magnitude = nat ((e - fp_emin f) * 2 ^ mantissa_bits f + units)
        in if magnitude \<ge> fp_exponent_max f * 2 ^ mantissa_bits f then fp_infinity f s
           else fp_encode f s magnitude)"

definition fp_of_rat :: "float_format \<Rightarrow> bool \<Rightarrow> rat \<Rightarrow> u64" where
  "fp_of_rat f zero_sign q =
     (if q = 0 then fp_encode f zero_sign 0 else fp_round f (q < 0) \<bar>q\<bar>)"

section \<open>Arithmetic\<close>

datatype floating_point_operation = FLOAT_ADD | FLOAT_SUBTRACT | FLOAT_MULTIPLY | FLOAT_DIVIDE

record host_float =
  host_nan :: "float_format \<Rightarrow> floating_point_operation \<Rightarrow> u64 \<Rightarrow> u64 \<Rightarrow> u64"
  host_nan_convert :: "float_format \<Rightarrow> float_format \<Rightarrow> u64 \<Rightarrow> u64"

definition fp_flip :: "float_format \<Rightarrow> u64 \<Rightarrow> u64" where
  "fp_flip f x = x XOR BIT (exponent_bits f + mantissa_bits f)"

definition fp_add :: "float_format \<Rightarrow> u64 \<Rightarrow> u64 \<Rightarrow> u64 \<Rightarrow> u64" where
  "fp_add f nan x y =
     (if isnan f x \<or> isnan f y \<or> (isinf f x \<and> isinf f y \<and> fp_sign f x \<noteq> fp_sign f y) then nan
      else if isinf f x then fp_infinity f (fp_sign f x)
      else if isinf f y then fp_infinity f (fp_sign f y)
      else fp_of_rat f (fp_sign f x \<and> fp_sign f y) (fp_value f x + fp_value f y))"

definition fp_mul :: "float_format \<Rightarrow> u64 \<Rightarrow> u64 \<Rightarrow> u64 \<Rightarrow> u64" where
  "fp_mul f nan x y =
     (let s = (fp_sign f x \<noteq> fp_sign f y)
      in if isnan f x \<or> isnan f y \<or> (isinf f x \<and> fp_zero f y) \<or> (fp_zero f x \<and> isinf f y) then nan
         else if isinf f x \<or> isinf f y then fp_infinity f s
         else fp_round f s (fp_abs_value f x * fp_abs_value f y))"

definition fp_div :: "float_format \<Rightarrow> u64 \<Rightarrow> u64 \<Rightarrow> u64 \<Rightarrow> u64" where
  "fp_div f nan x y =
     (let s = (fp_sign f x \<noteq> fp_sign f y)
      in if isnan f x \<or> isnan f y \<or> (isinf f x \<and> isinf f y) \<or> (fp_zero f x \<and> fp_zero f y) then nan
         else if isinf f x \<or> fp_zero f y then fp_infinity f s
         else if isinf f y then fp_encode f s 0
         else fp_round f s (fp_abs_value f x / fp_abs_value f y))"

text \<open>\<^verbatim>\<open>calculate_float32\<close> and \<^verbatim>\<open>calculate_float64\<close>.\<close>

definition calculate_float ::
  "host_float \<Rightarrow> float_format \<Rightarrow> u64 \<Rightarrow> u64 \<Rightarrow> floating_point_operation \<Rightarrow> u64" where
  "calculate_float host f left right operation =
     (let nan = host_nan host f operation left right
      in case operation of
           FLOAT_ADD \<Rightarrow> fp_add f nan left right
         | FLOAT_SUBTRACT \<Rightarrow> fp_add f nan left (fp_flip f right)
         | FLOAT_MULTIPLY \<Rightarrow> fp_mul f nan left right
         | FLOAT_DIVIDE \<Rightarrow> fp_div f nan left right)"

section \<open>Conversions\<close>

definition fp_convert :: "host_float \<Rightarrow> float_format \<Rightarrow> float_format \<Rightarrow> u64 \<Rightarrow> u64" where
  "fp_convert host f g x =
     (if isnan f x then host_nan_convert host f g x
      else if isinf f x then fp_infinity g (fp_sign f x)
      else fp_of_rat g (fp_sign f x) (fp_value f x))"

definition fp_of_int :: "float_format \<Rightarrow> int \<Rightarrow> u64" where
  "fp_of_int f i = fp_of_rat f False (of_int i)"

text \<open>The C conversion to an integer type discards the fraction.\<close>

definition fp_truncate :: "float_format \<Rightarrow> u64 \<Rightarrow> int" where
  "fp_truncate f x =
     (if fp_sign f x then - \<lfloor>fp_abs_value f x\<rfloor> else \<lfloor>fp_abs_value f x\<rfloor>)"

end
