(* ===== verification/Cpu_Vector.thy ===== *)
theory Cpu_Vector
  imports Cpu_Exec Cpu_Float
begin

text \<open>
  The vector and floating-point unit (\<^verbatim>\<open>src/cpu_vector.c\<close>) and the 128-bit memory accesses of
  \<^verbatim>\<open>src/cpu.c\<close>. A vector register is its array of 16 bytes; lanes are little-endian. The pairs
  of C functions for \<^verbatim>\<open>float\<close> and \<^verbatim>\<open>double\<close> are one definition over the format.
\<close>

section \<open>128-bit memory accesses\<close>

definition vector_memory_segments :: "u64 \<Rightarrow> mmu_access \<Rightarrow> (memory_segment list, 'w) operation" where
  "vector_memory_segments address access =
     and_then (build_memory_segments address VECTOR_REGISTER_SIZE access
                CPU_EXCEPTION_DATA_ACCESS True) (\<lambda>segments.
     and_then (check_segments CPU_EXCEPTION_DATA_ACCESS True access segments) (\<lambda>_.
     give segments))"

definition chunk_width :: "nat \<Rightarrow> nat \<Rightarrow> nat" where
  "chunk_width width consumed = (if width - consumed > 8 then 8 else width - consumed)"

lemma chunk_width_pos [simp]: "consumed < width \<Longrightarrow> 0 < chunk_width width consumed"
  by (simp add: chunk_width_def)

function vector_read_chunks :: "memory_segment \<Rightarrow> nat \<Rightarrow> bytes \<Rightarrow> (bytes, 'w) operation" where
  "vector_read_chunks s consumed value m =
     (if consumed < seg_width s then
        let chunk = chunk_width (seg_width s) consumed
        in case ram_read (mach_ram m) (seg_physical_address s + of_nat consumed) chunk of
             None \<Rightarrow>
               set_access_exception CPU_EXCEPTION_DATA_ACCESS
                 (seg_virtual_address s + of_nat consumed) MMU_ACCESS_READ MMU_OK m
           | Some part \<Rightarrow>
               vector_read_chunks s (consumed + chunk)
                 (scatter_le value (seg_byte_offset s + consumed) chunk part) m
      else (Some value, m))"
  by pat_completeness auto
termination
  by (relation "measure (\<lambda>(s, consumed, value, m). seg_width s - consumed)")
     (auto intro!: diff_less_mono2)

fun vector_read_segments :: "memory_segment list \<Rightarrow> bytes \<Rightarrow> (bytes, 'w) operation" where
  "vector_read_segments [] value = give value"
| "vector_read_segments (s # segments) value =
     and_then (vector_read_chunks s 0 value) (vector_read_segments segments)"

text \<open>The 16 bytes of the local array are all written before they are used; they start as 0.\<close>

definition cpu_internal_vector_read :: "u64 \<Rightarrow> (bytes, 'w) operation" where
  "cpu_internal_vector_read address =
     and_then (vector_memory_segments address MMU_ACCESS_READ) (\<lambda>segments.
     vector_read_segments segments (\<lambda>_. 0))"

function vector_write_chunks :: "memory_segment \<Rightarrow> nat \<Rightarrow> bytes \<Rightarrow> (unit, 'w) operation" where
  "vector_write_chunks s consumed value m =
     (if consumed < seg_width s then
        let chunk = chunk_width (seg_width s) consumed;
            part = assemble_le (\<lambda>i. value (seg_byte_offset s + consumed + i)) chunk
        in case ram_write (mach_ram m) (seg_physical_address s + of_nat consumed) chunk part of
             None \<Rightarrow>
               set_access_exception CPU_EXCEPTION_DATA_ACCESS
                 (seg_virtual_address s + of_nat consumed) MMU_ACCESS_WRITE MMU_OK m
           | Some ram \<Rightarrow>
               vector_write_chunks s (consumed + chunk) value
                 (m\<lparr>bus := (bus m)\<lparr>bus_ram := ram\<rparr>\<rparr>)
      else (Some (), m))"
  by pat_completeness auto
termination
  by (relation "measure (\<lambda>(s, consumed, value, m). seg_width s - consumed)")
     (auto intro!: diff_less_mono2)

fun vector_write_segments :: "memory_segment list \<Rightarrow> bytes \<Rightarrow> (unit, 'w) operation" where
  "vector_write_segments [] value = give ()"
| "vector_write_segments (s # segments) value =
     and_then (vector_write_chunks s 0 value) (\<lambda>_. vector_write_segments segments value)"

definition cpu_internal_vector_write :: "u64 \<Rightarrow> bytes \<Rightarrow> (unit, 'w) operation" where
  "cpu_internal_vector_write address value =
     and_then (vector_memory_segments address MMU_ACCESS_WRITE) (\<lambda>segments.
     vector_write_segments segments value)"

section \<open>Operands and lanes\<close>

definition fetch_general_register :: "(u8, 'w) operation" where
  "fetch_general_register =
     and_then cpu_internal_fetch_u8 (\<lambda>reg.
     if unat reg < REGISTER_COUNT then give reg else cpu_internal_illegal_instruction)"

definition fetch_vector_register :: "(u8, 'w) operation" where
  "fetch_vector_register =
     and_then cpu_internal_fetch_u8 (\<lambda>reg.
     if unat reg < VECTOR_REGISTER_COUNT then give reg else cpu_internal_illegal_instruction)"

definition fetch_vector_pair :: "(u8 \<times> u8, 'w) operation" where
  "fetch_vector_pair =
     and_then fetch_vector_register (\<lambda>first.
     and_then fetch_vector_register (\<lambda>second. give (first, second)))"

definition fetch_vector_triple :: "(u8 \<times> u8 \<times> u8, 'w) operation" where
  "fetch_vector_triple =
     and_then fetch_vector_register (\<lambda>destination.
     and_then fetch_vector_register (\<lambda>left.
     and_then fetch_vector_register (\<lambda>right. give (destination, left, right))))"

definition read_lane :: "bytes \<Rightarrow> nat \<Rightarrow> nat \<Rightarrow> u64" where
  "read_lane reg lane width = assemble_le (\<lambda>i. reg (lane * width + i)) width"

definition write_lane :: "bytes \<Rightarrow> nat \<Rightarrow> nat \<Rightarrow> u64 \<Rightarrow> bytes" where
  "write_lane reg lane width value = scatter_le reg (lane * width) width value"

definition get_vector :: "u8 \<Rightarrow> (bytes, 'w) operation" where
  "get_vector reg = get_cpu (\<lambda>c. vector_registers c (unat reg))"

definition set_vector :: "u8 \<Rightarrow> bytes \<Rightarrow> (unit, 'w) operation" where
  "set_vector reg value =
     set_cpu (\<lambda>c. c\<lparr>vector_registers := (vector_registers c)(unat reg := value)\<rparr>)"

definition zero_vector :: bytes where
  "zero_vector = (\<lambda>_. 0)"

section \<open>Floating-point status\<close>

definition CPU_FP_INVALID :: u64 where "CPU_FP_INVALID = BIT 0"
definition CPU_FP_DIVIDE_BY_ZERO :: u64 where "CPU_FP_DIVIDE_BY_ZERO = BIT 1"
definition CPU_FP_OVERFLOW :: u64 where "CPU_FP_OVERFLOW = BIT 2"
definition CPU_FP_UNDERFLOW :: u64 where "CPU_FP_UNDERFLOW = BIT 3"

definition add_fp_status :: "u64 \<Rightarrow> (unit, 'w) operation" where
  "add_fp_status status = set_cpu (\<lambda>c. c\<lparr>fp_status := fp_status c OR status\<rparr>)"

definition float_status ::
  "float_format \<Rightarrow> u64 \<Rightarrow> u64 \<Rightarrow> u64 \<Rightarrow> floating_point_operation \<Rightarrow> u64" where
  "float_status f left right result operation =
     (let divide_by_zero = (operation = FLOAT_DIVIDE \<and> fp_zero f right \<and> \<not> fp_zero f left \<and>
                            isfinite f left)
      in (if isnan f result then CPU_FP_INVALID else 0) OR
         (if divide_by_zero then CPU_FP_DIVIDE_BY_ZERO else 0) OR
         (if \<not> divide_by_zero \<and> isfinite f left \<and> isfinite f right \<and> isinf f result
          then CPU_FP_OVERFLOW else 0) OR
         (if \<not> fp_zero f result \<and> fp_subnormal f result then CPU_FP_UNDERFLOW else 0))"

definition update_float_status ::
  "float_format \<Rightarrow> u64 \<Rightarrow> u64 \<Rightarrow> u64 \<Rightarrow> floating_point_operation \<Rightarrow> (unit, 'w) operation" where
  "update_float_status f left right result operation =
     add_fp_status (float_status f left right result operation)"

section \<open>Moves and integer lanes\<close>

definition execute_vload128 :: "(unit, 'w) operation" where
  "execute_vload128 =
     and_then fetch_vector_register (\<lambda>destination.
     and_then fetch_general_register (\<lambda>address_register.
     and_then (get_register address_register) (\<lambda>address.
     and_then (cpu_internal_vector_read address) (\<lambda>value.
     set_vector destination value))))"

definition execute_vstore128 :: "(unit, 'w) operation" where
  "execute_vstore128 =
     and_then fetch_general_register (\<lambda>address_register.
     and_then fetch_vector_register (\<lambda>source.
     and_then (get_register address_register) (\<lambda>address.
     and_then (get_vector source) (\<lambda>value.
     cpu_internal_vector_write address value))))"

definition execute_vmov :: "(unit, 'w) operation" where
  "execute_vmov =
     and_then fetch_vector_pair (\<lambda>(destination, source).
     and_then (get_vector source) (\<lambda>value.
     set_vector destination value))"

datatype vector_integer_operation =
  VECTOR_INTEGER_ADD | VECTOR_INTEGER_SUBTRACT | VECTOR_INTEGER_MULTIPLY

fun integer_operation :: "vector_integer_operation \<Rightarrow> u64 \<Rightarrow> u64 \<Rightarrow> u64" where
  "integer_operation VECTOR_INTEGER_ADD left right = left + right"
| "integer_operation VECTOR_INTEGER_SUBTRACT left right = left - right"
| "integer_operation VECTOR_INTEGER_MULTIPLY left right = left * right"

definition vector_integer :: "nat \<Rightarrow> vector_integer_operation \<Rightarrow> bytes \<Rightarrow> bytes \<Rightarrow> bytes" where
  "vector_integer width operation left right =
     fold (\<lambda>lane result. write_lane result lane width
             (integer_operation operation (read_lane left lane width) (read_lane right lane width)))
       [0..<VECTOR_REGISTER_SIZE div width] zero_vector"

definition execute_vector_integer :: "nat \<Rightarrow> vector_integer_operation \<Rightarrow> (unit, 'w) operation" where
  "execute_vector_integer width operation =
     and_then fetch_vector_triple (\<lambda>(destination, left_register, right_register).
     and_then (get_vector left_register) (\<lambda>left.
     and_then (get_vector right_register) (\<lambda>right.
     set_vector destination (vector_integer width operation left right))))"

definition execute_vadd8 :: "(unit, 'w) operation" where
  "execute_vadd8 =
     execute_vector_integer 1 VECTOR_INTEGER_ADD"

definition execute_vadd16 :: "(unit, 'w) operation" where
  "execute_vadd16 =
     execute_vector_integer 2 VECTOR_INTEGER_ADD"

definition execute_vadd32 :: "(unit, 'w) operation" where
  "execute_vadd32 =
     execute_vector_integer 4 VECTOR_INTEGER_ADD"

definition execute_vadd64 :: "(unit, 'w) operation" where
  "execute_vadd64 =
     execute_vector_integer 8 VECTOR_INTEGER_ADD"

definition execute_vsub8 :: "(unit, 'w) operation" where
  "execute_vsub8 =
     execute_vector_integer 1 VECTOR_INTEGER_SUBTRACT"

definition execute_vsub16 :: "(unit, 'w) operation" where
  "execute_vsub16 =
     execute_vector_integer 2 VECTOR_INTEGER_SUBTRACT"

definition execute_vsub32 :: "(unit, 'w) operation" where
  "execute_vsub32 =
     execute_vector_integer 4 VECTOR_INTEGER_SUBTRACT"

definition execute_vsub64 :: "(unit, 'w) operation" where
  "execute_vsub64 =
     execute_vector_integer 8 VECTOR_INTEGER_SUBTRACT"

definition execute_vmul8 :: "(unit, 'w) operation" where
  "execute_vmul8 =
     execute_vector_integer 1 VECTOR_INTEGER_MULTIPLY"

definition execute_vmul16 :: "(unit, 'w) operation" where
  "execute_vmul16 =
     execute_vector_integer 2 VECTOR_INTEGER_MULTIPLY"

definition execute_vmul32 :: "(unit, 'w) operation" where
  "execute_vmul32 =
     execute_vector_integer 4 VECTOR_INTEGER_MULTIPLY"

definition execute_vmul64 :: "(unit, 'w) operation" where
  "execute_vmul64 =
     execute_vector_integer 8 VECTOR_INTEGER_MULTIPLY"

definition OP_VAND :: u8 where "OP_VAND = 0x78"
definition OP_VOR :: u8 where "OP_VOR = 0x79"
definition OP_VXOR :: u8 where "OP_VXOR = 0x7A"

definition vector_bitwise :: "u8 \<Rightarrow> bytes \<Rightarrow> bytes \<Rightarrow> bytes" where
  "vector_bitwise opcode left right =
     fold (\<lambda>i result. result(i :=
             if opcode = OP_VAND then left i AND right i
             else if opcode = OP_VOR then left i OR right i
             else left i XOR right i))
       [0..<VECTOR_REGISTER_SIZE] zero_vector"

definition execute_vector_bitwise :: "u8 \<Rightarrow> (unit, 'w) operation" where
  "execute_vector_bitwise opcode =
     and_then fetch_vector_triple (\<lambda>(destination, left_register, right_register).
     and_then (get_vector left_register) (\<lambda>left.
     and_then (get_vector right_register) (\<lambda>right.
     set_vector destination (vector_bitwise opcode left right))))"

section \<open>Floating-point loads and stores\<close>

definition execute_float_load :: "nat \<Rightarrow> (unit, 'w) operation" where
  "execute_float_load width =
     and_then fetch_vector_register (\<lambda>destination.
     and_then fetch_general_register (\<lambda>address_register.
     and_then (get_register address_register) (\<lambda>address.
     and_then (cpu_internal_data_read address width) (\<lambda>value.
     set_vector destination (write_lane zero_vector 0 width value)))))"

definition execute_fload32 :: "(unit, 'w) operation" where
  "execute_fload32 =
     execute_float_load 4"

definition execute_fload64 :: "(unit, 'w) operation" where
  "execute_fload64 =
     execute_float_load 8"

definition execute_float_store :: "nat \<Rightarrow> (unit, 'w) operation" where
  "execute_float_store width =
     and_then fetch_general_register (\<lambda>address_register.
     and_then fetch_vector_register (\<lambda>source.
     and_then (get_register address_register) (\<lambda>address.
     and_then (get_vector source) (\<lambda>value.
     cpu_internal_data_write address width (read_lane value 0 width)))))"

definition execute_fstore32 :: "(unit, 'w) operation" where
  "execute_fstore32 =
     execute_float_store 4"

definition execute_fstore64 :: "(unit, 'w) operation" where
  "execute_fstore64 =
     execute_float_store 8"

section \<open>Floating-point arithmetic\<close>

text \<open>The size of a format in bytes; a lane of that width holds its bit pattern.\<close>

definition format_width :: "float_format \<Rightarrow> nat" where
  "format_width f = (1 + exponent_bits f + mantissa_bits f) div 8"

definition read_float :: "float_format \<Rightarrow> bytes \<Rightarrow> nat \<Rightarrow> u64" where
  "read_float f reg lane = read_lane reg lane (format_width f)"

definition write_float :: "float_format \<Rightarrow> bytes \<Rightarrow> nat \<Rightarrow> u64 \<Rightarrow> bytes" where
  "write_float f reg lane bits = write_lane reg lane (format_width f) bits"

definition execute_scalar_float ::
  "host_float \<Rightarrow> float_format \<Rightarrow> floating_point_operation \<Rightarrow> (unit, 'w) operation" where
  "execute_scalar_float host f operation =
     and_then fetch_vector_triple (\<lambda>(destination, left_register, right_register).
     and_then (get_vector left_register) (\<lambda>left_vector.
     and_then (get_vector right_register) (\<lambda>right_vector.
     let left = read_float f left_vector 0;
         right = read_float f right_vector 0;
         value = calculate_float host f left right operation
     in and_then (update_float_status f left right value operation) (\<lambda>_.
        set_vector destination (write_float f zero_vector 0 value)))))"

definition execute_fadd32 :: "host_float \<Rightarrow> (unit, 'w) operation" where
  "execute_fadd32 host =
     execute_scalar_float host binary32 FLOAT_ADD"

definition execute_fadd64 :: "host_float \<Rightarrow> (unit, 'w) operation" where
  "execute_fadd64 host =
     execute_scalar_float host binary64 FLOAT_ADD"

definition execute_fsub32 :: "host_float \<Rightarrow> (unit, 'w) operation" where
  "execute_fsub32 host =
     execute_scalar_float host binary32 FLOAT_SUBTRACT"

definition execute_fsub64 :: "host_float \<Rightarrow> (unit, 'w) operation" where
  "execute_fsub64 host =
     execute_scalar_float host binary64 FLOAT_SUBTRACT"

definition execute_fmul32 :: "host_float \<Rightarrow> (unit, 'w) operation" where
  "execute_fmul32 host =
     execute_scalar_float host binary32 FLOAT_MULTIPLY"

definition execute_fmul64 :: "host_float \<Rightarrow> (unit, 'w) operation" where
  "execute_fmul64 host =
     execute_scalar_float host binary64 FLOAT_MULTIPLY"

definition execute_fdiv32 :: "host_float \<Rightarrow> (unit, 'w) operation" where
  "execute_fdiv32 host =
     execute_scalar_float host binary32 FLOAT_DIVIDE"

definition execute_fdiv64 :: "host_float \<Rightarrow> (unit, 'w) operation" where
  "execute_fdiv64 host =
     execute_scalar_float host binary64 FLOAT_DIVIDE"

definition float_compare_flags :: "float_format \<Rightarrow> u64 \<Rightarrow> u64 \<Rightarrow> u64" where
  "float_compare_flags f left right =
     (if isnan f left \<or> isnan f right then CPU_FLAG_UNORDERED
      else if fp_eq f left right then CPU_FLAG_ZERO OR CPU_FLAG_CARRY
      else if fp_less f left right then CPU_FLAG_NEGATIVE
      else CPU_FLAG_CARRY)"

definition execute_float_compare :: "float_format \<Rightarrow> (unit, 'w) operation" where
  "execute_float_compare f =
     and_then fetch_vector_pair (\<lambda>(left_register, right_register).
     and_then (get_vector left_register) (\<lambda>left_vector.
     and_then (get_vector right_register) (\<lambda>right_vector.
     let left = read_float f left_vector 0;
         right = read_float f right_vector 0
     in and_then (set_cpu (\<lambda>c. c\<lparr>flags := (flags c AND CPU_FLAG_INTERRUPT_ENABLE) OR
                                   float_compare_flags f left right\<rparr>)) (\<lambda>_.
        if isnan f left \<or> isnan f right then add_fp_status CPU_FP_INVALID else give ()))))"

definition execute_fcmp32 :: "(unit, 'w) operation" where
  "execute_fcmp32 =
     execute_float_compare binary32"

definition execute_fcmp64 :: "(unit, 'w) operation" where
  "execute_fcmp64 =
     execute_float_compare binary64"

definition execute_float_sign :: "nat \<Rightarrow> bool \<Rightarrow> (unit, 'w) operation" where
  "execute_float_sign width absolute =
     and_then fetch_vector_pair (\<lambda>(destination, source).
     and_then (get_vector source) (\<lambda>value.
     let bits = read_lane value 0 width;
         sign = (if width = 4 then 0x80000000 else 0x8000000000000000);
         bits = (if absolute then bits AND NOT sign else bits XOR sign)
     in set_vector destination (write_lane zero_vector 0 width bits)))"

definition execute_fneg32 :: "(unit, 'w) operation" where
  "execute_fneg32 =
     execute_float_sign 4 False"

definition execute_fneg64 :: "(unit, 'w) operation" where
  "execute_fneg64 =
     execute_float_sign 8 False"

definition execute_fabs32 :: "(unit, 'w) operation" where
  "execute_fabs32 =
     execute_float_sign 4 True"

definition execute_fabs64 :: "(unit, 'w) operation" where
  "execute_fabs64 =
     execute_float_sign 8 True"

section \<open>Conversions\<close>

definition execute_i32tof32 :: "(unit, 'w) operation" where
  "execute_i32tof32 =
     and_then fetch_vector_register (\<lambda>destination.
     and_then fetch_general_register (\<lambda>source.
     and_then (get_register source) (\<lambda>value.
     set_vector destination
       (write_float binary32 zero_vector 0 (fp_of_int binary32 (sint (ucast value :: u32)))))))"

definition execute_i64tof64 :: "(unit, 'w) operation" where
  "execute_i64tof64 =
     and_then fetch_vector_register (\<lambda>destination.
     and_then fetch_general_register (\<lambda>source.
     and_then (get_register source) (\<lambda>value.
     set_vector destination
       (write_float binary64 zero_vector 0 (fp_of_int binary64 (sint value))))))"

text \<open>
  The saturating conversion to a signed integer of \<open>n\<close> bits: the result and whether it is
  flagged invalid. \<open>upper\<close> and \<open>lower\<close> are the patterns of \<open>2 ^ (n - 1)\<close> and
  \<open>- 2 ^ (n - 1)\<close>.
\<close>

definition float_to_int :: "float_format \<Rightarrow> nat \<Rightarrow> u64 \<Rightarrow> u64 \<Rightarrow> u64 \<Rightarrow> int \<times> bool" where
  "float_to_int f n upper lower value =
     (if isnan f value then (0, True)
      else if fp_le f upper value then (2 ^ (n - 1) - 1, True)
      else if fp_le f value lower then (- (2 ^ (n - 1)), fp_less f value lower)
      else (fp_truncate f value, False))"

definition execute_float_to_int ::
  "float_format \<Rightarrow> nat \<Rightarrow> u64 \<Rightarrow> u64 \<Rightarrow> (unit, 'w) operation" where
  "execute_float_to_int f n upper lower =
     and_then fetch_general_register (\<lambda>destination.
     and_then fetch_vector_register (\<lambda>source.
     and_then (get_vector source) (\<lambda>vector.
     let (result, invalid) = float_to_int f n upper lower (read_float f vector 0)
     in and_then (if invalid then add_fp_status CPU_FP_INVALID else give ()) (\<lambda>_.
        set_register destination (of_int result)))))"

definition execute_f32toi32 :: "(unit, 'w) operation" where
  "execute_f32toi32 =
     execute_float_to_int binary32 32 0x4F000000 0xCF000000"

definition execute_f64toi64 :: "(unit, 'w) operation" where
  "execute_f64toi64 =
     execute_float_to_int binary64 64 0x43E0000000000000 0xC3E0000000000000"

section \<open>Vector floating-point arithmetic\<close>

text \<open>The lane loop: the vector written so far and the status bits raised so far.\<close>

definition vector_float ::
  "host_float \<Rightarrow> float_format \<Rightarrow> floating_point_operation \<Rightarrow> bytes \<Rightarrow> bytes \<Rightarrow> bytes \<times> u64" where
  "vector_float host f operation left_vector right_vector =
     fold (\<lambda>lane (result, status).
             let left = read_float f left_vector lane;
                 right = read_float f right_vector lane;
                 value = calculate_float host f left right operation
             in (write_float f result lane value, status OR float_status f left right value operation))
       [0..<VECTOR_REGISTER_SIZE div format_width f] (zero_vector, 0)"

definition execute_vector_float ::
  "host_float \<Rightarrow> float_format \<Rightarrow> floating_point_operation \<Rightarrow> (unit, 'w) operation" where
  "execute_vector_float host f operation =
     and_then fetch_vector_triple (\<lambda>(destination, left_register, right_register).
     and_then (get_vector left_register) (\<lambda>left.
     and_then (get_vector right_register) (\<lambda>right.
     let (result, status) = vector_float host f operation left right
     in and_then (add_fp_status status) (\<lambda>_. set_vector destination result))))"

definition execute_vfadd32 :: "host_float \<Rightarrow> (unit, 'w) operation" where
  "execute_vfadd32 host =
     execute_vector_float host binary32 FLOAT_ADD"

definition execute_vfadd64 :: "host_float \<Rightarrow> (unit, 'w) operation" where
  "execute_vfadd64 host =
     execute_vector_float host binary64 FLOAT_ADD"

definition execute_vfsub32 :: "host_float \<Rightarrow> (unit, 'w) operation" where
  "execute_vfsub32 host =
     execute_vector_float host binary32 FLOAT_SUBTRACT"

definition execute_vfsub64 :: "host_float \<Rightarrow> (unit, 'w) operation" where
  "execute_vfsub64 host =
     execute_vector_float host binary64 FLOAT_SUBTRACT"

definition execute_vfmul32 :: "host_float \<Rightarrow> (unit, 'w) operation" where
  "execute_vfmul32 host =
     execute_vector_float host binary32 FLOAT_MULTIPLY"

definition execute_vfmul64 :: "host_float \<Rightarrow> (unit, 'w) operation" where
  "execute_vfmul64 host =
     execute_vector_float host binary64 FLOAT_MULTIPLY"

definition execute_vfdiv32 :: "host_float \<Rightarrow> (unit, 'w) operation" where
  "execute_vfdiv32 host =
     execute_vector_float host binary32 FLOAT_DIVIDE"

definition execute_vfdiv64 :: "host_float \<Rightarrow> (unit, 'w) operation" where
  "execute_vfdiv64 host =
     execute_vector_float host binary64 FLOAT_DIVIDE"

definition execute_f32tof64 :: "host_float \<Rightarrow> (unit, 'w) operation" where
  "execute_f32tof64 host =
     and_then fetch_vector_pair (\<lambda>(destination, source).
     and_then (get_vector source) (\<lambda>vector.
     set_vector destination (write_float binary64 zero_vector 0
       (fp_convert host binary32 binary64 (read_float binary32 vector 0)))))"

definition execute_f64tof32 :: "host_float \<Rightarrow> (unit, 'w) operation" where
  "execute_f64tof32 host =
     and_then fetch_vector_pair (\<lambda>(destination, source).
     and_then (get_vector source) (\<lambda>vector.
     let input = read_float binary64 vector 0;
         value = fp_convert host binary64 binary32 input
     in and_then (if isfinite binary64 input \<and> isinf binary32 value
                  then add_fp_status CPU_FP_OVERFLOW else give ()) (\<lambda>_.
        and_then (if \<not> fp_zero binary32 value \<and> fp_subnormal binary32 value
                  then add_fp_status CPU_FP_UNDERFLOW else give ()) (\<lambda>_.
        set_vector destination (write_float binary32 zero_vector 0 value)))))"

definition execute_getfpstatus :: "(unit, 'w) operation" where
  "execute_getfpstatus =
     and_then fetch_general_register (\<lambda>destination.
     and_then (get_cpu fp_status) (\<lambda>value. set_register destination value))"

definition execute_clearfpstatus :: "(unit, 'w) operation" where
  "execute_clearfpstatus =
     set_cpu (\<lambda>c. c\<lparr>fp_status := 0\<rparr>)"

section \<open>Dispatch\<close>

definition OP_VECTOR_FIRST :: u8 where "OP_VECTOR_FIRST = 0x69"
definition OP_VECTOR_LAST :: u8 where "OP_VECTOR_LAST = 0x9C"

definition VECTOR_HANDLERS :: "host_float \<Rightarrow> (unit, 'w) operation option list" where
  "VECTOR_HANDLERS host =
     [Some execute_vload128, Some execute_vstore128, Some execute_vmov, Some execute_vadd8,
      Some execute_vadd16, Some execute_vadd32, Some execute_vadd64, Some execute_vsub8,
      Some execute_vsub16, Some execute_vsub32, Some execute_vsub64, Some execute_vmul8,
      Some execute_vmul16, Some execute_vmul32, Some execute_vmul64, None, None, None,
      Some execute_fload32, Some execute_fload64, Some execute_fstore32, Some execute_fstore64,
      Some (execute_fadd32 host), Some (execute_fadd64 host), Some (execute_fsub32 host),
      Some (execute_fsub64 host), Some (execute_fmul32 host), Some (execute_fmul64 host),
      Some (execute_fdiv32 host), Some (execute_fdiv64 host), Some execute_fcmp32,
      Some execute_fcmp64, Some execute_fneg32, Some execute_fneg64, Some execute_fabs32,
      Some execute_fabs64, Some execute_i32tof32, Some execute_i64tof64, Some execute_f32toi32,
      Some execute_f64toi64, Some (execute_vfadd32 host), Some (execute_vfadd64 host),
      Some (execute_vfsub32 host), Some (execute_vfsub64 host), Some (execute_vfmul32 host),
      Some (execute_vfmul64 host), Some (execute_vfdiv32 host), Some (execute_vfdiv64 host),
      Some (execute_f32tof64 host), Some (execute_f64tof32 host), Some execute_getfpstatus,
      Some execute_clearfpstatus]"

definition cpu_vector_opcode :: "u8 \<Rightarrow> bool" where
  "cpu_vector_opcode opcode \<longleftrightarrow> opcode \<ge> OP_VECTOR_FIRST \<and> opcode \<le> OP_VECTOR_LAST"

definition cpu_vector_execute :: "host_float \<Rightarrow> u8 \<Rightarrow> (unit, 'w) operation" where
  "cpu_vector_execute host opcode =
     (if \<not> cpu_vector_opcode opcode then cpu_internal_illegal_instruction
      else if opcode = OP_VAND \<or> opcode = OP_VOR \<or> opcode = OP_VXOR
           then execute_vector_bitwise opcode
      else case VECTOR_HANDLERS host ! unat (opcode - OP_VECTOR_FIRST) of
             None \<Rightarrow> cpu_internal_illegal_instruction
           | Some handler \<Rightarrow> handler)"

end
