(* ===== verification/Cpu.thy ===== *)
theory Cpu
  imports Cpu_Vector
begin

text \<open>
  The processor (\<^verbatim>\<open>src/cpu.c\<close>): the table of instruction handlers, one instruction
  (\<open>cpu_step\<close>) and the delivery of an interrupt (\<open>cpu_check_interrupt\<close>).
\<close>

text \<open>The opcodes \<^verbatim>\<open>0x00\<close> to \<^verbatim>\<open>0x68\<close> have a handler each, in the order of \<^verbatim>\<open>include/isa.h\<close>; the
  other entries of the array are null.\<close>

definition OPCODE_HANDLERS :: "(unit, 'w) operation list" where
  "OPCODE_HANDLERS =
     [execute_halt, execute_movi64, execute_add, execute_load8u, execute_store8, execute_jump,
      execute_call, execute_ret, execute_mov, execute_load16u, execute_load32u, execute_load64,
      execute_load8s, execute_load16s, execute_load32s, execute_store16, execute_store32,
      execute_store64, execute_sub, execute_mul, execute_divu, execute_divs, execute_modu,
      execute_mods, execute_and, execute_or, execute_xor, execute_not, execute_shl, execute_shr,
      execute_sar, execute_cmp, execute_jz, execute_jnz, execute_jlt, execute_jle, execute_jgt,
      execute_jge, execute_jltu, execute_jleu, execute_jgtu, execute_jgeu, execute_push,
      execute_pop, execute_nop, execute_iret, execute_ei, execute_di, execute_cas64,
      execute_xchg64, execute_atomic_add64, execute_fence, execute_coreid, execute_threadid,
      execute_wait, execute_excause, execute_exaddr, execute_setvbr, execute_getvbr,
      execute_getmode, execute_enteruser, execute_setptbr, execute_getptbr, execute_mmuon,
      execute_mmuoff, execute_getmmu, execute_expc, execute_exinfo, execute_jumpr, execute_callr,
      execute_shlv, execute_shrv, execute_sarv, execute_movi32u, execute_movi32s, execute_addi32,
      execute_cmpi32, execute_andi32, execute_ori32, execute_xori32, execute_testi32,
      execute_lea, execute_load8uo, execute_load16uo, execute_load32uo, execute_load64o,
      execute_load8so, execute_load16so, execute_load32so, execute_store8o, execute_store16o,
      execute_store32o, execute_store64o, execute_jumprel, execute_brcc, execute_callrel,
      execute_sext8, execute_sext16, execute_sext32, execute_zext8, execute_zext16,
      execute_zext32, execute_syscall, execute_setksp, execute_getksp]"

definition opcode_handler :: "u8 \<Rightarrow> (unit, 'w) operation option" where
  "opcode_handler opcode =
     (if unat opcode < length (OPCODE_HANDLERS :: (unit, 'w) operation list)
      then Some (OPCODE_HANDLERS ! unat opcode) else None)"

definition cpu_init :: cpu where
  "cpu_init =
     \<lparr>registers = (\<lambda>_. 0), vector_registers = (\<lambda>_ _. 0), pc = 0, flags = 0, fp_status = 0,
      vbr = 0, ptbr = 0, ksp = 0, epc = 0, ecause = 0, badaddr = 0, einfo = 0,
      instruction_pc = 0, core_id = 0, thread_id = 0, cpu_mode = CPU_MODE_SUPERVISOR,
      halted = False, waiting = False, vbr_enabled = False, ptbr_set = False,
      mmu_enabled = False, exception_pending = False, exception_active = False\<rparr>"

text \<open>The handler of a fetched opcode, or the illegal instruction exception.\<close>

definition execute_opcode :: "host_float \<Rightarrow> u8 \<Rightarrow> (unit, 'w) operation" where
  "execute_opcode host opcode =
     (case opcode_handler opcode of
        Some handler \<Rightarrow> handler
      | None \<Rightarrow>
          if cpu_vector_opcode opcode then cpu_vector_execute host opcode
          else set_exception CPU_EXCEPTION_ILLEGAL_INSTRUCTION 0 0)"

definition cpu_step :: "host_float \<Rightarrow> (unit, 'w) operation" where
  "cpu_step host m =
     (if halted (cpu m) \<or> waiting (cpu m) then (Some (), m)
      else
        let m = m\<lparr>cpu := (cpu m)\<lparr>instruction_pc := pc (cpu m), exception_pending := False\<rparr>\<rparr>
        in case fetch_u8 m of
             (None, m) \<Rightarrow> deliver_exception m
           | (Some opcode, m) \<Rightarrow>
               (case execute_opcode host opcode m of
                  (Some _, m) \<Rightarrow> (Some (), m)
                | (None, m) \<Rightarrow>
                    if exception_pending (cpu m) then deliver_exception m
                    else deliver_exception
                           (snd (set_exception CPU_EXCEPTION_ILLEGAL_INSTRUCTION 0 0 m
                                 :: unit option \<times> 'w machine))))"

text \<open>The controller of the thread is an argument and a result.\<close>

definition cpu_check_interrupt :: "u64 \<Rightarrow> 'w machine \<Rightarrow> unit option \<times> u64 \<times> 'w machine" where
  "cpu_check_interrupt interrupts m =
     (if flags (cpu m) AND CPU_FLAG_INTERRUPT_ENABLE = 0 then (Some (), interrupts, m)
      else
        case interrupt_controller_take_next interrupts of
          (None, interrupts) \<Rightarrow> (Some (), interrupts, m)
        | (Some line, interrupts) \<Rightarrow>
            let (result, m) =
              and_then (read_vector (CPU_VECTOR_INTERRUPT_BASE + line)) (\<lambda>handler.
              and_then (get_cpu pc) (\<lambda>return_address.
              enter_privileged_handler handler return_address False)) m
            in (result, interrupts, m))"

end
