(* ===== verification/Cpu_Frame.thy ===== *)
theory Cpu_Frame
  imports Cpu
begin

text \<open>
  What the instruction handlers leave alone. A preorder on machines that is kept by the
  primitive effects of the handlers (a change of the unprivileged part of the processor and
  the accesses of the bus) is kept by every handler that checks no privilege
  (\<open>access_frame\<close>); one that a supervisor may change at will is kept by every handler but the
  system call (\<open>isa_frame\<close>). The locales are interpreted for the frame of user mode, for the
  invariant of the bus and for the mode.
\<close>

section \<open>The index of a vector handler\<close>

lemma vector_handler_index:
  assumes "cpu_vector_opcode opcode"
  shows "unat (opcode - OP_VECTOR_FIRST) < length (VECTOR_HANDLERS host :: (unit, 'w) operation option list)"
proof -
  have "opcode \<ge> 0x69" "opcode \<le> 0x9C"
    using assms by (auto simp: cpu_vector_opcode_def OP_VECTOR_FIRST_def OP_VECTOR_LAST_def)
  then have "unat (opcode - OP_VECTOR_FIRST) \<le> 0x33"
    by (simp add: OP_VECTOR_FIRST_def unat_sub word_le_nat_alt)
  then show ?thesis by (simp add: VECTOR_HANDLERS_def)
qed

section \<open>Operations that keep a relation\<close>

definition op_rel :: "('w machine \<Rightarrow> 'w machine \<Rightarrow> bool) \<Rightarrow> ('a, 'w) operation \<Rightarrow> bool" where
  "op_rel R f \<longleftrightarrow> (\<forall>m. R m (snd (f m)))"

named_theorems frame_intros

lemma op_rel_if [frame_intros]:
  "(b \<Longrightarrow> op_rel R f) \<Longrightarrow> (\<not> b \<Longrightarrow> op_rel R g) \<Longrightarrow> op_rel R (if b then f else g)"
  by simp

lemma op_rel_prod [frame_intros]:
  "(\<And>a b. op_rel R (f a b)) \<Longrightarrow> op_rel R (case p of (a, b) \<Rightarrow> f a b)"
  by (cases p) simp

lemma op_rel_Let [frame_intros]:
  "(\<And>x. x = y \<Longrightarrow> op_rel R (f x)) \<Longrightarrow> op_rel R (let x = y in f x)"
  by (simp add: Let_def)

lemma op_relI: "(\<And>m. R m (snd (f m))) \<Longrightarrow> op_rel R f"
  by (simp add: op_rel_def)

lemma op_rel_snd: "op_rel R f \<Longrightarrow> R m (snd (f m))"
  by (simp add: op_rel_def)

lemma op_relD: "op_rel R f \<Longrightarrow> f m = (x, m') \<Longrightarrow> R m m'"
  unfolding op_rel_def by (metis snd_conv)

text \<open>The part of the processor that only a supervisor or a trap may change.\<close>

definition same_privileged :: "cpu \<Rightarrow> cpu \<Rightarrow> bool" where
  "same_privileged c d \<longleftrightarrow>
     cpu_mode d = cpu_mode c \<and> vbr d = vbr c \<and> vbr_enabled d = vbr_enabled c \<and>
     ptbr d = ptbr c \<and> ptbr_set d = ptbr_set c \<and> mmu_enabled d = mmu_enabled c \<and>
     ksp d = ksp c \<and> halted d = halted c \<and> core_id d = core_id c \<and> thread_id d = thread_id c \<and>
     exception_active d = exception_active c \<and>
     flags d AND CPU_FLAG_INTERRUPT_ENABLE = flags c AND CPU_FLAG_INTERRUPT_ENABLE"

lemma same_privileged_refl [simp]: "same_privileged c c"
  by (simp add: same_privileged_def)

lemma same_privileged_trans: "same_privileged a b \<Longrightarrow> same_privileged b c \<Longrightarrow> same_privileged a c"
  by (simp add: same_privileged_def)

text \<open>The arithmetic flags leave the interrupt flag alone.\<close>

lemma interrupt_flag_or [simp]:
  "(x OR CPU_FLAG_ZERO) AND CPU_FLAG_INTERRUPT_ENABLE = x AND CPU_FLAG_INTERRUPT_ENABLE"
  "(x OR CPU_FLAG_NEGATIVE) AND CPU_FLAG_INTERRUPT_ENABLE = x AND CPU_FLAG_INTERRUPT_ENABLE"
  "(x OR CPU_FLAG_CARRY) AND CPU_FLAG_INTERRUPT_ENABLE = x AND CPU_FLAG_INTERRUPT_ENABLE"
  "(x OR CPU_FLAG_OVERFLOW) AND CPU_FLAG_INTERRUPT_ENABLE = x AND CPU_FLAG_INTERRUPT_ENABLE"
  "(x OR CPU_FLAG_UNORDERED) AND CPU_FLAG_INTERRUPT_ENABLE = x AND CPU_FLAG_INTERRUPT_ENABLE"
  unfolding CPU_FLAG_ZERO_def CPU_FLAG_NEGATIVE_def CPU_FLAG_CARRY_def CPU_FLAG_OVERFLOW_def
    CPU_FLAG_UNORDERED_def CPU_FLAG_INTERRUPT_ENABLE_def
  by (rule bit_word_eqI, auto simp: bit_simps bit_BIT)+

lemma interrupt_flag_if [simp]:
  "(x OR (if b then CPU_FLAG_ZERO else 0)) AND CPU_FLAG_INTERRUPT_ENABLE = x AND CPU_FLAG_INTERRUPT_ENABLE"
  "(x OR (if b then CPU_FLAG_NEGATIVE else 0)) AND CPU_FLAG_INTERRUPT_ENABLE = x AND CPU_FLAG_INTERRUPT_ENABLE"
  "(x OR (if b then CPU_FLAG_CARRY else 0)) AND CPU_FLAG_INTERRUPT_ENABLE = x AND CPU_FLAG_INTERRUPT_ENABLE"
  "(x OR (if b then CPU_FLAG_OVERFLOW else 0)) AND CPU_FLAG_INTERRUPT_ENABLE = x AND CPU_FLAG_INTERRUPT_ENABLE"
  by simp_all

lemma zero_negative_flags_interrupt [simp]:
  "zero_negative_flags x r AND CPU_FLAG_INTERRUPT_ENABLE = x AND CPU_FLAG_INTERRUPT_ENABLE"
  unfolding zero_negative_flags_def or.assoc [symmetric] by simp

lemma float_compare_flags_interrupt [simp]:
  "((x AND CPU_FLAG_INTERRUPT_ENABLE) OR float_compare_flags f l r) AND CPU_FLAG_INTERRUPT_ENABLE =
     x AND CPU_FLAG_INTERRUPT_ENABLE"
  unfolding float_compare_flags_def by (simp flip: or.assoc)

locale machine_preorder =
  fixes R :: "'w machine \<Rightarrow> 'w machine \<Rightarrow> bool"
  assumes rel_refl [simp]: "R m m"
    and rel_trans: "R m m' \<Longrightarrow> R m' m'' \<Longrightarrow> R m m''"
begin

lemma rel_give [frame_intros]: "op_rel R (give x)"
  by (simp add: op_rel_def give_def)

lemma rel_fail [frame_intros]: "op_rel R fail"
  by (simp add: op_rel_def fail_def)

lemma rel_get_cpu [frame_intros]: "op_rel R (get_cpu f)"
  by (simp add: op_rel_def get_cpu_def)

lemma rel_and_then [frame_intros]:
  assumes "op_rel R f" "\<And>x. op_rel R (g x)"
  shows "op_rel R (and_then f g)"
proof (rule op_relI)
  fix m :: "'w machine"
  obtain x m' where f: "f m = (x, m')" by (cases "f m")
  show "R m (snd (and_then f g m))"
    using op_relD [OF assms(1) f] assms(2) rel_trans
    by (auto simp: and_then_def f op_rel_def split: option.split)
qed

end

text \<open>What an instruction does before it commits: it moves the program counter and records an
  exception against its own address.\<close>

locale fault_frame = machine_preorder R for R :: "'w machine \<Rightarrow> 'w machine \<Rightarrow> bool" +
  assumes faults: "\<not> exception_pending (cpu m) \<Longrightarrow>
      R m (m\<lparr>cpu := (cpu m)\<lparr>exception_pending := True, epc := instruction_pc (cpu m), ecause := ca,
        badaddr := b, einfo := i\<rparr>\<rparr>)"
    and moves: "R m (m\<lparr>cpu := (cpu m)\<lparr>pc := p\<rparr>\<rparr>)"
begin

lemma rel_set_exception [frame_intros]: "op_rel R (set_exception e b i)"
  by (simp add: op_rel_def set_exception_def Let_def faults)

lemma rel_moves [frame_intros]: "op_rel R (set_pc v)" "op_rel R (advance_pc v)"
  by (simp_all add: op_rel_def set_pc_def advance_pc_def set_cpu_def moves)

lemma rel_reads [frame_intros]:
  "op_rel R (get_register r)" "op_rel R get_sp" "op_rel R (get_vector r)" "op_rel R (relative_target d)"
  unfolding get_register_def get_sp_def get_vector_def relative_target_def by (intro frame_intros)+

lemma rel_set_access_exception [frame_intros]: "op_rel R (set_access_exception e a acc r)"
  by (simp add: set_access_exception_def frame_intros)

lemma rel_illegal [frame_intros]: "op_rel R cpu_internal_illegal_instruction"
  by (simp add: cpu_internal_illegal_instruction_def frame_intros)

lemma rel_require_supervisor [frame_intros]: "op_rel R require_supervisor"
  by (rule op_relI) (simp add: require_supervisor_def op_rel_snd frame_intros)

lemma rel_fault_at [frame_intros]: "op_rel R (fault_at report e a acc)"
  unfolding fault_at_def by (intro frame_intros)

lemma rel_translate [frame_intros]: "op_rel R (translate_address va acc report)"
  by (rule op_relI)
     (simp add: translate_address_def Let_def op_rel_snd frame_intros split: mmu_result.split)

lemma rel_segment_loop [frame_intros]:
  "op_rel R (segment_loop slots acc report cursor offset remaining)"
proof (induction slots arbitrary: cursor offset remaining)
  case 0
  show ?case unfolding segment_loop.simps [of 0] nat.case by (intro frame_intros)
next
  case (Suc slots)
  show ?case unfolding segment_loop.simps [of "Suc slots"] nat.case by (intro frame_intros Suc)
qed

lemma rel_build_segments [frame_intros]: "op_rel R (build_memory_segments va width acc e report)"
  by (rule op_relI) (simp add: build_memory_segments_def op_rel_snd frame_intros)

lemma rel_check_segments [frame_intros]: "op_rel R (check_segments e report acc segments)"
proof (induction segments)
  case (Cons s segments)
  then show ?case by (intro op_relI) (simp add: op_rel_snd frame_intros)
qed (simp add: op_rel_def)

lemma rel_ram_write_accessible [frame_intros]: "op_rel R (ram_write_accessible va width report)"
  unfolding ram_write_accessible_def by (intro frame_intros)

lemma rel_address_valid_for_mode [frame_intros]:
  "op_rel R (instruction_address_valid_for_mode a mode report)"
  by (rule op_relI)
     (simp add: instruction_address_valid_for_mode_def Let_def op_rel_snd frame_intros
       split: mmu_result.split)

lemma rel_address_valid [frame_intros]: "op_rel R (instruction_address_valid a)"
  by (rule op_relI) (simp add: instruction_address_valid_def op_rel_snd frame_intros)

end

text \<open>The memory accesses of the handlers: an atomic access is made at the address its
  translation gave, between the registers it reads and the rest of the handler.\<close>

locale fetch_frame = fault_frame R for R :: "'w machine \<Rightarrow> 'w machine \<Rightarrow> bool" +
  assumes rel_memory_read [frame_intros]: "op_rel R (memory_read va width acc use_bus e report)"
    and rel_memory_write [frame_intros]:
      "op_rel R (memory_write va width MMU_ACCESS_WRITE use_bus e report v)"
    and rel_vector_read [frame_intros]: "op_rel R (cpu_internal_vector_read va)"
    and rel_vector_write [frame_intros]: "op_rel R (cpu_internal_vector_write va bytes)"
    and rel_compare_exchange [frame_intros]: "(\<And>x. op_rel R (g x)) \<Longrightarrow>
      op_rel R (and_then (translate_address va MMU_ACCESS_ATOMIC True) (\<lambda>pa.
        and_then (get_register r) (\<lambda>desired.
        and_then (bus_atomic (\<lambda>b. bus_compare_exchange64 b pa expected desired) va)
          (g :: u64 \<Rightarrow> (unit, 'w) operation))))"
    and rel_exchange [frame_intros]: "(\<And>x. op_rel R (g x)) \<Longrightarrow>
      op_rel R (and_then (translate_address va MMU_ACCESS_ATOMIC True) (\<lambda>pa.
        and_then (get_register r) (\<lambda>v.
        and_then (bus_atomic (\<lambda>b. bus_exchange64 b pa v) va) g)))"
    and rel_fetch_add [frame_intros]: "(\<And>x. op_rel R (g x)) \<Longrightarrow>
      op_rel R (and_then (translate_address va MMU_ACCESS_ATOMIC True) (\<lambda>pa.
        and_then (get_register r) (\<lambda>v.
        and_then (bus_atomic (\<lambda>b. bus_fetch_add64 b pa v) va) g)))"
begin

subsection \<open>Operands\<close>

lemma rel_fetch_value [frame_intros]: "op_rel R (fetch_value width)"
  by (rule op_relI) (simp add: fetch_value_def op_rel_snd frame_intros)

lemma rel_fetch [frame_intros]:
  "op_rel R fetch_u8" "op_rel R cpu_internal_fetch_u8" "op_rel R fetch_u64_le" "op_rel R fetch_u32_le"
  unfolding cpu_internal_fetch_u8_def fetch_u8_def fetch_u64_le_def fetch_u32_le_def
  by (intro frame_intros)+

lemma rel_register_valid [frame_intros]: "op_rel R (register_valid r)"
  unfolding register_valid_def by (intro frame_intros)

lemma rel_fetch_register [frame_intros]: "op_rel R fetch_register" "op_rel R fetch_register_pair"
  unfolding fetch_register_def fetch_register_pair_def by (intro frame_intros)+

lemma rel_fetch_operands [frame_intros]:
  "op_rel R fetch_register_immediate32" "op_rel R fetch_operands" "op_rel R fetch_shift_operands"
  unfolding fetch_register_immediate32_def fetch_operands_def fetch_shift_operands_def
  by (intro frame_intros)+

lemma rel_stack_read [frame_intros]: "op_rel R (stack_read_u64 a)"
  unfolding stack_read_u64_def by (intro frame_intros)

lemma rel_read_vector [frame_intros]: "op_rel R (read_vector i)"
  by (rule op_relI)
     (simp add: read_vector_def Let_def op_rel_snd frame_intros split: option.split)

lemma rel_evaluate_condition [frame_intros]: "op_rel R (evaluate_condition c)"
  unfolding evaluate_condition_def by (intro frame_intros)

lemma rel_data_accesses [frame_intros]:
  "op_rel R (cpu_internal_data_read a width)" "op_rel R (cpu_internal_data_write a width d)"
  unfolding cpu_internal_data_read_def cpu_internal_data_write_def by (intro frame_intros)+

lemma rel_fetch_vector [frame_intros]:
  "op_rel R fetch_general_register" "op_rel R fetch_vector_register"
  unfolding fetch_general_register_def fetch_vector_register_def by (intro frame_intros)+

lemma rel_fetch_vectors [frame_intros]: "op_rel R fetch_vector_pair" "op_rel R fetch_vector_triple"
  unfolding fetch_vector_pair_def fetch_vector_triple_def by (intro frame_intros)+

end

text \<open>A change of the unprivileged part of the processor.\<close>

locale cpu_frame = machine_preorder R for R :: "'w machine \<Rightarrow> 'w machine \<Rightarrow> bool" +
  assumes unprivileged: "same_privileged (cpu m) c \<Longrightarrow> R m (m\<lparr>cpu := c\<rparr>)"
begin

lemma rel_set_cpu: "(\<And>c. same_privileged c (f c)) \<Longrightarrow> op_rel R (set_cpu f)"
  by (simp add: op_rel_def set_cpu_def unprivileged)

end

sublocale cpu_frame \<subseteq> fault_frame
  by unfold_locales (simp_all add: unprivileged same_privileged_def)

locale handler_frame = cpu_frame R + fetch_frame R for R :: "'w machine \<Rightarrow> 'w machine \<Rightarrow> bool"
begin

subsection \<open>Results, flags and the stack\<close>

lemma rel_registers_flags [frame_intros]:
  "op_rel R (set_register r v)" "op_rel R (set_zero_negative_flags v)" "op_rel R (set_sp v)"
  "op_rel R (set_vector r b)" "op_rel R (add_fp_status v)"
  unfolding set_register_def set_zero_negative_flags_def set_sp_def set_vector_def add_fp_status_def
  by (auto intro!: frame_intros rel_set_cpu simp: same_privileged_def)

lemma rel_arithmetic_flags [frame_intros]:
  "op_rel R (set_add_flags l r v)" "op_rel R (set_sub_flags l r v)"
  unfolding set_add_flags_def set_sub_flags_def or.assoc [symmetric]
  by (rule rel_and_then rel_set_cpu rel_registers_flags | simp add: same_privileged_def)+

lemma rel_set_result [frame_intros]: "op_rel R (set_result d v)"
  unfolding set_result_def by (intro frame_intros)

lemma rel_stack_push [frame_intros]: "op_rel R (stack_push_u64 v)"
  unfolding stack_push_u64_def by (intro frame_intros)

lemma rel_stack_pop [frame_intros]: "op_rel R stack_pop_u64"
  unfolding stack_pop_u64_def by (intro frame_intros)

lemma rel_read_special [frame_intros]: "op_rel R (read_special f)"
  unfolding read_special_def by (intro frame_intros)

lemma rel_float_status [frame_intros]: "op_rel R (update_float_status f l r v p)"
  unfolding update_float_status_def by (intro frame_intros)

subsection \<open>The unprivileged handlers\<close>

lemma rel_execute_base [frame_intros]:
  "op_rel R (execute_load a b)" "op_rel R (execute_store d)"
    "op_rel R (execute_load_offset e g)" "op_rel R (execute_store_offset h)"
    "op_rel R (execute_extend i j)" "op_rel R (execute_branch k)"
  unfolding execute_load_def execute_store_def execute_load_offset_def execute_store_offset_def
    execute_extend_def execute_branch_def
  by (intro frame_intros)+

lemma rel_execute_wait [frame_intros]: "op_rel R execute_wait"
  unfolding execute_wait_def by (rule rel_set_cpu) (simp add: same_privileged_def)

lemma rel_execute_mul [frame_intros]: "op_rel R execute_mul"
  unfolding execute_mul_def by (intro frame_intros rel_set_cpu) (simp add: same_privileged_def)

lemma rel_execute_cas64 [frame_intros]: "op_rel R execute_cas64"
  unfolding execute_cas64_def by (intro frame_intros rel_set_cpu) (simp add: same_privileged_def)

lemma rel_execute_unprivileged [frame_intros]:
  "op_rel R execute_nop" "op_rel R execute_movi64" "op_rel R execute_mov"
    "op_rel R execute_movi32u" "op_rel R execute_movi32s" "op_rel R execute_addi32"
    "op_rel R execute_cmpi32" "op_rel R execute_andi32" "op_rel R execute_ori32"
    "op_rel R execute_xori32" "op_rel R execute_testi32" "op_rel R execute_lea"
    "op_rel R execute_load8u" "op_rel R execute_load16u" "op_rel R execute_load32u"
    "op_rel R execute_load64" "op_rel R execute_load8s" "op_rel R execute_load16s"
    "op_rel R execute_load32s" "op_rel R execute_store8" "op_rel R execute_store16"
    "op_rel R execute_store32" "op_rel R execute_store64" "op_rel R execute_load8uo"
    "op_rel R execute_load16uo" "op_rel R execute_load32uo" "op_rel R execute_load64o"
    "op_rel R execute_load8so" "op_rel R execute_load16so" "op_rel R execute_load32so"
    "op_rel R execute_store8o" "op_rel R execute_store16o" "op_rel R execute_store32o"
    "op_rel R execute_store64o" "op_rel R execute_add" "op_rel R execute_sub"
    "op_rel R execute_divu" "op_rel R execute_modu" "op_rel R execute_divs"
    "op_rel R execute_mods" "op_rel R execute_and" "op_rel R execute_or" "op_rel R execute_xor"
    "op_rel R execute_not" "op_rel R execute_shl" "op_rel R execute_shr" "op_rel R execute_sar"
    "op_rel R execute_shlv" "op_rel R execute_shrv" "op_rel R execute_sarv"
    "op_rel R execute_sext8" "op_rel R execute_sext16" "op_rel R execute_sext32"
    "op_rel R execute_zext8" "op_rel R execute_zext16" "op_rel R execute_zext32"
    "op_rel R execute_cmp" "op_rel R execute_jump" "op_rel R execute_jumpr"
    "op_rel R execute_jumprel" "op_rel R execute_brcc" "op_rel R execute_jz"
    "op_rel R execute_jnz" "op_rel R execute_jlt" "op_rel R execute_jle" "op_rel R execute_jgt"
    "op_rel R execute_jge" "op_rel R execute_jltu" "op_rel R execute_jleu"
    "op_rel R execute_jgtu" "op_rel R execute_jgeu" "op_rel R execute_call"
    "op_rel R execute_callr" "op_rel R execute_callrel" "op_rel R execute_ret"
    "op_rel R execute_push" "op_rel R execute_pop" "op_rel R execute_xchg64"
    "op_rel R execute_atomic_add64" "op_rel R execute_fence" "op_rel R execute_coreid"
    "op_rel R execute_threadid" "op_rel R execute_excause" "op_rel R execute_exaddr"
    "op_rel R execute_expc" "op_rel R execute_exinfo" "op_rel R execute_getmode"
    "op_rel R execute_getmmu"
  unfolding execute_nop_def execute_movi64_def execute_mov_def execute_movi32u_def execute_movi32s_def
    execute_addi32_def execute_cmpi32_def execute_andi32_def execute_ori32_def
    execute_xori32_def execute_testi32_def execute_lea_def execute_load8u_def
    execute_load16u_def execute_load32u_def execute_load64_def execute_load8s_def
    execute_load16s_def execute_load32s_def execute_store8_def execute_store16_def
    execute_store32_def execute_store64_def execute_load8uo_def execute_load16uo_def
    execute_load32uo_def execute_load64o_def execute_load8so_def execute_load16so_def
    execute_load32so_def execute_store8o_def execute_store16o_def execute_store32o_def
    execute_store64o_def execute_add_def execute_sub_def execute_divu_def execute_modu_def
    execute_divs_def execute_mods_def execute_and_def execute_or_def execute_xor_def
    execute_not_def execute_shl_def execute_shr_def execute_sar_def execute_shlv_def
    execute_shrv_def execute_sarv_def execute_sext8_def execute_sext16_def execute_sext32_def
    execute_zext8_def execute_zext16_def execute_zext32_def execute_cmp_def execute_jump_def
    execute_jumpr_def execute_jumprel_def execute_brcc_def execute_jz_def execute_jnz_def
    execute_jlt_def execute_jle_def execute_jgt_def execute_jge_def execute_jltu_def
    execute_jleu_def execute_jgtu_def execute_jgeu_def execute_call_def execute_callr_def
    execute_callrel_def execute_ret_def execute_push_def execute_pop_def execute_xchg64_def
    execute_atomic_add64_def execute_fence_def execute_coreid_def execute_threadid_def
    execute_excause_def execute_exaddr_def execute_expc_def execute_exinfo_def
    execute_getmode_def execute_getmmu_def
  by (intro frame_intros)+

subsection \<open>The vector unit\<close>

lemma rel_float_compare [frame_intros]: "op_rel R (execute_float_compare f)"
  unfolding execute_float_compare_def
  by (intro frame_intros rel_set_cpu) (simp add: same_privileged_def)

lemma rel_clearfpstatus [frame_intros]: "op_rel R execute_clearfpstatus"
  unfolding execute_clearfpstatus_def by (rule rel_set_cpu) (simp add: same_privileged_def)

lemma rel_vector_base [frame_intros]:
  "op_rel R (execute_vector_integer a b)" "op_rel R (execute_vector_bitwise d)"
    "op_rel R (execute_float_load e)" "op_rel R (execute_float_store g)"
    "op_rel R (execute_scalar_float h i j)" "op_rel R (execute_float_sign k l)"
    "op_rel R (execute_float_to_int n oo p q)" "op_rel R (execute_vector_float s t u)"
  unfolding execute_vector_integer_def execute_vector_bitwise_def execute_float_load_def
    execute_float_store_def execute_scalar_float_def execute_float_sign_def
    execute_float_to_int_def execute_vector_float_def
  by (intro frame_intros)+

lemma rel_vector_handlers [frame_intros]:
  "op_rel R execute_vload128" "op_rel R execute_vstore128" "op_rel R execute_vmov"
    "op_rel R execute_vadd8" "op_rel R execute_vadd16" "op_rel R execute_vadd32"
    "op_rel R execute_vadd64" "op_rel R execute_vsub8" "op_rel R execute_vsub16"
    "op_rel R execute_vsub32" "op_rel R execute_vsub64" "op_rel R execute_vmul8"
    "op_rel R execute_vmul16" "op_rel R execute_vmul32" "op_rel R execute_vmul64"
    "op_rel R execute_fload32" "op_rel R execute_fload64" "op_rel R execute_fstore32"
    "op_rel R execute_fstore64" "op_rel R (execute_fadd32 host)" "op_rel R (execute_fadd64 host)"
    "op_rel R (execute_fsub32 host)" "op_rel R (execute_fsub64 host)" "op_rel R (execute_fmul32 host)"
    "op_rel R (execute_fmul64 host)" "op_rel R (execute_fdiv32 host)" "op_rel R (execute_fdiv64 host)"
    "op_rel R execute_fcmp32" "op_rel R execute_fcmp64" "op_rel R execute_fneg32"
    "op_rel R execute_fneg64" "op_rel R execute_fabs32" "op_rel R execute_fabs64"
    "op_rel R execute_i32tof32" "op_rel R execute_i64tof64" "op_rel R execute_f32toi32"
    "op_rel R execute_f64toi64" "op_rel R (execute_vfadd32 host)" "op_rel R (execute_vfadd64 host)"
    "op_rel R (execute_vfsub32 host)" "op_rel R (execute_vfsub64 host)"
    "op_rel R (execute_vfmul32 host)" "op_rel R (execute_vfmul64 host)"
    "op_rel R (execute_vfdiv32 host)" "op_rel R (execute_vfdiv64 host)"
    "op_rel R (execute_f32tof64 host)" "op_rel R (execute_f64tof32 host)"
    "op_rel R execute_getfpstatus"
  unfolding execute_vload128_def execute_vstore128_def execute_vmov_def execute_vadd8_def
    execute_vadd16_def execute_vadd32_def execute_vadd64_def execute_vsub8_def
    execute_vsub16_def execute_vsub32_def execute_vsub64_def execute_vmul8_def
    execute_vmul16_def execute_vmul32_def execute_vmul64_def execute_fload32_def
    execute_fload64_def execute_fstore32_def execute_fstore64_def execute_fadd32_def
    execute_fadd64_def execute_fsub32_def execute_fsub64_def execute_fmul32_def
    execute_fmul64_def execute_fdiv32_def execute_fdiv64_def execute_fcmp32_def
    execute_fcmp64_def execute_fneg32_def execute_fneg64_def execute_fabs32_def
    execute_fabs64_def execute_i32tof32_def execute_i64tof64_def execute_f32toi32_def
    execute_f64toi64_def execute_vfadd32_def execute_vfadd64_def execute_vfsub32_def
    execute_vfsub64_def execute_vfmul32_def execute_vfmul64_def execute_vfdiv32_def
    execute_vfdiv64_def execute_f32tof64_def execute_f64tof32_def execute_getfpstatus_def
  by (intro frame_intros)+

lemma rel_VECTOR_HANDLERS:
  "list_all (\<lambda>h. case h of None \<Rightarrow> True | Some f \<Rightarrow> op_rel R f) (VECTOR_HANDLERS host)"
  unfolding VECTOR_HANDLERS_def by (simp add: frame_intros)

lemma rel_cpu_vector_execute [frame_intros]: "op_rel R (cpu_vector_execute host opcode)"
proof (cases "cpu_vector_opcode opcode \<and> opcode \<notin> {OP_VAND, OP_VOR, OP_VXOR}")
  case True
  then have "case VECTOR_HANDLERS host ! unat (opcode - OP_VECTOR_FIRST) of
      None \<Rightarrow> True | Some f \<Rightarrow> op_rel R f"
    using rel_VECTOR_HANDLERS [of host] vector_handler_index by (auto simp: list_all_length)
  with True show ?thesis
    by (auto simp: cpu_vector_execute_def frame_intros split: option.splits)
qed (auto simp: cpu_vector_execute_def frame_intros)

end

section \<open>Relations kept by every access of the bus\<close>

locale bus_frame = fault_frame R for R :: "'w machine \<Rightarrow> 'w machine \<Rightarrow> bool" +
  assumes bus_reads: "R m (m\<lparr>bus := snd (bus_read (bus m) a w)\<rparr>)"
    and bus_writes: "R m (m\<lparr>bus := snd (bus_write (bus m) a w v)\<rparr>)"
    and bus_compare_exchanges: "R m (m\<lparr>bus := snd (bus_compare_exchange64 (bus m) a e d)\<rparr>)"
    and bus_exchanges: "R m (m\<lparr>bus := snd (bus_exchange64 (bus m) a v)\<rparr>)"
    and bus_fetch_adds: "R m (m\<lparr>bus := snd (bus_fetch_add64 (bus m) a v)\<rparr>)"
    and ram_writes: "ram_write (mach_ram m) a w v = Some r \<Longrightarrow>
      R m (m\<lparr>bus := (bus m)\<lparr>bus_ram := r\<rparr>\<rparr>)"
begin

lemma rel_segment_read [frame_intros]: "op_rel R (segment_read acc use_bus s)"
  by (rule op_relI) (simp add: segment_read_def split_beta bus_reads)

lemma rel_read_segments [frame_intros]:
  "op_rel R (read_segments acc use_bus e report segments result)"
proof (induction segments arbitrary: result)
  case (Cons s segments)
  show ?case
  proof (rule op_relI)
    fix m :: "'w machine"
    obtain x m' where f: "segment_read acc use_bus s m = (x, m')"
      by (cases "segment_read acc use_bus s m")
    show "R m (snd (read_segments acc use_bus e report (s # segments) result m))"
      using op_relD [OF rel_segment_read f]
      by (auto simp: f split: option.split intro: rel_trans op_rel_snd Cons rel_fault_at)
  qed
qed (simp add: op_rel_def)

lemma rel_any_read [frame_intros]: "op_rel R (memory_read va width acc use_bus e report)"
  unfolding memory_read_def by (intro frame_intros)

lemma rel_segment_write [frame_intros]: "op_rel R (segment_write use_bus s part)"
  by (rule op_relI) (simp add: segment_write_def split_beta bus_writes ram_writes split: option.split)

lemma rel_write_segments [frame_intros]:
  "op_rel R (write_segments acc use_bus e report v segments)"
proof (induction segments)
  case (Cons s segments)
  show ?case
  proof (rule op_relI)
    fix m :: "'w machine"
    let ?w = "segment_write use_bus s (drop_bit (seg_byte_offset s * 8) v)"
    obtain x m' where f: "?w m = (x, m')" by (cases "?w m")
    show "R m (snd (write_segments acc use_bus e report v (s # segments) m))"
      using op_relD [OF rel_segment_write f]
      by (auto simp: f split: option.split intro: rel_trans op_rel_snd Cons rel_fault_at)
  qed
qed (simp add: op_rel_def)

lemma rel_any_write [frame_intros]: "op_rel R (memory_write va width acc use_bus e report v)"
  unfolding memory_write_def by (intro frame_intros)

lemma rel_vector_read_chunks [frame_intros]: "op_rel R (vector_read_chunks s consumed v)"
proof (rule op_relI)
  fix m :: "'w machine"
  show "R m (snd (vector_read_chunks s consumed v m))"
  proof (induction s consumed v m rule: vector_read_chunks.induct)
    case (1 s consumed v m)
    then show ?case
      by (subst vector_read_chunks.simps)
         (simp add: Let_def op_rel_snd frame_intros split: option.split)
  qed
qed

lemma rel_vector_write_chunks [frame_intros]: "op_rel R (vector_write_chunks s consumed v)"
proof (rule op_relI)
  fix m :: "'w machine"
  show "R m (snd (vector_write_chunks s consumed v m))"
  proof (induction s consumed v m rule: vector_write_chunks.induct)
    case (1 s consumed v m)
    let ?w = "ram_write (mach_ram m) (seg_physical_address s + of_nat consumed)
      (chunk_width (seg_width s) consumed)
      (assemble_le (\<lambda>i. v (seg_byte_offset s + consumed + i)) (chunk_width (seg_width s) consumed))"
    show ?case
    proof (cases "consumed < seg_width s")
      case True
      show ?thesis
      proof (cases ?w)
        case None
        with True show ?thesis
          by (subst vector_write_chunks.simps) (simp add: Let_def op_rel_snd frame_intros)
      next
        case (Some r)
        from rel_trans [OF ram_writes [OF Some] 1 [OF True refl refl Some]] Some True show ?thesis
          by (subst vector_write_chunks.simps) (simp add: Let_def)
      qed
    qed (subst vector_write_chunks.simps, simp)
  qed
qed

lemma rel_vector_segments [frame_intros]:
  "op_rel R (vector_read_segments segments v)" "op_rel R (vector_write_segments segments v)"
  by (induction segments arbitrary: v) (simp_all add: frame_intros)

lemma rel_vector_memory [frame_intros]:
  "op_rel R (vector_memory_segments a acc)"
  unfolding vector_memory_segments_def by (intro frame_intros)

lemma rel_vector_accesses [frame_intros]:
  "op_rel R (cpu_internal_vector_read a)" "op_rel R (cpu_internal_vector_write a v)"
  unfolding cpu_internal_vector_read_def cpu_internal_vector_write_def by (intro frame_intros)+

lemma rel_bus_atomic [frame_intros]:
  assumes "\<And>m. R m (m\<lparr>bus := snd (f (bus m))\<rparr>)"
  shows "op_rel R (bus_atomic f va)"
proof (rule op_relI)
  fix m :: "'w machine"
  obtain x b where f: "f (bus m) = (x, b)" by (cases "f (bus m)")
  have "R m (m\<lparr>bus := b\<rparr>)" using assms [of m] f by simp
  then show "R m (snd (bus_atomic f va m))"
    by (auto simp: bus_atomic_def f split: option.split
        intro: rel_trans op_rel_snd [OF rel_set_access_exception])
qed

lemmas rel_atomics [frame_intros] =
  rel_bus_atomic [OF bus_compare_exchanges] rel_bus_atomic [OF bus_exchanges]
  rel_bus_atomic [OF bus_fetch_adds]

end

sublocale bus_frame \<subseteq> fetch_frame
  by unfold_locales (intro frame_intros; assumption)+

locale access_frame = cpu_frame R + bus_frame R for R :: "'w machine \<Rightarrow> 'w machine \<Rightarrow> bool"

sublocale access_frame \<subseteq> handler_frame
  by unfold_locales

section \<open>Operations that start in supervisor mode\<close>

text \<open>The mode itself is such a relation, so an unprivileged operation in the middle of a
  privileged handler stays in supervisor mode.\<close>

definition same_mode :: "'w machine \<Rightarrow> 'w machine \<Rightarrow> bool" where
  "same_mode m m' \<longleftrightarrow> cpu_mode (cpu m') = cpu_mode (cpu m)"

interpretation mode: access_frame same_mode
  by unfold_locales (simp_all add: same_mode_def same_privileged_def)

text \<open>An operation of a supervisor that keeps a relation, and nothing is asked of a user.\<close>

definition supervisor_rel :: "('w machine \<Rightarrow> 'w machine \<Rightarrow> bool) \<Rightarrow> ('a, 'w) operation \<Rightarrow> bool" where
  "supervisor_rel R f \<longleftrightarrow> (\<forall>m. cpu_mode (cpu m) = CPU_MODE_SUPERVISOR \<longrightarrow> R m (snd (f m)))"

named_theorems supervisor_intros

lemma supervisor_relI:
  "(\<And>m. cpu_mode (cpu m) = CPU_MODE_SUPERVISOR \<Longrightarrow> R m (snd (f m))) \<Longrightarrow> supervisor_rel R f"
  by (simp add: supervisor_rel_def)

lemma supervisor_rel_if [supervisor_intros]:
  "supervisor_rel R f \<Longrightarrow> supervisor_rel R g \<Longrightarrow> supervisor_rel R (if b then f else g)"
  by simp

lemma supervisor_rel_Let [supervisor_intros]:
  "(\<And>x. supervisor_rel R (f x)) \<Longrightarrow> supervisor_rel R (let x = y in f x)"
  by (simp add: Let_def)

lemma supervisor_rel_op: "op_rel R f \<Longrightarrow> supervisor_rel R f"
  by (simp add: supervisor_rel_def op_rel_def)

definition OP_SYSCALL :: u8 where "OP_SYSCALL = 0x66"

lemma unat_OP_SYSCALL [simp]: "unat OP_SYSCALL = 0x66"
  by (simp add: OP_SYSCALL_def)

locale supervisor_frame = handler_frame R for R :: "'w machine \<Rightarrow> 'w machine \<Rightarrow> bool" +
  assumes supervisor: "cpu_mode (cpu m) = CPU_MODE_SUPERVISOR \<Longrightarrow> R m (m\<lparr>cpu := c\<rparr>)"
begin

lemma super_set_cpu [supervisor_intros]: "supervisor_rel R (set_cpu f)"
  by (rule supervisor_relI) (simp add: set_cpu_def supervisor)

lemma super_and_then [supervisor_intros]:
  assumes "op_rel R f" "op_rel same_mode f" "\<And>x. supervisor_rel R (g x)"
  shows "supervisor_rel R (and_then f g)"
proof (rule supervisor_relI)
  fix m :: "'w machine"
  assume super: "cpu_mode (cpu m) = CPU_MODE_SUPERVISOR"
  obtain x m' where f: "f m = (x, m')" by (cases "f m")
  have "R m m'" "cpu_mode (cpu m') = CPU_MODE_SUPERVISOR"
    using op_relD [OF assms(1) f] op_relD [OF assms(2) f] super by (simp_all add: same_mode_def)
  then show "R m (snd (and_then f g m))"
    using assms(3) rel_trans by (auto simp: and_then_def f supervisor_rel_def split: option.split)
qed

text \<open>A handler that first requires supervisor mode.\<close>

lemma rel_privileged:
  assumes "supervisor_rel R (g ())"
  shows "op_rel R (and_then require_supervisor g)"
proof (rule op_relI)
  fix m :: "'w machine"
  show "R m (snd (and_then require_supervisor g m))"
  proof (cases "cpu_mode (cpu m) = CPU_MODE_SUPERVISOR")
    case True
    with assms show ?thesis by (simp add: and_then_def require_supervisor_def supervisor_rel_def)
  next
    case False
    then show ?thesis
      by (simp add: and_then_def require_supervisor_def set_exception_def Let_def unprivileged
          same_privileged_def)
  qed
qed

lemma rel_system_registers [frame_intros]:
  "op_rel R execute_halt" "op_rel R execute_ei" "op_rel R execute_di" "op_rel R execute_enteruser"
  "op_rel R execute_setksp" "op_rel R execute_getvbr" "op_rel R execute_getksp"
  "op_rel R execute_getptbr"
  unfolding execute_halt_def execute_ei_def execute_di_def execute_enteruser_def
    execute_setksp_def execute_getvbr_def execute_getksp_def execute_getptbr_def
  by (intro rel_privileged supervisor_intros frame_intros supervisor_rel_op)+

lemma rel_execute_setvbr [frame_intros]: "op_rel R execute_setvbr"
  unfolding execute_setvbr_def
  by (intro rel_privileged super_and_then frame_intros supervisor_relI)
     (simp add: cpu_set_vector_base_def supervisor op_rel_snd frame_intros)

lemma rel_execute_setptbr [frame_intros]: "op_rel R execute_setptbr"
  unfolding execute_setptbr_def
  by (intro rel_privileged super_and_then frame_intros supervisor_relI)
     (simp add: Let_def supervisor op_rel_snd frame_intros)

lemma rel_execute_mmu [frame_intros]: "op_rel R execute_mmuon" "op_rel R execute_mmuoff"
  unfolding execute_mmuon_def execute_mmuoff_def
  by (intro rel_privileged supervisor_relI, simp add: Let_def supervisor op_rel_snd frame_intros)+

lemma rel_execute_iret [frame_intros]: "op_rel R execute_iret"
  unfolding execute_iret_def
  by (intro rel_privileged supervisor_intros frame_intros supervisor_rel_op)

end

section \<open>The whole instruction set\<close>

locale isa_frame = handler_frame R for R :: "'w machine \<Rightarrow> 'w machine \<Rightarrow> bool" +
  assumes rel_system_handlers [frame_intros]:
      "op_rel R execute_halt" "op_rel R execute_ei" "op_rel R execute_di" "op_rel R execute_enteruser"
      "op_rel R execute_setksp" "op_rel R execute_getvbr" "op_rel R execute_getksp"
      "op_rel R execute_getptbr" "op_rel R execute_setvbr" "op_rel R execute_setptbr"
      "op_rel R execute_mmuon" "op_rel R execute_mmuoff" "op_rel R execute_iret"
begin

text \<open>Every opcode but the system call, whose handler enters the kernel.\<close>

lemma rel_OPCODE_HANDLERS:
  "list_all (op_rel R) (take 0x66 OPCODE_HANDLERS)" "list_all (op_rel R) (drop 0x67 OPCODE_HANDLERS)"
  unfolding OPCODE_HANDLERS_def by (simp_all add: frame_intros)

lemma rel_execute_opcode:
  assumes "opcode \<noteq> OP_SYSCALL"
  shows "op_rel R (execute_opcode host opcode)"
proof (cases "opcode_handler opcode :: (unit, 'w) operation option")
  case None
  then show ?thesis by (simp add: execute_opcode_def frame_intros)
next
  case (Some h)
  let ?i = "unat opcode" and ?hs = "OPCODE_HANDLERS :: (unit, 'w) operation list"
  have h: "h = ?hs ! ?i" "?i < length ?hs" using Some by (auto simp: opcode_handler_def split: if_splits)
  have "?i \<noteq> 0x66"
    using assms unat_OP_SYSCALL by (metis word_unat_eq_iff)
  then consider "?i < 0x66" | "0x67 \<le> ?i" by linarith
  then have "op_rel R h"
  proof cases
    case 1
    then have "h = take 0x66 ?hs ! ?i" "?i < length (take 0x66 ?hs)" using h by simp_all
    then show ?thesis using rel_OPCODE_HANDLERS(1) unfolding list_all_length by metis
  next
    case 2
    then have "h = drop 0x67 ?hs ! (?i - 0x67)" "?i - 0x67 < length (drop 0x67 ?hs)"
      using h by simp_all
    then show ?thesis using rel_OPCODE_HANDLERS(2) unfolding list_all_length by metis
  qed
  with Some show ?thesis by (simp add: execute_opcode_def)
qed

end

sublocale supervisor_frame \<subseteq> isa_frame
  by unfold_locales (intro frame_intros)+

section \<open>Interpretations\<close>

text \<open>In user mode nothing privileged changes and user mode is not left.\<close>

definition user_confined :: "'w machine \<Rightarrow> 'w machine \<Rightarrow> bool" where
  "user_confined m m' \<longleftrightarrow>
     (cpu_mode (cpu m) = CPU_MODE_USER \<longrightarrow> same_privileged (cpu m) (cpu m'))"

interpretation user_access: access_frame user_confined
proof
  show "user_confined m m' \<Longrightarrow> user_confined m' m'' \<Longrightarrow> user_confined m m''" for m m' m'' :: "'w machine"
    unfolding user_confined_def using same_privileged_trans by (metis same_privileged_def)
qed (simp_all add: user_confined_def same_privileged_def)

interpretation user: supervisor_frame user_confined
  by unfold_locales (simp add: user_confined_def)

text \<open>The address space of the bus stays partitioned.\<close>

definition keeps_bus :: "'w machine \<Rightarrow> 'w machine \<Rightarrow> bool" where
  "keeps_bus m m' \<longleftrightarrow> (bus_ok (bus m) \<longrightarrow> bus_ok (bus m'))"

interpretation bus_access: access_frame keeps_bus
  by unfold_locales
     (auto simp: keeps_bus_def bus_read_ok bus_write_ok bus_atomic_ok ram_write_size bus_ok_ram')

interpretation bus_kept: supervisor_frame keeps_bus
  by unfold_locales (simp add: keeps_bus_def)

end
