(* ===== verification/Cpu_Trap.thy ===== *)
theory Cpu_Trap
  imports Cpu_Frame
begin

text \<open>
  Traps: what entering a handler, delivering an exception and a system call do to the
  processor, and how one step of the processor is made of an instruction and a trap
  (\<open>step_outcome\<close>).
\<close>

section \<open>Accesses that report no fault\<close>

definition same_cpu :: "'w machine \<Rightarrow> 'w machine \<Rightarrow> bool" where
  "same_cpu m m' \<longleftrightarrow> cpu m' = cpu m"

interpretation quiet: machine_preorder same_cpu
  by unfold_locales (simp_all add: same_cpu_def)

lemma quiet_translate [frame_intros]: "op_rel same_cpu (translate_address va acc False)"
  by (rule op_relI) (simp add: translate_address_def same_cpu_def Let_def split: mmu_result.split)

lemma quiet_segment_loop [frame_intros]:
  "op_rel same_cpu (segment_loop slots acc False cursor offset remaining)"
proof (induction slots arbitrary: cursor offset remaining)
  case 0
  show ?case unfolding segment_loop.simps [of 0] nat.case by (intro frame_intros)
next
  case (Suc slots)
  show ?case unfolding segment_loop.simps [of "Suc slots"] nat.case by (intro frame_intros Suc)
qed

lemma quiet_build_segments [frame_intros]:
  "op_rel same_cpu (build_memory_segments va width acc e False)"
  by (rule op_relI) (simp add: build_memory_segments_def op_rel_snd frame_intros)

lemma quiet_fault_at [frame_intros]: "op_rel same_cpu (fault_at False e a acc)"
  unfolding fault_at_def by (simp add: frame_intros)

lemma quiet_check_segments [frame_intros]: "op_rel same_cpu (check_segments e False acc segments)"
proof (induction segments)
  case (Cons s segments)
  then show ?case by (intro op_relI) (simp add: op_rel_snd frame_intros)
qed (simp add: op_rel_def same_cpu_def)

lemma quiet_segment_write: "cpu (snd (segment_write use_bus s v m)) = cpu m"
  by (simp add: segment_write_def split_beta split: option.split)

lemma quiet_write_segments [frame_intros]:
  "op_rel same_cpu (write_segments acc use_bus e False v segments)"
proof (induction segments)
  case (Cons s segments)
  show ?case
  proof (rule op_relI)
    fix m :: "'a machine"
    obtain x m' where f: "segment_write use_bus s (drop_bit (seg_byte_offset s * 8) v) m = (x, m')"
      by (cases "segment_write use_bus s (drop_bit (seg_byte_offset s * 8) v) m")
    then have "cpu m' = cpu m" using quiet_segment_write by (metis snd_conv)
    then show "same_cpu m (snd (write_segments acc use_bus e False v (s # segments) m))"
      using op_rel_snd [OF Cons, of m'] by (simp add: f fault_at_def fail_def same_cpu_def split: option.split)
  qed
qed (simp add: op_rel_def same_cpu_def)

lemma quiet_memory_write [frame_intros]:
  "op_rel same_cpu (memory_write va width acc use_bus e False v)"
  unfolding memory_write_def by (intro frame_intros)

lemma quiet_write_frame: "op_rel same_cpu (write_frame mode frame ra fl sp)"
  unfolding write_frame_def ram_write_accessible_def frame_write_def by (intro frame_intros)

lemma quiet_address_valid [frame_intros]:
  "op_rel same_cpu (instruction_address_valid_for_mode a mode False)"
  by (rule op_relI)
     (simp add: instruction_address_valid_for_mode_def Let_def op_rel_snd frame_intros split: mmu_result.split)

lemma quiet_read_vector: "op_rel same_cpu (read_vector i)"
  by (rule op_relI)
     (simp add: read_vector_def Let_def op_rel_snd frame_intros split: option.split)

lemma read_vector_machine: "snd (read_vector i m) = m"
proof -
  have "snd (instruction_address_valid_for_mode a mode False m) = m" for a mode
    by (simp add: instruction_address_valid_for_mode_def Let_def fault_at_def fail_def
        split: mmu_result.split)
  then show ?thesis
    by (auto simp: read_vector_def Let_def and_then_def give_def split: option.split prod.split)
      (metis snd_conv)+
qed

section \<open>Entering a handler\<close>

definition stack_top :: "cpu \<Rightarrow> u64" where
  "stack_top c = (if cpu_mode c = CPU_MODE_USER then ksp c else registers c REGISTER_SP)"

definition frame_bytes :: "cpu \<Rightarrow> u64" where
  "frame_bytes c = (if cpu_mode c = CPU_MODE_USER then 24 else 16)"

text \<open>The processor after the entry of a handler.\<close>

definition entered :: "u64 \<Rightarrow> cpu \<Rightarrow> cpu" where
  "entered handler c =
     c\<lparr>cpu_mode := CPU_MODE_SUPERVISOR,
       registers := (registers c)(REGISTER_SP := stack_top c - frame_bytes c),
       flags := flags c AND NOT CPU_FLAG_INTERRUPT_ENABLE,
       pc := handler,
       waiting := False\<rparr>"

text \<open>Only the exception registers differ, and they hold the first exception.\<close>

definition excepted :: "cpu \<Rightarrow> cpu \<Rightarrow> bool" where
  "excepted c d \<longleftrightarrow>
     (\<exists>p e ca b i. d = c\<lparr>exception_pending := p, epc := e, ecause := ca, badaddr := b, einfo := i\<rparr>)"

lemma exceptedI:
  "excepted c (c\<lparr>exception_pending := p, epc := e, ecause := ca, badaddr := b, einfo := i\<rparr>)"
  unfolding excepted_def by blast

lemma excepted_refl [simp]: "excepted c c"
proof -
  have "c = c\<lparr>exception_pending := exception_pending c, epc := epc c, ecause := ecause c,
    badaddr := badaddr c, einfo := einfo c\<rparr>" by simp
  then show ?thesis unfolding excepted_def by blast
qed

lemma exceptedE:
  assumes "excepted c d"
  obtains p e ca b i where
    "d = c\<lparr>exception_pending := p, epc := e, ecause := ca, badaddr := b, einfo := i\<rparr>"
  using assms unfolding excepted_def by blast

lemma excepted_trans: "excepted a b \<Longrightarrow> excepted b c \<Longrightarrow> excepted a c"
  by (elim exceptedE) (simp add: exceptedI)

lemma excepted_same_privileged: "excepted c d \<Longrightarrow> same_privileged c d"
  by (elim exceptedE) (simp add: same_privileged_def)

lemma excepted_cause: "excepted c (c\<lparr>ecause := x\<rparr>)"
  using exceptedI [where c = c and p = "exception_pending c" and e = "epc c" and ca = x
      and b = "badaddr c" and i = "einfo c"] by simp

lemma read_vector_excepted:
  assumes "excepted (cpu m) c"
  shows "fst (read_vector i (m\<lparr>cpu := c\<rparr>)) = fst (read_vector i m)"
proof -
  have "fst (instruction_address_valid_for_mode a mode False (m\<lparr>cpu := c\<rparr>)) =
      fst (instruction_address_valid_for_mode a mode False m)" for a mode
    using assms
    by (elim exceptedE)
       (simp add: instruction_address_valid_for_mode_def Let_def fault_at_def fail_def split: mmu_result.split)
  then show ?thesis
    using assms
    by (elim exceptedE)
       (simp add: read_vector_def Let_def and_then_def give_def split_beta split: option.split)
qed

lemma set_exception_Some [simp]: "set_exception e b i m \<noteq> (Some x, m')"
  by (simp add: set_exception_def Let_def)

lemma set_exception_excepted:
  "set_exception e b i m = (x, m') \<Longrightarrow> excepted (cpu m) (cpu m') \<and> bus m' = bus m"
  by (auto simp: set_exception_def Let_def exceptedI)

lemma set_access_exception_Some [simp]: "set_access_exception e a acc r m \<noteq> (Some x, m')"
  by (simp add: set_access_exception_def)

lemma set_access_exception_excepted:
  "set_access_exception e a acc r m = (x, m') \<Longrightarrow> excepted (cpu m) (cpu m') \<and> bus m' = bus m"
  unfolding set_access_exception_def by (rule set_exception_excepted)

lemma cpu_mode_same: "cpu_mode c = x \<Longrightarrow> c\<lparr>cpu_mode := x\<rparr> = c"
  by (cases c) simp

lemma enter_eq:
  "enter_privileged_handler handler ra ef m =
     (let c = cpu m; frame = stack_top c - frame_bytes c
      in if stack_top c < frame_bytes c then
           set_access_exception CPU_EXCEPTION_STACK_FAULT (stack_top c) MMU_ACCESS_WRITE MMU_OK m
         else
           case write_frame (cpu_mode c) frame ra (make_saved_flags c ef) (registers c REGISTER_SP)
                  (m\<lparr>cpu := c\<lparr>cpu_mode := CPU_MODE_SUPERVISOR\<rparr>\<rparr>) of
             (None, k) \<Rightarrow>
               set_access_exception CPU_EXCEPTION_STACK_FAULT frame MMU_ACCESS_WRITE MMU_OK
                 (k\<lparr>cpu := c\<rparr>)
           | (Some _, k) \<Rightarrow> (Some (), k\<lparr>cpu := entered handler c\<rparr>))"
proof -
  let ?c = "cpu m"
  let ?w = "write_frame (cpu_mode ?c) (stack_top ?c - frame_bytes ?c) ra (make_saved_flags ?c ef)
    (registers ?c REGISTER_SP) (m\<lparr>cpu := ?c\<lparr>cpu_mode := CPU_MODE_SUPERVISOR\<rparr>\<rparr>)"
  obtain x k where w: "?w = (x, k)" by (cases ?w)
  have k: "cpu k = ?c\<lparr>cpu_mode := CPU_MODE_SUPERVISOR\<rparr>"
    using op_relD [OF quiet_write_frame w] by (simp add: same_cpu_def)
  show ?thesis
    using w
    by (cases "cpu_mode ?c"; cases x)
       (simp_all add: enter_privileged_handler_def Let_def stack_top_def frame_bytes_def entered_def k
         cpu_mode_same)
qed

lemma enter_success:
  assumes "enter_privileged_handler handler ra ef m = (Some x, m')"
  shows "cpu m' = entered handler (cpu m)" "frame_bytes (cpu m) \<le> stack_top (cpu m)"
    "\<exists>k. write_frame (cpu_mode (cpu m)) (stack_top (cpu m) - frame_bytes (cpu m)) ra
        (make_saved_flags (cpu m) ef) (registers (cpu m) REGISTER_SP)
        (m\<lparr>cpu := (cpu m)\<lparr>cpu_mode := CPU_MODE_SUPERVISOR\<rparr>\<rparr>) = (Some (), k) \<and> bus m' = bus k"
  using assms unfolding enter_eq Let_def by (auto split: if_splits option.splits prod.splits)

lemma enter_failure:
  assumes "enter_privileged_handler handler ra ef m = (None, m')"
  shows "excepted (cpu m) (cpu m')"
  using assms set_access_exception_excepted unfolding enter_eq Let_def
  by (auto split: if_splits option.splits prod.splits dest!: set_access_exception_excepted)

section \<open>Delivering an exception\<close>

definition valid_cause :: "u64 \<Rightarrow> bool" where
  "valid_cause e \<longleftrightarrow> 0 < e \<and> e < of_nat CPU_EXCEPTION_COUNT"

lemma deliver_success:
  assumes "deliver_exception m = (Some x, m')" "valid_cause (ecause (cpu m))"
  shows "\<exists>handler. cpu m' = (entered handler (cpu m))\<lparr>exception_pending := False, exception_active := True\<rparr> \<and>
      read_vector (CPU_VECTOR_EXCEPTION_BASE + unat (ecause (cpu m))) m = (Some handler, m) \<and>
      \<not> exception_active (cpu m) \<and> frame_bytes (cpu m) \<le> stack_top (cpu m)"
proof -
  let ?v = "read_vector (CPU_VECTOR_EXCEPTION_BASE + unat (ecause (cpu m))) m"
  have "\<not> (ecause (cpu m) = 0 \<or> of_nat CPU_EXCEPTION_COUNT \<le> ecause (cpu m))"
    using assms(2) by (auto simp: valid_cause_def)
  with assms(1) obtain h k where v: "?v = (Some h, k)" and na: "\<not> exception_active (cpu m)"
    by (auto simp: deliver_exception_def Let_def and_then_def split: if_splits option.splits prod.splits)
  have "k = m" using read_vector_machine [of _ m] v by (metis snd_conv)
  with v na assms(1) \<open>\<not> (ecause (cpu m) = 0 \<or> _)\<close> obtain y k' where
    e: "enter_privileged_handler h (epc (cpu m)) True m = (Some y, k')"
    and m': "m' = k'\<lparr>cpu := (cpu k')\<lparr>exception_pending := False, exception_active := True\<rparr>\<rparr>"
    by (auto simp: deliver_exception_def Let_def and_then_def get_cpu_def set_cpu_def
        split: option.splits prod.splits)
  show ?thesis using enter_success(1,2) [OF e] v \<open>k = m\<close> m' na by (intro exI [of _ h]) simp
qed

lemma deliver_failure:
  assumes "deliver_exception m = (None, m')" "valid_cause (ecause (cpu m))"
  shows "excepted (cpu m) (cpu m')"
proof -
  let ?v = "read_vector (CPU_VECTOR_EXCEPTION_BASE + unat (ecause (cpu m))) m"
  have valid: "\<not> (ecause (cpu m) = 0 \<or> of_nat CPU_EXCEPTION_COUNT \<le> ecause (cpu m))"
    using assms(2) by (auto simp: valid_cause_def)
  obtain v k where v: "?v = (v, k)" by (cases ?v)
  have k: "k = m" using read_vector_machine [of _ m] v by (metis snd_conv)
  show ?thesis
  proof (cases "v = None \<or> exception_active (cpu m)")
    case True
    with assms(1) valid v k show ?thesis
      by (auto simp: deliver_exception_def Let_def and_then_def split: if_splits)
  next
    case False
    then obtain h where h: "v = Some h" by auto
    have "enter_privileged_handler h (epc (cpu m)) True m = (None, m')"
      using assms(1) valid v k False
      by (auto simp: deliver_exception_def Let_def and_then_def get_cpu_def set_cpu_def h
          split: option.splits prod.splits)
    then show ?thesis by (rule enter_failure)
  qed
qed

lemma cause_vector:
  assumes "valid_cause e"
  shows "CPU_VECTOR_EXCEPTION_BASE < CPU_VECTOR_EXCEPTION_BASE + unat e"
    "CPU_VECTOR_EXCEPTION_BASE + unat e < CPU_VECTOR_SYSCALL"
  using assms
  by (auto simp: valid_cause_def CPU_VECTOR_SYSCALL_def CPU_EXCEPTION_COUNT_def word_less_nat_alt)

text \<open>Delivering an exception either fails and touches the exception registers only, or enters
  the handler of one of the exception vectors.\<close>

lemma deliver_outcome:
  assumes "deliver_exception m = (x, m')"
  shows "(x = None \<and> excepted (cpu m) (cpu m')) \<or>
    (\<exists>h i d. x = Some () \<and> CPU_VECTOR_EXCEPTION_BASE < i \<and> i < CPU_VECTOR_SYSCALL \<and>
       fst (read_vector i m) = Some h \<and> excepted (cpu m) d \<and> frame_bytes d \<le> stack_top d \<and>
       epc d = epc (cpu m) \<and> valid_cause (ecause d) \<and> i = CPU_VECTOR_EXCEPTION_BASE + unat (ecause d) \<and>
       cpu m' = (entered h d)\<lparr>exception_pending := False, exception_active := True\<rparr>)"
proof -
  define n where "n = (if ecause (cpu m) = 0 \<or> ecause (cpu m) \<ge> of_nat CPU_EXCEPTION_COUNT
     then m\<lparr>cpu := (cpu m)\<lparr>ecause := exception_code CPU_EXCEPTION_ILLEGAL_INSTRUCTION\<rparr>\<rparr> else m)"
  have c: "valid_cause (ecause (cpu n))"
    by (auto simp: n_def valid_cause_def CPU_EXCEPTION_COUNT_def word_gt_0)
  have e: "excepted (cpu m) (cpu n)" "n = m\<lparr>cpu := cpu n\<rparr>" "epc (cpu n) = epc (cpu m)"
    by (auto simp: n_def excepted_cause)
  have d: "deliver_exception n = (x, m')"
    using assms c unfolding deliver_exception_def Let_def n_def [symmetric] valid_cause_def by auto
  show ?thesis
  proof (cases x)
    case None
    have "excepted (cpu n) (cpu m')"
      using deliver_failure [OF _ c] d None by blast
    with e(1) None show ?thesis using excepted_trans by blast
  next
    case (Some y)
    obtain h where h: "cpu m' = (entered h (cpu n))\<lparr>exception_pending := False, exception_active := True\<rparr>"
      "read_vector (CPU_VECTOR_EXCEPTION_BASE + unat (ecause (cpu n))) n = (Some h, n)"
      "frame_bytes (cpu n) \<le> stack_top (cpu n)"
      using deliver_success [OF _ c] d Some by blast
    have "fst (read_vector (CPU_VECTOR_EXCEPTION_BASE + unat (ecause (cpu n))) m) = Some h"
      using read_vector_excepted [OF e(1)] e(2) h(2) by (metis fst_conv)
    with h e(1,3) c Some cause_vector [OF c] show ?thesis by (metis (full_types) old.unit.exhaust)
  qed
qed

section \<open>Leaving user mode\<close>

text \<open>The processor of a user program \<open>c\<close> has entered the kernel through one of its vectors:
  the handler runs on the kernel stack with interrupts disabled, and the configuration of the
  machine is the one the kernel left.\<close>

definition trapped :: "cpu \<Rightarrow> cpu \<Rightarrow> bool" where
  "trapped c d \<longleftrightarrow>
     cpu_mode d = CPU_MODE_SUPERVISOR \<and> vbr d = vbr c \<and> vbr_enabled d = vbr_enabled c \<and>
     ptbr d = ptbr c \<and> ptbr_set d = ptbr_set c \<and> mmu_enabled d = mmu_enabled c \<and>
     ksp d = ksp c \<and> halted d = halted c \<and> \<not> waiting d \<and> core_id d = core_id c \<and>
     thread_id d = thread_id c \<and>
     24 \<le> ksp c \<and> registers d REGISTER_SP = ksp c - 24 \<and>
     flags d AND CPU_FLAG_INTERRUPT_ENABLE = 0"

lemma entered_trapped:
  assumes "same_privileged c d" "cpu_mode c = CPU_MODE_USER" "frame_bytes d \<le> stack_top d"
  shows "trapped c (entered h d)" "trapped c ((entered h d)\<lparr>exception_pending := p, exception_active := a\<rparr>)"
  using assms
  by (simp_all add: trapped_def entered_def same_privileged_def stack_top_def frame_bytes_def and.assoc)

lemma deliver_user:
  assumes "deliver_exception m = (x, m')" "cpu_mode (cpu m) = CPU_MODE_USER"
  shows "x = None \<and> same_privileged (cpu m) (cpu m') \<or>
    (\<exists>i. trapped (cpu m) (cpu m') \<and> x = Some () \<and> CPU_VECTOR_EXCEPTION_BASE < i \<and> i < CPU_VECTOR_SYSCALL \<and>
       fst (read_vector i m) = Some (pc (cpu m')))"
proof -
  have "pc ((entered h d)\<lparr>exception_pending := p, exception_active := a\<rparr>) = h" for h d p a
    by (simp add: entered_def)
  then show ?thesis
    using deliver_outcome [OF assms(1)] excepted_same_privileged entered_trapped(2) assms(2) by metis
qed

lemma read_vector_Some:
  assumes "fst (read_vector i m) = Some h"
  shows "ram_read (mach_ram m) (vbr (cpu m) + of_nat (8 * i)) 8 = Some h"
    "i < CPU_VECTOR_ENTRY_COUNT" "unat (vbr (cpu m) + of_nat (8 * i)) = unat (vbr (cpu m)) + 8 * i"
proof -
  let ?o = "of_nat i * of_nat CPU_VECTOR_ENTRY_SIZE :: u64"
  have i: "i < CPU_VECTOR_ENTRY_COUNT" and le: "\<not> vbr (cpu m) > UINT64_MAX - ?o"
    and rd: "ram_read (mach_ram m) (vbr (cpu m) + ?o) CPU_VECTOR_ENTRY_SIZE = Some h"
    using assms
    by (auto simp: read_vector_def Let_def and_then_def give_def split: if_splits option.splits prod.splits)
  have o: "?o = of_nat (8 * i)" by (simp add: CPU_VECTOR_ENTRY_SIZE_def mult.commute)
  show "i < CPU_VECTOR_ENTRY_COUNT" by (rule i)
  show "ram_read (mach_ram m) (vbr (cpu m) + of_nat (8 * i)) 8 = Some h"
    using rd unfolding o by (simp add: CPU_VECTOR_ENTRY_SIZE_def)
  have "unat (of_nat (8 * i) :: u64) = 8 * i"
    using i unfolding unat_of_nat
    by (simp add: CPU_VECTOR_ENTRY_COUNT_def CPU_VECTOR_SYSCALL_def CPU_VECTOR_EXCEPTION_BASE_def
        INTERRUPT_LINE_COUNT_def CPU_EXCEPTION_COUNT_def)
  moreover have "unat (vbr (cpu m)) + unat (of_nat (8 * i) :: u64) < 2 ^ 64"
    using le unfolding o not_less le_UINT64_MAX_minus .
  ultimately show "unat (vbr (cpu m) + of_nat (8 * i)) = unat (vbr (cpu m)) + 8 * i"
    by (simp add: unat_word_ariths)
qed

lemma execute_opcode_syscall: "execute_opcode host OP_SYSCALL = execute_syscall"
  by (simp add: execute_opcode_def opcode_handler_def OPCODE_HANDLERS_def)

lemma set_exception_pending: "set_exception e b i m = (x, m') \<Longrightarrow> exception_pending (cpu m')"
  by (auto simp: set_exception_def Let_def)

lemma syscall_failure:
  assumes "execute_syscall m = (None, m')"
  shows "excepted (cpu m) (cpu m') \<and> exception_pending (cpu m')"
proof -
  obtain v k where v: "read_vector CPU_VECTOR_SYSCALL m = (v, k)" by (cases "read_vector CPU_VECTOR_SYSCALL m")
  have k: "k = m" using read_vector_machine [of _ m] v by (metis snd_conv)
  show ?thesis
  proof (cases v)
    case None
    with assms v k have "set_exception CPU_EXCEPTION_ILLEGAL_INSTRUCTION 0 0 m = (None :: unit option, m')"
      by (simp add: execute_syscall_def)
    from set_exception_excepted [OF this] set_exception_pending [OF this] show ?thesis by blast
  next
    case (Some h)
    with assms v k have e: "enter_privileged_handler h (pc (cpu m)) False m = (None, m')"
      by (simp add: execute_syscall_def)
    then have "exception_pending (cpu m')"
      unfolding enter_eq Let_def
      by (auto simp: set_access_exception_def set_exception_def Let_def split: if_splits option.splits prod.splits)
    then show ?thesis using enter_failure [OF e] by blast
  qed
qed

lemma syscall_user:
  assumes "execute_syscall m = (Some y, m')" "cpu_mode (cpu m) = CPU_MODE_USER"
  shows "trapped (cpu m) (cpu m')" "fst (read_vector CPU_VECTOR_SYSCALL m) = Some (pc (cpu m'))"
proof -
  obtain v k where v: "read_vector CPU_VECTOR_SYSCALL m = (v, k)" by (cases "read_vector CPU_VECTOR_SYSCALL m")
  have k: "k = m" using read_vector_machine [of _ m] v by (metis snd_conv)
  obtain h where h: "v = Some h" "enter_privileged_handler h (pc (cpu m)) False m = (Some y, m')"
    using assms(1) v k by (cases v) (auto simp: execute_syscall_def)
  note e = enter_success(1,2) [OF h(2)]
  show "trapped (cpu m) (cpu m')" using entered_trapped(1) [OF same_privileged_refl assms(2) e(2)] e(1) by simp
  show "fst (read_vector CPU_VECTOR_SYSCALL m) = Some (pc (cpu m'))" using v h(1) e(1) by (simp add: entered_def)
qed

context isa_frame
begin

lemma step_outcome:
  assumes "cpu_step host m = (x, m')"
  shows "\<exists>k. R m k \<and>
    (x = Some () \<and> m' = k \<or> deliver_exception k = (x, m') \<or>
     x = Some () \<and> execute_syscall k = (x, m') \<or>
     (\<exists>k'. execute_syscall k = (None, k') \<and> deliver_exception k' = (x, m')))"
proof (cases "halted (cpu m) \<or> waiting (cpu m)")
  case True
  then have "x = Some () \<and> m' = m" using assms by (auto simp: cpu_step_def)
  then show ?thesis using rel_refl by blast
next
  case False
  let ?m = "m\<lparr>cpu := (cpu m)\<lparr>instruction_pc := pc (cpu m), exception_pending := False\<rparr>\<rparr>"
  have r0: "R m ?m" by (rule unprivileged) (simp add: same_privileged_def)
  obtain y k where f: "fetch_u8 ?m = (y, k)" by (cases "fetch_u8 ?m")
  have r1: "R m k" using rel_trans [OF r0 op_relD [OF rel_fetch(1) f]] .
  show ?thesis
  proof (cases y)
    case None
    then have "deliver_exception k = (x, m')" using assms False f by (simp add: cpu_step_def Let_def)
    then show ?thesis using r1 by blast
  next
    case (Some opcode)
    obtain z k' where e: "execute_opcode host opcode k = (z, k')" by (cases "execute_opcode host opcode k")
    have step: "cpu_step host m = (case z of Some _ \<Rightarrow> (Some (), k') | None \<Rightarrow>
        if exception_pending (cpu k') then deliver_exception k'
        else deliver_exception (snd (set_exception CPU_EXCEPTION_ILLEGAL_INSTRUCTION 0 0 k'
          :: unit option \<times> 'w machine)))"
      using False f Some e by (simp add: cpu_step_def Let_def split: option.split)
    show ?thesis
    proof (cases "opcode = OP_SYSCALL")
      case True
      then have "execute_syscall k = (z, k')" using e execute_opcode_syscall by metis
      then show ?thesis
        using step assms r1 syscall_failure [of k k'] by (cases z) auto
    next
      case False
      have r2: "R m k'" using rel_trans [OF r1 op_relD [OF rel_execute_opcode [OF False] e]] .
      have r3: "R m (snd (set_exception CPU_EXCEPTION_ILLEGAL_INSTRUCTION 0 0 k' :: unit option \<times> 'w machine))"
        using rel_trans [OF r2 op_rel_snd [OF rel_set_exception]] .
      show ?thesis using step assms r2 r3 by (cases z) (auto split: if_splits)
    qed
  qed
qed

end


lemma trapped_cong: "same_privileged c c' \<Longrightarrow> trapped c' d \<Longrightarrow> trapped c d"
  by (simp add: trapped_def same_privileged_def)

text \<open>A host whose invalid operations all give the same bits.\<close>

definition sample_host :: host_float where
  "sample_host = \<lparr>host_nan = (\<lambda>_ _ _ _. 0), host_nan_convert = (\<lambda>_ _ _. 0)\<rparr>"

end
