(* ===== verification/Cpu_Precise.thy ===== *)
theory Cpu_Precise
  imports Cpu_Trap
begin

text \<open>
  Precise exceptions. \<open>uncommitted\<close> relates the states of a processor between which only the
  program counter and the exception registers change; an operation is \<open>atomic_op\<close> when it
  either succeeds or leaves such a state. Every instruction is atomic in this sense, so an
  exception is reported against the registers the instruction started with.
\<close>

section \<open>Uncommitted instructions\<close>

definition uncommitted :: "'w machine \<Rightarrow> 'w machine \<Rightarrow> bool" where
  "uncommitted m m' \<longleftrightarrow>
     (let c = cpu m; d = cpu m'
      in excepted (c\<lparr>pc := pc d\<rparr>) d \<and>
         (exception_pending c \<longrightarrow> exception_pending d \<and> epc d = epc c) \<and>
         (\<not> exception_pending c \<and> exception_pending d \<longrightarrow> epc d = instruction_pc c))"

lemma excepted_iff:
  "excepted c d \<longleftrightarrow> d = c\<lparr>exception_pending := exception_pending d, epc := epc d, ecause := ecause d,
     badaddr := badaddr d, einfo := einfo d\<rparr>" (is "_ \<longleftrightarrow> d = ?d")
proof
  show "excepted c d \<Longrightarrow> d = ?d" by (auto simp: excepted_def)
  show "d = ?d \<Longrightarrow> excepted c d" using exceptedI by metis
qed

lemma excepted_pc: "excepted c d \<Longrightarrow> excepted (c\<lparr>pc := p\<rparr>) (d\<lparr>pc := p\<rparr>)"
  unfolding excepted_iff by (cases c; cases d) simp

lemma excepted_instruction_pc: "excepted c d \<Longrightarrow> instruction_pc d = instruction_pc c"
  by (auto elim: exceptedE)

lemma uncommitted_trans:
  assumes "uncommitted m m'" "uncommitted m' m''"
  shows "uncommitted m m''"
proof -
  have 1: "excepted ((cpu m)\<lparr>pc := pc (cpu m')\<rparr>) (cpu m')"
    and 2: "excepted ((cpu m')\<lparr>pc := pc (cpu m'')\<rparr>) (cpu m'')"
    using assms by (simp_all add: uncommitted_def Let_def)
  have "excepted ((cpu m)\<lparr>pc := pc (cpu m'')\<rparr>) (cpu m'')"
    using excepted_trans [OF excepted_pc [OF 1] 2] by simp
  moreover have "instruction_pc (cpu m') = instruction_pc (cpu m)"
    using excepted_instruction_pc [OF 1] by simp
  ultimately show ?thesis using assms by (auto simp: uncommitted_def Let_def)
qed

interpretation pending: bus_frame uncommitted
proof
  show "uncommitted m m" for m :: "'w machine" by (simp add: uncommitted_def)
  show "uncommitted m m' \<Longrightarrow> uncommitted m' m'' \<Longrightarrow> uncommitted m m''" for m m' m'' :: "'w machine"
    by (rule uncommitted_trans)
qed (simp_all add: uncommitted_def exceptedI)

section \<open>Atomic operations\<close>

definition never_fails :: "('a, 'w) operation \<Rightarrow> bool" where
  "never_fails f \<longleftrightarrow> (\<forall>m. fst (f m) \<noteq> None)"

definition atomic_op :: "('a, 'w) operation \<Rightarrow> bool" where
  "atomic_op f \<longleftrightarrow> (\<forall>m. fst (f m) = None \<longrightarrow> uncommitted m (snd (f m)))"

lemma never_failsI: "(\<And>m. f m \<noteq> (None, snd (f m))) \<Longrightarrow> never_fails f"
  by (simp add: never_fails_def) (metis not_None_eq prod.collapse)

lemma never_failsD: "never_fails f \<Longrightarrow> f m \<noteq> (None, m')"
  unfolding never_fails_def by (metis fst_conv)

named_theorems total_intros
named_theorems atomic_intros

lemma total_and_then [total_intros]:
  "never_fails f \<Longrightarrow> (\<And>x. never_fails (g x)) \<Longrightarrow> never_fails (and_then f g)"
  by (intro never_failsI) (auto simp: and_then_def never_failsD split: option.split prod.split)

lemma total_control [total_intros]:
  "never_fails f \<Longrightarrow> never_fails f' \<Longrightarrow> never_fails (if b then f else f')"
  "(\<And>x. never_fails (g x)) \<Longrightarrow> never_fails (let x = y in g x)"
  "(\<And>x y. never_fails (h x y)) \<Longrightarrow> never_fails (case p of (x, y) \<Rightarrow> h x y)"
  by (simp_all add: Let_def split: prod.split)

lemma total_primitive [total_intros]:
  "never_fails (give x)" "never_fails (get_cpu f)" "never_fails (set_cpu g)"
  by (simp_all add: never_fails_def give_def get_cpu_def set_cpu_def)

lemma total_updates [total_intros]:
  "never_fails (get_register r)" "never_fails (set_register r v)" "never_fails (set_zero_negative_flags v)"
  "never_fails (set_sp v)" "never_fails get_sp" "never_fails (set_pc v)" "never_fails (get_vector r)"
  "never_fails (set_vector r b)" "never_fails (add_fp_status v)"
  unfolding get_register_def set_register_def set_zero_negative_flags_def set_sp_def get_sp_def
    set_pc_def get_vector_def set_vector_def add_fp_status_def
  by (intro total_intros)+

lemma total_results [total_intros]:
  "never_fails (set_add_flags l r v)" "never_fails (set_sub_flags l r v)" "never_fails (set_result d v)"
  unfolding set_add_flags_def set_sub_flags_def set_result_def by (intro total_intros)+

lemma total_float_status [total_intros]: "never_fails (update_float_status f l r v p)"
  unfolding update_float_status_def by (intro total_intros)

lemma atomic_total: "never_fails f \<Longrightarrow> atomic_op f"
  unfolding never_fails_def atomic_op_def by blast

lemma atomic_uncommitted: "op_rel uncommitted f \<Longrightarrow> atomic_op f"
  by (simp add: op_rel_def atomic_op_def)

lemma atomic_control:
  "atomic_op f \<Longrightarrow> atomic_op f' \<Longrightarrow> atomic_op (if b then f else f')"
  "(\<And>x. atomic_op (g x)) \<Longrightarrow> atomic_op (let x = y in g x)"
  "(\<And>x y. atomic_op (h x y)) \<Longrightarrow> atomic_op (case p of (x, y) \<Rightarrow> h x y)"
  by (simp_all add: Let_def split: prod.split)

lemma atomic_and_then:
  fixes f :: "('a, 'w) operation" and g :: "'a \<Rightarrow> ('b, 'w) operation"
  assumes "op_rel uncommitted f" "\<And>x. atomic_op (g x)"
  shows "atomic_op (and_then f g)"
  unfolding atomic_op_def
proof (intro allI impI)
  fix m :: "'w machine"
  assume none: "fst (and_then f g m) = None"
  obtain x m' where f: "f m = (x, m')" by (cases "f m")
  have r: "uncommitted m m'" using op_relD [OF assms(1) f] .
  show "uncommitted m (snd (and_then f g m))"
  proof (cases x)
    case (Some y)
    then have "uncommitted m' (snd (g y m'))"
      using assms(2) none by (simp add: atomic_op_def and_then_def f)
    with r Some show ?thesis by (auto simp: and_then_def f intro: uncommitted_trans)
  qed (use r in \<open>simp add: and_then_def f\<close>)
qed

lemma atomic_commit:
  fixes f :: "('a, 'w) operation" and g :: "'a \<Rightarrow> ('b, 'w) operation"
  assumes "atomic_op f" "\<And>x. never_fails (g x)"
  shows "atomic_op (and_then f g)"
  unfolding atomic_op_def
proof (intro allI impI)
  fix m :: "'w machine"
  assume none: "fst (and_then f g m) = None"
  obtain x m' where f: "f m = (x, m')" by (cases "f m")
  have "x = None"
    using none assms(2) unfolding never_fails_def by (cases x) (simp_all add: and_then_def f)
  then show "uncommitted m (snd (and_then f g m))"
    using assms(1) f by (simp add: atomic_op_def and_then_def) (metis fst_conv snd_conv)
qed

section \<open>The instructions\<close>

lemma atomic_stack [atomic_intros]: "atomic_op (stack_push_u64 v)" "atomic_op stack_pop_u64"
  unfolding stack_push_u64_def stack_pop_u64_def
  by (rule atomic_control | (rule atomic_total, (intro total_intros; fail))
    | (rule atomic_uncommitted, (intro frame_intros; fail))
    | (rule atomic_and_then, (intro frame_intros; fail)) | rule atomic_intros
    | (rule atomic_commit, rule atomic_intros, (intro total_intros; fail)))+

lemma atomic_base [atomic_intros]:
  "atomic_op (execute_load x1 x2)" "atomic_op (execute_store x3)"
  "atomic_op (execute_load_offset x4 x5)" "atomic_op (execute_store_offset x6)"
  "atomic_op (execute_extend x7 x8)" "atomic_op (execute_branch x9)"
  "atomic_op (read_special x10)"
  unfolding execute_load_def execute_store_def execute_load_offset_def execute_store_offset_def
    execute_extend_def execute_branch_def read_special_def
  by (rule atomic_control | (rule atomic_total, (intro total_intros; fail))
    | (rule atomic_uncommitted, (intro frame_intros; fail))
    | (rule atomic_and_then, (intro frame_intros; fail)) | rule atomic_intros
    | (rule atomic_commit, rule atomic_intros, (intro total_intros; fail)))+

lemma atomic_unprivileged [atomic_intros]:
  "atomic_op execute_nop" "atomic_op execute_wait" "atomic_op execute_movi64"
  "atomic_op execute_mov" "atomic_op execute_movi32u" "atomic_op execute_movi32s"
  "atomic_op execute_addi32" "atomic_op execute_cmpi32" "atomic_op execute_andi32"
  "atomic_op execute_ori32" "atomic_op execute_xori32" "atomic_op execute_testi32"
  "atomic_op execute_lea" "atomic_op execute_load8u" "atomic_op execute_load16u"
  "atomic_op execute_load32u" "atomic_op execute_load64" "atomic_op execute_load8s"
  "atomic_op execute_load16s" "atomic_op execute_load32s" "atomic_op execute_store8"
  "atomic_op execute_store16" "atomic_op execute_store32" "atomic_op execute_store64"
  "atomic_op execute_load8uo" "atomic_op execute_load16uo" "atomic_op execute_load32uo"
  "atomic_op execute_load64o" "atomic_op execute_load8so" "atomic_op execute_load16so"
  "atomic_op execute_load32so" "atomic_op execute_store8o" "atomic_op execute_store16o"
  "atomic_op execute_store32o" "atomic_op execute_store64o" "atomic_op execute_add"
  "atomic_op execute_sub" "atomic_op execute_mul" "atomic_op execute_divu"
  "atomic_op execute_modu" "atomic_op execute_divs" "atomic_op execute_mods"
  "atomic_op execute_and" "atomic_op execute_or" "atomic_op execute_xor" "atomic_op execute_not"
  "atomic_op execute_shl" "atomic_op execute_shr" "atomic_op execute_sar"
  "atomic_op execute_shlv" "atomic_op execute_shrv" "atomic_op execute_sarv"
  "atomic_op execute_sext8" "atomic_op execute_sext16" "atomic_op execute_sext32"
  "atomic_op execute_zext8" "atomic_op execute_zext16" "atomic_op execute_zext32"
  "atomic_op execute_cmp" "atomic_op execute_jump" "atomic_op execute_jumpr"
  "atomic_op execute_jumprel" "atomic_op execute_brcc" "atomic_op execute_jz"
  "atomic_op execute_jnz" "atomic_op execute_jlt" "atomic_op execute_jle" "atomic_op execute_jgt"
  "atomic_op execute_jge" "atomic_op execute_jltu" "atomic_op execute_jleu"
  "atomic_op execute_jgtu" "atomic_op execute_jgeu" "atomic_op execute_call"
  "atomic_op execute_callr" "atomic_op execute_callrel" "atomic_op execute_ret"
  "atomic_op execute_push" "atomic_op execute_pop" "atomic_op execute_cas64"
  "atomic_op execute_xchg64" "atomic_op execute_atomic_add64" "atomic_op execute_fence"
  "atomic_op execute_coreid" "atomic_op execute_threadid" "atomic_op execute_excause"
  "atomic_op execute_exaddr" "atomic_op execute_expc" "atomic_op execute_exinfo"
  "atomic_op execute_getmode" "atomic_op execute_getmmu"
  unfolding execute_nop_def execute_wait_def execute_movi64_def execute_mov_def execute_movi32u_def
    execute_movi32s_def execute_addi32_def execute_cmpi32_def execute_andi32_def
    execute_ori32_def execute_xori32_def execute_testi32_def execute_lea_def execute_load8u_def
    execute_load16u_def execute_load32u_def execute_load64_def execute_load8s_def
    execute_load16s_def execute_load32s_def execute_store8_def execute_store16_def
    execute_store32_def execute_store64_def execute_load8uo_def execute_load16uo_def
    execute_load32uo_def execute_load64o_def execute_load8so_def execute_load16so_def
    execute_load32so_def execute_store8o_def execute_store16o_def execute_store32o_def
    execute_store64o_def execute_add_def execute_sub_def execute_mul_def execute_divu_def
    execute_modu_def execute_divs_def execute_mods_def execute_and_def execute_or_def
    execute_xor_def execute_not_def execute_shl_def execute_shr_def execute_sar_def
    execute_shlv_def execute_shrv_def execute_sarv_def execute_sext8_def execute_sext16_def
    execute_sext32_def execute_zext8_def execute_zext16_def execute_zext32_def execute_cmp_def
    execute_jump_def execute_jumpr_def execute_jumprel_def execute_brcc_def execute_jz_def
    execute_jnz_def execute_jlt_def execute_jle_def execute_jgt_def execute_jge_def
    execute_jltu_def execute_jleu_def execute_jgtu_def execute_jgeu_def execute_call_def
    execute_callr_def execute_callrel_def execute_ret_def execute_push_def execute_pop_def
    execute_cas64_def execute_xchg64_def execute_atomic_add64_def execute_fence_def
    execute_coreid_def execute_threadid_def execute_excause_def execute_exaddr_def
    execute_expc_def execute_exinfo_def execute_getmode_def execute_getmmu_def
  by (rule atomic_control | (rule atomic_total, (intro total_intros; fail))
    | (rule atomic_uncommitted, (intro frame_intros; fail))
    | (rule atomic_and_then, (intro frame_intros; fail)) | rule atomic_intros
    | (rule atomic_commit, rule atomic_intros, (intro total_intros; fail)))+

lemma atomic_privileged [atomic_intros]:
  "atomic_op execute_halt" "atomic_op execute_ei" "atomic_op execute_di"
  "atomic_op execute_enteruser" "atomic_op execute_setksp" "atomic_op execute_getvbr"
  "atomic_op execute_getksp" "atomic_op execute_getptbr" "atomic_op execute_iret"
  unfolding execute_halt_def execute_ei_def execute_di_def execute_enteruser_def execute_setksp_def
    execute_getvbr_def execute_getksp_def execute_getptbr_def execute_iret_def
  by (rule atomic_control | (rule atomic_total, (intro total_intros; fail))
    | (rule atomic_uncommitted, (intro frame_intros; fail))
    | (rule atomic_and_then, (intro frame_intros; fail)) | rule atomic_intros
    | (rule atomic_commit, rule atomic_intros, (intro total_intros; fail)))+

lemma atomic_vector_base [atomic_intros]:
  "atomic_op (execute_vector_integer x1 x2)" "atomic_op (execute_vector_bitwise x3)"
  "atomic_op (execute_float_load x4)" "atomic_op (execute_float_store x5)"
  "atomic_op (execute_scalar_float x6 x7 x8)" "atomic_op (execute_float_sign x9 x10)"
  "atomic_op (execute_float_to_int x11 x12 x13 x14)"
  "atomic_op (execute_vector_float x15 x16 x17)" "atomic_op (execute_float_compare x18)"
  unfolding execute_vector_integer_def execute_vector_bitwise_def execute_float_load_def
    execute_float_store_def execute_scalar_float_def execute_float_sign_def
    execute_float_to_int_def execute_vector_float_def execute_float_compare_def
  by (rule atomic_control | (rule atomic_total, (intro total_intros; fail))
    | (rule atomic_uncommitted, (intro frame_intros; fail))
    | (rule atomic_and_then, (intro frame_intros; fail)) | rule atomic_intros
    | (rule atomic_commit, rule atomic_intros, (intro total_intros; fail)))+

lemma atomic_vector [atomic_intros]:
  "atomic_op execute_vload128" "atomic_op execute_vstore128" "atomic_op execute_vmov"
  "atomic_op execute_vadd8" "atomic_op execute_vadd16" "atomic_op execute_vadd32"
  "atomic_op execute_vadd64" "atomic_op execute_vsub8" "atomic_op execute_vsub16"
  "atomic_op execute_vsub32" "atomic_op execute_vsub64" "atomic_op execute_vmul8"
  "atomic_op execute_vmul16" "atomic_op execute_vmul32" "atomic_op execute_vmul64"
  "atomic_op execute_fload32" "atomic_op execute_fload64" "atomic_op execute_fstore32"
  "atomic_op execute_fstore64" "atomic_op (execute_fadd32 host)"
  "atomic_op (execute_fadd64 host)" "atomic_op (execute_fsub32 host)"
  "atomic_op (execute_fsub64 host)" "atomic_op (execute_fmul32 host)"
  "atomic_op (execute_fmul64 host)" "atomic_op (execute_fdiv32 host)"
  "atomic_op (execute_fdiv64 host)" "atomic_op execute_fcmp32" "atomic_op execute_fcmp64"
  "atomic_op execute_fneg32" "atomic_op execute_fneg64" "atomic_op execute_fabs32"
  "atomic_op execute_fabs64" "atomic_op execute_i32tof32" "atomic_op execute_i64tof64"
  "atomic_op execute_f32toi32" "atomic_op execute_f64toi64" "atomic_op (execute_vfadd32 host)"
  "atomic_op (execute_vfadd64 host)" "atomic_op (execute_vfsub32 host)"
  "atomic_op (execute_vfsub64 host)" "atomic_op (execute_vfmul32 host)"
  "atomic_op (execute_vfmul64 host)" "atomic_op (execute_vfdiv32 host)"
  "atomic_op (execute_vfdiv64 host)" "atomic_op (execute_f32tof64 host)"
  "atomic_op (execute_f64tof32 host)" "atomic_op execute_getfpstatus"
  "atomic_op execute_clearfpstatus"
  unfolding execute_vload128_def execute_vstore128_def execute_vmov_def execute_vadd8_def
    execute_vadd16_def execute_vadd32_def execute_vadd64_def execute_vsub8_def
    execute_vsub16_def execute_vsub32_def execute_vsub64_def execute_vmul8_def
    execute_vmul16_def execute_vmul32_def execute_vmul64_def execute_fload32_def
    execute_fload64_def execute_fstore32_def execute_fstore64_def execute_fadd32_def
    execute_fadd64_def execute_fsub32_def execute_fsub64_def execute_fmul32_def
    execute_fmul64_def execute_fdiv32_def execute_fdiv64_def execute_fcmp32_def
    execute_fcmp64_def execute_fneg32_def execute_fneg64_def execute_fabs32_def
    execute_fabs64_def execute_i32tof32_def execute_i64tof64_def execute_f32toi32_def
    execute_f64toi64_def execute_vfadd32_def execute_vfadd64_def execute_vfsub32_def
    execute_vfsub64_def execute_vfmul32_def execute_vfmul64_def execute_vfdiv32_def
    execute_vfdiv64_def execute_f32tof64_def execute_f64tof32_def execute_getfpstatus_def
    execute_clearfpstatus_def
  by (rule atomic_control | (rule atomic_total, (intro total_intros; fail))
    | (rule atomic_uncommitted, (intro frame_intros; fail))
    | (rule atomic_and_then, (intro frame_intros; fail)) | rule atomic_intros
    | (rule atomic_commit, rule atomic_intros, (intro total_intros; fail)))+

lemma atomic_opI: "(\<And>m m'. f m = (None, m') \<Longrightarrow> uncommitted m m') \<Longrightarrow> atomic_op f"
  unfolding atomic_op_def by (metis prod.collapse)

lemma atomic_configuration [atomic_intros]:
  "atomic_op execute_setvbr" "atomic_op execute_setptbr" "atomic_op execute_mmuon" "atomic_op execute_mmuoff"
proof -
  show "atomic_op execute_setvbr"
    unfolding execute_setvbr_def
    by (intro atomic_and_then frame_intros atomic_opI)
       (auto simp: cpu_set_vector_base_def split: if_splits dest!: op_relD [OF pending.rel_set_access_exception])
  show "atomic_op execute_setptbr"
    unfolding execute_setptbr_def
    by (intro atomic_and_then frame_intros atomic_opI)
       (auto simp: Let_def split: if_splits dest!: op_relD [OF pending.rel_set_access_exception])
  show "atomic_op execute_mmuon" "atomic_op execute_mmuoff"
    unfolding execute_mmuon_def execute_mmuoff_def
    by (intro atomic_and_then frame_intros atomic_opI,
        auto simp: Let_def split: if_splits
          dest!: op_relD [OF pending.rel_set_access_exception] op_relD [OF pending.rel_set_exception])+
qed

lemma atomic_enter: "atomic_op (enter_privileged_handler h ra ef)"
proof (rule atomic_opI)
  fix m m' :: "'w machine"
  assume "enter_privileged_handler h ra ef m = (None, m')"
  then consider "set_access_exception CPU_EXCEPTION_STACK_FAULT (stack_top (cpu m)) MMU_ACCESS_WRITE MMU_OK m
        = (None :: unit option, m')"
    | k where "set_access_exception CPU_EXCEPTION_STACK_FAULT (stack_top (cpu m) - frame_bytes (cpu m))
        MMU_ACCESS_WRITE MMU_OK (k\<lparr>cpu := cpu m\<rparr>) = (None :: unit option, m')"
    unfolding enter_eq Let_def by (auto split: if_splits option.splits prod.splits)
  then show "uncommitted m m'"
    by cases (auto dest!: op_relD [OF pending.rel_set_access_exception] simp: uncommitted_def)
qed

lemma atomic_syscall [atomic_intros]: "atomic_op execute_syscall"
proof (rule atomic_opI)
  fix m m' :: "'w machine"
  assume s: "execute_syscall m = (None, m')"
  obtain v k where v: "read_vector CPU_VECTOR_SYSCALL m = (v, k)" by (cases "read_vector CPU_VECTOR_SYSCALL m")
  have k: "k = m" using read_vector_machine [of _ m] v by (metis snd_conv)
  show "uncommitted m m'"
  proof (cases v)
    case None
    with s v k show ?thesis
      by (auto simp: execute_syscall_def dest!: op_relD [OF pending.rel_set_exception])
  next
    case (Some h)
    with s v k have "enter_privileged_handler h (pc (cpu m)) False m = (None, m')"
      by (simp add: execute_syscall_def)
    then show ?thesis using atomic_enter [of h "pc (cpu m)" False] unfolding atomic_op_def by (metis fst_conv snd_conv)
  qed
qed

lemma atomic_OPCODE_HANDLERS: "list_all atomic_op OPCODE_HANDLERS"
  unfolding OPCODE_HANDLERS_def by (simp add: atomic_intros)

lemma atomic_VECTOR_HANDLERS:
  "list_all (\<lambda>h. case h of None \<Rightarrow> True | Some f \<Rightarrow> atomic_op f) (VECTOR_HANDLERS host)"
  unfolding VECTOR_HANDLERS_def by (simp add: atomic_intros)

lemma atomic_cpu_vector_execute: "atomic_op (cpu_vector_execute host opcode :: (unit, 'w) operation)"
proof (cases "cpu_vector_opcode opcode \<and> opcode \<notin> {OP_VAND, OP_VOR, OP_VXOR}")
  case True
  then have "case (VECTOR_HANDLERS host :: (unit, 'w) operation option list) ! unat (opcode - OP_VECTOR_FIRST) of
      None \<Rightarrow> True | Some f \<Rightarrow> atomic_op f"
    using atomic_VECTOR_HANDLERS [of host] vector_handler_index by (auto simp: list_all_length)
  with True show ?thesis
    by (auto simp: cpu_vector_execute_def atomic_intros atomic_uncommitted [OF pending.rel_set_exception]
        atomic_uncommitted [OF pending.rel_illegal] split: option.splits)
qed (auto simp: cpu_vector_execute_def atomic_intros atomic_uncommitted [OF pending.rel_set_exception]
        atomic_uncommitted [OF pending.rel_illegal])

lemma atomic_execute_opcode: "atomic_op (execute_opcode host opcode :: (unit, 'w) operation)"
proof (cases "opcode_handler opcode :: (unit, 'w) operation option")
  case None
  then show ?thesis
    by (simp add: execute_opcode_def atomic_cpu_vector_execute atomic_uncommitted [OF pending.rel_set_exception])
next
  case (Some h)
  then show ?thesis
    using atomic_OPCODE_HANDLERS by (auto simp: execute_opcode_def opcode_handler_def list_all_length split: if_splits)
qed


section \<open>A failed access has raised an exception\<close>

definition faulting :: "('a, 'w) operation \<Rightarrow> bool" where
  "faulting f \<longleftrightarrow> (\<forall>m. fst (f m) = None \<longrightarrow> exception_pending (cpu (snd (f m))))"

lemma faultingI: "(\<And>m m'. f m = (None, m') \<Longrightarrow> exception_pending (cpu m')) \<Longrightarrow> faulting f"
  unfolding faulting_def by (metis prod.collapse)

lemma faultingD: "faulting f \<Longrightarrow> f m = (None, m') \<Longrightarrow> exception_pending (cpu m')"
  unfolding faulting_def by (metis fst_conv snd_conv)

named_theorems fault_intros

lemma faulting_and_then [fault_intros]:
  "faulting f \<Longrightarrow> (\<And>x. faulting (g x)) \<Longrightarrow> faulting (and_then f g)"
  by (intro faultingI) (auto simp: and_then_def dest: faultingD split: option.splits prod.splits)

lemma faulting_total: "never_fails f \<Longrightarrow> faulting f"
  unfolding never_fails_def faulting_def by blast

lemma faulting_exception [fault_intros]:
  "faulting (set_exception e b i)" "faulting (set_access_exception e a acc r)" "faulting (fault_at True e a acc)"
  by (auto simp: faulting_def set_exception_def set_access_exception_def fault_at_def Let_def)

lemma faulting_translate [fault_intros]: "faulting (translate_address va acc True)"
  by (intro faultingI)
     (auto simp: translate_address_def Let_def dest: faultingD [OF faulting_exception(2)]
        split: mmu_result.splits if_splits)

text \<open>Two segments are enough for an access of at most a page.\<close>

definition page_room :: "u64 \<Rightarrow> nat" where
  "page_room a = 4096 - unat a mod 4096"

lemma page_room_eq: "unat (MMU_PAGE_SIZE - (a AND MMU_PAGE_MASK)) = page_room a"
  using unat_page_mask [of a] mod_less_divisor [of 4096 "unat a"]
  by (simp add: page_room_def unat_sub word_le_nat_alt)

lemma page_room_next: "page_room (a + of_nat (page_room a)) = 4096"
proof -
  have "page_room a \<le> 4096" by (simp add: page_room_def)
  then have "unat (of_nat (page_room a) :: u64) = page_room a" by (simp add: unat_of_nat)
  then have "unat (a + of_nat (page_room a)) mod 4096 = (unat a + page_room a) mod 4096"
    by (simp add: unat_word_ariths mod_mod_cancel)
  also have "unat a + page_room a = 4096 * (unat a div 4096 + 1)"
  proof -
    define q r where "q = unat a div 4096" and "r = unat a mod 4096"
    have "unat a = 4096 * q + r" "r < 4096" by (simp_all add: q_def r_def)
    then show ?thesis unfolding page_room_def q_def [symmetric] r_def [symmetric] by simp
  qed
  also have "\<dots> mod 4096 = 0" by simp
  finally show ?thesis by (simp add: page_room_def)
qed

lemma faulting_segment_loop_1:
  "remaining \<le> page_room cursor \<Longrightarrow> faulting (segment_loop (Suc 0) acc True cursor offset remaining)"
proof (cases "remaining = 0")
  case True
  then show ?thesis unfolding segment_loop.simps [of "Suc 0"] by (simp add: faulting_total total_intros)
next
  case False
  assume "remaining \<le> page_room cursor"
  moreover have "faulting (segment_loop 0 acc True c b 0)" for c b
    unfolding segment_loop.simps [of 0] by (simp add: faulting_total total_intros)
  ultimately show ?thesis
    using False unfolding segment_loop.simps [of "Suc 0"] page_room_eq
    by (auto simp: Let_def intro!: fault_intros intro: faulting_total total_intros)
qed

lemma faulting_segment_loop_2:
  "remaining \<le> 4096 \<Longrightarrow> faulting (segment_loop 2 acc True cursor offset remaining)"
proof -
  assume le: "remaining \<le> 4096"
  let ?k = "if remaining < page_room cursor then remaining else page_room cursor"
  have "faulting (segment_loop (Suc 0) acc True (cursor + of_nat ?k) (offset + ?k) (remaining - ?k))"
    using le page_room_next [of cursor] by (intro faulting_segment_loop_1) auto
  then show ?thesis
    unfolding segment_loop.simps [of 2] page_room_eq
    by (auto simp: Let_def numeral_2_eq_2 intro!: fault_intros intro: faulting_total total_intros)
qed

lemma faulting_build [fault_intros]: "faulting (build_memory_segments va width acc e True)"
  by (intro faultingI)
     (auto simp: build_memory_segments_def VECTOR_REGISTER_SIZE_def split: if_splits
        dest: faultingD [OF faulting_exception(2)] faultingD [OF faulting_segment_loop_2, rotated])

lemma faulting_read_segments [fault_intros]: "faulting (read_segments acc use_bus e True segments result)"
proof (induction segments arbitrary: result)
  case (Cons s segments)
  then show ?case
    by (intro faultingI) (auto dest: faultingD faultingD [OF faulting_exception(3)] split: option.splits prod.splits)
qed (simp add: faulting_def)

lemma faulting_memory_read [fault_intros]: "faulting (memory_read va width acc use_bus e True)"
  unfolding memory_read_def by (intro fault_intros)

lemma faulting_fetch: "faulting fetch_u8"
proof -
  have "faulting (fetch_value 1)"
    by (intro faultingI) (auto simp: fetch_value_def dest: faultingD [OF faulting_memory_read])
  then show ?thesis
    unfolding fetch_u8_def advance_pc_def
    by (rule faulting_and_then) (rule faulting_total, intro total_intros)
qed


section \<open>Only a delivered exception makes one active\<close>

definition no_activation :: "'w machine \<Rightarrow> 'w machine \<Rightarrow> bool" where
  "no_activation m m' \<longleftrightarrow> (exception_active (cpu m') \<longrightarrow> exception_active (cpu m))"

interpretation inactive: access_frame no_activation
  by unfold_locales (auto simp: no_activation_def same_privileged_def)

lemma inactive_set_cpu:
  "(\<And>c. exception_active (f c) \<longrightarrow> exception_active c) \<Longrightarrow> op_rel no_activation (set_cpu f)"
  by (simp add: op_rel_def set_cpu_def no_activation_def)

interpretation inactive: isa_frame no_activation
proof
  show "op_rel no_activation execute_setvbr" "op_rel no_activation execute_setptbr"
    "op_rel no_activation execute_mmuon" "op_rel no_activation execute_mmuoff"
    unfolding execute_setvbr_def execute_setptbr_def execute_mmuon_def execute_mmuoff_def
    by (intro frame_intros op_relI,
        simp add: no_activation_def cpu_set_vector_base_def Let_def set_access_exception_def set_exception_def)+
qed (unfold execute_halt_def execute_ei_def execute_di_def execute_enteruser_def execute_setksp_def
    execute_getvbr_def execute_getksp_def execute_getptbr_def execute_iret_def,
    (intro frame_intros inactive_set_cpu; simp add: restore_frame_def Let_def)+)


section \<open>Precise exceptions\<close>

lemma syscall_inactive:
  assumes "execute_syscall m = (Some x, m')"
  shows "exception_active (cpu m') = exception_active (cpu m)"
proof -
  obtain v k where v: "read_vector CPU_VECTOR_SYSCALL m = (v, k)" by (cases "read_vector CPU_VECTOR_SYSCALL m")
  have k: "k = m" using read_vector_machine [of _ m] v by (metis snd_conv)
  obtain h where "enter_privileged_handler h (pc (cpu m)) False m = (Some x, m')"
    using assms v k by (cases v) (auto simp: execute_syscall_def)
  from enter_success(1) [OF this] show ?thesis by (simp add: entered_def)
qed

text \<open>The machine an exception is delivered on, when a step makes one active.\<close>

lemma activating_step:
  assumes step: "cpu_step host m = (Some (), m')"
    and act: "\<not> exception_active (cpu m)" "exception_active (cpu m')"
  obtains n where "uncommitted (m\<lparr>cpu := (cpu m)\<lparr>instruction_pc := pc (cpu m), exception_pending := False\<rparr>\<rparr>) n"
    "exception_pending (cpu n)" "deliver_exception n = (Some (), m')"
proof -
  let ?m = "m\<lparr>cpu := (cpu m)\<lparr>instruction_pc := pc (cpu m), exception_pending := False\<rparr>\<rparr>"
  have run: "\<not> (halted (cpu m) \<or> waiting (cpu m))" using step act by (auto simp: cpu_step_def)
  obtain y k where f: "fetch_u8 ?m = (y, k)" by (cases "fetch_u8 ?m")
  have r1: "uncommitted ?m k" using op_relD [OF pending.rel_fetch(1) f] .
  show thesis
  proof (cases y)
    case None
    then have "deliver_exception k = (Some (), m')" using step run f by (simp add: cpu_step_def Let_def)
    then show thesis using that r1 faultingD [OF faulting_fetch] f None by blast
  next
    case (Some opcode)
    obtain z k' where e: "execute_opcode host opcode k = (z, k')" by (cases "execute_opcode host opcode k")
    have st: "cpu_step host m = (case z of Some _ \<Rightarrow> (Some (), k') | None \<Rightarrow>
        if exception_pending (cpu k') then deliver_exception k'
        else deliver_exception (snd (set_exception CPU_EXCEPTION_ILLEGAL_INSTRUCTION 0 0 k'
          :: unit option \<times> 'a machine)))"
      using run f Some e by (simp add: cpu_step_def Let_def split: option.split)
    have "\<not> exception_active (cpu k)"
      using op_relD [OF inactive.rel_fetch(1) f] act(1) by (simp add: no_activation_def)
    then have "\<not> exception_active (cpu k')" if "z \<noteq> None"
    proof (cases "opcode = OP_SYSCALL")
      case True
      then show ?thesis
        using that e syscall_inactive [of k _ k'] \<open>\<not> exception_active (cpu k)\<close>
        by (auto simp: execute_opcode_syscall)
    next
      case False
      then show ?thesis
        using op_relD [OF inactive.rel_execute_opcode [OF False] e] \<open>\<not> exception_active (cpu k)\<close>
        by (simp add: no_activation_def)
    qed
    then have z: "z = None" using st step act(2) by (cases z) auto
    have r2: "uncommitted ?m k'"
      using uncommitted_trans [OF r1] atomic_execute_opcode [of host opcode] e z
      unfolding atomic_op_def by (metis fst_conv snd_conv)
    let ?i = "snd (set_exception CPU_EXCEPTION_ILLEGAL_INSTRUCTION 0 0 k' :: unit option \<times> 'a machine)"
    have "uncommitted ?m ?i" using uncommitted_trans [OF r2 op_rel_snd [OF pending.rel_set_exception]] .
    moreover have "exception_pending (cpu ?i)" by (simp add: set_exception_def Let_def)
    ultimately show thesis using that st step r2 z by (auto split: if_splits)
  qed
qed


section \<open>Properties\<close>

text \<open>C4: Exceptions are precise. When a step makes an exception active, the saved address is the
  address of the instruction that failed, the cause is one of the defined exceptions, and every
  register, vector register, flag and the floating-point status are as they were before the
  instruction, but for the stack pointer, which points to the frame, and the interrupt flag,
  which is clear.\<close>

theorem exceptions_are_precise:
  assumes step: "cpu_step host m = (Some (), m')"
    and act: "\<not> exception_active (cpu m)" "exception_active (cpu m')"
  shows "epc (cpu m') = pc (cpu m) \<and> valid_cause (ecause (cpu m')) \<and>
    (\<forall>r. r \<noteq> REGISTER_SP \<longrightarrow> registers (cpu m') r = registers (cpu m) r) \<and>
    vector_registers (cpu m') = vector_registers (cpu m) \<and> fp_status (cpu m') = fp_status (cpu m) \<and>
    flags (cpu m') = flags (cpu m) AND NOT CPU_FLAG_INTERRUPT_ENABLE \<and>
    cpu_mode (cpu m') = CPU_MODE_SUPERVISOR \<and>
    registers (cpu m') REGISTER_SP = stack_top (cpu m) - frame_bytes (cpu m) \<and>
    frame_bytes (cpu m) \<le> stack_top (cpu m)"
proof -
  obtain n where un: "uncommitted (m\<lparr>cpu := (cpu m)\<lparr>instruction_pc := pc (cpu m), exception_pending := False\<rparr>\<rparr>) n"
    and p: "exception_pending (cpu n)" and d: "deliver_exception n = (Some (), m')"
    by (rule activating_step [OF step act])
  obtain h d where e: "excepted (cpu n) d" "frame_bytes d \<le> stack_top d" "epc d = epc (cpu n)"
      "valid_cause (ecause d)"
    and m': "cpu m' = (entered h d)\<lparr>exception_pending := False, exception_active := True\<rparr>"
    using deliver_outcome [OF d] by blast
  have "excepted ((cpu m)\<lparr>instruction_pc := pc (cpu m), exception_pending := False, pc := pc (cpu n)\<rparr>) (cpu n)"
    and epc: "epc (cpu n) = pc (cpu m)"
    using un p by (simp_all add: uncommitted_def Let_def)
  from excepted_trans [OF this(1) e(1)]
  have "registers d = registers (cpu m)" "vector_registers d = vector_registers (cpu m)"
    "fp_status d = fp_status (cpu m)" "flags d = flags (cpu m)" "stack_top d = stack_top (cpu m)"
    "frame_bytes d = frame_bytes (cpu m)"
    by (auto elim!: exceptedE simp: stack_top_def frame_bytes_def)
  then show ?thesis using e epc m' by (simp add: entered_def)
qed

end
