(* ===== verification/Cpu_Stack.thy ===== *)
theory Cpu_Stack
  imports Cpu_Precise
begin

text \<open>
  The stack in memory: a push is undone by a pop and a trap by a return. A \<open>stack_slot\<close> is a
  range of virtual addresses the supervisor can write and whose stores do not reach the page
  tables that translate it.
\<close>

section \<open>Accesses inside one page\<close>

lemma translate_Some:
  assumes "translate_address va acc report m = (Some pa, m')"
  shows "m' = m"
    "if mmu_enabled (cpu m)
     then mmu_translate (mach_ram m) (ptbr (cpu m)) (cpu_mode (cpu m) = CPU_MODE_USER) va acc = MMU_RESULT_OK pa
     else pa = va"
  using assms
  by (auto simp: translate_address_def Let_def split: mmu_result.splits if_splits)

lemma build_single:
  assumes w: "0 < width" "width \<le> 16" "unat va + width \<le> 2 ^ 64"
    and room: "mmu_enabled (cpu m) \<Longrightarrow> width \<le> page_room va"
    and tr: "translate_address va acc report m = (Some pa, m)"
  shows "build_memory_segments va width acc e report m =
    (Some [\<lparr>seg_virtual_address = va, seg_physical_address = pa, seg_width = width, seg_byte_offset = 0\<rparr>], m)"
proof -
  have "unat (of_nat (width - 1) :: u64) = width - 1"
    using w unfolding unat_of_nat by simp
  then have "va \<le> UINT64_MAX - of_nat (width - 1)"
    unfolding le_UINT64_MAX_minus using w by simp
  then have nowrap: "\<not> (width = 0 \<or> width > VECTOR_REGISTER_SIZE \<or> va > UINT64_MAX - of_nat (width - 1))"
    using w by (simp add: VECTOR_REGISTER_SIZE_def not_less)
  show ?thesis
  proof (cases "mmu_enabled (cpu m)")
    case False
    then have "pa = va" using translate_Some(2) [OF tr] by simp
    with False nowrap show ?thesis
      unfolding build_memory_segments_def by (simp only: if_False if_True not_False_eq_True)
  next
    case True
    have k: "(if width < page_room va then width else page_room va) = width" using room [OF True] by simp
    have "segment_loop 1 acc report c b 0 m = (Some [], m)" for c b
      by (subst segment_loop.simps) (simp add: give_def)
    then have "segment_loop 2 acc report va 0 width m =
        (Some [\<lparr>seg_virtual_address = va, seg_physical_address = pa, seg_width = width, seg_byte_offset = 0\<rparr>], m)"
      using w(1) k by (subst segment_loop.simps) (simp add: and_then_def tr page_room_eq Let_def eval_nat_numeral give_def)
    with True nowrap show ?thesis
      unfolding build_memory_segments_def by (simp only: if_False not_True_eq_False)
  qed
qed

lemma read_single:
  assumes "0 < width" "width \<le> 8" "unat va + width \<le> 2 ^ 64"
    and "mmu_enabled (cpu m) \<Longrightarrow> width \<le> page_room va"
    and "translate_address va MMU_ACCESS_READ report m = (Some pa, m)"
    and "ram_read (mach_ram m) pa width = Some v"
  shows "memory_read va width MMU_ACCESS_READ False e report m = (Some v, m)"
proof -
  have "build_memory_segments va width MMU_ACCESS_READ e report m =
    (Some [\<lparr>seg_virtual_address = va, seg_physical_address = pa, seg_width = width, seg_byte_offset = 0\<rparr>], m)"
    using assms by (intro build_single) auto
  then show ?thesis using assms(6) by (simp add: memory_read_def and_then_def segment_read_def)
qed

lemma write_single:
  assumes "0 < width" "width \<le> 8" "unat va + width \<le> 2 ^ 64"
    and "mmu_enabled (cpu m) \<Longrightarrow> width \<le> page_room va"
    and "translate_address va MMU_ACCESS_WRITE report m = (Some pa, m)"
    and "ram_write (mach_ram m) pa width v = Some r"
  shows "memory_write va width MMU_ACCESS_WRITE False e report v m = (Some (), m\<lparr>bus := (bus m)\<lparr>bus_ram := r\<rparr>\<rparr>)"
    "ram_write_accessible va width report m = (Some (), m)"
proof -
  have b: "build_memory_segments va width MMU_ACCESS_WRITE e report m =
    (Some [\<lparr>seg_virtual_address = va, seg_physical_address = pa, seg_width = width, seg_byte_offset = 0\<rparr>], m)" for e
    using assms by (intro build_single) auto
  have "unat pa \<le> SIZE_MAX" using SIZE_MAX_u64 by (simp only: not_less)
  then have "cpu_ram_range_valid (mach_ram m) pa width"
    using assms(6) by (auto simp: ram_write_Some ram_range_valid_iff cpu_ram_range_valid_def)
  then show "memory_write va width MMU_ACCESS_WRITE False e report v m = (Some (), m\<lparr>bus := (bus m)\<lparr>bus_ram := r\<rparr>\<rparr>)"
    "ram_write_accessible va width report m = (Some (), m)"
    using b assms(6) by (simp_all add: memory_write_def ram_write_accessible_def and_then_def segment_write_def)
qed


section \<open>Stack slots\<close>

lemma walk_entries_same_page:
  assumes "same_page va vb" "\<forall>s \<in> set shifts. 12 \<le> s"
  shows "walk_entries ram vb table shifts = walk_entries ram va table shifts"
  using assms(2)
proof (induction shifts arbitrary: table)
  case (Cons s shifts)
  have "drop_bit s vb = drop_bit s va" using same_page_drop_bit [OF assms(1)] Cons.prems by simp
  moreover have "walk_entries ram vb t shifts = walk_entries ram va t shifts" for t using Cons by simp
  ultimately show ?case by (simp only: walk_entries.simps)
qed simp

lemma unat_page_offset: "unat (page_offset pa va) = 4096 * (unat pa div 4096) + unat va mod 4096"
proof -
  have "page_offset pa va = (pa AND MMU_PTE_ADDRESS_MASK) + (va AND MMU_PAGE_MASK)"
    unfolding page_offset_def
    by (rule disjunctive_add_eq_or [symmetric], rule bit_word_eqI) (auto simp: MMU_PTE_ADDRESS_MASK_def bit_simps)
  moreover have "4096 * (unat pa div 4096) + unat va mod 4096 < 18446744073709551616"
  proof -
    have "unat pa div 4096 < 4503599627370496"
      using unat_u64_bound [of pa] by (simp add: less_mult_imp_div_less del: unat_u64_bound)
    then show ?thesis using mod_less_divisor [of 4096 "unat va", OF zero_less_numeral] by linarith
  qed
  ultimately show ?thesis by (simp add: unat_word_ariths unat_page_base unat_page_mask)
qed

lemma page_of_room:
  assumes "k < page_room va"
  shows "unat (va + of_nat k) mod 4096 = unat va mod 4096 + k" "same_page va (va + of_nat k)"
proof -
  define q r where "q = unat va div 4096" and "r = unat va mod 4096"
  have va: "unat va = 4096 * q + r" and r: "r + k < 4096" "r < 4096"
    using assms by (auto simp: q_def r_def page_room_def)
  have "q < 4503599627370496"
    using unat_u64_bound [of va] by (simp add: q_def less_mult_imp_div_less del: unat_u64_bound)
  then have "unat va + k < 18446744073709551616" using va r by linarith
  then have sum: "unat (va + of_nat k) = 4096 * q + (r + k)"
    using va r by (simp add: unat_word_ariths unat_of_nat)
  then show "unat (va + of_nat k) mod 4096 = unat va mod 4096 + k" using r by (simp add: r_def)
  have "unat (va + of_nat k) div 4096 = unat va div 4096" unfolding sum using r by (simp add: q_def)
  then have "unat ((va + of_nat k) AND MMU_PTE_ADDRESS_MASK) = unat (va AND MMU_PTE_ADDRESS_MASK)"
    by (simp only: unat_page_base)
  then show "same_page va (va + of_nat k)" by (simp add: same_page_def word_unat_eq_iff)
qed

lemma page_offset_room:
  assumes "unat pa mod 4096 = unat va mod 4096" "k < page_room va"
  shows "page_offset pa (va + of_nat k) = pa + of_nat k" "unat (pa + of_nat k) = unat pa + k"
proof -
  have room: "k < page_room pa" using assms by (simp add: page_room_def)
  have same: "unat (pa + of_nat k) div 4096 = unat pa div 4096"
    using page_of_room(2) [OF room] unfolding same_page_def
    by (metis unat_page_base mult_cancel1 zero_neq_numeral)
  have mod_eq: "unat (va + of_nat k) mod 4096 = unat (pa + of_nat k) mod 4096"
    using page_of_room(1) [OF room] page_of_room(1) [OF assms(2)] assms(1) by simp
  have "unat (page_offset pa (va + of_nat k)) = unat (pa + of_nat k)"
    unfolding unat_page_offset mod_eq same [symmetric] by simp
  then show "page_offset pa (va + of_nat k) = pa + of_nat k" by (simp only: word_unat_eq_iff)
  show "unat (pa + of_nat k) = unat pa + k"
    using same page_of_room(1) [OF room] div_mult_mod_eq [of "unat pa" 4096]
      div_mult_mod_eq [of "unat (pa + of_nat k)" 4096] by linarith
qed


text \<open>\<open>n\<close> bytes at \<open>va\<close> that can be written in the mode of the processor, at \<open>pa\<close> in RAM.\<close>

definition stack_slot :: "'w machine \<Rightarrow> u64 \<Rightarrow> nat \<Rightarrow> u64 \<Rightarrow> bool" where
  "stack_slot m va n pa \<longleftrightarrow>
     unat va + n \<le> 2 ^ 64 \<and> unat pa + n \<le> ram_size (mach_ram m) \<and>
     (if mmu_enabled (cpu m)
      then mmu_translate (mach_ram m) (ptbr (cpu m)) (cpu_mode (cpu m) = CPU_MODE_USER) va
          MMU_ACCESS_WRITE = MMU_RESULT_OK pa \<and>
        n \<le> page_room va \<and>
        (\<forall>e \<in> set (walk_entries (mach_ram m) va (ptbr (cpu m)) mmu_shifts).
           unat e + 8 \<le> unat pa \<or> unat pa + n \<le> unat e)
      else pa = va)"

text \<open>The slot stays a slot while only its own bytes change.\<close>

definition slot_change :: "'w machine \<Rightarrow> u64 \<Rightarrow> nat \<Rightarrow> 'w machine \<Rightarrow> bool" where
  "slot_change m pa n m' \<longleftrightarrow>
     mmu_enabled (cpu m') = mmu_enabled (cpu m) \<and> ptbr (cpu m') = ptbr (cpu m) \<and>
     cpu_mode (cpu m') = cpu_mode (cpu m) \<and> (bus m')\<lparr>bus_ram := mach_ram m\<rparr> = bus m \<and>
     ram_size (mach_ram m') = ram_size (mach_ram m) \<and>
     (\<forall>a. a < unat pa \<or> unat pa + n \<le> a \<longrightarrow> ram_data (mach_ram m') a = ram_data (mach_ram m) a)"

lemma slot_translate:
  assumes slot: "stack_slot m va n pa" and ch: "slot_change m pa n m'" and k: "k < n"
    and acc: "acc \<in> {MMU_ACCESS_READ, MMU_ACCESS_WRITE}"
  shows "translate_address (va + of_nat k) acc report m' = (Some (pa + of_nat k), m')"
proof (cases "mmu_enabled (cpu m)")
  case False
  then show ?thesis using assms by (simp add: translate_address_def stack_slot_def slot_change_def)
next
  case True
  let ?root = "ptbr (cpu m)" and ?va = "va + of_nat k" and ?u = "cpu_mode (cpu m) = CPU_MODE_USER"
  have tr: "mmu_translate (mach_ram m) ?root ?u va MMU_ACCESS_WRITE = MMU_RESULT_OK pa"
    and room: "k < page_room va"
    and apart: "\<forall>e \<in> set (walk_entries (mach_ram m) va ?root mmu_shifts).
      unat e + 8 \<le> unat pa \<or> unat pa + n \<le> unat e"
    using slot True k by (auto simp: stack_slot_def)
  have rd: "ram_read (mach_ram m') e 8 = ram_read (mach_ram m) e 8"
    if "e \<in> set (walk_entries (mach_ram m) va ?root mmu_shifts)" for e
  proof -
    have "ram_data (mach_ram m') (unat e + i) = ram_data (mach_ram m) (unat e + i)" if "i < 8" for i
      using apart \<open>e \<in> _\<close> that ch by (auto simp: slot_change_def)
    then have "assemble_le (\<lambda>i. ram_data (mach_ram m') (unat e + i)) 8 =
        assemble_le (\<lambda>i. ram_data (mach_ram m) (unat e + i)) 8"
      by (intro assemble_le_cong) blast
    then show ?thesis using ch by (simp add: ram_read_eq ram_range_valid_iff slot_change_def)
  qed
  note same = page_of_room(2) [OF room]
  have "mmu_translate (mach_ram m) ?root ?u va acc = MMU_RESULT_OK pa"
    using tr acc mmu_translate_read_of_write by blast
  then have "mmu_translate (mach_ram m) ?root ?u ?va acc = MMU_RESULT_OK (pa + of_nat k)"
    using mmu_translate_same_page [OF same, of "mach_ram m" ?root ?u acc]
      page_offset_room(1) [OF translate_offset [OF tr] room] by simp
  moreover have "mmu_translate (mach_ram m') ?root ?u ?va acc = mmu_translate (mach_ram m) ?root ?u ?va acc"
  proof (rule mmu_translate_unchanged)
    have "walk_entries (mach_ram m) ?va ?root mmu_shifts = walk_entries (mach_ram m) va ?root mmu_shifts"
      using mmu_shifts_range by (intro walk_entries_same_page [OF same]) blast
    then show "\<forall>a \<in> set (walk_entries (mach_ram m) ?va ?root mmu_shifts).
        ram_read (mach_ram m') a 8 = ram_read (mach_ram m) a 8" using rd by metis
    show "ram_size (mach_ram m') = ram_size (mach_ram m)" using ch by (simp add: slot_change_def)
  qed
  ultimately show ?thesis
    using True ch by (simp add: translate_address_def slot_change_def Let_def)
qed


lemma slot_offset:
  assumes "stack_slot m va n pa" "k + 8 \<le> n"
  shows "unat (va + of_nat k) = unat va + k" "unat (pa + of_nat k) = unat pa + k"
    "mmu_enabled (cpu m) \<Longrightarrow> 8 \<le> page_room (va + of_nat k)"
    "unat (va + of_nat k) + 8 \<le> 2 ^ 64"
proof -
  have k: "unat (of_nat k :: u64) = k" if "unat x + n \<le> 2 ^ 64" for x :: u64
    using that assms(2) unfolding unat_of_nat by simp
  have bound: "unat va + n \<le> 2 ^ 64" "unat pa + n \<le> ram_size (mach_ram m)"
    using assms(1) by (auto simp: stack_slot_def)
  show va: "unat (va + of_nat k) = unat va + k"
    using bound(1) k [OF bound(1)] assms(2) by (simp add: unat_word_ariths)
  show "unat (va + of_nat k) + 8 \<le> 2 ^ 64" using va bound(1) assms(2) by simp
  show "8 \<le> page_room (va + of_nat k)" if "mmu_enabled (cpu m)"
  proof -
    have "n \<le> page_room va" using assms(1) that by (simp add: stack_slot_def)
    then have "k < page_room va" "n \<le> 4096 - unat va mod 4096" using assms(2) by (auto simp: page_room_def)
    with page_of_room(1) [OF this(1)] assms(2) show ?thesis by (simp add: page_room_def)
  qed
  show "unat (pa + of_nat k) = unat pa + k"
  proof (cases "mmu_enabled (cpu m)")
    case True
    have "k < page_room va" using assms True by (auto simp: stack_slot_def)
    moreover have "unat pa mod 4096 = unat va mod 4096"
      using assms(1) True translate_offset by (auto simp: stack_slot_def)
    ultimately show ?thesis using page_offset_room(2) by blast
  next
    case False
    then show ?thesis using va assms(1) by (simp add: stack_slot_def)
  qed
qed

lemma slot_write:
  assumes slot: "stack_slot m va n pa" and ch: "slot_change m pa n m'" and k: "k + 8 \<le> n"
  obtains r where "ram_write (mach_ram m') (pa + of_nat k) 8 v = Some r"
    "memory_write (va + of_nat k) 8 MMU_ACCESS_WRITE False e report v m' =
       (Some (), m'\<lparr>bus := (bus m')\<lparr>bus_ram := r\<rparr>\<rparr>)"
    "ram_write_accessible (va + of_nat k) 8 report m' = (Some (), m')"
    "slot_change m pa n (m'\<lparr>bus := (bus m')\<lparr>bus_ram := r\<rparr>\<rparr>)"
proof -
  note off = slot_offset [OF slot k]
  have "unat pa + n \<le> ram_size (mach_ram m')" using slot ch by (simp add: stack_slot_def slot_change_def)
  then obtain r where r: "ram_write (mach_ram m') (pa + of_nat k) 8 v = Some r"
    using off(2) k by (simp add: ram_write_eq ram_range_valid_iff)
  have tr: "translate_address (va + of_nat k) MMU_ACCESS_WRITE report m' = (Some (pa + of_nat k), m')"
    using slot_translate [OF slot ch] k by simp
  have room: "mmu_enabled (cpu m') \<Longrightarrow> 8 \<le> page_room (va + of_nat k)"
    using off(3) ch by (simp add: slot_change_def)
  note w = write_single [OF _ _ off(4) room tr r]
  have "slot_change m pa n (m'\<lparr>bus := (bus m')\<lparr>bus_ram := r\<rparr>\<rparr>)"
    using ch r off(2) k by (auto simp: slot_change_def ram_write_Some scatter_le_apply)
  with that [OF r w] show thesis by simp
qed

lemma slot_accessible:
  assumes "stack_slot m va n pa" "slot_change m pa n m'" "k + 8 \<le> n"
  shows "ram_write_accessible (va + of_nat k) 8 report m' = (Some (), m')"
  by (rule slot_write [OF assms])

lemma slot_change_refl [simp]: "slot_change m pa n m"
  by (simp add: slot_change_def)

lemma slot_read:
  assumes slot: "stack_slot m va n pa" and ch: "slot_change m pa n m'" and k: "k + 8 \<le> n"
    and rd: "ram_read (mach_ram m') (pa + of_nat k) 8 = Some v"
  shows "memory_read (va + of_nat k) 8 MMU_ACCESS_READ False e report m' = (Some v, m')"
proof -
  note off = slot_offset [OF slot k]
  have tr: "translate_address (va + of_nat k) MMU_ACCESS_READ report m' = (Some (pa + of_nat k), m')"
    using slot_translate [OF slot ch] k by simp
  have room: "mmu_enabled (cpu m') \<Longrightarrow> 8 \<le> page_room (va + of_nat k)"
    using off(3) ch by (simp add: slot_change_def)
  show ?thesis by (rule read_single [OF _ _ off(4) room tr rd]) simp_all
qed


section \<open>Frames\<close>

lemma read_word_written:
  assumes "ram_write ram a 8 v = Some r"
  shows "ram_read r a 8 = Some v"
proof -
  have "take_bit 64 v = v" by (rule bit_word_eqI) (simp add: bit_take_bit_iff)
  with ram_read_write_same [OF assms] show ?thesis by simp
qed

lemma write_frame_slot:
  assumes slot: "stack_slot m frame n pa" and n: "n = (if mode = CPU_MODE_USER then 24 else 16)"
  obtains k where "write_frame mode frame ra sf sp m = (Some (), k)" "slot_change m pa n k"
    "ram_read (mach_ram k) pa 8 = Some ra" "ram_read (mach_ram k) (pa + 8) 8 = Some sf"
    "mode = CPU_MODE_USER \<longrightarrow> ram_read (mach_ram k) (pa + 16) 8 = Some sp"
proof -
  have bound: "0 + 8 \<le> n" "8 + 8 \<le> n" using n by auto
  obtain r0 where w0: "ram_write (mach_ram m) (pa + of_nat 0) 8 ra = Some r0"
    and m0: "memory_write (frame + of_nat 0) 8 MMU_ACCESS_WRITE False CPU_EXCEPTION_STACK_FAULT False ra m =
      (Some (), m\<lparr>bus := (bus m)\<lparr>bus_ram := r0\<rparr>\<rparr>)" "ram_write_accessible (frame + of_nat 0) 8 False m = (Some (), m)"
    and c0: "slot_change m pa n (m\<lparr>bus := (bus m)\<lparr>bus_ram := r0\<rparr>\<rparr>)"
    by (rule slot_write [OF slot slot_change_refl bound(1)])
  let ?m0 = "m\<lparr>bus := (bus m)\<lparr>bus_ram := r0\<rparr>\<rparr>"
  obtain r1 where w1: "ram_write (mach_ram ?m0) (pa + of_nat 8) 8 sf = Some r1"
    and m1: "memory_write (frame + of_nat 8) 8 MMU_ACCESS_WRITE False CPU_EXCEPTION_STACK_FAULT False sf ?m0 =
      (Some (), ?m0\<lparr>bus := (bus ?m0)\<lparr>bus_ram := r1\<rparr>\<rparr>)"
    and c1: "slot_change m pa n (?m0\<lparr>bus := (bus ?m0)\<lparr>bus_ram := r1\<rparr>\<rparr>)"
    by (rule slot_write [OF slot c0 bound(2)])
  let ?m1 = "m\<lparr>bus := (bus m)\<lparr>bus_ram := r1\<rparr>\<rparr>"
  have a: "ram_write_accessible (frame + 8) 8 False m = (Some (), m)"
    using slot_accessible [OF slot slot_change_refl bound(2)] by simp
  have off: "unat (pa + 8) = unat pa + 8" using slot_offset(2) [OF slot bound(2)] by simp
  have rd1: "ram_read r1 pa 8 = Some ra" "ram_read r1 (pa + 8) 8 = Some sf"
    using w1 ram_read_write_other [OF w1, of pa 8] read_word_written [OF w0] read_word_written [OF w1] off
    by (simp_all add: disjoint_access_def)
  show thesis
  proof (cases "mode = CPU_MODE_USER")
    case False
    then have "write_frame mode frame ra sf sp m = (Some (), ?m1)"
      using m0 m1 a by (simp add: write_frame_def and_then_def frame_write_def give_def)
    then show thesis by (rule that) (use False c1 rd1 in simp_all)
  next
    case True
    have b2: "16 + 8 \<le> n" using n True by simp
    have c1': "slot_change m pa n ?m1" using c1 by simp
    obtain r2 where w2: "ram_write (mach_ram ?m1) (pa + of_nat 16) 8 sp = Some r2"
      and m2: "memory_write (frame + of_nat 16) 8 MMU_ACCESS_WRITE False CPU_EXCEPTION_STACK_FAULT False sp ?m1 =
        (Some (), ?m1\<lparr>bus := (bus ?m1)\<lparr>bus_ram := r2\<rparr>\<rparr>)"
      and c2: "slot_change m pa n (?m1\<lparr>bus := (bus ?m1)\<lparr>bus_ram := r2\<rparr>\<rparr>)"
      by (rule slot_write [OF slot c1' b2])
    have off2: "unat (pa + 16) = unat pa + 16" using slot_offset(2) [OF slot b2] by simp
    have rd2: "ram_read r2 pa 8 = Some ra" "ram_read r2 (pa + 8) 8 = Some sf" "ram_read r2 (pa + 16) 8 = Some sp"
      using rd1 ram_read_write_other [OF w2, of pa 8] ram_read_write_other [OF w2, of "pa + 8" 8]
        read_word_written [OF w2] off off2
      by (simp_all add: disjoint_access_def)
    have "ram_write_accessible (frame + 16) 8 False m = (Some (), m)"
      using slot_accessible [OF slot slot_change_refl b2] by simp
    then have "write_frame mode frame ra sf sp m = (Some (), ?m1\<lparr>bus := (bus ?m1)\<lparr>bus_ram := r2\<rparr>\<rparr>)"
      using True m0 m1 m2 a by (simp add: write_frame_def and_then_def frame_write_def)
    then show thesis by (rule that) (use c2 rd2 in simp_all)
  qed
qed


section \<open>Saved flags\<close>

lemma saved_flags:
  "make_saved_flags c ef AND CPU_SAVED_FLAG_USER_MODE \<noteq> 0 \<longleftrightarrow> cpu_mode c = CPU_MODE_USER"
  "make_saved_flags c ef AND CPU_SAVED_FLAG_EXCEPTION_FRAME \<noteq> 0 \<longleftrightarrow> ef"
  "make_saved_flags c ef AND CPU_FLAG_MASK = flags c AND CPU_FLAG_MASK"
proof -
  have mask: "\<not> bit CPU_FLAG_MASK 62" "\<not> bit CPU_FLAG_MASK 63" by code_simp+
  have bit: "bit (make_saved_flags c ef) k \<longleftrightarrow>
      bit (flags c) k \<and> bit CPU_FLAG_MASK k \<or> k = 62 \<and> cpu_mode c = CPU_MODE_USER \<or> k = 63 \<and> ef" for k
    by (auto simp: make_saved_flags_def CPU_SAVED_FLAG_USER_MODE_def CPU_SAVED_FLAG_EXCEPTION_FRAME_def
        bit_or_iff bit_and_iff bit_BIT)
  show "make_saved_flags c ef AND CPU_SAVED_FLAG_USER_MODE \<noteq> 0 \<longleftrightarrow> cpu_mode c = CPU_MODE_USER"
    "make_saved_flags c ef AND CPU_SAVED_FLAG_EXCEPTION_FRAME \<noteq> 0 \<longleftrightarrow> ef"
    using bit [of 62] bit [of 63] mask
    by (simp_all add: CPU_SAVED_FLAG_USER_MODE_def CPU_SAVED_FLAG_EXCEPTION_FRAME_def BIT_test)
  show "make_saved_flags c ef AND CPU_FLAG_MASK = flags c AND CPU_FLAG_MASK"
    using mask by (intro bit_word_eqI) (auto simp: bit_and_iff bit)
qed

lemma restore_entered:
  assumes "cpu_mode c = CPU_MODE_USER \<Longrightarrow> sp = registers c REGISTER_SP"
  shows "restore_frame (stack_top c - frame_bytes c) ra (make_saved_flags c ef) sp (entered h c) =
     c\<lparr>pc := ra, flags := flags c AND CPU_FLAG_MASK, waiting := False,
       exception_active := (if ef then False else exception_active c)\<rparr>"
  using assms
  by (cases "cpu_mode c"; cases c)
     (simp_all add: restore_frame_def Let_def saved_flags entered_def stack_top_def frame_bytes_def)

text \<open>The entry of a handler on a stack slot succeeds, and the slot holds the frame.\<close>

lemma enter_slot:
  assumes top: "frame_bytes (cpu m) \<le> stack_top (cpu m)"
    and slot: "stack_slot (m\<lparr>cpu := (cpu m)\<lparr>cpu_mode := CPU_MODE_SUPERVISOR\<rparr>\<rparr>)
      (stack_top (cpu m) - frame_bytes (cpu m)) (unat (frame_bytes (cpu m))) pa"
  obtains k where "enter_privileged_handler handler ra ef m = (Some (), k\<lparr>cpu := entered handler (cpu m)\<rparr>)"
    "slot_change (m\<lparr>cpu := (cpu m)\<lparr>cpu_mode := CPU_MODE_SUPERVISOR\<rparr>\<rparr>) pa (unat (frame_bytes (cpu m)))
       (k\<lparr>cpu := entered handler (cpu m)\<rparr>)"
    "ram_read (mach_ram k) pa 8 = Some ra" "ram_read (mach_ram k) (pa + 8) 8 = Some (make_saved_flags (cpu m) ef)"
    "cpu_mode (cpu m) = CPU_MODE_USER \<longrightarrow> ram_read (mach_ram k) (pa + 16) 8 = Some (registers (cpu m) REGISTER_SP)"
proof -
  let ?c = "cpu m" and ?ms = "m\<lparr>cpu := (cpu m)\<lparr>cpu_mode := CPU_MODE_SUPERVISOR\<rparr>\<rparr>"
  let ?f = "stack_top ?c - frame_bytes ?c"
  have n: "unat (frame_bytes ?c) = (if cpu_mode ?c = CPU_MODE_USER then 24 else 16)"
    by (simp add: frame_bytes_def)
  obtain k where k: "write_frame (cpu_mode ?c) ?f ra (make_saved_flags ?c ef) (registers ?c REGISTER_SP) ?ms = (Some (), k)"
    and ch: "slot_change ?ms pa (unat (frame_bytes ?c)) k"
    and rd: "ram_read (mach_ram k) pa 8 = Some ra" "ram_read (mach_ram k) (pa + 8) 8 = Some (make_saved_flags ?c ef)"
      "cpu_mode ?c = CPU_MODE_USER \<longrightarrow> ram_read (mach_ram k) (pa + 16) 8 = Some (registers ?c REGISTER_SP)"
    by (rule write_frame_slot [OF slot n, where ra = ra and sf = "make_saved_flags ?c ef"
          and sp = "registers ?c REGISTER_SP"])
  have "\<not> stack_top ?c < frame_bytes ?c" using top by simp
  then have "enter_privileged_handler handler ra ef m = (Some (), k\<lparr>cpu := entered handler ?c\<rparr>)"
    using k unfolding enter_eq Let_def by simp
  moreover have "slot_change ?ms pa (unat (frame_bytes ?c)) (k\<lparr>cpu := entered handler ?c\<rparr>)"
    using ch by (simp add: slot_change_def entered_def)
  ultimately show thesis using rd by (rule that)
qed

text \<open>C5: A return from interrupt undoes the entry of a handler. On a stack that can be written
  and does not hold its own page tables, the entry succeeds, and \<^verbatim>\<open>IRET\<close> with the frame it pushed
  restores the mode, the stack pointers, the flags and the program counter; every other register
  is untouched, and the exception is no longer active if the frame belongs to one.\<close>

theorem iret_undoes_entry:
  assumes top: "frame_bytes (cpu m) \<le> stack_top (cpu m)"
    and slot: "stack_slot (m\<lparr>cpu := (cpu m)\<lparr>cpu_mode := CPU_MODE_SUPERVISOR\<rparr>\<rparr>)
      (stack_top (cpu m) - frame_bytes (cpu m)) (unat (frame_bytes (cpu m))) pa"
    and enter: "enter_privileged_handler handler ra ef m = (x, m1)"
    and valid: "instruction_address_valid_for_mode ra (cpu_mode (cpu m)) True m1 = (Some (), m1)"
  shows "x = Some () \<and>
    execute_iret m1 =
      (Some (), m1\<lparr>cpu := (cpu m)\<lparr>pc := ra, flags := flags (cpu m) AND CPU_FLAG_MASK, waiting := False,
         exception_active := (if ef then False else exception_active (cpu m))\<rparr>\<rparr>)"
proof -
  let ?c = "cpu m" and ?ms = "m\<lparr>cpu := (cpu m)\<lparr>cpu_mode := CPU_MODE_SUPERVISOR\<rparr>\<rparr>"
  let ?f = "stack_top ?c - frame_bytes ?c"
  have n: "unat (frame_bytes ?c) = (if cpu_mode ?c = CPU_MODE_USER then 24 else 16)"
    by (simp add: frame_bytes_def)
  obtain k where k: "enter_privileged_handler handler ra ef m = (Some (), k\<lparr>cpu := entered handler ?c\<rparr>)"
    and ch: "slot_change ?ms pa (unat (frame_bytes ?c)) (k\<lparr>cpu := entered handler ?c\<rparr>)"
    and rd: "ram_read (mach_ram k) pa 8 = Some ra" "ram_read (mach_ram k) (pa + 8) 8 = Some (make_saved_flags ?c ef)"
      "cpu_mode ?c = CPU_MODE_USER \<longrightarrow> ram_read (mach_ram k) (pa + 16) 8 = Some (registers ?c REGISTER_SP)"
    by (rule enter_slot [OF top slot])
  have m1: "x = Some ()" "m1 = k\<lparr>cpu := entered handler ?c\<rparr>" using enter k by simp_all
  have ch1: "slot_change ?ms pa (unat (frame_bytes ?c)) m1" using ch m1(2) by simp
  have "0 + 8 \<le> unat (frame_bytes ?c)" "8 + 8 \<le> unat (frame_bytes ?c)"
    "cpu_mode ?c = CPU_MODE_USER \<Longrightarrow> 16 + 8 \<le> unat (frame_bytes ?c)" using n by auto
  note rds = slot_read [OF slot ch1 this(1)] slot_read [OF slot ch1 this(2)] slot_read [OF slot ch1 this(3)]
  have reads: "stack_read_u64 ?f m1 = (Some ra, m1)" "stack_read_u64 (?f + 8) m1 = (Some (make_saved_flags ?c ef), m1)"
    "cpu_mode ?c = CPU_MODE_USER \<Longrightarrow> stack_read_u64 (?f + 16) m1 = (Some (registers ?c REGISTER_SP), m1)"
    using rds rd m1(2) by (simp_all add: stack_read_u64_def)
  have "unat ?f + unat (frame_bytes ?c) = unat (stack_top ?c)"
    using top by (simp add: unat_sub word_le_nat_alt)
  then have "unat ?f + unat (frame_bytes ?c) < 2 ^ 64" using unat_u64_bound [of "stack_top ?c"] by simp
  then have lim: "\<not> ?f > UINT64_MAX - 8" "cpu_mode ?c = CPU_MODE_USER \<longrightarrow> \<not> ?f > UINT64_MAX - 24"
      "cpu_mode ?c \<noteq> CPU_MODE_USER \<longrightarrow> \<not> ?f > UINT64_MAX - 16"
    using n by (auto simp: not_less le_UINT64_MAX_minus split: if_splits)
  have c1: "cpu m1 = entered handler ?c" "registers (cpu m1) REGISTER_SP = ?f"
    using m1(2) by (simp_all add: entered_def)
  have "execute_iret m1 = (Some (), m1\<lparr>cpu := restore_frame ?f ra (make_saved_flags ?c ef)
      (if cpu_mode ?c = CPU_MODE_USER then registers ?c REGISTER_SP else 0) (entered handler ?c)\<rparr>)"
    using reads lim valid c1
    by (cases "cpu_mode ?c")
       (simp_all add: execute_iret_def and_then_def require_supervisor_def get_sp_def get_cpu_def
         set_cpu_def give_def saved_flags Let_def entered_def)
  then show ?thesis using m1(1) restore_entered [of ?c] by simp
qed

section \<open>A trap\<close>

text \<open>An opcode without a handler at \<open>0x2000\<close> and a vector table at \<open>0x1000\<close> whose entry for
  illegal instructions is \<open>0x3000\<close>.\<close>

definition sample_trap :: "unit machine" where
  "sample_trap =
     \<lparr>cpu = cpu_init\<lparr>vbr := 0x1000, vbr_enabled := True, pc := 0x2000, registers := \<lambda>_. 0x8000\<rparr>,
      bus = bus_init \<lparr>ram_data = (\<lambda>a. if a = 0x2000 then 0xFF else if a = 0x1209 then 0x30 else 0),
        ram_size = 0x10000\<rparr> ()\<rparr>"

definition bare_trap :: "unit machine \<Rightarrow> bool" where
  "bare_trap m \<longleftrightarrow> bus m = bus sample_trap \<and> mmu_enabled (cpu m) = False \<and>
     cpu_mode (cpu m) = CPU_MODE_SUPERVISOR \<and> registers (cpu m) REGISTER_SP = 0x8000"

lemma bare_slot:
  assumes "bare_trap m"
  shows "frame_bytes (cpu m) \<le> stack_top (cpu m)"
    "stack_slot (m\<lparr>cpu := (cpu m)\<lparr>cpu_mode := CPU_MODE_SUPERVISOR\<rparr>\<rparr>)
      (stack_top (cpu m) - frame_bytes (cpu m)) (unat (frame_bytes (cpu m))) 0x7FF0"
  using assms
  by (simp_all add: bare_trap_def stack_slot_def stack_top_def frame_bytes_def)
     (simp add: sample_trap_def bus_init_def)

lemma bare_address:
  assumes "mmu_enabled (cpu m) = False" "ram_size (mach_ram m) = 0x10000" "unat a < 0x10000"
  shows "instruction_address_valid_for_mode a mode report m = (Some (), m)"
  using assms
  by (simp add: instruction_address_valid_for_mode_def bus_fetch_def ram_contains_def SIZE_MAX_def
      ram_read_eq ram_range_valid_iff Suc_le_eq)

theorem iret_undoes_entry_witness:
  "\<exists>k. enter_privileged_handler 0x3000 0x2000 True sample_trap = (Some (), k) \<and>
     execute_iret k = (Some (), k\<lparr>cpu := (cpu sample_trap)\<rparr>)"
proof -
  have bare: "bare_trap sample_trap" by (simp add: bare_trap_def) (simp add: sample_trap_def cpu_init_def)
  obtain k where k: "enter_privileged_handler 0x3000 0x2000 True sample_trap =
      (Some (), k\<lparr>cpu := entered 0x3000 (cpu sample_trap)\<rparr>)"
    and ch: "slot_change (sample_trap\<lparr>cpu := (cpu sample_trap)\<lparr>cpu_mode := CPU_MODE_SUPERVISOR\<rparr>\<rparr>) 0x7FF0
      (unat (frame_bytes (cpu sample_trap))) (k\<lparr>cpu := entered 0x3000 (cpu sample_trap)\<rparr>)"
    by (rule enter_slot [OF bare_slot [OF bare]])
  let ?m1 = "k\<lparr>cpu := entered 0x3000 (cpu sample_trap)\<rparr>"
  have valid: "instruction_address_valid_for_mode 0x2000 (cpu_mode (cpu sample_trap)) True ?m1 = (Some (), ?m1)"
    by (rule bare_address) (use ch in \<open>simp_all add: slot_change_def sample_trap_def cpu_init_def bus_init_def\<close>)
  show ?thesis
    using iret_undoes_entry [OF bare_slot [OF bare] k valid] k
    by (simp add: sample_trap_def cpu_init_def)
qed

lemma sample_trap_fetch:
  "fetch_u8 (sample_trap\<lparr>cpu := (cpu sample_trap)\<lparr>instruction_pc := 0x2000\<rparr>\<rparr>) =
     (Some 0xFF, sample_trap\<lparr>cpu := (cpu sample_trap)\<lparr>instruction_pc := 0x2000, pc := 0x2001\<rparr>\<rparr>)"
proof -
  let ?m = "sample_trap\<lparr>cpu := (cpu sample_trap)\<lparr>instruction_pc := 0x2000\<rparr>\<rparr>"
  have seg: "build_memory_segments 0x2000 1 MMU_ACCESS_EXECUTE CPU_EXCEPTION_INSTRUCTION_ACCESS True ?m =
      (Some [\<lparr>seg_virtual_address = 0x2000, seg_physical_address = 0x2000, seg_width = 1, seg_byte_offset = 0\<rparr>], ?m)"
    by (rule build_single) (simp_all add: sample_trap_def cpu_init_def translate_address_def)
  have rd: "bus_fetch (bus sample_trap) 0x2000 1 = Some 0xFF"
    by (simp add: bus_fetch_def ram_contains_def sample_trap_def bus_init_def SIZE_MAX_def ram_read_eq
        ram_range_valid_iff assemble_le_1)
  show ?thesis
    using seg rd
    by (simp add: fetch_u8_def fetch_value_def memory_read_def and_then_def
        VECTOR_REGISTER_SIZE_def sample_trap_def cpu_init_def segment_read_def advance_pc_def set_cpu_def
        give_def)
qed


theorem exceptions_are_precise_witness:
  "\<exists>m'. cpu_step sample_host sample_trap = (Some (), m') \<and> exception_active (cpu m') \<and>
     epc (cpu m') = 0x2000 \<and> registers (cpu m') REGISTER_SP = 0x7FF0"
proof -
  let ?m = "sample_trap\<lparr>cpu := (cpu sample_trap)\<lparr>instruction_pc := 0x2000, pc := 0x2001\<rparr>\<rparr>"
  let ?e = "snd (set_exception CPU_EXCEPTION_ILLEGAL_INSTRUCTION 0 0 ?m :: unit option \<times> unit machine)"
  have bare: "bare_trap ?e"
    by (simp add: bare_trap_def set_exception_def Let_def) (simp add: sample_trap_def cpu_init_def)
  obtain k where k: "enter_privileged_handler 0x3000 (epc (cpu ?e)) True ?e = (Some (), k\<lparr>cpu := entered 0x3000 (cpu ?e)\<rparr>)"
    by (rule enter_slot [OF bare_slot [OF bare]])
  have vec: "read_vector 65 ?e = (Some 0x3000, ?e)"
  proof -
    have "ram_read (bus_ram (bus sample_trap)) 0x1208 8 = Some 0x3000" by code_simp
    then show ?thesis
      using bare_address [of ?e "0x3000" CPU_MODE_SUPERVISOR False]
      by (simp add: read_vector_def sample_trap_def cpu_init_def bus_init_def set_exception_def Let_def and_then_def give_def
        CPU_VECTOR_ENTRY_COUNT_def CPU_VECTOR_ENTRY_SIZE_def UINT64_MAX_def cpu_ram_range_valid_def CPU_VECTOR_SYSCALL_def
        CPU_VECTOR_EXCEPTION_BASE_def CPU_EXCEPTION_COUNT_def SIZE_MAX_def INTERRUPT_LINE_COUNT_def)
  qed
  have cause: "ecause (cpu ?e) = 1" "\<not> exception_active (cpu ?e)" "exception_pending (cpu ?e)" "epc (cpu ?e) = 0x2000"
    by (simp_all add: set_exception_def Let_def sample_trap_def cpu_init_def)
  have "execute_opcode sample_host 0xFF ?m = (None, ?e)"
    by (simp add: execute_opcode_def opcode_handler_def OPCODE_HANDLERS_def cpu_vector_opcode_def
        OP_VECTOR_FIRST_def OP_VECTOR_LAST_def)
       (simp add: set_exception_def Let_def)
  moreover have "sample_trap\<lparr>cpu := (cpu sample_trap)\<lparr>instruction_pc := pc (cpu sample_trap), exception_pending := False\<rparr>\<rparr> =
      sample_trap\<lparr>cpu := (cpu sample_trap)\<lparr>instruction_pc := 0x2000\<rparr>\<rparr>"
    "\<not> halted (cpu sample_trap)" "\<not> waiting (cpu sample_trap)"
    by (simp_all add: sample_trap_def cpu_init_def)
  ultimately have "cpu_step sample_host sample_trap = deliver_exception ?e"
    using cause sample_trap_fetch by (simp add: cpu_step_def Let_def)
  also have "\<dots> = (Some (), k\<lparr>cpu := (entered 0x3000 (cpu ?e))\<lparr>exception_pending := False, exception_active := True\<rparr>\<rparr>)"
    using cause vec k
    by (simp add: deliver_exception_def and_then_def get_cpu_def set_cpu_def CPU_VECTOR_EXCEPTION_BASE_def
        CPU_EXCEPTION_COUNT_def INTERRUPT_LINE_COUNT_def word_le_nat_alt)
  finally have step: "cpu_step sample_host sample_trap =
      (Some (), k\<lparr>cpu := (entered 0x3000 (cpu ?e))\<lparr>exception_pending := False, exception_active := True\<rparr>\<rparr>)" .
  have "\<not> exception_active (cpu sample_trap)" by (simp add: sample_trap_def cpu_init_def)
  from exceptions_are_precise [OF step this] step show ?thesis
    by (simp add: stack_top_def frame_bytes_def) (simp add: sample_trap_def cpu_init_def)
qed

end
