(* ===== verification/Cpu_Isolation.thy ===== *)
theory Cpu_Isolation
  imports Cpu_Stack
begin

text \<open>
  Memory isolation of user programs. The kernel gives a program a set of physical pages it may
  write, keeps the page tables out of them and maps no device into its address space
  (\<open>page_isolated\<close>). Then no instruction of the program changes a byte outside those pages, a
  device or the configuration of the machine, and the premises still hold afterwards.
\<close>

definition page_of :: "nat \<Rightarrow> nat" where
  "page_of a = a div 4096"

definition page_isolated :: "nat set \<Rightarrow> 'w machine \<Rightarrow> bool" where
  "page_isolated pages m \<longleftrightarrow>
     cpu_mode (cpu m) = CPU_MODE_USER \<and> mmu_enabled (cpu m) \<and> bus_ok (bus m) \<and>
     (\<forall>va access pa.
        mmu_translate (mach_ram m) (ptbr (cpu m)) True va access = MMU_RESULT_OK pa \<longrightarrow>
        unat pa < ram_size (mach_ram m) \<and>
        (access \<in> {MMU_ACCESS_WRITE, MMU_ACCESS_ATOMIC} \<longrightarrow> page_of (unat pa) \<in> pages)) \<and>
     (\<forall>va. \<forall>e \<in> set (walk_entries (mach_ram m) va (ptbr (cpu m)) mmu_shifts).
        \<forall>i < 8. page_of (unat e + i) \<notin> pages)"

text \<open>What the program cannot do.\<close>

definition confined :: "nat set \<Rightarrow> 'w machine \<Rightarrow> 'w machine \<Rightarrow> bool" where
  "confined pages m m' \<longleftrightarrow>
     same_privileged (cpu m) (cpu m') \<and>
     (bus m')\<lparr>bus_ram := mach_ram m\<rparr> = bus m \<and>
     ram_size (mach_ram m') = ram_size (mach_ram m) \<and>
     (\<forall>a. page_of a \<notin> pages \<longrightarrow> ram_data (mach_ram m') a = ram_data (mach_ram m) a)"

definition isolated :: "nat set \<Rightarrow> 'w machine \<Rightarrow> 'w machine \<Rightarrow> bool" where
  "isolated pages m m' \<longleftrightarrow> (page_isolated pages m \<longrightarrow> page_isolated pages m' \<and> confined pages m m')"

lemma confined_refl [simp]: "confined pages m m"
  by (simp add: confined_def)

lemma confined_trans:
  assumes "confined pages m m'" "confined pages m' m''"
  shows "confined pages m m''"
proof -
  have "(bus m'')\<lparr>bus_ram := mach_ram m\<rparr> = ((bus m'')\<lparr>bus_ram := mach_ram m'\<rparr>)\<lparr>bus_ram := mach_ram m\<rparr>"
    by simp
  also have "\<dots> = bus m" using assms by (simp add: confined_def)
  finally show ?thesis using assms same_privileged_trans by (auto simp: confined_def)
qed

text \<open>Changes inside the pages keep every translation, because the tables are outside.\<close>

lemma isolated_translate:
  assumes iso: "page_isolated pages m"
    and size: "ram_size r = ram_size (mach_ram m)"
    and same: "\<And>a. page_of a \<notin> pages \<Longrightarrow> ram_data r a = ram_data (mach_ram m) a"
  shows "mmu_translate r (ptbr (cpu m)) user va access = mmu_translate (mach_ram m) (ptbr (cpu m)) user va access"
    "walk_entries r va (ptbr (cpu m)) mmu_shifts = walk_entries (mach_ram m) va (ptbr (cpu m)) mmu_shifts"
proof -
  let ?ram = "mach_ram m" and ?root = "ptbr (cpu m)"
  have rd: "\<forall>e \<in> set (walk_entries ?ram va ?root mmu_shifts). ram_read r e 8 = ram_read ?ram e 8" for va
  proof
    fix e assume "e \<in> set (walk_entries ?ram va ?root mmu_shifts)"
    then have "ram_data r (unat e + i) = ram_data ?ram (unat e + i)" if "i < 8" for i
      using iso that same by (auto simp: page_isolated_def)
    then have "assemble_le (\<lambda>i. ram_data r (unat e + i)) 8 = assemble_le (\<lambda>i. ram_data ?ram (unat e + i)) 8"
      by (intro assemble_le_cong) blast
    then show "ram_read r e 8 = ram_read ?ram e 8" by (simp add: ram_read_eq ram_range_valid_iff size)
  qed
  show "mmu_translate r ?root user va access = mmu_translate ?ram ?root user va access"
    "walk_entries r va ?root mmu_shifts = walk_entries ?ram va ?root mmu_shifts"
    by (rule mmu_translate_unchanged [OF rd size], rule walk_entries_frame [OF rd])
qed

lemma isolated_ram:
  assumes iso: "page_isolated pages m"
    and size: "ram_size r = ram_size (mach_ram m)"
    and same: "\<And>a. page_of a \<notin> pages \<Longrightarrow> ram_data r a = ram_data (mach_ram m) a"
  shows "page_isolated pages (m\<lparr>bus := (bus m)\<lparr>bus_ram := r\<rparr>\<rparr>)"
    "confined pages m (m\<lparr>bus := (bus m)\<lparr>bus_ram := r\<rparr>\<rparr>)"
proof -
  show "page_isolated pages (m\<lparr>bus := (bus m)\<lparr>bus_ram := r\<rparr>\<rparr>)"
    using iso size isolated_translate [OF assms] by (simp add: page_isolated_def bus_ok_ram')
  show "confined pages m (m\<lparr>bus := (bus m)\<lparr>bus_ram := r\<rparr>\<rparr>)"
    using size same by (simp add: confined_def)
qed

lemma isolated_ram_write:
  assumes "ram_write (mach_ram m) a w v = Some r"
    and "\<forall>i < w. page_of (unat a + i) \<in> pages"
  shows "isolated pages m (m\<lparr>bus := (bus m)\<lparr>bus_ram := r\<rparr>\<rparr>)"
proof -
  have "ram_data r b = ram_data (mach_ram m) b" if "page_of b \<notin> pages" for b
  proof -
    have "\<not> (unat a \<le> b \<and> b < unat a + w)" using assms(2) that by (metis le_add_diff_inverse less_diff_conv2 add.commute)
    then show ?thesis using assms(1) by (auto simp: ram_write_Some scatter_le_apply)
  qed
  then show ?thesis
    using isolated_ram ram_write_size [OF assms(1)] unfolding isolated_def by blast
qed

section \<open>The segments of an access\<close>

text \<open>Every byte of a segment of a user access lies in RAM, and in the pages of the program
  when the access writes.\<close>

definition segment_within :: "nat set \<Rightarrow> mmu_access \<Rightarrow> ram \<Rightarrow> memory_segment \<Rightarrow> bool" where
  "segment_within pages access ram s \<longleftrightarrow>
     0 < seg_width s \<and> unat (seg_physical_address s) + seg_width s \<le> ram_size ram \<and>
     (access \<in> {MMU_ACCESS_WRITE, MMU_ACCESS_ATOMIC} \<longrightarrow>
        (\<forall>i < seg_width s. page_of (unat (seg_physical_address s) + i) \<in> pages))"

lemma translate_isolated:
  assumes "page_isolated pages m" "translate_address va access report m = (Some pa, m')"
  shows "m' = m" "mmu_translate (mach_ram m) (ptbr (cpu m)) True va access = MMU_RESULT_OK pa"
    "unat pa < ram_size (mach_ram m)"
    "access \<in> {MMU_ACCESS_WRITE, MMU_ACCESS_ATOMIC} \<Longrightarrow> page_of (unat pa) \<in> pages"
proof -
  show tr: "mmu_translate (mach_ram m) (ptbr (cpu m)) True va access = MMU_RESULT_OK pa" and "m' = m"
    using assms
    by (auto simp: translate_address_def Let_def page_isolated_def set_access_exception_def
        set_exception_def split: mmu_result.splits if_splits)
  then show "unat pa < ram_size (mach_ram m)"
    "access \<in> {MMU_ACCESS_WRITE, MMU_ACCESS_ATOMIC} \<Longrightarrow> page_of (unat pa) \<in> pages"
    using assms(1) by (auto simp: page_isolated_def)
qed

lemma page_chunk:
  assumes "unat (pa :: u64) mod 4096 = unat (va :: u64) mod 4096" "k \<le> 4096 - unat va mod 4096"
  shows "unat pa + k \<le> unat pa - unat pa mod 4096 + 4096"
    "\<forall>i < k. page_of (unat pa + i) = page_of (unat pa)"
proof -
  have k: "unat pa mod 4096 + k \<le> 4096" using assms mod_less_divisor [of 4096 "unat va"] by linarith
  have d: "unat pa = 4096 * (unat pa div 4096) + unat pa mod 4096" by simp
  show "unat pa + k \<le> unat pa - unat pa mod 4096 + 4096" using k d by linarith
  show "\<forall>i < k. page_of (unat pa + i) = page_of (unat pa)"
  proof (intro allI impI)
    fix i assume "i < k"
    with k d show "page_of (unat pa + i) = page_of (unat pa)"
      unfolding page_of_def by (intro div_nat_eqI) (unfold mult_Suc_right, linarith+)
  qed
qed

lemma segment_loop_isolated:
  assumes "page_isolated pages m"
    and "segment_loop slots access report cursor offset remaining m = (Some segments, m')"
  shows "m' = m \<and> (\<forall>s \<in> set segments. segment_within pages access (mach_ram m) s)"
  using assms(2)
proof (induction slots arbitrary: cursor offset remaining segments m')
  case 0
  then show ?case
    by (subst (asm) segment_loop.simps) (auto simp: give_def fail_def split: if_splits)
next
  case (Suc slots)
  show ?case
  proof (cases "remaining = 0")
    case True
    with Suc.prems show ?thesis by (subst (asm) segment_loop.simps) (auto simp: give_def)
  next
    case False
    let ?p = "unat (MMU_PAGE_SIZE - (cursor AND MMU_PAGE_MASK))"
    let ?k = "if remaining < ?p then remaining else ?p"
    obtain pa m1 rest where t: "translate_address cursor access report m = (Some pa, m1)"
      and l: "segment_loop slots access report (cursor + of_nat ?k) (offset + ?k) (remaining - ?k) m1
        = (Some rest, m')"
      and s: "segments = \<lparr>seg_virtual_address = cursor, seg_physical_address = pa, seg_width = ?k,
        seg_byte_offset = offset\<rparr> # rest"
      using Suc.prems False
      by (subst (asm) segment_loop.simps)
         (auto simp: give_def and_then_def Let_def split: option.splits prod.splits)
    note t = translate_isolated [OF assms(1) t]
    have p: "?p = 4096 - unat cursor mod 4096"
      using unat_page_mask [of cursor] mod_less_divisor [of 4096 "unat cursor"]
      by (simp add: unat_sub word_le_nat_alt)
    have k: "0 < ?k" "?k \<le> 4096 - unat cursor mod 4096" using False p by auto
    note page = page_chunk [OF translate_offset [OF t(2)] k(2)]
    have "unat pa + ?k \<le> ram_size (mach_ram m)"
      using translate_page_in_ram [OF t(2) _ t(3)] assms(1) page(1)
      by (auto simp: page_isolated_def bus_ok_def)
    then have "segment_within pages access (mach_ram m) (hd segments)"
      using s k(1) page(2) t(4) by (simp add: segment_within_def)
    with Suc.IH [of "cursor + of_nat ?k"] l t(1) s show ?thesis by auto
  qed
qed


lemma build_segments_isolated:
  assumes "page_isolated pages m"
    and "build_memory_segments va width access e report m = (Some segments, m')"
  shows "m' = m" "\<forall>s \<in> set segments. segment_within pages access (mach_ram m) s"
proof -
  have "segment_loop 2 access report va 0 width m = (Some segments, m')"
    using assms
    by (auto simp: build_memory_segments_def page_isolated_def set_access_exception_def
        set_exception_def Let_def split: if_splits)
  from segment_loop_isolated [OF assms(1) this]
  show "m' = m" "\<forall>s \<in> set segments. segment_within pages access (mach_ram m) s" by blast+
qed

text \<open>An operation on the segments of an access, after the failures of the translation.\<close>

interpretation isolation: cpu_frame "isolated pages" for pages
proof
  show "isolated pages m m" for m :: "'w machine" by (simp add: isolated_def)
  show "isolated pages m m' \<Longrightarrow> isolated pages m' m'' \<Longrightarrow> isolated pages m m''" for m m' m'' :: "'w machine"
    unfolding isolated_def using confined_trans by blast
  show "same_privileged (cpu m) c \<Longrightarrow> isolated pages m (m\<lparr>cpu := c\<rparr>)" for m :: "'w machine" and c
    by (simp add: isolated_def page_isolated_def confined_def same_privileged_def)
qed

lemma isolated_segments:
  fixes f :: "memory_segment list \<Rightarrow> ('a, 'w) operation"
  assumes "\<And>segments m. page_isolated pages m \<Longrightarrow>
      \<forall>s \<in> set segments. segment_within pages access (mach_ram m) s \<Longrightarrow>
      isolated pages m (snd (f segments m))"
  shows "op_rel (isolated pages) (and_then (build_memory_segments va width access e report) f)"
proof (rule op_relI)
  fix m :: "'w machine"
  let ?b = "build_memory_segments va width access e report"
  obtain x m' where b: "?b m = (x, m')" by (cases "?b m")
  have r: "isolated pages m m'" using op_relD [OF isolation.rel_build_segments b] .
  show "isolated pages m (snd (and_then ?b f m))"
  proof (cases x)
    case (Some segments)
    have "isolated pages m (snd (f segments m))" if "page_isolated pages m"
      using build_segments_isolated [OF that, of va width access e report] b Some assms [OF that] by blast
    moreover have "m' = m" if "page_isolated pages m"
      using build_segments_isolated [OF that, of va width access e report] b Some by blast
    ultimately show ?thesis using b Some by (auto simp: and_then_def isolated_def)
  qed (use b r in \<open>simp add: and_then_def\<close>)
qed


lemma segment_within_size:
  "ram_size r' = ram_size r \<Longrightarrow> segment_within pages access r' s = segment_within pages access r s"
  by (simp add: segment_within_def)

lemma isolated_within:
  assumes "page_isolated pages m" "isolated pages m m'"
  shows "page_isolated pages m'"
    "segment_within pages access (mach_ram m') s = segment_within pages access (mach_ram m) s"
  using assms by (auto simp: isolated_def confined_def intro!: segment_within_size)

lemma segment_read_isolated:
  assumes "page_isolated pages m" "segment_within pages access (mach_ram m) s"
  shows "snd (segment_read access use_bus s m) = m"
proof -
  have "snd (bus_read (bus m) (seg_physical_address s) (seg_width s)) = bus m"
  proof (cases "seg_width s \<le> 8")
    case True
    with assms have "ram_range_valid (mach_ram m) (seg_physical_address s) (seg_width s)"
      by (simp add: ram_range_valid_iff segment_within_def)
    then show ?thesis using assms(1) bus_ram_access(1) [of "bus m"] by (simp add: page_isolated_def)
  qed (simp add: bus_read_def)
  then show ?thesis by (simp add: segment_read_def split_beta)
qed

lemma read_segments_isolated:
  assumes "page_isolated pages m" "\<forall>s \<in> set segments. segment_within pages access (mach_ram m) s"
  shows "isolated pages m (snd (read_segments access use_bus e report segments result m))"
  using assms
proof (induction segments arbitrary: result)
  case (Cons s segments)
  then have "segment_read access use_bus s m = (fst (segment_read access use_bus s m), m)"
    using segment_read_isolated [of pages m access s use_bus] by (metis list.set_intros(1) prod.collapse)
  then show ?case
    using Cons op_rel_snd [OF isolation.rel_fault_at, of pages m report e "seg_virtual_address s" access]
    by (cases "fst (segment_read access use_bus s m)") simp_all
qed simp

lemma segment_write_isolated:
  assumes "page_isolated pages m" "segment_within pages MMU_ACCESS_WRITE (mach_ram m) s"
  shows "isolated pages m (snd (segment_write use_bus s v m))"
proof -
  let ?a = "seg_physical_address s" and ?w = "seg_width s"
  have wr: "isolated pages m (m\<lparr>bus := (bus m)\<lparr>bus_ram := r\<rparr>\<rparr>)"
    if "ram_write (mach_ram m) ?a ?w v = Some r" for r
    using isolated_ram_write [OF that] assms(2) by (simp add: segment_within_def)
  have "isolated pages m (m\<lparr>bus := snd (bus_write (bus m) ?a ?w v)\<rparr>)"
  proof (cases "?w \<le> 8")
    case True
    with assms have valid: "ram_range_valid (mach_ram m) ?a ?w"
      by (simp add: ram_range_valid_iff segment_within_def)
    then obtain r where "ram_write (mach_ram m) ?a ?w v = Some r" by (simp add: ram_write_eq)
    with wr [OF this] bus_ram_access(2) [OF _ valid] assms(1) show ?thesis
      by (simp add: page_isolated_def)
  qed (simp add: bus_write_def)
  then show ?thesis
    using wr by (simp add: segment_write_def split_beta split: option.split)
qed

lemma write_segments_isolated:
  assumes "page_isolated pages m" "\<forall>s \<in> set segments. segment_within pages MMU_ACCESS_WRITE (mach_ram m) s"
  shows "isolated pages m (snd (write_segments MMU_ACCESS_WRITE use_bus e report v segments m))"
  using assms
proof (induction segments arbitrary: m)
  case (Cons s segments)
  let ?w = "segment_write use_bus s (drop_bit (seg_byte_offset s * 8) v)"
  obtain x m' where w: "?w m = (x, m')" by (cases "?w m")
  have r: "isolated pages m m'" using segment_write_isolated [of pages m s] Cons.prems w by (metis list.set_intros(1) snd_conv)
  note in' = isolated_within [OF Cons.prems(1) r]
  show ?case
  proof (cases x)
    case None
    with w r show ?thesis
      by (auto intro: isolation.rel_trans op_rel_snd [OF isolation.rel_fault_at])
  next
    case (Some y)
    have "isolated pages m' (snd (write_segments MMU_ACCESS_WRITE use_bus e report v segments m'))"
      using Cons.prems in' by (intro Cons.IH) auto
    with w r Some show ?thesis by (auto intro: isolation.rel_trans)
  qed
qed simp


lemma vector_read_chunks_isolated:
  "isolated pages m (snd (vector_read_chunks s consumed v m))"
proof (induction s consumed v m rule: vector_read_chunks.induct)
  case (1 s consumed v m)
  then show ?case
    by (subst vector_read_chunks.simps)
       (simp add: Let_def op_rel_snd isolation.rel_set_access_exception split: option.split)
qed

lemma vector_write_chunks_isolated:
  assumes "page_isolated pages m" "segment_within pages MMU_ACCESS_WRITE (mach_ram m) s"
  shows "isolated pages m (snd (vector_write_chunks s consumed v m))"
  using assms
proof (induction s consumed v m rule: vector_write_chunks.induct)
  case (1 s consumed v m)
  let ?k = "chunk_width (seg_width s) consumed"
  let ?v = "assemble_le (\<lambda>i. v (seg_byte_offset s + consumed + i)) ?k"
  let ?a = "seg_physical_address s + of_nat consumed"
  show ?case
  proof (cases "consumed < seg_width s")
    case True
    show ?thesis
    proof (cases "ram_write (mach_ram m) ?a ?k ?v")
      case None
      with True show ?thesis
        by (subst vector_write_chunks.simps)
           (simp add: Let_def op_rel_snd isolation.rel_set_access_exception)
    next
      case (Some r)
      have k: "consumed + ?k \<le> seg_width s" using True by (simp add: chunk_width_def) linarith
      have "unat (seg_physical_address s) + consumed < 2 ^ 64"
        using "1.prems" True by (auto simp: segment_within_def page_isolated_def bus_ok_def ram_wf_def SIZE_MAX_def)
      then have "unat ?a = unat (seg_physical_address s) + consumed"
        by (simp add: unat_word_ariths unat_of_nat)
      then have "\<forall>i < ?k. page_of (unat ?a + i) \<in> pages"
        using "1.prems"(2) k by (simp add: segment_within_def add.assoc)
      note r = isolated_ram_write [OF Some this]
      have "isolated pages (m\<lparr>bus := (bus m)\<lparr>bus_ram := r\<rparr>\<rparr>)
          (snd (vector_write_chunks s (consumed + ?k) v (m\<lparr>bus := (bus m)\<lparr>bus_ram := r\<rparr>\<rparr>)))"
        using isolated_within [OF "1.prems"(1) r] "1.prems"(2) by (intro "1.IH" [OF True refl refl Some]) simp_all
      with r Some True show ?thesis
        by (subst vector_write_chunks.simps) (auto simp: Let_def intro: isolation.rel_trans)
    qed
  qed (subst vector_write_chunks.simps, simp)
qed


lemma fault_at_not_Some [simp]: "fault_at report e a access m \<noteq> (Some x, m')"
  by (simp add: fault_at_def fail_def set_access_exception_def set_exception_def Let_def)

lemma check_segments_Some: "check_segments e report access segments m = (Some x, m') \<Longrightarrow> m' = m"
  by (induction segments) (auto split: if_splits)

lemma isolated_after_check:
  assumes "isolated pages m (snd (f m))"
  shows "isolated pages m (snd (and_then (check_segments e report access segments) (\<lambda>_. f) m))"
proof -
  let ?c = "check_segments e report access segments m"
  obtain x m' where c: "?c = (x, m')" by (cases ?c)
  show ?thesis
  proof (cases x)
    case None
    then show ?thesis using op_relD [OF isolation.rel_check_segments c] by (simp add: and_then_def c)
  next
    case (Some y)
    with check_segments_Some [of e report access segments m y m'] c have "m' = m" by simp
    with Some c assms show ?thesis by (simp add: and_then_def)
  qed
qed

lemma isolated_vector_read: "op_rel (isolated pages) (vector_read_segments segments v)"
proof (induction segments arbitrary: v)
  case (Cons s segments)
  have "op_rel (isolated pages) (vector_read_chunks s 0 v)"
    by (rule op_relI) (rule vector_read_chunks_isolated)
  then show ?case using Cons by (auto intro: isolation.rel_and_then)
qed (simp add: isolation.rel_give)

lemma vector_write_segments_isolated:
  assumes "page_isolated pages m" "\<forall>s \<in> set segments. segment_within pages MMU_ACCESS_WRITE (mach_ram m) s"
  shows "isolated pages m (snd (vector_write_segments segments v m))"
  using assms
proof (induction segments arbitrary: m)
  case (Cons s segments)
  obtain x m' where w: "vector_write_chunks s 0 v m = (x, m')" by (cases "vector_write_chunks s 0 v m")
  have r: "isolated pages m m'"
    using vector_write_chunks_isolated [of pages m s 0 v] Cons.prems w by simp
  note in' = isolated_within [OF Cons.prems(1) r]
  have "isolated pages m' (snd (vector_write_segments segments v m'))"
    using Cons.prems in' by (intro Cons.IH) auto
  with w r show ?case by (auto simp: and_then_def intro: isolation.rel_trans split: option.split)
qed (simp add: give_def)

text \<open>An atomic access is aligned, so it stays in the page of its address.\<close>

lemma atomic_page:
  assumes "atomic64_address_valid ram a" "i < 8"
  shows "page_of (unat a + i) = page_of (unat a)"
proof -
  have "(a AND 7) = 0" using assms(1) by (simp add: atomic64_address_valid_def naturally_aligned_def)
  moreover have "a AND 7 = take_bit 3 a" by (simp add: take_bit_eq_mask mask_eq_exp_minus_1)
  ultimately have "unat a mod 8 = 0" by (simp add: take_bit_eq_mod unat_mod flip: unat_eq_0)
  then have "unat a = 8 * (unat a div 8)" by presburger
  then have "(unat a + i) div 8 = unat a div 8" using assms(2) by linarith
  then show ?thesis by (simp add: page_of_def div_mult2_eq [of _ 8 512, simplified])
qed

lemma isolated_atomic:
  assumes "page_isolated pages m" "page_of (unat pa) \<in> pages"
  shows "isolated pages m (m\<lparr>bus := snd (bus_compare_exchange64 (bus m) pa expected desired)\<rparr>)"
    "isolated pages m (m\<lparr>bus := snd (bus_exchange64 (bus m) pa v)\<rparr>)"
    "isolated pages m (m\<lparr>bus := snd (bus_fetch_add64 (bus m) pa v)\<rparr>)"
proof -
  have wr: "isolated pages m (m\<lparr>bus := (bus m)\<lparr>bus_ram := set_atomic_object (mach_ram m) pa x\<rparr>\<rparr>)"
    if "atomic64_address_valid (mach_ram m) pa" for x
    using isolated_ram_write [OF set_atomic_object_write [OF that]] atomic_page [OF that] assms(2) by simp
  show "isolated pages m (m\<lparr>bus := snd (bus_compare_exchange64 (bus m) pa expected desired)\<rparr>)"
    using wr by (simp add: bus_compare_exchange64_def ram_compare_exchange64_def Let_def)
  show "isolated pages m (m\<lparr>bus := snd (bus_exchange64 (bus m) pa v)\<rparr>)"
    "isolated pages m (m\<lparr>bus := snd (bus_fetch_add64 (bus m) pa v)\<rparr>)"
    using wr by (simp_all add: bus_exchange64_def ram_exchange64_def bus_fetch_add64_def
        ram_fetch_add64_def Let_def)
qed


lemma isolated_bus_atomic:
  fixes g :: "u64 \<Rightarrow> ('a, 'w) operation"
  assumes f: "\<And>m pa d. page_isolated pages m \<Longrightarrow> page_of (unat pa) \<in> pages \<Longrightarrow>
      isolated pages m (m\<lparr>bus := snd (f pa d (bus m))\<rparr>)"
    and g: "\<And>x. op_rel (isolated pages) (g x)"
  shows "op_rel (isolated pages)
    (and_then (translate_address va MMU_ACCESS_ATOMIC True) (\<lambda>pa.
       and_then (get_register r) (\<lambda>d. and_then (bus_atomic (f pa d) va) g)))"
proof (rule op_relI)
  fix m :: "'w machine"
  let ?t = "translate_address va MMU_ACCESS_ATOMIC True"
  obtain x m' where t: "?t m = (x, m')" by (cases "?t m")
  have r: "isolated pages m m'" using op_relD [OF isolation.rel_translate t] .
  show "isolated pages m (snd (and_then ?t (\<lambda>pa.
       and_then (get_register r) (\<lambda>d. and_then (bus_atomic (f pa d) va) g)) m))"
  proof (cases "page_isolated pages m \<and> x \<noteq> None")
    case True
    then obtain pa where x: "x = Some pa" by auto
    note tr = translate_isolated [OF True [THEN conjunct1] t [unfolded x]]
    define d where "d = registers (cpu m) (unat r)"
    have "isolated pages m (snd (and_then (bus_atomic (f pa d) va) g m))"
    proof -
      obtain y b where fb: "f pa d (bus m) = (y, b)" by (cases "f pa d (bus m)")
      have "isolated pages m (m\<lparr>bus := b\<rparr>)" using f [of m pa d] True tr(4) fb by simp
      then have "isolated pages m (snd (bus_atomic (f pa d) va m))"
        by (auto simp: bus_atomic_def fb split: option.split
            intro: isolation.rel_trans op_rel_snd [OF isolation.rel_set_access_exception])
      then show ?thesis
        by (cases "bus_atomic (f pa d) va m")
           (auto simp: and_then_def split: option.split intro: isolation.rel_trans op_rel_snd g)
    qed
    then show ?thesis using t x tr(1) by (simp add: and_then_def get_register_def get_cpu_def d_def)
  qed (use t r in \<open>auto simp: and_then_def isolated_def\<close>)
qed


interpretation user_pages: supervisor_frame "isolated pages" for pages
proof
  fix va e v r
  show "op_rel (isolated pages) (memory_read va width access use_bus e report)" for width access use_bus report
    unfolding memory_read_def by (rule isolated_segments) (rule read_segments_isolated)
  show "op_rel (isolated pages) (memory_write va width MMU_ACCESS_WRITE use_bus e report v)" for width use_bus report
    unfolding memory_write_def
    by (rule isolated_segments) (auto intro: isolated_after_check write_segments_isolated)
  show "op_rel (isolated pages) (cpu_internal_vector_read va)"
    unfolding cpu_internal_vector_read_def vector_memory_segments_def and_then_assoc and_then_give
    by (rule isolated_segments) (auto intro: isolated_after_check op_rel_snd isolated_vector_read)
  show "op_rel (isolated pages) (cpu_internal_vector_write va bytes)" for bytes
    unfolding cpu_internal_vector_write_def vector_memory_segments_def and_then_assoc and_then_give
    by (rule isolated_segments) (auto intro: isolated_after_check vector_write_segments_isolated)
  show "cpu_mode (cpu m) = CPU_MODE_SUPERVISOR \<Longrightarrow> isolated pages m (m\<lparr>cpu := c\<rparr>)" for m :: "'w machine" and c
    by (simp add: isolated_def page_isolated_def)
qed (intro isolated_bus_atomic isolated_atomic; assumption)+


text \<open>A vector read from memory the program could not change.\<close>

lemma vector_kept:
  assumes "confined pages m k" "fst (read_vector i k) = Some h"
    and "\<forall>i < CPU_VECTOR_TABLE_SIZE. page_of (unat (vbr (cpu m)) + i) \<notin> pages"
  shows "ram_read (mach_ram m) (vbr (cpu m) + of_nat (8 * i)) 8 = Some h"
proof -
  note v = read_vector_Some [OF assms(2)]
  have vbr: "vbr (cpu k) = vbr (cpu m)" using assms(1) by (simp add: confined_def same_privileged_def)
  have "ram_data (mach_ram k) (unat (vbr (cpu m)) + 8 * i + j) =
      ram_data (mach_ram m) (unat (vbr (cpu m)) + 8 * i + j)" if "j < 8" for j
    using assms(1,3) v(2) that
    by (auto simp: confined_def CPU_VECTOR_TABLE_SIZE_def CPU_VECTOR_ENTRY_SIZE_def add.assoc)
  then have "assemble_le (\<lambda>j. ram_data (mach_ram k) (unat (vbr (cpu m)) + 8 * i + j)) 8 =
      assemble_le (\<lambda>j. ram_data (mach_ram m) (unat (vbr (cpu m)) + 8 * i + j)) 8"
    by (intro assemble_le_cong) blast
  then show ?thesis
    using v(1,3) assms(1) unfolding vbr
    by (simp add: ram_read_eq ram_range_valid_iff confined_def split: if_splits)
qed

section \<open>Entering the kernel\<close>

text \<open>\<open>m'\<close> was left by the entry of a handler at \<open>n\<close>: its program counter is one of the
  entries of the vector table in the memory of \<open>n\<close>.\<close>

definition vectored :: "'w machine \<Rightarrow> 'w machine \<Rightarrow> bool" where
  "vectored n m' \<longleftrightarrow>
     (\<exists>i ra ef k. CPU_VECTOR_EXCEPTION_BASE < i \<and> i \<le> CPU_VECTOR_SYSCALL \<and>
        ram_read (mach_ram n) (vbr (cpu n) + of_nat (8 * i)) 8 = Some (pc (cpu m')) \<and>
        enter_privileged_handler (pc (cpu m')) ra ef n = (Some (), k) \<and> bus m' = bus k)"

lemma deliver_vectored:
  assumes "deliver_exception m = (Some x, m')"
  shows "\<exists>d. excepted (cpu m) d \<and> vectored (m\<lparr>cpu := d\<rparr>) m'"
proof -
  define n where "n = (if ecause (cpu m) = 0 \<or> ecause (cpu m) \<ge> of_nat CPU_EXCEPTION_COUNT
     then m\<lparr>cpu := (cpu m)\<lparr>ecause := exception_code CPU_EXCEPTION_ILLEGAL_INSTRUCTION\<rparr>\<rparr> else m)"
  let ?i = "CPU_VECTOR_EXCEPTION_BASE + unat (ecause (cpu n))"
  have c: "valid_cause (ecause (cpu n))"
    by (auto simp: n_def valid_cause_def CPU_EXCEPTION_COUNT_def word_gt_0)
  obtain h k where v: "read_vector ?i n = (Some h, k)" and na: "\<not> exception_active (cpu n)"
    using assms unfolding deliver_exception_def Let_def n_def [symmetric]
    by (auto simp: and_then_def split: if_splits option.splits prod.splits)
  have k: "k = n" using read_vector_machine [of _ n] v by (metis snd_conv)
  with v na assms obtain y e where
    e: "enter_privileged_handler h (epc (cpu n)) True n = (Some y, e)"
    and m': "m' = e\<lparr>cpu := (cpu e)\<lparr>exception_pending := False, exception_active := True\<rparr>\<rparr>"
    unfolding deliver_exception_def Let_def n_def [symmetric]
    by (auto simp: and_then_def get_cpu_def set_cpu_def split: option.splits prod.splits)
  have "pc (cpu m') = h" "bus m' = bus e" using enter_success(1) [OF e] m' by (simp_all add: entered_def)
  with e v read_vector_Some(1) [of ?i n h] cause_vector [OF c] have "vectored n m'"
    unfolding vectored_def by (intro exI [of _ ?i]) auto
  moreover have "excepted (cpu m) (cpu n)" "n = m\<lparr>cpu := cpu n\<rparr>" by (auto simp: n_def excepted_cause)
  ultimately show ?thesis by metis
qed

lemma syscall_vectored:
  assumes "execute_syscall m = (Some x, m')"
  shows "vectored m m'"
proof -
  obtain h k where v: "read_vector CPU_VECTOR_SYSCALL m = (Some h, k)"
    and e: "enter_privileged_handler h (pc (cpu k)) False k = (Some (), m')"
    using assms by (auto simp: execute_syscall_def split: option.splits prod.splits)
  have k: "k = m" using read_vector_machine [of _ m] v by (metis snd_conv)
  have "pc (cpu m') = h" using enter_success(1) [OF e] by (simp add: entered_def)
  moreover have "CPU_VECTOR_EXCEPTION_BASE < CPU_VECTOR_SYSCALL"
    by (simp add: CPU_VECTOR_SYSCALL_def CPU_EXCEPTION_COUNT_def)
  ultimately show ?thesis
    using v e read_vector_Some(1) [of CPU_VECTOR_SYSCALL m h] unfolding vectored_def k by auto
qed

text \<open>Memory outside the pages of the program and outside the \<open>len\<close> bytes at \<open>pa\<close>.\<close>

definition kept_outside :: "nat set \<Rightarrow> u64 \<Rightarrow> nat \<Rightarrow> 'w machine \<Rightarrow> 'w machine \<Rightarrow> bool" where
  "kept_outside pages pa len m m' \<longleftrightarrow>
     (bus m')\<lparr>bus_ram := mach_ram m\<rparr> = bus m \<and> ram_size (mach_ram m') = ram_size (mach_ram m) \<and>
     (\<forall>a. page_of a \<notin> pages \<and> (a < unat pa \<or> unat pa + len \<le> a) \<longrightarrow>
        ram_data (mach_ram m') a = ram_data (mach_ram m) a)"

abbreviation supervisor :: "'w machine \<Rightarrow> 'w machine" where
  "supervisor m \<equiv> m\<lparr>cpu := (cpu m)\<lparr>cpu_mode := CPU_MODE_SUPERVISOR\<rparr>\<rparr>"

lemma slot_kept:
  assumes "page_isolated pages m" "confined pages m n" "stack_slot (supervisor m) va len pa"
  shows "stack_slot (supervisor n) va len pa"
proof -
  have "ram_size (mach_ram n) = ram_size (mach_ram m)"
    "\<And>a. page_of a \<notin> pages \<Longrightarrow> ram_data (mach_ram n) a = ram_data (mach_ram m) a"
    using assms(2) by (auto simp: confined_def)
  note t = isolated_translate [OF assms(1) this]
  have "ptbr (cpu n) = ptbr (cpu m)" "mmu_enabled (cpu n) = mmu_enabled (cpu m)"
    using assms(2) by (auto simp: confined_def same_privileged_def)
  moreover have "mmu_enabled (cpu m)" using assms(1) by (simp add: page_isolated_def)
  ultimately show ?thesis
    using assms(2,3) t by (simp add: stack_slot_def confined_def del: walk_entries.simps)
qed

text \<open>With a kernel stack that does not hold its own page tables, the entry writes the frame or
  nothing.\<close>

lemma enter_kept:
  assumes iso: "page_isolated pages m" and c: "confined pages m n"
    and slot: "stack_slot (supervisor m) (ksp (cpu m) - 24) 24 pa"
    and enter: "enter_privileged_handler h ra ef n = (x, k)"
  shows "kept_outside pages pa 24 m k" "x = None \<Longrightarrow> bus k = bus n"
proof -
  have u: "cpu_mode (cpu n) = CPU_MODE_USER" and ksp: "ksp (cpu n) = ksp (cpu m)"
    using iso c by (auto simp: page_isolated_def confined_def same_privileged_def)
  have f: "stack_top (cpu n) = ksp (cpu m)" "frame_bytes (cpu n) = 24"
    using u ksp by (simp_all add: stack_top_def frame_bytes_def)
  have "kept_outside pages pa 24 m k \<and> (x = None \<longrightarrow> bus k = bus n)"
  proof (cases "stack_top (cpu n) < frame_bytes (cpu n)")
    case True
    then have "bus k = bus n"
      using enter set_access_exception_excepted unfolding enter_eq Let_def by (metis (full_types))
    with c show ?thesis by (auto simp: kept_outside_def confined_def)
  next
    case False
    then have top: "frame_bytes (cpu n) \<le> stack_top (cpu n)" by simp
    have "stack_slot (supervisor n) (stack_top (cpu n) - frame_bytes (cpu n)) (unat (frame_bytes (cpu n))) pa"
      using slot_kept [OF iso c slot] f by simp
    from enter_slot [OF top this, of h ra ef] obtain e where
      e: "enter_privileged_handler h ra ef n = (Some (), e\<lparr>cpu := entered h (cpu n)\<rparr>)"
        "slot_change (supervisor n) pa (unat (frame_bytes (cpu n))) (e\<lparr>cpu := entered h (cpu n)\<rparr>)" by metis
    then have k: "x = Some ()" "bus k = bus e" using enter by auto
    have b: "(bus e)\<lparr>bus_ram := mach_ram n\<rparr> = bus n" using e(2) by (simp add: slot_change_def)
    have "(bus e)\<lparr>bus_ram := mach_ram m\<rparr> = ((bus e)\<lparr>bus_ram := mach_ram n\<rparr>)\<lparr>bus_ram := mach_ram m\<rparr>" by simp
    also have "\<dots> = bus m" using c unfolding b by (simp add: confined_def)
    finally show ?thesis using k e(2) c f(2) by (auto simp: kept_outside_def slot_change_def confined_def)
  qed
  then show "kept_outside pages pa 24 m k" "x = None \<Longrightarrow> bus k = bus n" by auto
qed

lemma syscall_kept:
  assumes "page_isolated pages m" "confined pages m n" "stack_slot (supervisor m) (ksp (cpu m) - 24) 24 pa"
    and sys: "execute_syscall n = (None, k)"
  shows "bus k = bus n"
proof -
  obtain v j where v: "read_vector CPU_VECTOR_SYSCALL n = (v, j)" by (cases "read_vector CPU_VECTOR_SYSCALL n")
  have j: "j = n" using read_vector_machine [of _ n] v by (metis snd_conv)
  show ?thesis
  proof (cases v)
    case None
    with sys v j have "set_exception CPU_EXCEPTION_ILLEGAL_INSTRUCTION 0 0 n = (None :: unit option, k)"
      by (simp add: execute_syscall_def)
    then show ?thesis using set_exception_excepted by blast
  next
    case (Some h)
    with sys v j have "enter_privileged_handler h (pc (cpu n)) False n = (None, k)"
      by (simp add: execute_syscall_def)
    from enter_kept(2) [OF assms(1-3) this] show ?thesis by simp
  qed
qed

lemma confined_excepted:
  assumes "confined pages m k" "excepted (cpu k) d" "bus n = bus k"
  shows "confined pages m (n\<lparr>cpu := d\<rparr>)"
  using assms same_privileged_trans excepted_same_privileged by (auto simp: confined_def)

text \<open>An entry of the kernel from a state the program could reach.\<close>

lemma vectored_kept:
  assumes "page_isolated pages m" "confined pages m n" "stack_slot (supervisor m) (ksp (cpu m) - 24) 24 pa"
    and v: "vectored n m'"
  shows "kept_outside pages pa 24 m m'"
  using v enter_kept(1) [OF assms(1-3)] by (fastforce simp: vectored_def kept_outside_def)

section \<open>Runs of a program\<close>

text \<open>Instructions executed one after the other while the program stays in user mode.\<close>

fun user_steps :: "host_float \<Rightarrow> nat \<Rightarrow> 'w machine \<Rightarrow> 'w machine option" where
  "user_steps host 0 m = Some m"
| "user_steps host (Suc n) m =
     (case cpu_step host m of
        (None, m') \<Rightarrow> None
      | (Some _, m') \<Rightarrow> if cpu_mode (cpu m') = CPU_MODE_USER then user_steps host n m' else None)"

lemma user_step_stays:
  assumes iso: "page_isolated pages m" and step: "cpu_step host m = (Some x, m')"
    and user: "cpu_mode (cpu m') = CPU_MODE_USER"
  shows "page_isolated pages m' \<and> confined pages m m'"
proof -
  obtain k where "isolated pages m k" and k: "m' = k \<or> deliver_exception k = (Some (), m') \<or>
      execute_syscall k = (Some (), m') \<or>
      (\<exists>k'. execute_syscall k = (None, k') \<and> deliver_exception k' = (Some (), m'))"
    using user_pages.step_outcome [OF step] by fastforce
  then have p: "page_isolated pages k" and c: "confined pages m k" using iso by (auto simp: isolated_def)
  then have u: "cpu_mode (cpu k) = CPU_MODE_USER" by (auto simp: page_isolated_def)
  have d: False if "deliver_exception n = (Some (), m')" "cpu_mode (cpu n) = CPU_MODE_USER" for n
    using deliver_user [OF that] user by (auto simp: trapped_def)
  have "m' = k"
    using k
  proof (elim disjE exE conjE)
    assume "execute_syscall k = (Some (), m')"
    then show ?thesis using syscall_user(1) [OF _ u] user by (auto simp: trapped_def)
  next
    fix k' assume k': "execute_syscall k = (None, k')" "deliver_exception k' = (Some (), m')"
    have "cpu_mode (cpu k') = CPU_MODE_USER"
      using syscall_failure [OF k'(1)] u by (auto elim: exceptedE)
    then show ?thesis using d k'(2) by blast
  qed (use d u in auto)
  then show ?thesis using p c by blast
qed

section \<open>A sample program\<close>

text \<open>One gigabyte page at physical address \<open>0x40000000\<close> for the program, which starts with a
  \<^verbatim>\<open>NOP\<close>, and the page table at \<open>0x1000\<close>.\<close>

definition sample_giga :: ram where
  "sample_giga = \<lparr>ram_data = (\<lambda>a. if a = 0x1000 then 0x1F else if a = 0x1003 then 0x40
     else if a = 0x40000000 then 0x2C else 0), ram_size = 0x80000000\<rparr>"

definition sample_user :: "unit machine" where
  "sample_user =
     \<lparr>cpu = cpu_init\<lparr>cpu_mode := CPU_MODE_USER, mmu_enabled := True, ptbr := 0x1000, ptbr_set := True,
       ksp := 0x1000\<rparr>,
      bus = bus_init sample_giga ()\<rparr>"

lemma giga_entry:
  "ram_read sample_giga (0x1000 + (x AND 0x1FF) * 8) 8 = Some (if x AND 0x1FF = 0 then 0x4000001F else 0)"
proof (cases "x AND 0x1FF = 0")
  case True
  have "ram_read sample_giga 0x1000 8 = Some 0x4000001F" by code_simp
  with True show ?thesis by simp
next
  case False
  define i where "i = unat (x AND 0x1FF)"
  have "x AND 0x1FF \<le> 0x1FF" by (rule word_and_le1)
  then have i: "i \<le> 511" "0 < i" using False by (auto simp: i_def word_le_nat_alt unat_gt_0)
  have "unat ((x AND 0x1FF) * 8) = 8 * i" using i(1) by (simp add: unat_word_ariths i_def)
  then have a: "unat (0x1000 + (x AND 0x1FF) * 8) = 0x1000 + 8 * i"
    using i(1) by (simp add: unat_word_ariths)
  have "assemble_le (\<lambda>j. ram_data sample_giga (0x1000 + 8 * i + j)) 8 = assemble_le (\<lambda>_. 0) 8"
    using i by (intro assemble_le_cong) (auto simp: sample_giga_def)
  also have "\<dots> = 0" by code_simp
  finally show ?thesis
    using False i(1) unfolding ram_read_eq ram_range_valid_iff a by (simp add: sample_giga_def)
qed

lemma giga_translate:
  "mmu_translate sample_giga 0x1000 user va access =
     (if va \<ge> MMU_VIRTUAL_ADDRESS_LIMIT then MMU_RESULT_INVALID_VIRTUAL_ADDRESS
      else if drop_bit 30 va AND 0x1FF \<noteq> 0 then MMU_RESULT_NOT_PRESENT
      else MMU_RESULT_OK (0x40000000 OR (va AND 0x3FFFFFFF)))"
proof -
  have root: "mmu_root_valid sample_giga 0x1000" by code_simp
  have "(0x4000001F :: u64) AND MMU_PTE_VALID \<noteq> 0" "(0x4000001F :: u64) AND MMU_PTE_RESERVED_LOW_MASK = 0"
    "(0x4000001F :: u64) AND MMU_PTE_READ \<noteq> 0"
    "(0x4000001F :: u64) AND MMU_PTE_PERMISSION_MASK \<noteq> 0" "(0 :: u64) AND MMU_PTE_VALID = 0"
    by code_simp+
  then have leaf: "find_leaf sample_giga va 0x1000 mmu_shifts =
      (if drop_bit 30 va AND 0x1FF = 0 then Inr (0x4000001F, 30) else Inl MMU_RESULT_NOT_PRESENT)"
    by (simp add: giga_entry MMU_GIGA_PAGE_SHIFT_def)
  have "(0x4000001F :: u64) AND MMU_PTE_READ \<noteq> 0" "(0x4000001F :: u64) AND MMU_PTE_WRITE \<noteq> 0"
    "(0x4000001F :: u64) AND MMU_PTE_EXECUTE \<noteq> 0" "(0x4000001F :: u64) AND MMU_PTE_USER \<noteq> 0"
    by code_simp+
  then have "permission_granted 0x4000001F user access" by (cases access) (simp_all add: atomic_bits)
  moreover have "(0x4000001F :: u64) AND MMU_PTE_ADDRESS_MASK = 0x40000000"
    "(0x40000000 :: u64) AND (BIT 30 - 1) = 0" "BIT 30 - 1 = (0x3FFFFFFF :: u64)"
    "physical_range_valid sample_giga 0x40000000 (unat (BIT 30))"
    by code_simp+
  ultimately have "leaf_result sample_giga user access va 0x4000001F 30 =
      MMU_RESULT_OK (0x40000000 OR (va AND 0x3FFFFFFF))"
    by (simp add: leaf_result_def Let_def del: permission_granted.simps)
  then show ?thesis unfolding mmu_translate_eq leaf by (simp add: root)
qed


definition sample_pages :: "nat set" where
  "sample_pages = {0x40000..<0x80000}"

lemma sample_translated:
  assumes "mmu_translate sample_giga 0x1000 True va access = MMU_RESULT_OK pa"
  shows "unat pa < 0x80000000 \<and> page_of (unat pa) \<in> sample_pages"
proof -
  have pa: "pa = 0x40000000 OR (va AND 0x3FFFFFFF)"
    using assms unfolding giga_translate by (simp split: if_splits)
  have "(0x40000000 :: u64) AND (va AND 0x3FFFFFFF) = 0"
    by (simp add: and.left_commute)
  then have "pa = 0x40000000 + (va AND 0x3FFFFFFF)" unfolding pa by (simp add: disjunctive_add_eq_or)
  moreover have le: "unat (va AND 0x3FFFFFFF) \<le> 0x3FFFFFFF"
    using word_and_le1 [of va "0x3FFFFFFF"] by (simp add: word_le_nat_alt)
  ultimately have "unat pa = 0x40000000 + unat (va AND 0x3FFFFFFF)"
    by (simp add: unat_word_ariths)
  with le show ?thesis by (auto simp: page_of_def sample_pages_def)
qed

lemma sample_isolated: "page_isolated sample_pages sample_user"
proof -
  have wf: "ram_wf sample_giga" by (simp add: ram_wf_def sample_giga_def SIZE_MAX_def)
  have "page_of (unat e + i) \<notin> sample_pages"
    if "e \<in> set (walk_entries sample_giga va 0x1000 mmu_shifts)" "i < 8" for e i va
  proof -
    have "(0x4000001F :: u64) AND MMU_PTE_PERMISSION_MASK \<noteq> 0" "(0 :: u64) AND MMU_PTE_VALID = 0"
      by code_simp+
    then have "e = 0x1000 + (drop_bit 30 va AND 0x1FF) * 8"
      using that(1) by (auto simp: giga_entry MMU_GIGA_PAGE_SHIFT_def Let_def split: if_splits)
    moreover have "unat (drop_bit 30 va AND 0x1FF) \<le> 511"
      using word_and_le1 [of "drop_bit 30 va" "0x1FF"] by (simp add: word_le_nat_alt)
    ultimately have "unat e \<le> 0x1FF8" by (simp add: unat_word_ariths)
    then show ?thesis using that(2) by (auto simp: page_of_def sample_pages_def)
  qed
  then show ?thesis
    using sample_translated bus_init_ok [OF wf]
    by (auto simp: page_isolated_def sample_user_def bus_init_def sample_giga_def [symmetric])
       (simp_all add: sample_giga_def)
qed

text \<open>The kernel stack of the sample ends at virtual address \<open>0x1000\<close>.\<close>

lemma sample_slot: "stack_slot (supervisor sample_user) (ksp (cpu sample_user) - 24) 24 0x40000FE8"
proof -
  have "walk_entries sample_giga 0xFE8 0x1000 mmu_shifts = [0x1000]" by code_simp
  moreover have "(0xFE8 :: u64) < MMU_VIRTUAL_ADDRESS_LIMIT" by code_simp
  ultimately show ?thesis
    by (simp add: stack_slot_def sample_user_def bus_init_def giga_translate page_room_def not_le)
       (simp add: sample_giga_def)
qed

lemma sample_fetch:
  "fetch_u8 sample_user = (Some 0x2C, sample_user\<lparr>cpu := (cpu sample_user)\<lparr>pc := 1\<rparr>\<rparr>)"
proof -
  have lim: "MMU_VIRTUAL_ADDRESS_LIMIT \<noteq> 0" by code_simp
  have tr: "translate_address 0 MMU_ACCESS_EXECUTE True sample_user = (Some 0x40000000, sample_user)"
    by (simp add: translate_address_def sample_user_def bus_init_def giga_translate lim Let_def)
  have rd: "bus_fetch (bus sample_user) 0x40000000 1 = Some 0x2C"
    by (simp add: bus_fetch_def ram_contains_def sample_user_def bus_init_def SIZE_MAX_def ram_read_eq
        ram_range_valid_iff assemble_le_1) (simp add: sample_giga_def)
  have "segment_loop 1 MMU_ACCESS_EXECUTE True 1 1 0 sample_user = (Some [], sample_user)"
    by (subst segment_loop.simps) (simp add: give_def)
  then have seg: "segment_loop 2 MMU_ACCESS_EXECUTE True 0 0 1 sample_user =
      (Some [\<lparr>seg_virtual_address = 0, seg_physical_address = 0x40000000, seg_width = 1, seg_byte_offset = 0\<rparr>],
       sample_user)"
    by (subst segment_loop.simps) (simp add: and_then_def tr eval_nat_numeral give_def)
  show ?thesis
    using seg rd
    by (simp add: fetch_u8_def fetch_value_def memory_read_def build_memory_segments_def and_then_def
        VECTOR_REGISTER_SIZE_def sample_user_def cpu_init_def segment_read_def advance_pc_def set_cpu_def
        give_def)
qed

lemma sample_step:
  "cpu_step sample_host sample_user =
     (Some (), sample_user\<lparr>cpu := (cpu sample_user)\<lparr>pc := 1\<rparr>\<rparr>)"
proof -
  let ?m = "sample_user\<lparr>cpu := (cpu sample_user)\<lparr>instruction_pc := pc (cpu sample_user), exception_pending := False\<rparr>\<rparr>"
  have m: "?m = sample_user" by (simp add: sample_user_def cpu_init_def)
  show ?thesis
    unfolding cpu_step_def Let_def m sample_fetch
    by (simp add: execute_opcode_def opcode_handler_def OPCODE_HANDLERS_def execute_nop_def give_def)
       (simp add: sample_user_def cpu_init_def)
qed

section \<open>Properties\<close>

text \<open>C3: A user program cannot leave user mode on its own terms. Whatever instruction it
  executes, either the processor is still in user mode with the vector table, page table, kernel
  stack, interrupt enable, halt and trap state the kernel gave it, or it has entered the kernel
  through a trap: in supervisor mode with interrupts disabled, on the kernel stack just below
  the trap frame, with the same configuration, and at the address that an exception vector or the
  system call vector of the table at the vector base held at the moment of the entry; the entry
  is the last change of the memory.\<close>

theorem user_step_confined:
  assumes user: "cpu_mode (cpu m) = CPU_MODE_USER" and step: "cpu_step host m = (x, m')"
  shows "cpu_mode (cpu m') = CPU_MODE_USER \<and> same_privileged (cpu m) (cpu m') \<or>
    x = Some () \<and> trapped (cpu m) (cpu m') \<and> (\<exists>n. same_privileged (cpu m) (cpu n) \<and> vectored n m')"
proof -
  let ?trap = "x = Some () \<and> trapped (cpu m) (cpu m') \<and> (\<exists>n. same_privileged (cpu m) (cpu n) \<and> vectored n m')"
  obtain k where "user_confined m k" and k: "x = Some () \<and> m' = k \<or> deliver_exception k = (x, m') \<or>
      x = Some () \<and> execute_syscall k = (x, m') \<or>
      (\<exists>k'. execute_syscall k = (None, k') \<and> deliver_exception k' = (x, m'))"
    using user.step_outcome [OF step] by blast
  then have p: "same_privileged (cpu m) (cpu k)" and u: "cpu_mode (cpu k) = CPU_MODE_USER"
    using user by (auto simp: user_confined_def same_privileged_def)
  have d: "same_privileged (cpu m) (cpu m') \<or> ?trap"
    if deliver: "deliver_exception n = (x, m')" and sn: "same_privileged (cpu m) (cpu n)" for n
  proof -
    have "cpu_mode (cpu n) = CPU_MODE_USER" using sn user by (simp add: same_privileged_def)
    from deliver_user [OF deliver this] show ?thesis
    proof (elim disjE exE conjE)
      assume "trapped (cpu n) (cpu m')" "x = Some ()"
      moreover from \<open>x = Some ()\<close> obtain e where "excepted (cpu n) e" "vectored (n\<lparr>cpu := e\<rparr>) m'"
        using deliver_vectored [of n "()" m'] deliver by blast
      moreover have "same_privileged (cpu m) (cpu (n\<lparr>cpu := e\<rparr>))"
        using same_privileged_trans [OF sn excepted_same_privileged] \<open>excepted (cpu n) e\<close> by simp
      ultimately show ?thesis using trapped_cong [OF sn] by blast
    qed (use same_privileged_trans [OF sn] in blast)
  qed
  have "same_privileged (cpu m) (cpu m') \<or> ?trap"
    using k
  proof (elim disjE conjE exE)
    assume "x = Some ()" "execute_syscall k = (x, m')"
    then show ?thesis using syscall_user(1) [OF _ u] syscall_vectored trapped_cong [OF p] p by blast
  next
    fix k' assume "execute_syscall k = (None, k')" "deliver_exception k' = (x, m')"
    then show ?thesis
      using d same_privileged_trans [OF p excepted_same_privileged] syscall_failure by blast
  qed (use d p in auto)
  then show ?thesis using user by (auto simp: same_privileged_def)
qed

theorem user_step_confined_witness:
  "\<exists>m'. cpu_step sample_host sample_user = (Some (), m') \<and>
     (cpu_mode (cpu m') = CPU_MODE_USER \<and> same_privileged (cpu sample_user) (cpu m') \<or>
      trapped (cpu sample_user) (cpu m'))"
proof -
  have "cpu_mode (cpu sample_user) = CPU_MODE_USER" by (simp add: sample_user_def)
  from user_step_confined [OF this sample_step] sample_step show ?thesis by blast
qed

text \<open>C2: With the MMU on, a user instruction cannot change memory outside the pages the kernel
  made writable for the program, nor a device or the ROM, and it leaves the address space as
  isolated as it was; or it traps. Then the handler is an entry of the vector table as the kernel
  wrote it, and still only the pages of the program and the 24 bytes of the trap frame, at \<open>pa\<close> on
  the kernel stack, can have changed. The vector table lies outside the pages of the program, and
  the frame can be written by the kernel and does not hold the page tables that translate it.\<close>

theorem user_step_isolated:
  assumes iso: "page_isolated pages m" and step: "cpu_step host m = (Some (), m')"
    and vectors: "\<forall>i < CPU_VECTOR_TABLE_SIZE. page_of (unat (vbr (cpu m)) + i) \<notin> pages"
    and slot: "stack_slot (supervisor m) (ksp (cpu m) - 24) 24 pa"
  shows "cpu_mode (cpu m') = CPU_MODE_USER \<and> page_isolated pages m' \<and> confined pages m m' \<or>
    trapped (cpu m) (cpu m') \<and>
      (\<exists>i. CPU_VECTOR_EXCEPTION_BASE < i \<and> i \<le> CPU_VECTOR_SYSCALL \<and>
         ram_read (mach_ram m) (vbr (cpu m) + of_nat (8 * i)) 8 = Some (pc (cpu m'))) \<and>
      kept_outside pages pa 24 m m'"
proof -
  obtain k where "isolated pages m k" and k: "m' = k \<or> deliver_exception k = (Some (), m') \<or>
      execute_syscall k = (Some (), m') \<or>
      (\<exists>k'. execute_syscall k = (None, k') \<and> deliver_exception k' = (Some (), m'))"
    using user_pages.step_outcome [OF step] by blast
  then have p: "page_isolated pages k" and c: "confined pages m k" using iso by (auto simp: isolated_def)
  then have u: "cpu_mode (cpu k) = CPU_MODE_USER" and s: "same_privileged (cpu m) (cpu k)"
    by (auto simp: page_isolated_def confined_def)
  have d: ?thesis if deliver: "deliver_exception n = (Some (), m')" and n: "excepted (cpu k) (cpu n)" "bus n = bus k" for n
  proof -
    have n': "n = k\<lparr>cpu := cpu n\<rparr>" using n(2) by simp
    have "cpu_mode (cpu n) = CPU_MODE_USER" using u n(1) by (auto elim: exceptedE)
    from deliver_user [OF deliver this] obtain i where
      i: "trapped (cpu n) (cpu m')" "CPU_VECTOR_EXCEPTION_BASE < i" "i < CPU_VECTOR_SYSCALL"
        "fst (read_vector i n) = Some (pc (cpu m'))" by auto
    have "fst (read_vector i k) = Some (pc (cpu m'))" using i(4) n' read_vector_excepted [OF n(1)] by metis
    moreover have "trapped (cpu m) (cpu m')"
      using i(1) s excepted_same_privileged [OF n(1)] same_privileged_trans trapped_cong by blast
    moreover have "kept_outside pages pa 24 m m'"
      using deliver_vectored [OF deliver] confined_excepted [OF c] excepted_trans [OF n(1)] n(2)
        vectored_kept [OF iso _ slot] by fastforce
    ultimately show ?thesis using vector_kept [OF c _ vectors] i(2,3) by (meson less_imp_le)
  qed
  show ?thesis
    using k
  proof (elim disjE exE conjE)
    assume "m' = k"
    then show ?thesis using p c u by blast
  next
    assume "deliver_exception k = (Some (), m')"
    then show ?thesis using d by simp
  next
    assume sys: "execute_syscall k = (Some (), m')"
    have "CPU_VECTOR_EXCEPTION_BASE < CPU_VECTOR_SYSCALL"
      by (simp add: CPU_VECTOR_SYSCALL_def CPU_EXCEPTION_COUNT_def)
    then show ?thesis
      using syscall_user [OF sys u] vector_kept [OF c _ vectors] trapped_cong [OF s]
        vectored_kept [OF iso c slot syscall_vectored [OF sys]] by blast
  next
    fix k' assume "execute_syscall k = (None, k')" "deliver_exception k' = (Some (), m')"
    then show ?thesis using d [of k'] syscall_kept [OF iso c slot] syscall_failure [of k k'] by blast
  qed
qed

theorem user_step_isolated_witness:
  "\<exists>m'. cpu_step sample_host sample_user = (Some (), m') \<and>
     page_isolated sample_pages m' \<and> confined sample_pages sample_user m'"
proof -
  have "\<forall>i < CPU_VECTOR_TABLE_SIZE. page_of (unat (vbr (cpu sample_user)) + i) \<notin> sample_pages"
    by (auto simp: sample_user_def cpu_init_def page_of_def sample_pages_def CPU_VECTOR_TABLE_SIZE_def
        CPU_VECTOR_ENTRY_COUNT_def CPU_VECTOR_ENTRY_SIZE_def CPU_VECTOR_SYSCALL_def
        CPU_VECTOR_EXCEPTION_BASE_def INTERRUPT_LINE_COUNT_def CPU_EXCEPTION_COUNT_def)
  from user_step_isolated [OF sample_isolated sample_step this sample_slot]
    user_step_stays [OF sample_isolated sample_step] sample_step
  show ?thesis by (simp add: sample_user_def)
qed

text \<open>C1: However long a program runs in user mode, it changes nothing outside its writable
  pages: every other byte of memory, every device, the ROM and the privileged registers are as
  they were, and its address space is as isolated as before.\<close>

theorem user_program_isolated:
  assumes "page_isolated pages m" and "user_steps host n m = Some m'"
  shows "page_isolated pages m' \<and> confined pages m m'"
  using assms
proof (induction n arbitrary: m)
  case (Suc n)
  then obtain x k where step: "cpu_step host m = (Some x, k)" "cpu_mode (cpu k) = CPU_MODE_USER"
      "user_steps host n k = Some m'"
    by (auto split: option.splits prod.splits if_splits)
  have "page_isolated pages k \<and> confined pages m k" by (rule user_step_stays [OF Suc.prems(1) step(1,2)])
  with Suc.IH [OF _ step(3)] confined_trans show ?case by blast
qed simp

theorem user_program_isolated_witness:
  "\<exists>m'. user_steps sample_host 1 sample_user = Some m' \<and> confined sample_pages sample_user m'"
proof -
  have "cpu_mode (cpu sample_user) = CPU_MODE_USER" by (simp add: sample_user_def)
  then have "user_steps sample_host 1 sample_user = Some (sample_user\<lparr>cpu := (cpu sample_user)\<lparr>pc := 1\<rparr>\<rparr>)"
    by (simp add: sample_step)
  with user_program_isolated [OF sample_isolated this] show ?thesis by blast
qed

end
