(* ===== verification/Ring_Buffer.thy ===== *)
theory Ring_Buffer
  imports Prelude
begin

text \<open>
  Ring buffers: the devices keep their queues in an array with a head index and a count.
  \<open>ring\<close> is the list a ring buffer stands for, \<open>bounded_fifo\<close> the contract of a bounded
  first-in first-out queue, and \<open>fifo_run\<close> a session of insertions and removals in any order.
\<close>

section \<open>The contents of a ring\<close>

definition ring :: "'a list \<Rightarrow> nat \<Rightarrow> nat \<Rightarrow> 'a list" where
  "ring buf head count = map (\<lambda>i. buf ! ((head + i) mod length buf)) [0..<count]"

lemma length_ring [simp]: "length (ring buf head count) = count"
  by (simp add: ring_def)

lemma ring_0 [simp]: "ring buf head 0 = []"
  by (simp add: ring_def)

lemma ring_Nil_iff [simp]: "ring buf head count = [] \<longleftrightarrow> count = 0"
  by (simp add: ring_def)

lemma ring_index_distinct:
  fixes head i j n :: nat
  assumes "i < j" "j < n"
  shows "(head + i) mod n \<noteq> (head + j) mod n"
proof
  assume "(head + i) mod n = (head + j) mod n"
  then have "n dvd (head + j) - (head + i)" using assms by (intro mod_eq_dvd_iff_nat [THEN iffD1]) auto
  then have "n \<le> j - i" using assms by (auto dest: dvd_imp_le)
  with assms show False by simp
qed

lemma ring_put:
  assumes "count < length buf"
  shows "ring (buf[(head + count) mod length buf := x]) head (Suc count) = ring buf head count @ [x]"
proof -
  let ?n = "length buf"
  have "buf[(head + count) mod ?n := x] ! ((head + i) mod ?n) = buf ! ((head + i) mod ?n)" if "i < count" for i
    using ring_index_distinct [of i count ?n head] that assms by (intro nth_list_update_neq) auto
  moreover have "(head + count) mod ?n < ?n" using assms by (intro mod_less_divisor) auto
  ultimately show ?thesis by (simp add: ring_def)
qed

lemma ring_put_index:
  assumes "count < length buf" "tail = (head + count) mod length buf"
  shows "ring (buf[tail := x]) head (Suc count) = ring buf head count @ [x]"
  using ring_put [OF assms(1)] assms(2) by simp

lemma ring_take:
  assumes "0 < count" "head < length buf"
  shows "ring buf head count = buf ! head # ring buf ((head + 1) mod length buf) (count - 1)"
proof -
  have "[0..<count] = 0 # map Suc [0..<count - 1]"
    using assms(1) by (simp add: map_Suc_upt upt_conv_Cons)
  then show ?thesis
    using assms(2) by (simp add: ring_def o_def mod_simps)
qed

section \<open>Bounded queues\<close>

datatype 'a fifo_command = Put 'a | Take

text \<open>A session returns the items that were accepted, the items that were taken, and the final
  state.\<close>

fun fifo_run ::
  "('a \<Rightarrow> 's \<Rightarrow> bool \<times> 's) \<Rightarrow> ('s \<Rightarrow> 'a option \<times> 's) \<Rightarrow> 'a fifo_command list \<Rightarrow> 's \<Rightarrow> 'a list \<times> 'a list \<times> 's" where
  "fifo_run put pop [] s = ([], [], s)"
| "fifo_run put pop (Put x # cs) s =
     (let (accepted, s') = put x s; (ins, outs, s'') = fifo_run put pop cs s'
      in (if accepted then x # ins else ins, outs, s''))"
| "fifo_run put pop (Take # cs) s =
     (let (item, s') = pop s; (ins, outs, s'') = fifo_run put pop cs s'
      in (ins, (case item of None \<Rightarrow> outs | Some x \<Rightarrow> x # outs), s''))"

locale bounded_fifo =
  fixes ok :: "'s \<Rightarrow> bool" and contents :: "'s \<Rightarrow> 'a list" and capacity :: nat
    and put :: "'a \<Rightarrow> 's \<Rightarrow> bool \<times> 's" and pop :: "'s \<Rightarrow> 'a option \<times> 's"
  assumes bounded: "ok s \<Longrightarrow> length (contents s) \<le> capacity"
    and put_law: "ok s \<Longrightarrow> put x s = (accepted, s') \<Longrightarrow>
      ok s' \<and> accepted = (length (contents s) < capacity) \<and>
      contents s' = (if accepted then contents s @ [x] else contents s)"
    and pop_law: "ok s \<Longrightarrow> pop s = (item, s') \<Longrightarrow>
      ok s' \<and> (case contents s of [] \<Rightarrow> item = None \<and> contents s' = []
                | x # xs \<Rightarrow> item = Some x \<and> contents s' = xs)"
begin

text \<open>Nothing is lost, duplicated or reordered, whatever the interleaving.\<close>

lemma run_in_order:
  assumes "ok s" "fifo_run put pop cs s = (ins, outs, s')"
  shows "ok s' \<and> contents s @ ins = outs @ contents s'"
  using assms
proof (induction cs arbitrary: s ins outs)
  case (Cons c cs)
  show ?case
  proof (cases c)
    case (Put x)
    obtain b t where p: "put x s = (b, t)" by fastforce
    obtain i where r: "fifo_run put pop cs t = (i, outs, s')" and i: "ins = (if b then x # i else i)"
      using Cons.prems(2) Put p by (auto split: prod.splits)
    show ?thesis using put_law [OF Cons.prems(1) p] Cons.IH [OF _ r] i by (auto split: if_splits)
  next
    case Take
    obtain y t where p: "pop s = (y, t)" by fastforce
    obtain u where r: "fifo_run put pop cs t = (ins, u, s')"
        and u: "outs = (case y of None \<Rightarrow> u | Some x \<Rightarrow> x # u)"
      using Cons.prems(2) Take p by (auto split: prod.splits)
    show ?thesis using pop_law [OF Cons.prems(1) p] Cons.IH [OF _ r] u by (cases "contents s") auto
  qed
qed simp

lemma run_bounded:
  assumes "ok s" "fifo_run put pop cs s = (ins, outs, s')"
  shows "length (contents s) + length ins \<le> length outs + capacity"
proof -
  have "length (contents s @ ins) = length (outs @ contents s')" "length (contents s') \<le> capacity"
    using run_in_order [OF assms] bounded by auto
  then show ?thesis by simp
qed

end

end
