(* ===== verification/Simulation.thy ===== *)
theory Simulation
  imports Main
begin

text \<open>
  The contract between a component and its specification: both answer events, and the
  component answers every event as the specification does from the state it stands for. What
  follows for sessions of any length is proved once here.
\<close>

fun session :: "('e \<Rightarrow> 's \<Rightarrow> 'a \<times> 's) \<Rightarrow> 'e list \<Rightarrow> 's \<Rightarrow> 'a list \<times> 's" where
  "session step [] s = ([], s)"
| "session step (e # es) s =
     (let (a, s') = step e s; (as, s'') = session step es s' in (a # as, s''))"

locale simulation =
  fixes step :: "'e \<Rightarrow> 's \<Rightarrow> 'a \<times> 's"
    and spec :: "'e \<Rightarrow> 't \<Rightarrow> 'a \<times> 't"
    and ok :: "'s \<Rightarrow> bool"
    and abs :: "'s \<Rightarrow> 't"
  assumes step_simulates: "ok s \<Longrightarrow> step e s = (a, s') \<Longrightarrow> ok s' \<and> spec e (abs s) = (a, abs s')"
begin

lemma session_simulates:
  assumes "ok s" "session step es s = (as, s')"
  shows "ok s' \<and> session spec es (abs s) = (as, abs s')"
  using assms
proof (induction es arbitrary: s as)
  case (Cons e es)
  then show ?case using step_simulates [OF Cons.prems(1)] by (fastforce split: prod.splits)
qed simp

end

end
