(* ===== verification/Uart.thy ===== *)
theory Uart
  imports Interrupt Ring_Buffer Simulation
begin

text \<open>
  The serial port (\<^verbatim>\<open>src/uart.c\<close>): receive and transmit queues of 256 bytes in ring buffers,
  a control, baud, error and interrupt status register, and the host callback that takes the
  transmitted bytes. A callback acts on a host world \<open>'h\<close>; \<open>None\<close> is the null
  pointer. Each critical section under the lock of the device is one operation.

  The device implements \<open>uart_spec\<close>, a port whose queues are lists.
\<close>

section \<open>Registers\<close>

definition UART_FIFO_CAPACITY :: nat where "UART_FIFO_CAPACITY = 256"
definition UART_DEFAULT_BAUD :: u64 where "UART_DEFAULT_BAUD = 115200"
definition UART_TXDATA_OFFSET :: u64 where "UART_TXDATA_OFFSET = 0"
definition UART_RXDATA_OFFSET :: u64 where "UART_RXDATA_OFFSET = 8"
definition UART_STATUS_OFFSET :: u64 where "UART_STATUS_OFFSET = 16"
definition UART_CONTROL_OFFSET :: u64 where "UART_CONTROL_OFFSET = 24"
definition UART_BAUD_OFFSET :: u64 where "UART_BAUD_OFFSET = 32"
definition UART_IRQ_STATUS_OFFSET :: u64 where "UART_IRQ_STATUS_OFFSET = 40"
definition UART_STATUS_RX_READY :: u64 where "UART_STATUS_RX_READY = BIT 0"
definition UART_STATUS_TX_READY :: u64 where "UART_STATUS_TX_READY = BIT 1"
definition UART_STATUS_RX_OVERRUN :: u64 where "UART_STATUS_RX_OVERRUN = BIT 2"
definition UART_STATUS_TX_OVERRUN :: u64 where "UART_STATUS_TX_OVERRUN = BIT 3"
definition UART_STATUS_TX_EMPTY :: u64 where "UART_STATUS_TX_EMPTY = BIT 4"
definition UART_CONTROL_ENABLE :: u64 where "UART_CONTROL_ENABLE = BIT 0"
definition UART_CONTROL_RX_IRQ_ENABLE :: u64 where "UART_CONTROL_RX_IRQ_ENABLE = BIT 1"
definition UART_CONTROL_TX_IRQ_ENABLE :: u64 where "UART_CONTROL_TX_IRQ_ENABLE = BIT 2"
definition UART_IRQ_RX_PENDING :: u64 where "UART_IRQ_RX_PENDING = BIT 0"
definition UART_IRQ_TX_PENDING :: u64 where "UART_IRQ_TX_PENDING = BIT 1"

definition UART_CONTROL_MASK :: u64 where
  "UART_CONTROL_MASK = UART_CONTROL_ENABLE OR UART_CONTROL_RX_IRQ_ENABLE OR UART_CONTROL_TX_IRQ_ENABLE"

definition UART_ERROR_STATUS_MASK :: u64 where
  "UART_ERROR_STATUS_MASK = UART_STATUS_RX_OVERRUN OR UART_STATUS_TX_OVERRUN"

definition UART_IRQ_STATUS_MASK :: u64 where
  "UART_IRQ_STATUS_MASK = UART_IRQ_RX_PENDING OR UART_IRQ_TX_PENDING"

section \<open>The device\<close>

record 'h uart =
  rx_fifo :: "u8 list"
  tx_fifo :: "u8 list"
  rx_head :: nat
  rx_tail :: nat
  rx_count :: nat
  tx_head :: nat
  tx_tail :: nat
  tx_count :: nat
  uart_control :: u64
  baud :: u64
  error_status :: u64
  irq_status :: u64
  uart_line :: nat
  tx_callback :: "(u8 \<Rightarrow> 'h \<Rightarrow> 'h) option"

definition uart_status_locked :: "'h uart \<Rightarrow> u64" where
  "uart_status_locked uart =
     error_status uart OR
     (if rx_count uart \<noteq> 0 then UART_STATUS_RX_READY else 0) OR
     (if uart_control uart AND UART_CONTROL_ENABLE \<noteq> 0 \<and> tx_count uart < UART_FIFO_CAPACITY
      then UART_STATUS_TX_READY else 0) OR
     (if tx_count uart = 0 then UART_STATUS_TX_EMPTY else 0)"

definition uart_read :: "'h uart \<Rightarrow> u64 \<Rightarrow> nat \<Rightarrow> u64 option \<times> 'h uart" where
  "uart_read uart offset width =
     (if offset = UART_RXDATA_OFFSET \<and> width = 1 then
        if rx_count uart = 0 then (Some 0, uart)
        else
          let result = ucast (rx_fifo uart ! rx_head uart);
              uart = uart\<lparr>rx_head := (rx_head uart + 1) mod UART_FIFO_CAPACITY,
                          rx_count := rx_count uart - 1\<rparr>
          in (Some result,
              if rx_count uart = 0
              then uart\<lparr>irq_status := irq_status uart AND NOT UART_IRQ_RX_PENDING\<rparr> else uart)
      else if width \<noteq> 8 then (None, uart)
      else if offset = UART_STATUS_OFFSET then (Some (uart_status_locked uart), uart)
      else if offset = UART_CONTROL_OFFSET then (Some (uart_control uart), uart)
      else if offset = UART_BAUD_OFFSET then (Some (baud uart), uart)
      else if offset = UART_IRQ_STATUS_OFFSET then (Some (irq_status uart), uart)
      else (None, uart))"

definition uart_write :: "'h uart \<Rightarrow> u64 \<Rightarrow> nat \<Rightarrow> u64 \<Rightarrow> bool \<times> 'h uart" where
  "uart_write uart offset width v =
     (if offset = UART_TXDATA_OFFSET \<and> width = 1 then
        (True,
         if uart_control uart AND UART_CONTROL_ENABLE \<noteq> 0 then
           if tx_count uart = UART_FIFO_CAPACITY
           then uart\<lparr>error_status := error_status uart OR UART_STATUS_TX_OVERRUN\<rparr>
           else uart\<lparr>tx_fifo := (tx_fifo uart)[tx_tail uart := ucast v],
                     tx_tail := (tx_tail uart + 1) mod UART_FIFO_CAPACITY,
                     tx_count := tx_count uart + 1,
                     irq_status := irq_status uart AND NOT UART_IRQ_TX_PENDING\<rparr>
         else uart)
      else if width \<noteq> 8 then (False, uart)
      else if offset = UART_STATUS_OFFSET then
        (True, uart\<lparr>error_status := error_status uart AND NOT (v AND UART_ERROR_STATUS_MASK)\<rparr>)
      else if offset = UART_CONTROL_OFFSET then
        (True, uart\<lparr>uart_control := v AND UART_CONTROL_MASK\<rparr>)
      else if offset = UART_BAUD_OFFSET then (True, uart\<lparr>baud := v\<rparr>)
      else if offset = UART_IRQ_STATUS_OFFSET then
        (True, uart\<lparr>irq_status := irq_status uart AND NOT (v AND UART_IRQ_STATUS_MASK)\<rparr>)
      else (False, uart))"

text \<open>The loop of \<open>uart_device_flush_tx\<close>: one turn takes one byte off the queue.\<close>

function uart_device_flush_tx :: "'h uart \<Rightarrow> 'h \<Rightarrow> nat \<times> 'h uart \<times> 'h" where
  "uart_device_flush_tx uart h =
     (case tx_callback uart of
        None \<Rightarrow> (0, uart, h)
      | Some callback \<Rightarrow>
          if tx_count uart = 0 then (0, uart, h)
          else
            let v = tx_fifo uart ! tx_head uart;
                count = tx_count uart - 1;
                uart = uart\<lparr>tx_head := (tx_head uart + 1) mod UART_FIFO_CAPACITY, tx_count := count,
                            irq_status := (if count = 0 then irq_status uart OR UART_IRQ_TX_PENDING
                                           else irq_status uart)\<rparr>;
                (delivered, uart, h) = uart_device_flush_tx uart (callback v h)
            in (delivered + 1, uart, h))"
  by pat_completeness auto
termination
  by (relation "measure (\<lambda>(uart, h). tx_count uart)") auto

declare uart_device_flush_tx.simps [simp del]

definition uart_tick ::
  "'h uart \<Rightarrow> u64 \<Rightarrow> interrupt_router \<Rightarrow> 'h \<Rightarrow> 'h uart \<times> interrupt_router \<times> 'h" where
  "uart_tick uart ticks router h =
     (if ticks = 0 then (uart, router, h)
      else
        let enabled = uart_control uart AND UART_CONTROL_ENABLE \<noteq> 0;
            (uart, h) = (if enabled then snd (uart_device_flush_tx uart h) else (uart, h));
            uart = (if enabled \<and> rx_count uart \<noteq> 0
                    then uart\<lparr>irq_status := irq_status uart OR UART_IRQ_RX_PENDING\<rparr> else uart);
            enabled_pending = irq_status uart AND
              ((if uart_control uart AND UART_CONTROL_RX_IRQ_ENABLE \<noteq> 0 then UART_IRQ_RX_PENDING else 0) OR
               (if uart_control uart AND UART_CONTROL_TX_IRQ_ENABLE \<noteq> 0 then UART_IRQ_TX_PENDING else 0))
        in (uart,
            if enabled \<and> enabled_pending \<noteq> 0 then snd (interrupt_router_raise router (uart_line uart))
            else router, h))"

definition uart_device_init :: "nat \<Rightarrow> 'h uart option" where
  "uart_device_init line =
     (if line \<ge> INTERRUPT_LINE_COUNT then None
      else Some \<lparr>rx_fifo = replicate UART_FIFO_CAPACITY 0, tx_fifo = replicate UART_FIFO_CAPACITY 0,
                 rx_head = 0, rx_tail = 0, rx_count = 0, tx_head = 0, tx_tail = 0, tx_count = 0,
                 uart_control = 0, baud = UART_DEFAULT_BAUD, error_status = 0, irq_status = 0,
                 uart_line = line, tx_callback = None\<rparr>)"

definition uart_reset :: "'h uart \<Rightarrow> 'h uart" where
  "uart_reset uart =
     uart\<lparr>rx_head := 0, rx_tail := 0, rx_count := 0, tx_head := 0, tx_tail := 0, tx_count := 0,
          uart_control := 0, baud := UART_DEFAULT_BAUD, error_status := 0, irq_status := 0\<rparr>"

definition uart_device_set_tx_callback :: "'h uart \<Rightarrow> (u8 \<Rightarrow> 'h \<Rightarrow> 'h) option \<Rightarrow> 'h uart" where
  "uart_device_set_tx_callback uart callback = uart\<lparr>tx_callback := callback\<rparr>"

definition uart_device_receive_byte :: "'h uart \<Rightarrow> u8 \<Rightarrow> bool \<times> 'h uart" where
  "uart_device_receive_byte uart v =
     (if uart_control uart AND UART_CONTROL_ENABLE = 0 then (False, uart)
      else if rx_count uart = UART_FIFO_CAPACITY then
        (False, uart\<lparr>error_status := error_status uart OR UART_STATUS_RX_OVERRUN,
                     irq_status := irq_status uart OR UART_IRQ_RX_PENDING\<rparr>)
      else
        (True, uart\<lparr>rx_fifo := (rx_fifo uart)[rx_tail uart := v],
                    rx_tail := (rx_tail uart + 1) mod UART_FIFO_CAPACITY,
                    rx_count := rx_count uart + 1,
                    irq_status := irq_status uart OR UART_IRQ_RX_PENDING\<rparr>))"

fun uart_device_receive :: "'h uart \<Rightarrow> u8 list \<Rightarrow> nat \<times> 'h uart" where
  "uart_device_receive uart [] = (0, uart)"
| "uart_device_receive uart (v # data) =
     (case uart_device_receive_byte uart v of
        (False, uart) \<Rightarrow> (0, uart)
      | (True, uart) \<Rightarrow> let (accepted, uart) = uart_device_receive uart data in (accepted + 1, uart))"

text \<open>What reaches the port: guest loads and stores, host input, ticks, reset and the callback
  registration. An answer is the value of a load, the success of a store, or the number of bytes
  accepted or delivered.\<close>

datatype 'h uart_event =
  Uart_Load u64 nat
| Uart_Store u64 nat u64
| Uart_Input "u8 list"
| Uart_Flush
| Uart_Tick u64
| Uart_Reset
| Uart_Callback "(u8 \<Rightarrow> 'h \<Rightarrow> 'h) option"

datatype uart_answer = Loaded "u64 option" | Stored bool | Count nat | Done

fun uart_step ::
  "'h uart_event \<Rightarrow> 'h uart \<times> interrupt_router \<times> 'h \<Rightarrow> uart_answer \<times> 'h uart \<times> interrupt_router \<times> 'h" where
  "uart_step (Uart_Load offset width) (u, r, h) = (let (v, u) = uart_read u offset width in (Loaded v, u, r, h))"
| "uart_step (Uart_Store offset width v) (u, r, h) = (let (b, u) = uart_write u offset width v in (Stored b, u, r, h))"
| "uart_step (Uart_Input data) (u, r, h) = (let (n, u) = uart_device_receive u data in (Count n, u, r, h))"
| "uart_step Uart_Flush (u, r, h) = (let (n, u, h) = uart_device_flush_tx u h in (Count n, u, r, h))"
| "uart_step (Uart_Tick ticks) (u, r, h) = (Done, uart_tick u ticks r h)"
| "uart_step Uart_Reset (u, r, h) = (Done, uart_reset u, r, h)"
| "uart_step (Uart_Callback callback) (u, r, h) = (Done, uart_device_set_tx_callback u callback, r, h)"

section \<open>The specification: a port with lists for queues\<close>

record 'h port =
  input :: "u8 list"
  transmit :: "u8 list"
  p_control :: u64
  p_baud :: u64
  p_error :: u64
  p_irq :: u64
  p_line :: nat
  p_callback :: "(u8 \<Rightarrow> 'h \<Rightarrow> 'h) option"

definition port_enabled :: "'h port \<Rightarrow> bool" where
  "port_enabled p \<longleftrightarrow> p_control p AND UART_CONTROL_ENABLE \<noteq> 0"

definition port_status :: "'h port \<Rightarrow> u64" where
  "port_status p =
     p_error p OR (if input p \<noteq> [] then UART_STATUS_RX_READY else 0) OR
     (if port_enabled p \<and> length (transmit p) < UART_FIFO_CAPACITY then UART_STATUS_TX_READY else 0) OR
     (if transmit p = [] then UART_STATUS_TX_EMPTY else 0)"

definition port_read :: "'h port \<Rightarrow> u64 \<Rightarrow> nat \<Rightarrow> u64 option \<times> 'h port" where
  "port_read p offset width =
     (if offset = UART_RXDATA_OFFSET \<and> width = 1 then
        (case input p of
           [] \<Rightarrow> (Some 0, p)
         | b # bs \<Rightarrow> (Some (ucast b),
             p\<lparr>input := bs, p_irq := (if bs = [] then p_irq p AND NOT UART_IRQ_RX_PENDING else p_irq p)\<rparr>))
      else if width \<noteq> 8 then (None, p)
      else if offset = UART_STATUS_OFFSET then (Some (port_status p), p)
      else if offset = UART_CONTROL_OFFSET then (Some (p_control p), p)
      else if offset = UART_BAUD_OFFSET then (Some (p_baud p), p)
      else if offset = UART_IRQ_STATUS_OFFSET then (Some (p_irq p), p)
      else (None, p))"

definition port_write :: "'h port \<Rightarrow> u64 \<Rightarrow> nat \<Rightarrow> u64 \<Rightarrow> bool \<times> 'h port" where
  "port_write p offset width v =
     (if offset = UART_TXDATA_OFFSET \<and> width = 1 then
        (True,
         if \<not> port_enabled p then p
         else if length (transmit p) = UART_FIFO_CAPACITY then p\<lparr>p_error := p_error p OR UART_STATUS_TX_OVERRUN\<rparr>
         else p\<lparr>transmit := transmit p @ [ucast v], p_irq := p_irq p AND NOT UART_IRQ_TX_PENDING\<rparr>)
      else if width \<noteq> 8 then (False, p)
      else if offset = UART_STATUS_OFFSET then
        (True, p\<lparr>p_error := p_error p AND NOT (v AND UART_ERROR_STATUS_MASK)\<rparr>)
      else if offset = UART_CONTROL_OFFSET then (True, p\<lparr>p_control := v AND UART_CONTROL_MASK\<rparr>)
      else if offset = UART_BAUD_OFFSET then (True, p\<lparr>p_baud := v\<rparr>)
      else if offset = UART_IRQ_STATUS_OFFSET then
        (True, p\<lparr>p_irq := p_irq p AND NOT (v AND UART_IRQ_STATUS_MASK)\<rparr>)
      else (False, p))"

text \<open>The host gets the whole transmit queue, in order.\<close>

definition port_flush :: "'h port \<Rightarrow> 'h \<Rightarrow> nat \<times> 'h port \<times> 'h" where
  "port_flush p h =
     (case p_callback p of
        None \<Rightarrow> (0, p, h)
      | Some callback \<Rightarrow>
          (length (transmit p),
           p\<lparr>transmit := [], p_irq := (if transmit p = [] then p_irq p else p_irq p OR UART_IRQ_TX_PENDING)\<rparr>,
           fold callback (transmit p) h))"

definition port_tick :: "'h port \<Rightarrow> u64 \<Rightarrow> interrupt_router \<Rightarrow> 'h \<Rightarrow> 'h port \<times> interrupt_router \<times> 'h" where
  "port_tick p ticks router h =
     (if ticks = 0 \<or> \<not> port_enabled p then (p, router, h)
      else
        let (p, h) = snd (port_flush p h);
            p = (if input p \<noteq> [] then p\<lparr>p_irq := p_irq p OR UART_IRQ_RX_PENDING\<rparr> else p);
            rx = p_irq p AND UART_IRQ_RX_PENDING \<noteq> 0 \<and> p_control p AND UART_CONTROL_RX_IRQ_ENABLE \<noteq> 0;
            tx = p_irq p AND UART_IRQ_TX_PENDING \<noteq> 0 \<and> p_control p AND UART_CONTROL_TX_IRQ_ENABLE \<noteq> 0
        in (p, if rx \<or> tx then snd (interrupt_router_raise router (p_line p)) else router, h))"

text \<open>The bytes that fit are accepted, and the first one that does not is an overrun.\<close>

definition port_receive :: "'h port \<Rightarrow> u8 list \<Rightarrow> nat \<times> 'h port" where
  "port_receive p data =
     (if \<not> port_enabled p \<or> data = [] then (0, p)
      else
        let n = min (length data) (UART_FIFO_CAPACITY - length (input p))
        in (n, p\<lparr>input := input p @ take n data, p_irq := p_irq p OR UART_IRQ_RX_PENDING,
                 p_error := (if n < length data then p_error p OR UART_STATUS_RX_OVERRUN else p_error p)\<rparr>))"

definition port_reset :: "'h port \<Rightarrow> 'h port" where
  "port_reset p =
     p\<lparr>input := [], transmit := [], p_control := 0, p_baud := UART_DEFAULT_BAUD, p_error := 0, p_irq := 0\<rparr>"

fun port_step ::
  "'h uart_event \<Rightarrow> 'h port \<times> interrupt_router \<times> 'h \<Rightarrow> uart_answer \<times> 'h port \<times> interrupt_router \<times> 'h" where
  "port_step (Uart_Load offset width) (p, r, h) = (let (v, p) = port_read p offset width in (Loaded v, p, r, h))"
| "port_step (Uart_Store offset width v) (p, r, h) = (let (b, p) = port_write p offset width v in (Stored b, p, r, h))"
| "port_step (Uart_Input data) (p, r, h) = (let (n, p) = port_receive p data in (Count n, p, r, h))"
| "port_step Uart_Flush (p, r, h) = (let (n, p, h) = port_flush p h in (Count n, p, r, h))"
| "port_step (Uart_Tick ticks) (p, r, h) = (Done, port_tick p ticks r h)"
| "port_step Uart_Reset (p, r, h) = (Done, port_reset p, r, h)"
| "port_step (Uart_Callback callback) (p, r, h) = (Done, p\<lparr>p_callback := callback\<rparr>, r, h)"

section \<open>The port a device stands for\<close>

definition uart_ok :: "'h uart \<Rightarrow> bool" where
  "uart_ok u \<longleftrightarrow>
     length (rx_fifo u) = UART_FIFO_CAPACITY \<and> length (tx_fifo u) = UART_FIFO_CAPACITY \<and>
     rx_head u < UART_FIFO_CAPACITY \<and> tx_head u < UART_FIFO_CAPACITY \<and>
     rx_count u \<le> UART_FIFO_CAPACITY \<and> tx_count u \<le> UART_FIFO_CAPACITY \<and>
     rx_tail u = (rx_head u + rx_count u) mod UART_FIFO_CAPACITY \<and>
     tx_tail u = (tx_head u + tx_count u) mod UART_FIFO_CAPACITY"

definition rx_queue :: "'h uart \<Rightarrow> u8 list" where
  "rx_queue u = ring (rx_fifo u) (rx_head u) (rx_count u)"

definition tx_queue :: "'h uart \<Rightarrow> u8 list" where
  "tx_queue u = ring (tx_fifo u) (tx_head u) (tx_count u)"

definition uart_abs :: "'h uart \<Rightarrow> 'h port" where
  "uart_abs u =
     \<lparr>input = rx_queue u, transmit = tx_queue u, p_control = uart_control u, p_baud = baud u,
      p_error = error_status u, p_irq = irq_status u, p_line = uart_line u, p_callback = tx_callback u\<rparr>"

lemma uart_abs_sel [simp]:
  "input (uart_abs u) = rx_queue u" "transmit (uart_abs u) = tx_queue u"
  "p_control (uart_abs u) = uart_control u" "p_baud (uart_abs u) = baud u"
  "p_error (uart_abs u) = error_status u" "p_irq (uart_abs u) = irq_status u"
  "p_line (uart_abs u) = uart_line u" "p_callback (uart_abs u) = tx_callback u"
  by (simp_all add: uart_abs_def)

lemma capacity_positive [simp]: "0 < UART_FIFO_CAPACITY" "UART_FIFO_CAPACITY \<noteq> 0"
  by (simp_all add: UART_FIFO_CAPACITY_def)

lemma queue_length [simp]: "length (rx_queue u) = rx_count u" "length (tx_queue u) = tx_count u"
  by (simp_all add: rx_queue_def tx_queue_def)

lemma queue_Nil [simp]: "rx_queue u = [] \<longleftrightarrow> rx_count u = 0" "tx_queue u = [] \<longleftrightarrow> tx_count u = 0"
  by (simp_all add: rx_queue_def tx_queue_def)

lemma queue_empty [simp]: "rx_count u = 0 \<Longrightarrow> rx_queue u = []" "tx_count u = 0 \<Longrightarrow> tx_queue u = []"
  by (simp_all add: rx_queue_def tx_queue_def)

lemma rx_pop:
  assumes "uart_ok u" "rx_count u = Suc c"
  shows "rx_queue u = rx_fifo u ! rx_head u # ring (rx_fifo u) (Suc (rx_head u) mod UART_FIFO_CAPACITY) c"
  using ring_take [of "rx_count u" "rx_head u" "rx_fifo u"] assms by (simp add: rx_queue_def uart_ok_def)

lemma tx_pop:
  assumes "uart_ok u" "tx_count u = Suc c"
  shows "tx_queue u = tx_fifo u ! tx_head u # ring (tx_fifo u) (Suc (tx_head u) mod UART_FIFO_CAPACITY) c"
  using ring_take [of "tx_count u" "tx_head u" "tx_fifo u"] assms by (simp add: tx_queue_def uart_ok_def)

lemma rx_push:
  assumes "uart_ok u" "rx_count u \<noteq> UART_FIFO_CAPACITY"
  shows "ring ((rx_fifo u)[rx_tail u := x]) (rx_head u) (rx_count u + 1) = rx_queue u @ [x]"
  using ring_put_index [of "rx_count u" "rx_fifo u"] assms by (simp add: rx_queue_def uart_ok_def)

lemma tx_push:
  assumes "uart_ok u" "tx_count u \<noteq> UART_FIFO_CAPACITY"
  shows "ring ((tx_fifo u)[tx_tail u := x]) (tx_head u) (tx_count u + 1) = tx_queue u @ [x]"
  using ring_put_index [of "tx_count u" "tx_fifo u"] assms by (simp add: tx_queue_def uart_ok_def)

lemma status_abs: "uart_status_locked u = port_status (uart_abs u)"
  by (simp add: uart_status_locked_def port_status_def port_enabled_def)

section \<open>Every operation\<close>

lemma pop_ok:
  assumes "uart_ok u"
  shows "rx_count u = Suc c \<Longrightarrow>
      uart_ok (u\<lparr>rx_head := Suc (rx_head u) mod UART_FIFO_CAPACITY, rx_count := c, irq_status := q\<rparr>)"
    "tx_count u = Suc c \<Longrightarrow>
      uart_ok (u\<lparr>tx_head := Suc (tx_head u) mod UART_FIFO_CAPACITY, tx_count := c, irq_status := q\<rparr>)"
  using assms by (simp_all add: uart_ok_def mod_simps)

lemma push_ok:
  assumes "uart_ok u"
  shows "rx_count u \<noteq> UART_FIFO_CAPACITY \<Longrightarrow>
      uart_ok (u\<lparr>rx_fifo := (rx_fifo u)[rx_tail u := x], rx_tail := Suc (rx_tail u) mod UART_FIFO_CAPACITY,
        rx_count := Suc (rx_count u), irq_status := q\<rparr>)"
    "tx_count u \<noteq> UART_FIFO_CAPACITY \<Longrightarrow>
      uart_ok (u\<lparr>tx_fifo := (tx_fifo u)[tx_tail u := x], tx_tail := Suc (tx_tail u) mod UART_FIFO_CAPACITY,
        tx_count := Suc (tx_count u), irq_status := q\<rparr>)"
  using assms by (simp_all add: uart_ok_def mod_simps)

lemma register_ok [simp]:
  "uart_ok (u\<lparr>error_status := e\<rparr>) = uart_ok u" "uart_ok (u\<lparr>irq_status := q\<rparr>) = uart_ok u"
  "uart_ok (u\<lparr>uart_control := c\<rparr>) = uart_ok u" "uart_ok (u\<lparr>baud := d\<rparr>) = uart_ok u"
  "uart_ok (u\<lparr>tx_callback := cb\<rparr>) = uart_ok u"
  by (simp_all add: uart_ok_def)

lemma register_abs [simp]:
  "uart_abs (u\<lparr>error_status := e\<rparr>) = (uart_abs u)\<lparr>p_error := e\<rparr>"
  "uart_abs (u\<lparr>irq_status := q\<rparr>) = (uart_abs u)\<lparr>p_irq := q\<rparr>"
  "uart_abs (u\<lparr>uart_control := c\<rparr>) = (uart_abs u)\<lparr>p_control := c\<rparr>"
  "uart_abs (u\<lparr>baud := d\<rparr>) = (uart_abs u)\<lparr>p_baud := d\<rparr>"
  "uart_abs (u\<lparr>tx_callback := cb\<rparr>) = (uart_abs u)\<lparr>p_callback := cb\<rparr>"
  by (simp_all add: uart_abs_def rx_queue_def tx_queue_def)

lemma pop_abs:
  assumes "uart_ok u"
  shows "rx_count u = Suc c \<Longrightarrow>
      uart_abs (u\<lparr>rx_head := Suc (rx_head u) mod UART_FIFO_CAPACITY, rx_count := c, irq_status := q\<rparr>) =
      (uart_abs u)\<lparr>input := tl (rx_queue u), p_irq := q\<rparr>"
    "tx_count u = Suc c \<Longrightarrow>
      uart_abs (u\<lparr>tx_head := Suc (tx_head u) mod UART_FIFO_CAPACITY, tx_count := c, irq_status := q\<rparr>) =
      (uart_abs u)\<lparr>transmit := tl (tx_queue u), p_irq := q\<rparr>"
  using rx_pop [OF assms] tx_pop [OF assms]
  by (simp_all add: uart_abs_def) (simp_all add: rx_queue_def tx_queue_def)

lemma push_abs:
  assumes "uart_ok u"
  shows "rx_count u \<noteq> UART_FIFO_CAPACITY \<Longrightarrow>
      uart_abs (u\<lparr>rx_fifo := (rx_fifo u)[rx_tail u := x], rx_tail := t,
        rx_count := Suc (rx_count u), irq_status := q\<rparr>) =
      (uart_abs u)\<lparr>input := rx_queue u @ [x], p_irq := q\<rparr>"
    "tx_count u \<noteq> UART_FIFO_CAPACITY \<Longrightarrow>
      uart_abs (u\<lparr>tx_fifo := (tx_fifo u)[tx_tail u := x], tx_tail := t,
        tx_count := Suc (tx_count u), irq_status := q\<rparr>) =
      (uart_abs u)\<lparr>transmit := tx_queue u @ [x], p_irq := q\<rparr>"
  using rx_push [OF assms] tx_push [OF assms]
  by (simp_all add: uart_abs_def) (simp_all add: rx_queue_def tx_queue_def)

lemma read_simulates:
  assumes "uart_ok u" "uart_read u offset width = (v, u')"
  shows "uart_ok u' \<and> port_read (uart_abs u) offset width = (v, uart_abs u')"
proof (cases "offset = UART_RXDATA_OFFSET \<and> width = 1 \<and> rx_count u \<noteq> 0")
  case True
  then obtain c where c: "rx_count u = Suc c" by (cases "rx_count u") auto
  have "u\<lparr>rx_head := h, rx_count := c\<rparr> = u\<lparr>rx_head := h, rx_count := c, irq_status := irq_status u\<rparr>" for h by simp
  then have "v = Some (ucast (rx_fifo u ! rx_head u)) \<and>
      u' = u\<lparr>rx_head := Suc (rx_head u) mod UART_FIFO_CAPACITY, rx_count := c,
        irq_status := (if c = 0 then irq_status u AND NOT UART_IRQ_RX_PENDING else irq_status u)\<rparr>"
    using assms(2) True c by (auto simp: uart_read_def Let_def)
  moreover obtain bs where "rx_queue u = rx_fifo u ! rx_head u # bs" "bs = [] \<longleftrightarrow> c = 0"
    using rx_pop [OF assms(1) c] by auto
  ultimately show ?thesis
    using True pop_ok(1) [OF assms(1) c] pop_abs(1) [OF assms(1) c] by (simp add: port_read_def)
next
  case False
  then show ?thesis
    using assms
    by (auto simp: uart_read_def port_read_def status_abs split: if_splits)
qed

lemma write_simulates:
  assumes "uart_ok u" "uart_write u offset width v = (b, u')"
  shows "uart_ok u' \<and> port_write (uart_abs u) offset width v = (b, uart_abs u')"
proof (cases "offset = UART_TXDATA_OFFSET \<and> width = 1")
  case True
  then show ?thesis
    using assms push_ok(2) [OF assms(1)] push_abs(2) [OF assms(1)]
    by (auto simp: uart_write_def port_write_def port_enabled_def split: if_splits)
next
  case False
  then show ?thesis
    using assms by (auto simp: uart_write_def port_write_def split: if_splits)
qed

lemma flush_simulates:
  assumes "uart_ok u" "uart_device_flush_tx u h = (n, u', h')"
  shows "uart_ok u' \<and> port_flush (uart_abs u) h = (n, uart_abs u', h')"
  using assms
proof (induction u h arbitrary: n u' h' rule: uart_device_flush_tx.induct)
  case (1 u h)
  show ?case
  proof (cases "tx_callback u")
    case None
    then show ?thesis using "1.prems" by (auto simp: uart_device_flush_tx.simps [of u] port_flush_def)
  next
    case (Some callback)
    show ?thesis
    proof (cases "tx_count u")
      case 0
      then have "tx_queue u = []" by simp
      with Some 0 "1.prems" show ?thesis
        by (auto simp: uart_device_flush_tx.simps [of u] port_flush_def uart_abs_def)
    next
      case (Suc c)
      let ?u = "u\<lparr>tx_head := Suc (tx_head u) mod UART_FIFO_CAPACITY, tx_count := c,
        irq_status := (if c = 0 then irq_status u OR UART_IRQ_TX_PENDING else irq_status u)\<rparr>"
      let ?v = "tx_fifo u ! tx_head u"
      obtain m where rec: "uart_device_flush_tx ?u (callback ?v h) = (m, u', h')" and n: "n = m + 1"
        using "1.prems"(2) Some Suc
        by (auto simp: uart_device_flush_tx.simps [of u] Let_def split: prod.splits if_splits)
      have ok: "uart_ok ?u" by (rule pop_ok(2) [OF "1.prems"(1) Suc])
      have IH: "uart_ok u' \<and> port_flush (uart_abs ?u) (callback ?v h) = (m, uart_abs u', h')"
        by (rule "1.IH" [OF Some _ refl refl _ ok rec]) (simp_all add: Suc)
      have abs: "uart_abs ?u = (uart_abs u)\<lparr>transmit := tl (tx_queue u),
          p_irq := (if c = 0 then irq_status u OR UART_IRQ_TX_PENDING else irq_status u)\<rparr>"
        by (rule pop_abs(2) [OF "1.prems"(1) Suc])
      obtain bs where "tx_queue u = ?v # bs" "bs = [] \<longleftrightarrow> c = 0" using tx_pop [OF "1.prems"(1) Suc] by auto
      then show ?thesis using IH n Some unfolding abs by (auto simp: port_flush_def)
    qed
  qed
qed

lemma receive_byte_simulates:
  assumes "uart_ok u" "uart_device_receive_byte u x = (b, u')"
  shows "uart_ok u' \<and> port_receive (uart_abs u) [x] = (if b then 1 else 0, uart_abs u') \<and>
    (b \<longleftrightarrow> port_enabled (uart_abs u) \<and> rx_count u < UART_FIFO_CAPACITY)"
proof -
  have "rx_count u \<le> UART_FIFO_CAPACITY" using assms(1) by (simp add: uart_ok_def)
  then show ?thesis
    using assms push_ok(1) [OF assms(1)] push_abs(1) [OF assms(1)]
    by (auto simp: uart_device_receive_byte_def port_receive_def port_enabled_def split: if_splits)
qed

lemma port_receive_Cons:
  assumes "port_receive p [x] = (1, p')"
  shows "port_receive p (x # xs) = (let (n, q) = port_receive p' xs in (n + 1, q))"
  using assms by (auto simp: port_receive_def port_enabled_def Let_def min_def take_Cons' split: if_splits)

lemma receive_simulates:
  assumes "uart_ok u" "uart_device_receive u data = (n, u')"
  shows "uart_ok u' \<and> port_receive (uart_abs u) data = (n, uart_abs u')"
  using assms
proof (induction data arbitrary: u n)
  case Nil
  then show ?case by (simp add: port_receive_def)
next
  case (Cons x xs)
  obtain b v where v: "uart_device_receive_byte u x = (b, v)" by fastforce
  note byte = receive_byte_simulates [OF Cons.prems(1) v]
  show ?case
  proof (cases b)
    case True
    then obtain m where "uart_device_receive v xs = (m, u')" "n = m + 1"
      using Cons.prems(2) v by (auto split: prod.splits)
    then show ?thesis using Cons.IH [of v m] byte True port_receive_Cons [of "uart_abs u" x "uart_abs v" xs] by simp
  next
    case False
    then show ?thesis using Cons.prems(2) v byte
      by (auto simp: port_receive_def port_enabled_def split: if_splits)
  qed
qed

lemma tick_simulates:
  assumes "uart_ok u" "uart_tick u ticks r h = (u', r', h')"
  shows "uart_ok u' \<and> port_tick (uart_abs u) ticks r h = (uart_abs u', r', h')"
proof (cases "ticks = 0 \<or> uart_control u AND UART_CONTROL_ENABLE = 0")
  case True
  then show ?thesis
    using assms by (cases "ticks = 0") (auto simp: uart_tick_def port_tick_def port_enabled_def Let_def)
next
  case False
  obtain n v k where f: "uart_device_flush_tx u h = (n, v, k)" by (cases "uart_device_flush_tx u h") auto
  have mask: "q AND ((if a then UART_IRQ_RX_PENDING else 0) OR (if b then UART_IRQ_TX_PENDING else 0)) = 0 \<longleftrightarrow>
      \<not> (q AND UART_IRQ_RX_PENDING \<noteq> 0 \<and> a \<or> q AND UART_IRQ_TX_PENDING \<noteq> 0 \<and> b)" for q a b
    by (cases a; cases b) (auto simp: bit.conj_disj_distrib or_eq_0_iff)
  show ?thesis
    using False assms(2) flush_simulates [OF assms(1) f] f
    by (simp add: uart_tick_def port_tick_def Let_def port_enabled_def mask split: if_splits) (auto)
qed

lemma reset_simulates: "uart_ok u \<Longrightarrow> uart_ok (uart_reset u) \<and> port_reset (uart_abs u) = uart_abs (uart_reset u)"
  by (simp add: uart_reset_def port_reset_def uart_ok_def uart_abs_def rx_queue_def tx_queue_def)

lemma init_ok: "uart_device_init line = Some u \<Longrightarrow> uart_ok u"
  by (auto simp: uart_device_init_def uart_ok_def split: if_splits)

interpretation serial: simulation uart_step port_step "\<lambda>(u, r, h). uart_ok u" "\<lambda>(u, r, h). (uart_abs u, r, h)"
proof
  fix s :: "'h uart \<times> interrupt_router \<times> 'h" and e a s'
  assume "case s of (u, r, h) \<Rightarrow> uart_ok u" and step: "uart_step e s = (a, s')"
  then obtain u r h where s: "s = (u, r, h)" and ok: "uart_ok u" by (cases s) auto
  show "(case s' of (u, r, h) \<Rightarrow> uart_ok u) \<and>
      port_step e (case s of (u, r, h) \<Rightarrow> (uart_abs u, r, h)) = (a, case s' of (u, r, h) \<Rightarrow> (uart_abs u, r, h))"
    using step ok read_simulates [OF ok] write_simulates [OF ok] receive_simulates [OF ok]
      flush_simulates [OF ok] tick_simulates [OF ok] reset_simulates [OF ok]
    unfolding s by (cases e) (fastforce simp: uart_device_set_tx_callback_def split: prod.splits)+
qed

section \<open>Properties\<close>

text \<open>C27: The serial port implements a port with lists for its queues. From power-on, whatever
  loads, stores, host input, ticks, resets and callback changes follow in whatever order, the
  device gives the same answers, passes the same bytes to the host in the same order and raises
  the same interrupts as the specification. In particular received and transmitted bytes leave
  in the order they came, none is lost without the overrun flag, and neither queue exceeds its
  256 bytes.\<close>

theorem uart_refines_port:
  assumes "uart_device_init line = Some u" and "session uart_step es (u, r, h) = (answers, u', r', h')"
  shows "session port_step es (uart_abs u, r, h) = (answers, uart_abs u', r', h') \<and>
    input (uart_abs u) = [] \<and> transmit (uart_abs u) = [] \<and>
    length (input (uart_abs u')) \<le> UART_FIFO_CAPACITY \<and> length (transmit (uart_abs u')) \<le> UART_FIFO_CAPACITY"
proof -
  have "uart_ok u' \<and> session port_step es (uart_abs u, r, h) = (answers, uart_abs u', r', h')"
    using serial.session_simulates [OF _ assms(2)] init_ok [OF assms(1)] by simp
  moreover have "rx_count u = 0" "tx_count u = 0" using assms(1) by (auto simp: uart_device_init_def split: if_splits)
  ultimately show ?thesis by (auto simp: uart_ok_def)
qed

theorem uart_refines_port_witness:
  "\<exists>u u' r'. uart_device_init 3 = Some u \<and>
     session uart_step [Uart_Store UART_CONTROL_OFFSET 8 1, Uart_Input [0x41, 0x42], Uart_Load UART_RXDATA_OFFSET 1]
       (u, \<lparr>targets = [0], routes = (\<lambda>_. 0), enabled = 0, pending = 0, active = 0, programmable = False\<rparr>, ()) =
       ([Stored True, Count 2, Loaded (Some 0x41)], u', r', ()) \<and>
     length (input (uart_abs u')) \<le> UART_FIFO_CAPACITY"
proof -
  obtain u :: "unit uart" where init: "uart_device_init 3 = Some u"
    by (simp add: uart_device_init_def INTERRUPT_LINE_COUNT_def)
  let ?r = "\<lparr>targets = [0], routes = (\<lambda>_. 0), enabled = 0, pending = 0, active = 0, programmable = False\<rparr>"
  let ?es = "[Uart_Store UART_CONTROL_OFFSET 8 1, Uart_Input [0x41, 0x42], Uart_Load UART_RXDATA_OFFSET 1]"
  have on: "((1 :: u64) AND UART_CONTROL_MASK) AND UART_CONTROL_ENABLE \<noteq> 0" by code_simp
  obtain u' r' where run: "session uart_step ?es (u, ?r, ()) = ([Stored True, Count 2, Loaded (Some 0x41)], u', r', ())"
    using init on
    by (auto simp: uart_device_init_def uart_write_def uart_read_def uart_device_receive_byte_def Let_def
        UART_CONTROL_OFFSET_def UART_TXDATA_OFFSET_def UART_STATUS_OFFSET_def UART_RXDATA_OFFSET_def
        UART_FIFO_CAPACITY_def split: if_splits)
  from uart_refines_port [OF init run] init run show ?thesis by blast
qed

end
