(* ===== verification/Device_Abi.thy ===== *)
theory Device_Abi
  imports Prelude
begin

text \<open>
  The interface between the virtual machine and its device modules
  (\<^verbatim>\<open>include/device_abi.h\<close>). The functions of the host act on a host world
  \<open>'h\<close>; \<open>None\<close> is a null function pointer. Sizes are those of the 64-bit layout.
\<close>

definition VM_DEVICE_ABI_VERSION :: u32 where "VM_DEVICE_ABI_VERSION = 1"
definition VM_DEVICE_MAX_BARS :: nat where "VM_DEVICE_MAX_BARS = 4"
definition VM_DEVICE_MAX_IRQS :: nat where "VM_DEVICE_MAX_IRQS = 4"

record vm_device_resources =
  res_struct_size :: u32
  res_bar_count :: u32
  res_irq_count :: u32
  res_bar_bases :: "u64 list"
  res_bar_sizes :: "u64 list"
  res_irqs :: "u32 list"

record 'h vm_device_host_api =
  host_abi_version :: u32
  host_struct_size :: u32
  host_dma_read :: "(u64 \<Rightarrow> nat \<Rightarrow> 'h \<Rightarrow> u8 list option) option"
  host_dma_write :: "(u64 \<Rightarrow> u8 list \<Rightarrow> 'h \<Rightarrow> bool \<times> 'h) option"
  host_raise_irq :: "(u32 \<Rightarrow> 'h \<Rightarrow> 'h) option"
  host_get_service :: "(string \<Rightarrow> u32 \<Rightarrow> bool) option"

text \<open>\<^verbatim>\<open>sizeof(VmDeviceHostApi)\<close> and \<^verbatim>\<open>sizeof(VmDeviceResources)\<close>.\<close>

definition VmDeviceHostApi_size :: u32 where "VmDeviceHostApi_size = 56"
definition VmDeviceResources_size :: u32 where "VmDeviceResources_size = 96"

definition host_raise :: "'h vm_device_host_api \<Rightarrow> vm_device_resources \<Rightarrow> 'h \<Rightarrow> 'h" where
  "host_raise host resources h =
     (case host_raise_irq host of None \<Rightarrow> h | Some raise_irq \<Rightarrow> raise_irq (res_irqs resources ! 0) h)"

end
