(* ===== verification/Timer.thy ===== *)
theory Timer
  imports Interrupt Device_Abi
begin

text \<open>
  The programmable timer (\<^verbatim>\<open>src/timer.c\<close>), the instruction clock (\<^verbatim>\<open>src/vm_clock.c\<close>) and
  the sample counter module (\<^verbatim>\<open>devices/sample_counter/sample_counter.c\<close>). A tick of
  the timer may cross its compare value several times; the properties show that it keeps time
  however the ticks are batched.
\<close>

section \<open>The timer\<close>

definition TIMER_CONTROL_OFFSET :: u64 where "TIMER_CONTROL_OFFSET = 0"
definition TIMER_COUNTER_OFFSET :: u64 where "TIMER_COUNTER_OFFSET = 8"
definition TIMER_COMPARE_OFFSET :: u64 where "TIMER_COMPARE_OFFSET = 16"
definition TIMER_STATUS_OFFSET :: u64 where "TIMER_STATUS_OFFSET = 24"
definition TIMER_CONTROL_ENABLE :: u64 where "TIMER_CONTROL_ENABLE = BIT 0"
definition TIMER_CONTROL_REPEAT :: u64 where "TIMER_CONTROL_REPEAT = BIT 1"
definition TIMER_CONTROL_IRQ_ENABLE :: u64 where "TIMER_CONTROL_IRQ_ENABLE = BIT 2"
definition TIMER_STATUS_PENDING :: u64 where "TIMER_STATUS_PENDING = BIT 0"

definition TIMER_CONTROL_MASK :: u64 where
  "TIMER_CONTROL_MASK = TIMER_CONTROL_ENABLE OR TIMER_CONTROL_REPEAT OR TIMER_CONTROL_IRQ_ENABLE"

record timer_device =
  timer_control :: u64
  timer_counter :: u64
  timer_compare :: u64
  timer_status :: u64
  timer_line :: nat

definition timer_read :: "timer_device \<Rightarrow> u64 \<Rightarrow> nat \<Rightarrow> u64 option" where
  "timer_read timer offset width =
     (if width \<noteq> 8 then None
      else if offset = TIMER_CONTROL_OFFSET then Some (timer_control timer)
      else if offset = TIMER_COUNTER_OFFSET then Some (timer_counter timer)
      else if offset = TIMER_COMPARE_OFFSET then Some (timer_compare timer)
      else if offset = TIMER_STATUS_OFFSET then Some (timer_status timer)
      else None)"

definition timer_write :: "timer_device \<Rightarrow> u64 \<Rightarrow> nat \<Rightarrow> u64 \<Rightarrow> bool \<times> timer_device" where
  "timer_write timer offset width v =
     (if width \<noteq> 8 then (False, timer)
      else if offset = TIMER_CONTROL_OFFSET then (True, timer\<lparr>timer_control := v AND TIMER_CONTROL_MASK\<rparr>)
      else if offset = TIMER_COUNTER_OFFSET then (True, timer\<lparr>timer_counter := v\<rparr>)
      else if offset = TIMER_COMPARE_OFFSET then (True, timer\<lparr>timer_compare := v\<rparr>)
      else if offset = TIMER_STATUS_OFFSET then
        (True, if v AND TIMER_STATUS_PENDING \<noteq> 0
               then timer\<lparr>timer_status := timer_status timer AND NOT TIMER_STATUS_PENDING\<rparr> else timer)
      else (False, timer))"

definition timer_tick ::
  "timer_device \<Rightarrow> u64 \<Rightarrow> interrupt_router \<Rightarrow> timer_device \<times> interrupt_router" where
  "timer_tick timer ticks router =
     (if ticks = 0 \<or> timer_control timer AND TIMER_CONTROL_ENABLE = 0 then (timer, router)
      else if timer_compare timer = 0 then
        (timer\<lparr>timer_counter := timer_counter timer + ticks\<rparr>, router)
      else
        let until_compare = (if timer_counter timer < timer_compare timer
                             then timer_compare timer - timer_counter timer else 0)
        in if until_compare \<noteq> 0 \<and> ticks < until_compare then
             (timer\<lparr>timer_counter := timer_counter timer + ticks\<rparr>, router)
           else
             let remaining = (if until_compare = 0 then ticks else ticks - until_compare);
                 timer = timer\<lparr>timer_status := timer_status timer OR TIMER_STATUS_PENDING\<rparr>;
                 router = (if timer_control timer AND TIMER_CONTROL_IRQ_ENABLE \<noteq> 0
                           then snd (interrupt_router_raise router (timer_line timer)) else router)
             in (if timer_control timer AND TIMER_CONTROL_REPEAT \<noteq> 0
                 then timer\<lparr>timer_counter := remaining mod timer_compare timer\<rparr>
                 else timer\<lparr>timer_counter := timer_compare timer,
                            timer_control := timer_control timer AND NOT TIMER_CONTROL_ENABLE\<rparr>,
                 router))"

definition timer_reset :: "timer_device \<Rightarrow> timer_device" where
  "timer_reset timer =
     \<lparr>timer_control = 0, timer_counter = 0, timer_compare = 0, timer_status = 0, timer_line = timer_line timer\<rparr>"

definition timer_device_init :: "nat \<Rightarrow> timer_device option" where
  "timer_device_init line =
     (if line \<ge> INTERRUPT_LINE_COUNT then None
      else Some \<lparr>timer_control = 0, timer_counter = 0, timer_compare = 0, timer_status = 0, timer_line = line\<rparr>)"

text \<open>A sequence of ticks, as the device worker delivers them.\<close>

fun timer_ticks :: "timer_device \<Rightarrow> u64 list \<Rightarrow> interrupt_router \<Rightarrow> timer_device \<times> interrupt_router" where
  "timer_ticks timer [] router = (timer, router)"
| "timer_ticks timer (n # ns) router =
     (let (timer, router) = timer_tick timer n router in timer_ticks timer ns router)"

section \<open>The clock\<close>

text \<open>A clock source is a poll function (\<open>None\<close> is the null pointer).\<close>

definition clock_source_poll :: "(unit \<Rightarrow> u64) option \<Rightarrow> u64" where
  "clock_source_poll source = (case source of None \<Rightarrow> 0 | Some poll \<Rightarrow> poll ())"

definition instruction_clock_poll :: "u64 \<Rightarrow> u64" where
  "instruction_clock_poll ticks_per_instruction = ticks_per_instruction"

definition instruction_clock_init :: "u64 \<Rightarrow> (unit \<Rightarrow> u64) option" where
  "instruction_clock_init ticks_per_instruction =
     (if ticks_per_instruction = 0 then None
      else Some (\<lambda>_. instruction_clock_poll ticks_per_instruction))"

section \<open>The sample counter\<close>

definition COUNTER_VALUE_OFFSET :: u64 where "COUNTER_VALUE_OFFSET = 0"
definition COUNTER_STEP_OFFSET :: u64 where "COUNTER_STEP_OFFSET = 8"
definition COUNTER_COMPARE_OFFSET :: u64 where "COUNTER_COMPARE_OFFSET = 16"
definition COUNTER_CONTROL_OFFSET :: u64 where "COUNTER_CONTROL_OFFSET = 24"
definition COUNTER_STATUS_OFFSET :: u64 where "COUNTER_STATUS_OFFSET = 32"
definition COUNTER_CONTROL_ENABLE :: u64 where "COUNTER_CONTROL_ENABLE = BIT 0"
definition COUNTER_CONTROL_IRQ_ENABLE :: u64 where "COUNTER_CONTROL_IRQ_ENABLE = BIT 1"
definition COUNTER_STATUS_PENDING :: u64 where "COUNTER_STATUS_PENDING = BIT 0"

record 'h counter_device =
  counter_host :: "'h vm_device_host_api"
  counter_resources :: vm_device_resources
  counter_value :: u64
  counter_step :: u64
  counter_compare :: u64
  counter_control :: u64
  counter_status :: u64

definition counter_create :: "'h vm_device_host_api \<Rightarrow> vm_device_resources \<Rightarrow> 'h counter_device option" where
  "counter_create host resources =
     (if host_abi_version host \<noteq> VM_DEVICE_ABI_VERSION \<or> host_struct_size host < VmDeviceHostApi_size \<or>
         res_struct_size resources < VmDeviceResources_size \<or>
         res_bar_count resources \<noteq> 1 \<or> res_irq_count resources \<noteq> 1
      then None
      else Some \<lparr>counter_host = host, counter_resources = resources, counter_value = 0, counter_step = 1,
                 counter_compare = 0, counter_control = 0, counter_status = 0\<rparr>)"

definition counter_read :: "'h counter_device \<Rightarrow> u32 \<Rightarrow> u64 \<Rightarrow> u32 \<Rightarrow> u64 option" where
  "counter_read device bar offset width =
     (if bar \<noteq> 0 \<or> width \<noteq> 8 then None
      else if offset = COUNTER_VALUE_OFFSET then Some (counter_value device)
      else if offset = COUNTER_STEP_OFFSET then Some (counter_step device)
      else if offset = COUNTER_COMPARE_OFFSET then Some (counter_compare device)
      else if offset = COUNTER_CONTROL_OFFSET then Some (counter_control device)
      else if offset = COUNTER_STATUS_OFFSET then Some (counter_status device)
      else None)"

definition counter_write :: "'h counter_device \<Rightarrow> u32 \<Rightarrow> u64 \<Rightarrow> u32 \<Rightarrow> u64 \<Rightarrow> bool \<times> 'h counter_device" where
  "counter_write device bar offset width v =
     (if bar \<noteq> 0 \<or> width \<noteq> 8 then (False, device)
      else if offset = COUNTER_VALUE_OFFSET then (True, device\<lparr>counter_value := v\<rparr>)
      else if offset = COUNTER_STEP_OFFSET then (True, device\<lparr>counter_step := v\<rparr>)
      else if offset = COUNTER_COMPARE_OFFSET then (True, device\<lparr>counter_compare := v\<rparr>)
      else if offset = COUNTER_CONTROL_OFFSET then
        (True, device\<lparr>counter_control := v AND (COUNTER_CONTROL_ENABLE OR COUNTER_CONTROL_IRQ_ENABLE)\<rparr>)
      else if offset = COUNTER_STATUS_OFFSET then
        (True, if v AND COUNTER_STATUS_PENDING \<noteq> 0
               then device\<lparr>counter_status := counter_status device AND NOT COUNTER_STATUS_PENDING\<rparr> else device)
      else (False, device))"

definition counter_tick :: "'h counter_device \<Rightarrow> u64 \<Rightarrow> 'h \<Rightarrow> 'h counter_device \<times> 'h" where
  "counter_tick device ticks h =
     (if ticks = 0 \<or> counter_control device AND COUNTER_CONTROL_ENABLE = 0 then (device, h)
      else
        let device = device\<lparr>counter_value := counter_value device + counter_step device * ticks\<rparr>
        in if counter_compare device = 0 \<or> counter_value device < counter_compare device then (device, h)
           else
             let device = device\<lparr>counter_status := counter_status device OR COUNTER_STATUS_PENDING,
                                 counter_control := counter_control device AND NOT COUNTER_CONTROL_ENABLE\<rparr>
             in (device,
                 if counter_control device AND COUNTER_CONTROL_IRQ_ENABLE \<noteq> 0
                 then host_raise (counter_host device) (counter_resources device) h else h))"

definition counter_reset :: "'h counter_device \<Rightarrow> 'h counter_device" where
  "counter_reset device =
     device\<lparr>counter_value := 0, counter_step := 1, counter_compare := 0, counter_control := 0,
            counter_status := 0\<rparr>"

section \<open>Properties\<close>

definition timer_running :: "timer_device \<Rightarrow> bool" where
  "timer_running t \<longleftrightarrow>
     timer_control t AND TIMER_CONTROL_ENABLE \<noteq> 0 \<and> timer_counter t < timer_compare t"

definition elapsed :: "u64 list \<Rightarrow> nat" where
  "elapsed ns = sum_list (map unat ns)"

definition idle_router :: interrupt_router where
  "idle_router =
     \<lparr>targets = [0], routes = (\<lambda>_. 0), enabled = 0, pending = 0, active = 0, programmable = False\<rparr>"

lemma tick_before:
  assumes "timer_running t" "unat (timer_counter t) + unat n < unat (timer_compare t)"
  shows "timer_tick t n r = (t\<lparr>timer_counter := timer_counter t + n\<rparr>, r)"
    "unat (timer_counter t + n) = unat (timer_counter t) + unat n"
proof -
  have "unat (timer_compare t - timer_counter t) = unat (timer_compare t) - unat (timer_counter t)"
    using assms(1) by (intro unat_sub) (simp add: timer_running_def less_imp_le)
  then show "timer_tick t n r = (t\<lparr>timer_counter := timer_counter t + n\<rparr>, r)"
    using assms by (auto simp: timer_tick_def Let_def timer_running_def word_less_nat_alt)
  show "unat (timer_counter t + n) = unat (timer_counter t) + unat n"
    using less_trans [OF assms(2) unat_u64_bound] by (simp add: unat_word_ariths)
qed

lemma tick_fires:
  fixes t n r
  assumes "timer_running t" "unat (timer_compare t) \<le> unat (timer_counter t) + unat n"
  defines "t' \<equiv> t\<lparr>timer_status := timer_status t OR TIMER_STATUS_PENDING\<rparr>"
    and "r' \<equiv> if timer_control t AND TIMER_CONTROL_IRQ_ENABLE \<noteq> 0
               then snd (interrupt_router_raise r (timer_line t)) else r"
  shows "timer_tick t n r =
      (if timer_control t AND TIMER_CONTROL_REPEAT \<noteq> 0
       then t'\<lparr>timer_counter := of_nat ((unat (timer_counter t) + unat n) mod unat (timer_compare t))\<rparr>
       else t'\<lparr>timer_counter := timer_compare t, timer_control := timer_control t AND NOT TIMER_CONTROL_ENABLE\<rparr>, r')"
proof -
  have u: "unat (timer_compare t - timer_counter t) = unat (timer_compare t) - unat (timer_counter t)"
    using assms(1) by (intro unat_sub) (simp add: timer_running_def less_imp_le)
  have lt: "unat (timer_counter t) < unat (timer_compare t)"
    using assms(1) by (simp add: timer_running_def word_less_nat_alt)
  have ge: "timer_compare t - timer_counter t \<le> n" using assms(2) u by (simp add: word_le_nat_alt)
  have "unat (n - (timer_compare t - timer_counter t)) = unat (timer_counter t) + unat n - unat (timer_compare t)"
    using unat_sub [OF ge] u lt by simp
  then have "unat ((n - (timer_compare t - timer_counter t)) mod timer_compare t) =
      (unat (timer_counter t) + unat n) mod unat (timer_compare t)"
    using assms(2) by (simp add: unat_mod le_mod_geq)
  then have "(n - (timer_compare t - timer_counter t)) mod timer_compare t =
      of_nat ((unat (timer_counter t) + unat n) mod unat (timer_compare t))"
    by (metis of_nat_unat ucast_id)
  then show ?thesis
    using assms(1) lt ge u
    by (auto simp: timer_tick_def Let_def timer_running_def t'_def r'_def word_less_nat_alt word_le_nat_alt)
qed

lemma ticks_stopped:
  "timer_control t AND TIMER_CONTROL_ENABLE = 0 \<Longrightarrow> timer_ticks t ns r = (t, r)"
  by (induction ns) (simp_all add: timer_tick_def)

lemma elapsed_simps [simp]: "elapsed [] = 0" "elapsed (n # ns) = unat n + elapsed ns"
  by (simp_all add: elapsed_def)

lemma pending_or [simp]: "(s OR TIMER_STATUS_PENDING) OR TIMER_STATUS_PENDING = s OR TIMER_STATUS_PENDING"
  by (simp add: or.assoc)

text \<open>C30: A repeating timer keeps time. However the elapsed time is batched into ticks, its
  counter is the elapsed time modulo the period, exactly and without drift, it stays enabled, and
  it is pending as soon as the period has passed once.\<close>

theorem repeating_timer_keeps_time:
  assumes "timer_running t" and "timer_control t AND TIMER_CONTROL_REPEAT \<noteq> 0"
  shows "\<exists>r'. timer_ticks t ns r =
    (t\<lparr>timer_counter := of_nat ((unat (timer_counter t) + elapsed ns) mod unat (timer_compare t)),
       timer_status := (if unat (timer_compare t) \<le> unat (timer_counter t) + elapsed ns
                        then timer_status t OR TIMER_STATUS_PENDING else timer_status t)\<rparr>, r')"
  using assms
proof (induction ns arbitrary: t r)
  case Nil
  then show ?case by (simp add: timer_running_def word_less_nat_alt)
next
  case (Cons n ns)
  let ?c = "unat (timer_counter t)" and ?p = "unat (timer_compare t)"
  let ?t = "t\<lparr>timer_counter := of_nat ((?c + unat n) mod ?p),
    timer_status := (if ?p \<le> ?c + unat n then timer_status t OR TIMER_STATUS_PENDING else timer_status t)\<rparr>"
  have p: "0 < ?p" "?c < ?p" using Cons.prems(1) by (auto simp: timer_running_def word_less_nat_alt)
  have "(?c + unat n) mod ?p < ?p" using p by simp
  then have c: "unat (of_nat ((?c + unat n) mod ?p) :: u64) = (?c + unat n) mod ?p"
    using less_trans [OF _ unat_u64_bound] by (simp add: unat_of_nat)
  obtain r1 where tick: "timer_tick t n r = (?t, r1)"
  proof (cases "?c + unat n < ?p")
    case True
    have "timer_counter t + n = of_nat (?c + unat n)" by simp
    with True show thesis using tick_before(1) [OF Cons.prems(1) True, of r] by (intro that) simp
  next
    case False
    then show thesis using tick_fires [OF Cons.prems(1), of n r] Cons.prems(2) by (intro that) simp
  qed
  have "timer_running ?t" "timer_control ?t AND TIMER_CONTROL_REPEAT \<noteq> 0"
    using Cons.prems p c by (auto simp: timer_running_def word_less_nat_alt)
  from Cons.IH [OF this, of r1] show ?case
    using tick c p by (auto simp: mod_simps add.assoc)
qed

theorem repeating_timer_keeps_time_witness:
  "\<exists>r'. timer_ticks \<lparr>timer_control = 3, timer_counter = 0, timer_compare = 10, timer_status = 0, timer_line = 0\<rparr> [7, 16] idle_router =
     (\<lparr>timer_control = 3, timer_counter = 3, timer_compare = 10, timer_status = 1, timer_line = 0\<rparr>, r')"
proof -
  let ?t = "\<lparr>timer_control = 3, timer_counter = 0, timer_compare = 10, timer_status = 0, timer_line = 0\<rparr>"
  have "(3 :: u64) AND TIMER_CONTROL_ENABLE \<noteq> 0" "(3 :: u64) AND TIMER_CONTROL_REPEAT \<noteq> 0" by code_simp+
  then have "timer_running ?t" "timer_control ?t AND TIMER_CONTROL_REPEAT \<noteq> 0" by (simp_all add: timer_running_def)
  moreover have "TIMER_STATUS_PENDING = 1" by code_simp
  ultimately show ?thesis using repeating_timer_keeps_time [of ?t "[7, 16]" idle_router] by simp
qed

text \<open>C31: A one-shot timer fires exactly once. However the elapsed time is batched into ticks, it
  counts up to the compare value without an interrupt, stops there, and raises its line once, if
  its interrupt is enabled; further time has no effect.\<close>

theorem one_shot_timer_fires_once:
  assumes "timer_running t" and "timer_control t AND TIMER_CONTROL_REPEAT = 0"
  shows "timer_ticks t ns r =
    (if unat (timer_counter t) + elapsed ns < unat (timer_compare t)
     then (t\<lparr>timer_counter := timer_counter t + of_nat (elapsed ns)\<rparr>, r)
     else (t\<lparr>timer_counter := timer_compare t, timer_status := timer_status t OR TIMER_STATUS_PENDING,
             timer_control := timer_control t AND NOT TIMER_CONTROL_ENABLE\<rparr>,
           if timer_control t AND TIMER_CONTROL_IRQ_ENABLE \<noteq> 0
           then snd (interrupt_router_raise r (timer_line t)) else r))"
  using assms
proof (induction ns arbitrary: t)
  case Nil
  then show ?case by (simp add: timer_running_def word_less_nat_alt)
next
  case (Cons n ns)
  let ?c = "unat (timer_counter t)" and ?p = "unat (timer_compare t)"
  show ?case
  proof (cases "?c + unat n < ?p")
    case True
    note tick = tick_before [OF Cons.prems(1) True]
    let ?t = "t\<lparr>timer_counter := timer_counter t + n\<rparr>"
    have "timer_running ?t" "timer_control ?t AND TIMER_CONTROL_REPEAT = 0"
      using Cons.prems True tick(2) by (simp_all add: timer_running_def word_less_nat_alt)
    from Cons.IH [OF this] tick show ?thesis by (simp add: add.assoc)
  next
    case False
    have "(timer_control t AND NOT TIMER_CONTROL_ENABLE) AND TIMER_CONTROL_ENABLE = 0"
      by (simp add: and.assoc)
    then show ?thesis
      using tick_fires [OF Cons.prems(1), of n r] Cons.prems(2) False by (simp add: ticks_stopped)
  qed
qed

theorem one_shot_timer_fires_once_witness:
  "timer_ticks \<lparr>timer_control = 5, timer_counter = 0, timer_compare = 10, timer_status = 0, timer_line = 4\<rparr> [7, 16, 30] idle_router =
     (\<lparr>timer_control = 4, timer_counter = 10, timer_compare = 10, timer_status = 1, timer_line = 4\<rparr>,
      snd (interrupt_router_raise idle_router 4))"
proof -
  let ?t = "\<lparr>timer_control = 5, timer_counter = 0, timer_compare = 10, timer_status = 0, timer_line = 4\<rparr>"
  have "(5 :: u64) AND TIMER_CONTROL_ENABLE \<noteq> 0" "(5 :: u64) AND TIMER_CONTROL_REPEAT = 0"
    "(5 :: u64) AND TIMER_CONTROL_IRQ_ENABLE \<noteq> 0" "(5 :: u64) AND NOT TIMER_CONTROL_ENABLE = 4"
    "TIMER_STATUS_PENDING = 1" by code_simp+
  then show ?thesis using one_shot_timer_fires_once [of ?t "[7, 16, 30]" idle_router] by (simp add: timer_running_def)
qed

end
