(* ===== verification/Irq_Controller.thy ===== *)
theory Irq_Controller
  imports Invariant_Machine Interrupt
begin

text \<open>
  The interrupt controller device (\<^verbatim>\<open>src/irq_controller.c\<close>) and the system information
  device (\<^verbatim>\<open>src/system_info.c\<close>). The interrupt controller gives the guest access to the
  router: it rejects bad arguments with a result code and passes the rest on.
\<close>

section \<open>The interrupt controller\<close>

definition IRQ_CONTROLLER_MAGIC :: u64 where "IRQ_CONTROLLER_MAGIC = 0x43515249"
definition IRQ_CONTROLLER_VERSION :: u64 where "IRQ_CONTROLLER_VERSION = 1"
definition IRQ_CONTROLLER_MAGIC_OFFSET :: u64 where "IRQ_CONTROLLER_MAGIC_OFFSET = 0x00"
definition IRQ_CONTROLLER_VERSION_OFFSET :: u64 where "IRQ_CONTROLLER_VERSION_OFFSET = 0x08"
definition IRQ_CONTROLLER_LINE_COUNT_OFFSET :: u64 where "IRQ_CONTROLLER_LINE_COUNT_OFFSET = 0x10"
definition IRQ_CONTROLLER_TARGET_COUNT_OFFSET :: u64 where "IRQ_CONTROLLER_TARGET_COUNT_OFFSET = 0x18"
definition IRQ_CONTROLLER_ENABLE_OFFSET :: u64 where "IRQ_CONTROLLER_ENABLE_OFFSET = 0x20"
definition IRQ_CONTROLLER_ENABLE_SET_OFFSET :: u64 where "IRQ_CONTROLLER_ENABLE_SET_OFFSET = 0x28"
definition IRQ_CONTROLLER_ENABLE_CLEAR_OFFSET :: u64 where "IRQ_CONTROLLER_ENABLE_CLEAR_OFFSET = 0x30"
definition IRQ_CONTROLLER_PENDING_OFFSET :: u64 where "IRQ_CONTROLLER_PENDING_OFFSET = 0x38"
definition IRQ_CONTROLLER_ACTIVE_OFFSET :: u64 where "IRQ_CONTROLLER_ACTIVE_OFFSET = 0x40"
definition IRQ_CONTROLLER_LINE_SELECT_OFFSET :: u64 where "IRQ_CONTROLLER_LINE_SELECT_OFFSET = 0x48"
definition IRQ_CONTROLLER_ROUTE_OFFSET :: u64 where "IRQ_CONTROLLER_ROUTE_OFFSET = 0x50"
definition IRQ_CONTROLLER_EOI_OFFSET :: u64 where "IRQ_CONTROLLER_EOI_OFFSET = 0x58"
definition IRQ_CONTROLLER_RESULT_OFFSET :: u64 where "IRQ_CONTROLLER_RESULT_OFFSET = 0x60"
definition IRQ_CONTROLLER_FEATURES_OFFSET :: u64 where "IRQ_CONTROLLER_FEATURES_OFFSET = 0x68"

datatype irq_result =
  IRQ_CONTROLLER_RESULT_NONE
| IRQ_CONTROLLER_RESULT_SUCCESS
| IRQ_CONTROLLER_RESULT_INVALID_LINE
| IRQ_CONTROLLER_RESULT_INVALID_TARGET
| IRQ_CONTROLLER_RESULT_BUSY
| IRQ_CONTROLLER_RESULT_INVALID_MASK
| IRQ_CONTROLLER_RESULT_NOT_ACTIVE

fun irq_result_code :: "irq_result \<Rightarrow> u64" where
  "irq_result_code IRQ_CONTROLLER_RESULT_NONE = 0"
| "irq_result_code IRQ_CONTROLLER_RESULT_SUCCESS = 1"
| "irq_result_code IRQ_CONTROLLER_RESULT_INVALID_LINE = 2"
| "irq_result_code IRQ_CONTROLLER_RESULT_INVALID_TARGET = 3"
| "irq_result_code IRQ_CONTROLLER_RESULT_BUSY = 4"
| "irq_result_code IRQ_CONTROLLER_RESULT_INVALID_MASK = 5"
| "irq_result_code IRQ_CONTROLLER_RESULT_NOT_ACTIVE = 6"

text \<open>The features word: masking, routing, EOI, fixed priority and no re-entry, bits 0 to 4.\<close>

definition IRQ_CONTROLLER_FEATURES :: u64 where
  "IRQ_CONTROLLER_FEATURES = BIT 0 OR BIT 1 OR BIT 2 OR BIT 3 OR BIT 4"

record irq_controller_device =
  router :: interrupt_router
  selected_line :: u64
  irq_last_result :: irq_result

definition irq_controller_read :: "irq_controller_device \<Rightarrow> u64 \<Rightarrow> nat \<Rightarrow> u64 option" where
  "irq_controller_read device offset width =
     (if width \<noteq> 8 then None
      else if offset = IRQ_CONTROLLER_MAGIC_OFFSET then Some IRQ_CONTROLLER_MAGIC
      else if offset = IRQ_CONTROLLER_VERSION_OFFSET then Some IRQ_CONTROLLER_VERSION
      else if offset = IRQ_CONTROLLER_LINE_COUNT_OFFSET then Some (of_nat INTERRUPT_EXTERNAL_LINE_COUNT)
      else if offset = IRQ_CONTROLLER_TARGET_COUNT_OFFSET then Some (of_nat (target_count (router device)))
      else if offset = IRQ_CONTROLLER_ENABLE_OFFSET then Some (interrupt_router_enabled (router device))
      else if offset = IRQ_CONTROLLER_PENDING_OFFSET then Some (interrupt_router_pending (router device))
      else if offset = IRQ_CONTROLLER_ACTIVE_OFFSET then Some (interrupt_router_active (router device))
      else if offset = IRQ_CONTROLLER_LINE_SELECT_OFFSET then Some (selected_line device)
      else if offset = IRQ_CONTROLLER_ROUTE_OFFSET then
        if selected_line device \<ge> of_nat INTERRUPT_EXTERNAL_LINE_COUNT then None
        else map_option of_nat (interrupt_router_get_route (router device) (unat (selected_line device)))
      else if offset = IRQ_CONTROLLER_RESULT_OFFSET then Some (irq_result_code (irq_last_result device))
      else if offset = IRQ_CONTROLLER_FEATURES_OFFSET then Some IRQ_CONTROLLER_FEATURES
      else None)"

definition mask_valid :: "u64 \<Rightarrow> bool" where
  "mask_valid m \<longleftrightarrow> m AND NOT INTERRUPT_EXTERNAL_LINE_MASK = 0"

text \<open>The three mask registers share their treatment of the operation on the router.\<close>

definition irq_mask_command ::
  "(interrupt_router \<Rightarrow> u64 \<Rightarrow> bool \<times> interrupt_router) \<Rightarrow> irq_controller_device \<Rightarrow> u64 \<Rightarrow> irq_controller_device" where
  "irq_mask_command operation device v =
     (if \<not> mask_valid v then device\<lparr>irq_last_result := IRQ_CONTROLLER_RESULT_INVALID_MASK\<rparr>
      else case operation (router device) v of
             (True, r) \<Rightarrow> device\<lparr>router := r, irq_last_result := IRQ_CONTROLLER_RESULT_SUCCESS\<rparr>
           | (False, r) \<Rightarrow> device\<lparr>router := r, irq_last_result := IRQ_CONTROLLER_RESULT_BUSY\<rparr>)"

definition irq_controller_write ::
  "irq_controller_device \<Rightarrow> u64 \<Rightarrow> nat \<Rightarrow> u64 \<Rightarrow> bool \<times> irq_controller_device" where
  "irq_controller_write device offset width v =
     (if width \<noteq> 8 then (False, device)
      else if offset = IRQ_CONTROLLER_ENABLE_OFFSET then
        (True, irq_mask_command interrupt_router_set_enabled device v)
      else if offset = IRQ_CONTROLLER_ENABLE_SET_OFFSET then
        (True, irq_mask_command interrupt_router_enable_lines device v)
      else if offset = IRQ_CONTROLLER_ENABLE_CLEAR_OFFSET then
        (True, irq_mask_command interrupt_router_disable_lines device v)
      else if offset = IRQ_CONTROLLER_LINE_SELECT_OFFSET then
        (True, if v \<ge> of_nat INTERRUPT_EXTERNAL_LINE_COUNT
               then device\<lparr>irq_last_result := IRQ_CONTROLLER_RESULT_INVALID_LINE\<rparr>
               else device\<lparr>selected_line := v, irq_last_result := IRQ_CONTROLLER_RESULT_SUCCESS\<rparr>)
      else if offset = IRQ_CONTROLLER_ROUTE_OFFSET then
        (True, if selected_line device \<ge> of_nat INTERRUPT_EXTERNAL_LINE_COUNT
               then device\<lparr>irq_last_result := IRQ_CONTROLLER_RESULT_INVALID_LINE\<rparr>
               else if unat v \<ge> target_count (router device)
               then device\<lparr>irq_last_result := IRQ_CONTROLLER_RESULT_INVALID_TARGET\<rparr>
               else case interrupt_router_set_route (router device) (unat (selected_line device)) (unat v) of
                      (False, r) \<Rightarrow> device\<lparr>router := r, irq_last_result := IRQ_CONTROLLER_RESULT_BUSY\<rparr>
                    | (True, r) \<Rightarrow> device\<lparr>router := r, irq_last_result := IRQ_CONTROLLER_RESULT_SUCCESS\<rparr>)
      else if offset = IRQ_CONTROLLER_EOI_OFFSET then
        (True, if v \<ge> of_nat INTERRUPT_EXTERNAL_LINE_COUNT
               then device\<lparr>irq_last_result := IRQ_CONTROLLER_RESULT_INVALID_LINE\<rparr>
               else case interrupt_router_eoi (router device) (unat v) of
                      (False, r) \<Rightarrow> device\<lparr>router := r, irq_last_result := IRQ_CONTROLLER_RESULT_NOT_ACTIVE\<rparr>
                    | (True, r) \<Rightarrow> device\<lparr>router := r, irq_last_result := IRQ_CONTROLLER_RESULT_SUCCESS\<rparr>)
      else (False, device))"

definition irq_controller_reset :: "irq_controller_device \<Rightarrow> irq_controller_device" where
  "irq_controller_reset device =
     device\<lparr>router := interrupt_router_programmable_reset (router device), selected_line := 0,
            irq_last_result := IRQ_CONTROLLER_RESULT_NONE\<rparr>"

definition irq_controller_device_init :: "interrupt_router \<Rightarrow> irq_controller_device option" where
  "irq_controller_device_init r =
     (if target_count r = 0 then None
      else Some \<lparr>router = interrupt_router_programmable_reset r, selected_line = 0,
                 irq_last_result = IRQ_CONTROLLER_RESULT_NONE\<rparr>)"

section \<open>System information\<close>

definition SYSTEM_INFO_MAGIC :: u64 where "SYSTEM_INFO_MAGIC = 0x464E4953"
definition SYSTEM_INFO_VERSION :: u64 where "SYSTEM_INFO_VERSION = 1"
definition SYSTEM_INFO_ISA_VERSION :: u64 where "SYSTEM_INFO_ISA_VERSION = 1"

record system_info_device =
  features :: u64
  info_ram_base :: u64
  info_ram_size :: u64
  info_rom_base :: u64
  info_rom_size :: u64
  info_reset_vector :: u64
  info_core_count :: u64
  info_threads_per_core :: u64
  logical_processor_count :: u64
  physical_address_bits :: u64
  info_page_size :: u64
  virtual_address_bits :: u64
  timer_frequency :: u64
  interrupt_line_count :: u64
  vio_hub_base :: u64
  vio_slot_count :: u64
  dynamic_mmio_base :: u64
  dynamic_mmio_size :: u64
  system_control_base :: u64
  external_interrupt_line_count :: u64
  ipi_line_base :: u64
  irq_controller_base :: u64

text \<open>The register file, by offset in steps of eight bytes from 0 to \<open>0xC0\<close>.\<close>

definition system_info_registers :: "system_info_device \<Rightarrow> u64 list" where
  "system_info_registers device =
     [SYSTEM_INFO_MAGIC, SYSTEM_INFO_VERSION, features device, info_ram_base device,
      info_ram_size device, info_rom_base device, info_rom_size device, info_reset_vector device,
      info_core_count device, info_threads_per_core device, logical_processor_count device,
      physical_address_bits device, info_page_size device, virtual_address_bits device,
      timer_frequency device, interrupt_line_count device, vio_hub_base device,
      vio_slot_count device, dynamic_mmio_base device, dynamic_mmio_size device,
      system_control_base device, SYSTEM_INFO_ISA_VERSION, external_interrupt_line_count device,
      ipi_line_base device, irq_controller_base device]"

definition system_info_read :: "system_info_device \<Rightarrow> u64 \<Rightarrow> nat \<Rightarrow> u64 option" where
  "system_info_read device offset width =
     (if width \<noteq> 8 \<or> offset mod 8 \<noteq> 0 \<or> offset > 0xC0 then None
      else Some (system_info_registers device ! unat (offset div 8)))"

definition system_info_device_init :: "system_info_device \<Rightarrow> system_info_device option" where
  "system_info_device_init configuration =
     (if info_ram_size configuration = 0 \<or> info_core_count configuration = 0 \<or>
         info_threads_per_core configuration = 0 \<or> logical_processor_count configuration = 0
      then None else Some configuration)"

section \<open>The controller keeps the router consistent\<close>

datatype irq_event = Irq_Write u64 nat u64 | Irq_Line nat | Irq_Take nat | Irq_Reset

text \<open>Guest stores, device lines, a hardware thread taking its next interrupt, and the reset.\<close>

fun irq_step :: "irq_event \<Rightarrow> irq_controller_device \<Rightarrow> irq_controller_device" where
  "irq_step (Irq_Write offset width v) d = snd (irq_controller_write d offset width v)"
| "irq_step (Irq_Line line) d = d\<lparr>router := snd (interrupt_router_raise (router d) line)\<rparr>"
| "irq_step (Irq_Take target) d = d\<lparr>router := router_step (Take_Next target) (router d)\<rparr>"
| "irq_step Irq_Reset d = irq_controller_reset d"

definition irq_ok :: "irq_controller_device \<Rightarrow> bool" where
  "irq_ok d \<longleftrightarrow> router_ok (router d) \<and> unat (selected_line d) < INTERRUPT_EXTERNAL_LINE_COUNT"

lemma external_count: "of_nat INTERRUPT_EXTERNAL_LINE_COUNT \<le> (v :: u64) \<longleftrightarrow> INTERRUPT_EXTERNAL_LINE_COUNT \<le> unat v"
  by (simp add: word_le_nat_alt INTERRUPT_EXTERNAL_LINE_COUNT_def)

lemma mask_command_cases:
  obtains (invalid) "\<not> mask_valid v" "irq_mask_command f d v = d\<lparr>irq_last_result := IRQ_CONTROLLER_RESULT_INVALID_MASK\<rparr>"
  | (passed) r x where "f (router d) v = (True, r)"
      "irq_mask_command f d v = d\<lparr>router := r, irq_last_result := IRQ_CONTROLLER_RESULT_SUCCESS\<rparr>"
  | (busy) r where "f (router d) v = (False, r)"
      "irq_mask_command f d v = d\<lparr>router := r, irq_last_result := IRQ_CONTROLLER_RESULT_BUSY\<rparr>"
  by (cases "mask_valid v"; cases "f (router d) v") (auto simp: irq_mask_command_def split: bool.splits)

text \<open>A router operation that fails leaves the router alone.\<close>

lemma router_failures:
  "interrupt_router_set_enabled r v = (False, r') \<Longrightarrow> r' = r"
  "interrupt_router_enable_lines r v = (False, r') \<Longrightarrow> r' = r"
  "interrupt_router_disable_lines r v = (False, r') \<Longrightarrow> r' = r"
  "interrupt_router_set_route r line t = (False, r') \<Longrightarrow> r' = r"
  "interrupt_router_eoi r line = (False, r') \<Longrightarrow> r' = r"
  by (auto simp: interrupt_router_set_enabled_def interrupt_router_enable_lines_def
      interrupt_router_disable_lines_def interrupt_router_set_route_def interrupt_router_eoi_def Let_def
      split: if_splits)

lemma operation_ok:
  assumes "router_ok r"
  shows "interrupt_router_set_enabled r v = (b, r') \<Longrightarrow> router_ok r'"
    "interrupt_router_enable_lines r v = (b, r') \<Longrightarrow> router_ok r'"
    "interrupt_router_disable_lines r v = (b, r') \<Longrightarrow> router_ok r'"
    "interrupt_router_set_route r line t = (b, r') \<Longrightarrow> router_ok r'"
    "interrupt_router_eoi r line = (b, r') \<Longrightarrow> router_ok r'"
  using router_step_ok [OF assms, of "Set_Enabled v"] router_step_ok [OF assms, of "Enable_Lines v"]
    router_step_ok [OF assms, of "Disable_Lines v"] router_step_ok [OF assms, of "Set_Route line t"]
    router_step_ok [OF assms, of "Eoi line"]
  by simp_all

lemma mask_command_ok:
  assumes "irq_ok d" and "\<And>b r'. f (router d) v = (b, r') \<Longrightarrow> router_ok r'"
    and "\<And>r'. f (router d) v = (False, r') \<Longrightarrow> r' = router d"
  shows "irq_ok (irq_mask_command f d v) \<and>
    (irq_last_result (irq_mask_command f d v) \<noteq> IRQ_CONTROLLER_RESULT_SUCCESS \<longrightarrow>
     router (irq_mask_command f d v) = router d)"
  using assms by (cases rule: mask_command_cases [of v f d]) (auto simp: irq_ok_def)

lemma write_ok:
  assumes ok: "irq_ok d" and w: "irq_controller_write d offset width v = (b, d')"
  shows "irq_ok d' \<and> (b \<and> irq_last_result d' \<noteq> IRQ_CONTROLLER_RESULT_SUCCESS \<longrightarrow> router d' = router d)"
proof -
  have r: "router_ok (router d)" and sel: "\<not> INTERRUPT_EXTERNAL_LINE_COUNT \<le> unat (selected_line d)"
    using ok by (auto simp: irq_ok_def)
  note op = operation_ok [OF r] router_failures
  consider (mask) f where "d' = irq_mask_command f d v"
      "f \<in> {interrupt_router_set_enabled, interrupt_router_enable_lines, interrupt_router_disable_lines}"
    | (route) c r' where "interrupt_router_set_route (router d) (unat (selected_line d)) (unat v) = (c, r')"
        "d' = d\<lparr>router := r', irq_last_result := (if c then IRQ_CONTROLLER_RESULT_SUCCESS else IRQ_CONTROLLER_RESULT_BUSY)\<rparr>"
    | (eoi) c r' where "interrupt_router_eoi (router d) (unat v) = (c, r')"
        "d' = d\<lparr>router := r', irq_last_result := (if c then IRQ_CONTROLLER_RESULT_SUCCESS else IRQ_CONTROLLER_RESULT_NOT_ACTIVE)\<rparr>"
    | (other) "router d' = router d" "unat (selected_line d') < INTERRUPT_EXTERNAL_LINE_COUNT"
    using w sel
    by (cases "interrupt_router_set_route (router d) (unat (selected_line d)) (unat v)";
        cases "interrupt_router_eoi (router d) (unat v)")
       (simp add: irq_controller_write_def external_count split: if_split_asm bool.split_asm, auto)
  then show ?thesis
  proof cases
    case mask
    then show ?thesis
      using mask_command_ok [OF ok op(1) op(6)] mask_command_ok [OF ok op(2) op(7)]
        mask_command_ok [OF ok op(3) op(8)] by auto
  next
    case route
    then show ?thesis using ok op(4,9) by (auto simp: irq_ok_def)
  next
    case eoi
    then show ?thesis using ok op(5,10) by (auto simp: irq_ok_def)
  qed (use r in \<open>simp add: irq_ok_def\<close>)
qed

lemma irq_step_ok: "irq_ok d \<Longrightarrow> irq_ok (irq_step e d)"
proof (cases e)
  case (Irq_Write offset width v)
  then show "irq_ok d \<Longrightarrow> irq_ok (irq_step e d)"
    using write_ok [of d offset width v] by (cases "irq_controller_write d offset width v") auto
next
  case (Irq_Line line)
  then show "irq_ok d \<Longrightarrow> irq_ok (irq_step e d)"
    using router_step_ok [of "router d" "Raise line"] by (simp add: irq_ok_def)
next
  case (Irq_Take t)
  then show "irq_ok d \<Longrightarrow> irq_ok (irq_step e d)"
    using router_step_ok [of "router d" "Take_Next t"] by (simp add: irq_ok_def)
next
  case Irq_Reset
  show "irq_ok d \<Longrightarrow> irq_ok (irq_step e d)"
  proof -
    assume "irq_ok d"
    then have "routes (router d) 0 < target_count (router d)"
      by (simp add: irq_ok_def router_ok_def router_shape_def INTERRUPT_EXTERNAL_LINE_COUNT_def)
    then have "targets (router d) \<noteq> []" by auto
    then show ?thesis
      using Irq_Reset reset_ok by (simp add: irq_ok_def irq_controller_reset_def INTERRUPT_EXTERNAL_LINE_COUNT_def)
  qed
qed

interpretation irq_machine: invariant_machine irq_step irq_ok
  by unfold_locales (rule irq_step_ok)

lemma irq_init_ok: "irq_controller_device_init r = Some d \<Longrightarrow> irq_ok d"
  using reset_ok [of r]
  by (auto simp: irq_controller_device_init_def irq_ok_def INTERRUPT_EXTERNAL_LINE_COUNT_def split: if_splits)

text \<open>C28: Guest code cannot corrupt interrupt delivery. From the initialisation of the controller,
  whatever is stored to its registers, in whatever width, interleaved with device lines, threads
  taking interrupts and resets, no two active lines share a target and no deliverable line waits
  for an idle target; and a store that is answered with an error code does not change the
  router.\<close>

theorem irq_controller_is_safe:
  assumes "irq_controller_device_init r0 = Some d0" and "d = fold irq_step es d0"
    and "irq_controller_write d offset width v = (True, d')"
  shows "one_active_line (router d') \<and> (\<forall>t. settled_at (router d') t) \<and>
    (irq_last_result d' \<noteq> IRQ_CONTROLLER_RESULT_SUCCESS \<longrightarrow> router d' = router d)"
proof -
  have "irq_ok d" using irq_machine.run_inv [OF irq_init_ok [OF assms(1)]] assms(2) by simp
  from write_ok [OF this assms(3)] show ?thesis by (simp add: irq_ok_def router_ok_def)
qed

theorem irq_controller_is_safe_witness:
  "\<exists>r0 d0 d'. irq_controller_device_init r0 = Some d0 \<and>
     irq_controller_write (fold irq_step [Irq_Line 3] d0) IRQ_CONTROLLER_EOI_OFFSET 8 100 = (True, d') \<and>
     irq_last_result d' = IRQ_CONTROLLER_RESULT_INVALID_LINE \<and> one_active_line (router d')"
proof -
  let ?r = "\<lparr>targets = [0], routes = (\<lambda>_. 0), enabled = 0, pending = 0, active = 0, programmable = False\<rparr>"
  obtain d0 where init: "irq_controller_device_init ?r = Some d0" by (simp add: irq_controller_device_init_def)
  let ?d = "fold irq_step [Irq_Line 3] d0"
  have w: "irq_controller_write ?d IRQ_CONTROLLER_EOI_OFFSET 8 100 =
      (True, ?d\<lparr>irq_last_result := IRQ_CONTROLLER_RESULT_INVALID_LINE\<rparr>)"
    by (simp add: irq_controller_write_def IRQ_CONTROLLER_EOI_OFFSET_def IRQ_CONTROLLER_ENABLE_OFFSET_def
        IRQ_CONTROLLER_ENABLE_SET_OFFSET_def IRQ_CONTROLLER_ENABLE_CLEAR_OFFSET_def
        IRQ_CONTROLLER_LINE_SELECT_OFFSET_def IRQ_CONTROLLER_ROUTE_OFFSET_def INTERRUPT_EXTERNAL_LINE_COUNT_def)
  from irq_controller_is_safe [OF init refl w] init w show ?thesis by fastforce
qed

end
