(* ===== verification/Keyboard.thy ===== *)
theory Keyboard
  imports Device_Abi Ring_Buffer
begin

text \<open>
  The keyboard: the host side that stamps and forwards events (\<^verbatim>\<open>src/keyboard_input.c\<close>) and
  the device module with its queue of 256 events
  (\<^verbatim>\<open>devices/keyboard/keyboard_device.c\<close>). A sink, the pair of a function pointer and its
  context, is a value of type \<open>'k\<close>; the call of a sink is part of the result.
\<close>

section \<open>Events\<close>

definition VM_KEYBOARD_EVENT_USAGE_MASK :: u64 where "VM_KEYBOARD_EVENT_USAGE_MASK = 0xFFFF"
definition VM_KEYBOARD_EVENT_DOWN :: u64 where "VM_KEYBOARD_EVENT_DOWN = BIT 16"
definition VM_KEYBOARD_EVENT_REPEAT :: u64 where "VM_KEYBOARD_EVENT_REPEAT = BIT 17"
definition VM_KEYBOARD_EVENT_EXTENDED :: u64 where "VM_KEYBOARD_EVENT_EXTENDED = BIT 18"
definition VM_KEYBOARD_EVENT_MODIFIERS_SHIFT :: nat where "VM_KEYBOARD_EVENT_MODIFIERS_SHIFT = 24"
definition VM_KEYBOARD_EVENT_SEQUENCE_SHIFT :: nat where "VM_KEYBOARD_EVENT_SEQUENCE_SHIFT = 32"
definition VM_KEYBOARD_EVENT_SEQUENCE_MASK :: u64 where
  "VM_KEYBOARD_EVENT_SEQUENCE_MASK = push_bit 32 0xFFFFFFFF"
definition VM_KEY_NONE :: u64 where "VM_KEY_NONE = 0"

definition vm_keyboard_event_make :: "u16 \<Rightarrow> bool \<Rightarrow> bool \<Rightarrow> bool \<Rightarrow> u8 \<Rightarrow> u64" where
  "vm_keyboard_event_make usage down repeat extended modifiers =
     ucast usage OR (if down then VM_KEYBOARD_EVENT_DOWN else 0) OR
     (if repeat then VM_KEYBOARD_EVENT_REPEAT else 0) OR
     (if extended then VM_KEYBOARD_EVENT_EXTENDED else 0) OR
     push_bit VM_KEYBOARD_EVENT_MODIFIERS_SHIFT (ucast modifiers)"

section \<open>The host side\<close>

record 'k keyboard_input =
  sink :: "'k option"
  sequence :: u32

definition set_sink :: "'k keyboard_input \<Rightarrow> 'k \<Rightarrow> bool \<times> 'k keyboard_input" where
  "set_sink inp k = (if sink inp \<noteq> None then (False, inp) else (True, inp\<lparr>sink := Some k\<rparr>))"

definition clear_sink :: "'k keyboard_input \<Rightarrow> 'k \<Rightarrow> bool \<times> 'k keyboard_input" where
  "clear_sink inp k = (if sink inp \<noteq> Some k then (False, inp) else (True, inp\<lparr>sink := None\<rparr>))"

definition keyboard_input_init :: "'k keyboard_input" where
  "keyboard_input_init = \<lparr>sink = None, sequence = 0\<rparr>"

definition keyboard_input_destroy :: "'k keyboard_input \<Rightarrow> 'k keyboard_input" where
  "keyboard_input_destroy inp = \<lparr>sink = None, sequence = 0\<rparr>"

text \<open>The third component is the call of the sink, if there is one.\<close>

definition keyboard_input_emit ::
  "'k keyboard_input \<Rightarrow> u64 \<Rightarrow> bool \<times> 'k keyboard_input \<times> ('k \<times> u64) option" where
  "keyboard_input_emit inp event =
     (if event AND VM_KEYBOARD_EVENT_USAGE_MASK = VM_KEY_NONE then (False, inp, None)
      else case sink inp of
             None \<Rightarrow> (False, inp, None)
           | Some k \<Rightarrow>
               let number = sequence inp + 1;
                   event = event AND NOT VM_KEYBOARD_EVENT_SEQUENCE_MASK;
                   event = event OR push_bit VM_KEYBOARD_EVENT_SEQUENCE_SHIFT (ucast number)
               in (True, inp\<lparr>sequence := number\<rparr>, Some (k, event)))"

section \<open>The device\<close>

definition VM_KEYBOARD_QUEUE_CAPACITY :: nat where "VM_KEYBOARD_QUEUE_CAPACITY = 256"
definition VM_KEYBOARD_PROTOCOL_VERSION :: u64 where "VM_KEYBOARD_PROTOCOL_VERSION = 1"
definition VM_KEYBOARD_HOST_VERSION :: u32 where "VM_KEYBOARD_HOST_VERSION = 1"
definition VM_KEYBOARD_SERVICE_NAME :: string where "VM_KEYBOARD_SERVICE_NAME = ''input.keyboard''"
definition VM_KEYBOARD_CONTROL_OFFSET :: u64 where "VM_KEYBOARD_CONTROL_OFFSET = 0x00"
definition VM_KEYBOARD_STATUS_OFFSET :: u64 where "VM_KEYBOARD_STATUS_OFFSET = 0x08"
definition VM_KEYBOARD_EVENT_COUNT_OFFSET :: u64 where "VM_KEYBOARD_EVENT_COUNT_OFFSET = 0x10"
definition VM_KEYBOARD_EVENT_DATA_OFFSET :: u64 where "VM_KEYBOARD_EVENT_DATA_OFFSET = 0x18"
definition VM_KEYBOARD_CAPACITY_OFFSET :: u64 where "VM_KEYBOARD_CAPACITY_OFFSET = 0x20"
definition VM_KEYBOARD_IRQ_STATUS_OFFSET :: u64 where "VM_KEYBOARD_IRQ_STATUS_OFFSET = 0x28"
definition VM_KEYBOARD_DROPPED_OFFSET :: u64 where "VM_KEYBOARD_DROPPED_OFFSET = 0x30"
definition VM_KEYBOARD_VERSION_OFFSET :: u64 where "VM_KEYBOARD_VERSION_OFFSET = 0x38"
definition VM_KEYBOARD_CONTROL_ENABLE :: u64 where "VM_KEYBOARD_CONTROL_ENABLE = BIT 0"
definition VM_KEYBOARD_CONTROL_IRQ_ENABLE :: u64 where "VM_KEYBOARD_CONTROL_IRQ_ENABLE = BIT 1"
definition VM_KEYBOARD_STATUS_EVENT_AVAILABLE :: u64 where "VM_KEYBOARD_STATUS_EVENT_AVAILABLE = BIT 0"
definition VM_KEYBOARD_STATUS_OVERFLOW :: u64 where "VM_KEYBOARD_STATUS_OVERFLOW = BIT 1"
definition VM_KEYBOARD_IRQ_EVENT :: u64 where "VM_KEYBOARD_IRQ_EVENT = BIT 0"
definition VM_KEYBOARD_IRQ_OVERFLOW :: u64 where "VM_KEYBOARD_IRQ_OVERFLOW = BIT 1"

definition KEYBOARD_CONTROL_MASK :: u64 where
  "KEYBOARD_CONTROL_MASK = VM_KEYBOARD_CONTROL_ENABLE OR VM_KEYBOARD_CONTROL_IRQ_ENABLE"

record 'h keyboard_device =
  kb_host :: "'h vm_device_host_api"
  kb_resources :: vm_device_resources
  events :: "u64 list"
  kb_head :: nat
  kb_tail :: nat
  kb_count :: nat
  kb_control :: u64
  kb_status :: u64
  kb_irq_status :: u64
  kb_dropped :: u64

definition keyboard_raise_irq :: "'h keyboard_device \<Rightarrow> 'h \<Rightarrow> 'h" where
  "keyboard_raise_irq keyboard h = host_raise (kb_host keyboard) (kb_resources keyboard) h"

definition keyboard_receive :: "'h keyboard_device \<Rightarrow> u64 \<Rightarrow> 'h \<Rightarrow> 'h keyboard_device \<times> 'h" where
  "keyboard_receive keyboard event h =
     (if kb_control keyboard AND VM_KEYBOARD_CONTROL_ENABLE \<noteq> 0 then
        let keyboard =
          (if kb_count keyboard = VM_KEYBOARD_QUEUE_CAPACITY then
             keyboard\<lparr>kb_dropped := kb_dropped keyboard + 1,
                      kb_status := kb_status keyboard OR VM_KEYBOARD_STATUS_OVERFLOW,
                      kb_irq_status := kb_irq_status keyboard OR VM_KEYBOARD_IRQ_OVERFLOW\<rparr>
           else
             keyboard\<lparr>events := (events keyboard)[kb_tail keyboard := event],
                      kb_tail := (kb_tail keyboard + 1) mod VM_KEYBOARD_QUEUE_CAPACITY,
                      kb_count := kb_count keyboard + 1,
                      kb_irq_status := kb_irq_status keyboard OR VM_KEYBOARD_IRQ_EVENT\<rparr>)
        in (keyboard,
            if kb_control keyboard AND VM_KEYBOARD_CONTROL_IRQ_ENABLE \<noteq> 0
            then keyboard_raise_irq keyboard h else h)
      else (keyboard, h))"

text \<open>The service of the host and its \<open>set_sink\<close> are parameters of the creation: whether a service
  with the interface of the expected version exists, and what \<open>set_sink\<close> answers.\<close>

definition keyboard_create ::
  "'h vm_device_host_api \<Rightarrow> vm_device_resources \<Rightarrow> bool \<Rightarrow> 'h keyboard_device option" where
  "keyboard_create host resources sink_set =
     (if host_abi_version host \<noteq> VM_DEVICE_ABI_VERSION \<or> host_struct_size host < VmDeviceHostApi_size \<or>
         host_get_service host = None \<or> res_struct_size resources < VmDeviceResources_size \<or>
         res_bar_count resources \<noteq> 1 \<or> res_irq_count resources \<noteq> 1
      then None
      else if \<not> the (host_get_service host) VM_KEYBOARD_SERVICE_NAME VM_KEYBOARD_HOST_VERSION then None
      else if \<not> sink_set then None
      else Some \<lparr>kb_host = host, kb_resources = resources,
                 events = replicate VM_KEYBOARD_QUEUE_CAPACITY 0, kb_head = 0, kb_tail = 0, kb_count = 0,
                 kb_control = 0, kb_status = 0, kb_irq_status = 0, kb_dropped = 0\<rparr>)"

definition keyboard_read ::
  "'h keyboard_device \<Rightarrow> u32 \<Rightarrow> u64 \<Rightarrow> u32 \<Rightarrow> u64 option \<times> 'h keyboard_device" where
  "keyboard_read keyboard bar offset width =
     (if bar \<noteq> 0 \<or> width \<noteq> 8 then (None, keyboard)
      else if offset = VM_KEYBOARD_CONTROL_OFFSET then (Some (kb_control keyboard), keyboard)
      else if offset = VM_KEYBOARD_STATUS_OFFSET then
        (Some (kb_status keyboard OR
               (if kb_count keyboard \<noteq> 0 then VM_KEYBOARD_STATUS_EVENT_AVAILABLE else 0)), keyboard)
      else if offset = VM_KEYBOARD_EVENT_COUNT_OFFSET then (Some (of_nat (kb_count keyboard)), keyboard)
      else if offset = VM_KEYBOARD_EVENT_DATA_OFFSET then
        if kb_count keyboard \<noteq> 0 then
          let event = events keyboard ! kb_head keyboard;
              count = kb_count keyboard - 1
          in (Some event,
              keyboard\<lparr>kb_head := (kb_head keyboard + 1) mod VM_KEYBOARD_QUEUE_CAPACITY, kb_count := count,
                       kb_irq_status := (if count = 0 then kb_irq_status keyboard AND NOT VM_KEYBOARD_IRQ_EVENT
                                         else kb_irq_status keyboard)\<rparr>)
        else (Some 0, keyboard)
      else if offset = VM_KEYBOARD_CAPACITY_OFFSET then (Some (of_nat VM_KEYBOARD_QUEUE_CAPACITY), keyboard)
      else if offset = VM_KEYBOARD_IRQ_STATUS_OFFSET then (Some (kb_irq_status keyboard), keyboard)
      else if offset = VM_KEYBOARD_DROPPED_OFFSET then (Some (kb_dropped keyboard), keyboard)
      else if offset = VM_KEYBOARD_VERSION_OFFSET then (Some VM_KEYBOARD_PROTOCOL_VERSION, keyboard)
      else (None, keyboard))"

definition keyboard_write ::
  "'h keyboard_device \<Rightarrow> u32 \<Rightarrow> u64 \<Rightarrow> u32 \<Rightarrow> u64 \<Rightarrow> 'h \<Rightarrow> bool \<times> 'h keyboard_device \<times> 'h" where
  "keyboard_write keyboard bar offset width v h =
     (if bar \<noteq> 0 \<or> width \<noteq> 8 then (False, keyboard, h)
      else if offset = VM_KEYBOARD_CONTROL_OFFSET then
        let keyboard = keyboard\<lparr>kb_control := v AND KEYBOARD_CONTROL_MASK\<rparr>
        in if kb_control keyboard AND VM_KEYBOARD_CONTROL_ENABLE = 0 then
             (True, keyboard\<lparr>kb_head := 0, kb_tail := 0, kb_count := 0, kb_status := 0, kb_irq_status := 0\<rparr>, h)
           else
             (True, keyboard,
              if kb_control keyboard AND VM_KEYBOARD_CONTROL_IRQ_ENABLE \<noteq> 0 \<and> kb_irq_status keyboard \<noteq> 0
              then keyboard_raise_irq keyboard h else h)
      else if offset = VM_KEYBOARD_STATUS_OFFSET then
        (True, keyboard\<lparr>kb_status := kb_status keyboard AND NOT (v AND VM_KEYBOARD_STATUS_OVERFLOW)\<rparr>, h)
      else if offset = VM_KEYBOARD_IRQ_STATUS_OFFSET then
        (True, keyboard\<lparr>kb_irq_status := kb_irq_status keyboard AND
                          NOT (v AND (VM_KEYBOARD_IRQ_EVENT OR VM_KEYBOARD_IRQ_OVERFLOW))\<rparr>, h)
      else if offset = VM_KEYBOARD_DROPPED_OFFSET then
        (True, if v \<noteq> 0 then keyboard\<lparr>kb_dropped := 0\<rparr> else keyboard, h)
      else (False, keyboard, h))"

definition keyboard_reset :: "'h keyboard_device \<Rightarrow> 'h keyboard_device" where
  "keyboard_reset keyboard =
     keyboard\<lparr>kb_head := 0, kb_tail := 0, kb_count := 0, kb_control := 0, kb_status := 0,
              kb_irq_status := 0, kb_dropped := 0\<rparr>"

section \<open>The queue\<close>

definition keyboard_ok :: "'h keyboard_device \<Rightarrow> bool" where
  "keyboard_ok k \<longleftrightarrow>
     length (events k) = VM_KEYBOARD_QUEUE_CAPACITY \<and> kb_head k < VM_KEYBOARD_QUEUE_CAPACITY \<and>
     kb_count k \<le> VM_KEYBOARD_QUEUE_CAPACITY \<and>
     kb_tail k = (kb_head k + kb_count k) mod VM_KEYBOARD_QUEUE_CAPACITY"

definition keyboard_enabled :: "'h keyboard_device \<Rightarrow> bool" where
  "keyboard_enabled k \<longleftrightarrow> kb_control k AND VM_KEYBOARD_CONTROL_ENABLE \<noteq> 0"

definition key_queue :: "'h keyboard_device \<Rightarrow> u64 list" where
  "key_queue k = ring (events k) (kb_head k) (kb_count k)"

text \<open>The two ends: the host emits an event, which is accepted unless it counts as dropped, and the
  guest reads an event when the count register is not zero.\<close>

definition key_in :: "u64 \<Rightarrow> 'h keyboard_device \<times> 'h \<Rightarrow> bool \<times> 'h keyboard_device \<times> 'h" where
  "key_in event s =
     (let (k', h') = keyboard_receive (fst s) event (snd s) in (kb_dropped k' = kb_dropped (fst s), k', h'))"

definition key_out :: "'h keyboard_device \<times> 'h \<Rightarrow> u64 option \<times> 'h keyboard_device \<times> 'h" where
  "key_out s =
     (let (count, k) = keyboard_read (fst s) 0 VM_KEYBOARD_EVENT_COUNT_OFFSET 8
      in if count = Some 0 then (None, k, snd s)
         else let (event, k) = keyboard_read k 0 VM_KEYBOARD_EVENT_DATA_OFFSET 8 in (event, k, snd s))"

lemma keyboard_offsets:
  "VM_KEYBOARD_EVENT_COUNT_OFFSET \<noteq> VM_KEYBOARD_CONTROL_OFFSET" "VM_KEYBOARD_EVENT_COUNT_OFFSET \<noteq> VM_KEYBOARD_STATUS_OFFSET"
  "VM_KEYBOARD_EVENT_DATA_OFFSET \<noteq> VM_KEYBOARD_CONTROL_OFFSET" "VM_KEYBOARD_EVENT_DATA_OFFSET \<noteq> VM_KEYBOARD_STATUS_OFFSET"
  "VM_KEYBOARD_EVENT_DATA_OFFSET \<noteq> VM_KEYBOARD_EVENT_COUNT_OFFSET"
  by (simp_all add: VM_KEYBOARD_EVENT_COUNT_OFFSET_def VM_KEYBOARD_EVENT_DATA_OFFSET_def
      VM_KEYBOARD_CONTROL_OFFSET_def VM_KEYBOARD_STATUS_OFFSET_def)

lemma key_out_eq:
  assumes "keyboard_ok k"
  shows "key_out (k, h) =
    (if kb_count k = 0 then (None, k, h)
     else (Some (events k ! kb_head k),
       k\<lparr>kb_head := (kb_head k + 1) mod VM_KEYBOARD_QUEUE_CAPACITY, kb_count := kb_count k - 1,
         kb_irq_status := (if kb_count k - 1 = 0 then kb_irq_status k AND NOT VM_KEYBOARD_IRQ_EVENT
                           else kb_irq_status k)\<rparr>, h))"
proof -
  have "unat (of_nat (kb_count k) :: u64) = kb_count k"
    using assms unfolding unat_of_nat by (simp add: keyboard_ok_def VM_KEYBOARD_QUEUE_CAPACITY_def)
  then have "(of_nat (kb_count k) :: u64) = 0 \<longleftrightarrow> kb_count k = 0" using unat_eq_0 [of "of_nat (kb_count k) :: u64"] by simp
  then show ?thesis by (simp add: key_out_def keyboard_read_def keyboard_offsets Let_def)
qed

definition overflowed :: "'h keyboard_device \<Rightarrow> 'h keyboard_device" where
  "overflowed k = k\<lparr>kb_dropped := kb_dropped k + 1, kb_status := kb_status k OR VM_KEYBOARD_STATUS_OVERFLOW,
     kb_irq_status := kb_irq_status k OR VM_KEYBOARD_IRQ_OVERFLOW\<rparr>"

definition queued :: "u64 \<Rightarrow> 'h keyboard_device \<Rightarrow> 'h keyboard_device" where
  "queued x k = k\<lparr>events := (events k)[kb_tail k := x],
     kb_tail := (kb_tail k + 1) mod VM_KEYBOARD_QUEUE_CAPACITY, kb_count := kb_count k + 1,
     kb_irq_status := kb_irq_status k OR VM_KEYBOARD_IRQ_EVENT\<rparr>"

lemma key_in_eq:
  assumes "keyboard_enabled k"
  shows "\<exists>h'. key_in x (k, h) =
    (if kb_count k = VM_KEYBOARD_QUEUE_CAPACITY then (False, overflowed k, h') else (True, queued x k, h'))"
  using assms
  by (cases "kb_count k = VM_KEYBOARD_QUEUE_CAPACITY")
     (simp_all add: key_in_def keyboard_receive_def keyboard_enabled_def overflowed_def queued_def Let_def)

lemma queue_steps:
  assumes "keyboard_ok k" "keyboard_enabled k"
  shows "keyboard_ok (overflowed k)" "keyboard_enabled (overflowed k)" "key_queue (overflowed k) = key_queue k"
    "kb_count k \<noteq> VM_KEYBOARD_QUEUE_CAPACITY \<Longrightarrow> keyboard_ok (queued x k)"
    "keyboard_enabled (queued x k)"
    "kb_count k \<noteq> VM_KEYBOARD_QUEUE_CAPACITY \<Longrightarrow> key_queue (queued x k) = key_queue k @ [x]"
proof -
  show "kb_count k \<noteq> VM_KEYBOARD_QUEUE_CAPACITY \<Longrightarrow> key_queue (queued x k) = key_queue k @ [x]"
    using ring_put_index [of "kb_count k" "events k" "kb_tail k" "kb_head k" x] assms(1)
    by (simp add: keyboard_ok_def key_queue_def queued_def)
qed (use assms in \<open>simp_all add: keyboard_ok_def keyboard_enabled_def key_queue_def overflowed_def queued_def mod_simps\<close>)

lemma key_in_law:
  assumes k: "keyboard_ok k" "keyboard_enabled k" and put: "key_in x (k, h) = (accepted, k', h')"
  shows "keyboard_ok k' \<and> keyboard_enabled k' \<and> accepted = (length (key_queue k) < VM_KEYBOARD_QUEUE_CAPACITY) \<and>
    key_queue k' = (if accepted then key_queue k @ [x] else key_queue k)"
proof -
  have "kb_count k \<noteq> VM_KEYBOARD_QUEUE_CAPACITY \<longleftrightarrow> length (key_queue k) < VM_KEYBOARD_QUEUE_CAPACITY"
    using k(1) by (auto simp: keyboard_ok_def key_queue_def)
  moreover obtain g where "key_in x (k, h) =
    (if kb_count k = VM_KEYBOARD_QUEUE_CAPACITY then (False, overflowed k, g) else (True, queued x k, g))"
    using key_in_eq [OF k(2)] by blast
  ultimately show ?thesis using put queue_steps [OF k] by (auto split: if_splits)
qed

lemma key_out_law:
  assumes k: "keyboard_ok k" "keyboard_enabled k" and get: "key_out (k, h) = (item, k', h')"
  shows "keyboard_ok k' \<and> keyboard_enabled k' \<and>
    (case key_queue k of [] \<Rightarrow> item = None \<and> key_queue k' = [] | x # xs \<Rightarrow> item = Some x \<and> key_queue k' = xs)"
proof (cases "kb_count k")
  case 0
  then show ?thesis using get k by (auto simp: key_out_eq key_queue_def)
next
  case (Suc c)
  have "key_queue k = events k ! kb_head k # ring (events k) (Suc (kb_head k) mod VM_KEYBOARD_QUEUE_CAPACITY) c"
    using ring_take [of "kb_count k" "kb_head k" "events k"] k(1) Suc by (simp add: key_queue_def keyboard_ok_def)
  moreover have "item = Some (events k ! kb_head k)" "kb_head k' = Suc (kb_head k) mod VM_KEYBOARD_QUEUE_CAPACITY"
    "kb_count k' = c" "events k' = events k" "kb_tail k' = kb_tail k" "kb_control k' = kb_control k"
    using get Suc k(1) by (auto simp: key_out_eq)
  ultimately show ?thesis
    using k Suc by (simp add: key_queue_def keyboard_ok_def keyboard_enabled_def mod_simps)
qed

interpretation keys: bounded_fifo "\<lambda>(k, h). keyboard_ok k \<and> keyboard_enabled k" "\<lambda>(k, h). key_queue k"
  VM_KEYBOARD_QUEUE_CAPACITY key_in key_out
proof
  fix s :: "'h keyboard_device \<times> 'h" and x accepted s' item
  assume ok: "case s of (k, h) \<Rightarrow> keyboard_ok k \<and> keyboard_enabled k"
  show "length (case s of (k, h) \<Rightarrow> key_queue k) \<le> VM_KEYBOARD_QUEUE_CAPACITY"
    using ok by (auto simp: keyboard_ok_def key_queue_def)
  show "(case s' of (k, h) \<Rightarrow> keyboard_ok k \<and> keyboard_enabled k) \<and>
      accepted = (length (case s of (k, h) \<Rightarrow> key_queue k) < VM_KEYBOARD_QUEUE_CAPACITY) \<and>
      (case s' of (k, h) \<Rightarrow> key_queue k) =
        (if accepted then (case s of (k, h) \<Rightarrow> key_queue k) @ [x] else (case s of (k, h) \<Rightarrow> key_queue k))"
    if "key_in x s = (accepted, s')"
    using that ok key_in_law [of "fst s" x "snd s" accepted "fst s'" "snd s'"] by (simp add: case_prod_beta)
  show "(case s' of (k, h) \<Rightarrow> keyboard_ok k \<and> keyboard_enabled k) \<and>
      (case case s of (k, h) \<Rightarrow> key_queue k of [] \<Rightarrow> item = None \<and> (case s' of (k, h) \<Rightarrow> key_queue k) = []
       | x # xs \<Rightarrow> item = Some x \<and> (case s' of (k, h) \<Rightarrow> key_queue k) = xs)"
    if "key_out s = (item, s')"
    using that ok key_out_law [of "fst s" "snd s" item "fst s'" "snd s'"]
    by (cases s'; cases s) (auto split: list.split)
qed

section \<open>Properties\<close>

lemma create_ok: "keyboard_create host resources b = Some k \<Longrightarrow> keyboard_ok k"
  by (auto simp: keyboard_create_def keyboard_ok_def VM_KEYBOARD_QUEUE_CAPACITY_def split: if_splits)

text \<open>C29: Key events reach the guest in order. Once the guest has enabled a keyboard that was just
  created, whatever the interleaving of events from the host and reads by the guest, the events
  read are the accepted ones in the order they came, none lost or doubled, and an event is
  refused, and counted as dropped, only when 256 are waiting.\<close>

theorem keyboard_events_in_order:
  assumes "keyboard_create host resources True = Some k0"
    and "keyboard_write k0 0 VM_KEYBOARD_CONTROL_OFFSET 8 v h0 = (True, k, h)"
    and "v AND VM_KEYBOARD_CONTROL_ENABLE \<noteq> 0"
    and "fifo_run key_in key_out cs (k, h) = (accepted, delivered, k', h')"
  shows "accepted = delivered @ key_queue k' \<and> length accepted \<le> length delivered + VM_KEYBOARD_QUEUE_CAPACITY"
proof -
  have "(v AND KEYBOARD_CONTROL_MASK) AND VM_KEYBOARD_CONTROL_ENABLE = v AND VM_KEYBOARD_CONTROL_ENABLE"
    by (simp add: KEYBOARD_CONTROL_MASK_def and.assoc bit.conj_disj_distrib2 and.left_commute)
  then have k: "k = k0\<lparr>kb_control := v AND KEYBOARD_CONTROL_MASK\<rparr>" and on: "keyboard_enabled k"
    using assms(2,3) by (auto simp: keyboard_write_def Let_def keyboard_enabled_def)
  have "kb_count k0 = 0" using assms(1) by (auto simp: keyboard_create_def split: if_splits)
  then have empty: "key_queue k = []" using k by (simp add: key_queue_def)
  have ok: "case (k, h) of (k, h) \<Rightarrow> keyboard_ok k \<and> keyboard_enabled k"
    using create_ok [OF assms(1)] k on by (simp add: keyboard_ok_def)
  show ?thesis
    using keys.run_in_order [OF ok assms(4)] keys.run_bounded [OF ok assms(4)] empty by simp
qed

definition sample_api :: "unit vm_device_host_api" where
  "sample_api = \<lparr>host_abi_version = 1, host_struct_size = 56, host_dma_read = None, host_dma_write = None,
     host_raise_irq = None, host_get_service = Some (\<lambda>_ _. True)\<rparr>"

definition sample_resources :: vm_device_resources where
  "sample_resources = \<lparr>res_struct_size = 96, res_bar_count = 1, res_irq_count = 1, res_bar_bases = [0x1000],
     res_bar_sizes = [0x40], res_irqs = [5]\<rparr>"

theorem keyboard_events_in_order_witness:
  "\<exists>k0 k h k' h'. keyboard_create sample_api sample_resources True = Some k0 \<and>
     keyboard_write k0 0 VM_KEYBOARD_CONTROL_OFFSET 8 1 () = (True, k, h) \<and>
     fifo_run key_in key_out [Put 4, Put 5, Take] (k, h) = ([4, 5], [4], k', h') \<and>
     [4, 5] = [4] @ key_queue k'"
proof -
  obtain k0 where c: "keyboard_create sample_api sample_resources True = Some k0"
    by (simp add: keyboard_create_def sample_api_def sample_resources_def VM_DEVICE_ABI_VERSION_def
        VmDeviceHostApi_size_def VmDeviceResources_size_def)
  have on: "(1 :: u64) AND VM_KEYBOARD_CONTROL_ENABLE \<noteq> 0"
      "((1 :: u64) AND KEYBOARD_CONTROL_MASK) AND VM_KEYBOARD_CONTROL_ENABLE \<noteq> 0" by code_simp+
  let ?k = "k0\<lparr>kb_control := 1 AND KEYBOARD_CONTROL_MASK\<rparr>"
  obtain h where w: "keyboard_write k0 0 VM_KEYBOARD_CONTROL_OFFSET 8 1 () = (True, ?k, h)"
    using on by (simp add: keyboard_write_def Let_def)
  have "kb_count k0 = 0" using c by (auto simp: keyboard_create_def split: if_splits)
  then have ok: "keyboard_ok ?k" "keyboard_enabled ?k" "length (key_queue ?k) = 0"
    using create_ok [OF c] on by (auto simp: keyboard_ok_def keyboard_enabled_def key_queue_def)
  obtain b1 k1 h1 where p1: "key_in 4 (?k, h) = (b1, k1, h1)" by (metis prod.exhaust)
  note l1 = key_in_law [OF ok(1,2) p1]
  obtain b2 k2 h2 where p2: "key_in 5 (k1, h1) = (b2, k2, h2)" by (metis prod.exhaust)
  note l2 = key_in_law [OF _ _ p2]
  obtain i k3 h3 where p3: "key_out (k2, h2) = (i, k3, h3)" by (metis prod.exhaust)
  note l3 = key_out_law [OF _ _ p3]
  have "fifo_run key_in key_out [Put 4, Put 5, Take] (?k, h) = ([4, 5], [4], k3, h3)"
    using p1 p2 p3 l1 l2 l3 ok(3) by (simp add: VM_KEYBOARD_QUEUE_CAPACITY_def)
  from keyboard_events_in_order [OF c w on(1) this] this c w show ?thesis by blast
qed

end
