(* ===== verification/Display_Queue.thy ===== *)
theory Display_Queue
  imports Ring_Buffer
begin

text \<open>
  The frame queue between the display device and the window (\<^verbatim>\<open>src/display_queue.c\<close>):
  three frames in a ring; a full queue drops its oldest frame, and the consumer takes the latest
  frame and drops the rest. The bytes behind a pixel pointer are a function from offsets;
  \<open>None\<close> is the null pointer. Whether \<^verbatim>\<open>malloc\<close> succeeds is an argument of the push.
\<close>

definition DISPLAY_FRAME_QUEUE_CAPACITY :: nat where "DISPLAY_FRAME_QUEUE_CAPACITY = 3"
definition VM_PIXEL_FORMAT_XRGB8888 :: u32 where "VM_PIXEL_FORMAT_XRGB8888 = 1"

record display_frame =
  pixels :: "u8 list option"
  frame_size :: nat
  frame_width :: u32
  frame_height :: u32
  frame_stride :: u32
  frame_format :: u32
  frame_number :: u64

definition empty_frame :: display_frame where
  "empty_frame = \<lparr>pixels = None, frame_size = 0, frame_width = 0, frame_height = 0, frame_stride = 0,
     frame_format = 0, frame_number = 0\<rparr>"

record display_frame_queue =
  frames :: "display_frame list"
  frame_head :: nat
  frame_count :: nat
  frames_dropped :: u64

definition display_frame_release :: "display_frame \<Rightarrow> display_frame" where
  "display_frame_release frame = empty_frame"

definition display_frame_queue_init :: display_frame_queue where
  "display_frame_queue_init =
     \<lparr>frames = replicate DISPLAY_FRAME_QUEUE_CAPACITY empty_frame, frame_head = 0, frame_count = 0,
      frames_dropped = 0\<rparr>"

definition display_frame_queue_destroy :: "display_frame_queue \<Rightarrow> display_frame_queue" where
  "display_frame_queue_destroy queue =
     \<lparr>frames = map display_frame_release (frames queue), frame_head = 0, frame_count = 0, frames_dropped = 0\<rparr>"

text \<open>The rows of the source, without the padding of its stride.\<close>

definition pack_rows :: "bytes \<Rightarrow> nat \<Rightarrow> nat \<Rightarrow> nat \<Rightarrow> u8 list" where
  "pack_rows source height stride packed_stride =
     concat (map (\<lambda>row. map (\<lambda>i. source (row * stride + i)) [0..<packed_stride]) [0..<height])"

definition display_frame_queue_push ::
  "display_frame_queue \<Rightarrow> bool \<Rightarrow> bytes option \<Rightarrow> u32 \<Rightarrow> u32 \<Rightarrow> u32 \<Rightarrow> u32 \<Rightarrow> u64 \<Rightarrow> bool \<times> display_frame_queue" where
  "display_frame_queue_push queue malloc_ok source width height stride format number =
     (case source of
        None \<Rightarrow> (False, queue)
      | Some source \<Rightarrow>
          if width = 0 \<or> height = 0 \<or> format \<noteq> VM_PIXEL_FORMAT_XRGB8888 \<or>
             unat width > (2 ^ 32 - 1) div 4 \<or> stride < width * 4 \<or>
             unat height > SIZE_MAX div unat stride
          then (False, queue)
          else
            let packed_stride = width * 4;
                size = unat packed_stride * unat height
            in if \<not> malloc_ok then (False, queue)
               else
                 let replacement = \<lparr>pixels = Some (pack_rows source (unat height) (unat stride) (unat packed_stride)),
                       frame_size = size, frame_width = width, frame_height = height,
                       frame_stride = packed_stride, frame_format = format, frame_number = number\<rparr>;
                     queue = (if frame_count queue = DISPLAY_FRAME_QUEUE_CAPACITY
                       then queue\<lparr>frames := (frames queue)[frame_head queue := empty_frame],
                                  frame_head := (frame_head queue + 1) mod DISPLAY_FRAME_QUEUE_CAPACITY,
                                  frame_count := frame_count queue - 1,
                                  frames_dropped := frames_dropped queue + 1\<rparr>
                       else queue);
                     tail = (frame_head queue + frame_count queue) mod DISPLAY_FRAME_QUEUE_CAPACITY
                 in (True, queue\<lparr>frames := (frames queue)[tail := replacement],
                                 frame_count := frame_count queue + 1\<rparr>))"

text \<open>The loop over the queued frames: the last one is kept, the others count as dropped, and
  every slot is cleared.\<close>

fun take_latest_loop ::
  "nat list \<Rightarrow> nat \<Rightarrow> display_frame \<times> display_frame_queue \<Rightarrow> display_frame \<times> display_frame_queue" where
  "take_latest_loop [] count s = s"
| "take_latest_loop (i # is) count (latest, queue) =
     (let index = (frame_head queue + i) mod DISPLAY_FRAME_QUEUE_CAPACITY;
          (latest, queue) = (if i + 1 = count then (frames queue ! index, queue)
                             else (latest, queue\<lparr>frames_dropped := frames_dropped queue + 1\<rparr>))
      in take_latest_loop is count (latest, queue\<lparr>frames := (frames queue)[index := empty_frame]\<rparr>))"

definition display_frame_queue_take_latest ::
  "display_frame_queue \<Rightarrow> display_frame option \<times> display_frame_queue" where
  "display_frame_queue_take_latest queue =
     (let (latest, queue) =
        (if frame_count queue \<noteq> 0 then
           let (latest, queue) =
             take_latest_loop [0..<frame_count queue] (frame_count queue) (empty_frame, queue)
           in (latest, queue\<lparr>frame_head := 0, frame_count := 0\<rparr>)
         else (empty_frame, queue))
      in (if pixels latest = None then None else Some latest, queue))"

definition display_frame_queue_pending :: "display_frame_queue \<Rightarrow> nat" where
  "display_frame_queue_pending queue = frame_count queue"

definition display_frame_queue_dropped :: "display_frame_queue \<Rightarrow> u64" where
  "display_frame_queue_dropped queue = frames_dropped queue"

section \<open>The queue as a list\<close>

definition frame_queue_ok :: "display_frame_queue \<Rightarrow> bool" where
  "frame_queue_ok q \<longleftrightarrow>
     length (frames q) = DISPLAY_FRAME_QUEUE_CAPACITY \<and> frame_head q < DISPLAY_FRAME_QUEUE_CAPACITY \<and>
     frame_count q \<le> DISPLAY_FRAME_QUEUE_CAPACITY"

definition queued_frames :: "display_frame_queue \<Rightarrow> display_frame list" where
  "queued_frames q = ring (frames q) (frame_head q) (frame_count q)"

definition frame_valid :: "u32 \<Rightarrow> u32 \<Rightarrow> u32 \<Rightarrow> u32 \<Rightarrow> bool" where
  "frame_valid width height stride format \<longleftrightarrow>
     \<not> (width = 0 \<or> height = 0 \<or> format \<noteq> VM_PIXEL_FORMAT_XRGB8888 \<or>
        unat width > (2 ^ 32 - 1) div 4 \<or> stride < width * 4 \<or> unat height > SIZE_MAX div unat stride)"

definition packed_frame :: "bytes \<Rightarrow> u32 \<Rightarrow> u32 \<Rightarrow> u32 \<Rightarrow> u32 \<Rightarrow> u64 \<Rightarrow> display_frame" where
  "packed_frame source width height stride format number =
     \<lparr>pixels = Some (pack_rows source (unat height) (unat stride) (unat (width * 4))),
      frame_size = unat (width * 4) * unat height, frame_width = width, frame_height = height,
      frame_stride = width * 4, frame_format = format, frame_number = number\<rparr>"

lemma capacity_3 [simp]: "0 < DISPLAY_FRAME_QUEUE_CAPACITY"
  by (simp add: DISPLAY_FRAME_QUEUE_CAPACITY_def)

text \<open>The oldest frame of a full ring leaves it when its slot is cleared.\<close>

lemma ring_drop_full:
  assumes "head < length buf" "Suc count = length buf"
  shows "ring (buf[head := x]) (Suc head mod length buf) count = tl (ring buf head (length buf))"
proof -
  have "head \<noteq> (Suc head mod length buf + i) mod length buf" if "i < count" for i
    using ring_index_distinct [of 0 "Suc i" "length buf" head] that assms by (simp add: mod_simps)
  then have "ring (buf[head := x]) (Suc head mod length buf) count = ring buf (Suc head mod length buf) count"
    by (simp add: ring_def)
  moreover have "length buf - 1 = count" "buf \<noteq> []" using assms by auto
  ultimately show ?thesis using ring_take [of "length buf" head buf] assms(1) by simp
qed

text \<open>A push appends its frame, after dropping the oldest of three.\<close>

lemma push_frame:
  assumes ok: "frame_queue_ok q" and valid: "frame_valid width height stride format"
  shows "\<exists>q'. display_frame_queue_push q True (Some source) width height stride format number = (True, q') \<and>
    frame_queue_ok q' \<and>
    queued_frames q' = (if frame_count q = DISPLAY_FRAME_QUEUE_CAPACITY then tl (queued_frames q) else queued_frames q) @
      [packed_frame source width height stride format number] \<and>
    frames_dropped q' = (if frame_count q = DISPLAY_FRAME_QUEUE_CAPACITY then frames_dropped q + 1 else frames_dropped q)"
proof -
  let ?n = DISPLAY_FRAME_QUEUE_CAPACITY and ?f = "packed_frame source width height stride format number"
  define q1 where "q1 = (if frame_count q = ?n
    then q\<lparr>frames := (frames q)[frame_head q := empty_frame], frame_head := (frame_head q + 1) mod ?n,
           frame_count := frame_count q - 1, frames_dropped := frames_dropped q + 1\<rparr> else q)"
  define r where "r = q1\<lparr>frames := (frames q1)[(frame_head q1 + frame_count q1) mod ?n := ?f],
    frame_count := frame_count q1 + 1\<rparr>"
  have push: "display_frame_queue_push q True (Some source) width height stride format number = (True, r)"
    using valid unfolding frame_valid_def r_def q1_def
    by (simp only: display_frame_queue_push_def option.case if_False Let_def not_True_eq_False packed_frame_def)
  have q1: "frame_queue_ok q1" "frame_count q1 < ?n"
    using ok by (auto simp: frame_queue_ok_def q1_def)
  have "queued_frames q1 = (if frame_count q = ?n then tl (queued_frames q) else queued_frames q)"
    using ok ring_drop_full [of "frame_head q" "frames q" "?n - 1"]
    by (simp add: queued_frames_def frame_queue_ok_def q1_def)
  moreover have "queued_frames r = queued_frames q1 @ [?f]"
    using ring_put [of "frame_count q1" "frames q1" "frame_head q1" ?f] q1
    by (simp add: queued_frames_def frame_queue_ok_def r_def)
  moreover have "frame_queue_ok r" using q1 by (simp add: frame_queue_ok_def r_def)
  moreover have "frames_dropped r = (if frame_count q = ?n then frames_dropped q + 1 else frames_dropped q)"
    by (simp add: r_def q1_def)
  ultimately show ?thesis using push by simp
qed

lemma take_latest_loop:
  assumes "k < n" "n \<le> length (frames q)" "length (frames q) = DISPLAY_FRAME_QUEUE_CAPACITY"
  shows "\<exists>fs. length fs = length (frames q) \<and> take_latest_loop [k..<n] n (l, q) =
    (frames q ! ((frame_head q + (n - 1)) mod DISPLAY_FRAME_QUEUE_CAPACITY),
     q\<lparr>frames := fs, frames_dropped := frames_dropped q + of_nat (n - 1 - k)\<rparr>)"
  using assms
proof (induction "n - 1 - k" arbitrary: k l q)
  case 0
  then have "[k..<n] = [k]" "Suc k = n" "k = n - 1" by (auto simp: upt_rec)
  then show ?case by (auto simp: Let_def intro: exI [of _ "(frames q)[_ := empty_frame]"])
next
  case (Suc d)
  let ?i = "(frame_head q + k) mod DISPLAY_FRAME_QUEUE_CAPACITY"
  let ?q = "q\<lparr>frames_dropped := frames_dropped q + 1, frames := (frames q)[?i := empty_frame]\<rparr>"
  have k: "Suc k < n" "d = n - 1 - Suc k" using Suc.hyps(2) by auto
  obtain fs where fs: "length fs = length (frames ?q)" "take_latest_loop [Suc k..<n] n (l, ?q) =
      (frames ?q ! ((frame_head ?q + (n - 1)) mod DISPLAY_FRAME_QUEUE_CAPACITY),
       ?q\<lparr>frames := fs, frames_dropped := frames_dropped ?q + of_nat (n - 1 - Suc k)\<rparr>)"
    using Suc.hyps(1) [OF k(2) k(1), of ?q l] Suc.prems by auto
  have "?i \<noteq> (frame_head q + (n - 1)) mod DISPLAY_FRAME_QUEUE_CAPACITY"
    using ring_index_distinct [of k "n - 1" DISPLAY_FRAME_QUEUE_CAPACITY "frame_head q"] k Suc.prems by auto
  then have "frames ?q ! ((frame_head ?q + (n - 1)) mod DISPLAY_FRAME_QUEUE_CAPACITY) =
      frames q ! ((frame_head q + (n - 1)) mod DISPLAY_FRAME_QUEUE_CAPACITY)" by simp
  moreover have "n - Suc k = Suc (n - 1 - Suc k)" using k by simp
  then have "frames_dropped q + 1 + of_nat (n - 1 - Suc k) = frames_dropped q + of_nat (n - 1 - k)"
    using k by simp
  moreover have "[k..<n] = k # [Suc k..<n]" using Suc.prems(1) by (simp add: upt_conv_Cons)
  ultimately show ?case using fs k by (auto simp: Let_def)
qed

lemma take_latest:
  assumes ok: "frame_queue_ok q" and f: "queued_frames q = fs @ [f]" and p: "pixels f \<noteq> None"
  shows "\<exists>q'. display_frame_queue_take_latest q = (Some f, q') \<and> frame_queue_ok q' \<and> queued_frames q' = [] \<and>
    frames_dropped q' = frames_dropped q + of_nat (length fs)"
proof -
  let ?n = "frame_count q"
  have n: "?n = Suc (length fs)" using arg_cong [OF f, of length] by (simp add: queued_frames_def)
  have "queued_frames q ! length fs = f" using f by simp
  then have last: "frames q ! ((frame_head q + (?n - 1)) mod DISPLAY_FRAME_QUEUE_CAPACITY) = f"
    using n ok by (simp add: queued_frames_def ring_def frame_queue_ok_def nth_append)
  have "?n \<le> length (frames q)" "length (frames q) = DISPLAY_FRAME_QUEUE_CAPACITY"
    using ok by (auto simp: frame_queue_ok_def)
  from take_latest_loop [OF _ this, of 0 empty_frame] obtain gs where
    "length gs = length (frames q)" "take_latest_loop [0..<?n] ?n (empty_frame, q) =
     (f, q\<lparr>frames := gs, frames_dropped := frames_dropped q + of_nat (length fs)\<rparr>)"
    unfolding last by (auto simp: n)
  then show ?thesis
    using p n ok by (simp add: display_frame_queue_take_latest_def queued_frames_def frame_queue_ok_def)
qed

section \<open>Properties\<close>

text \<open>What a producer submits.\<close>

record submission =
  sub_source :: bytes
  sub_width :: u32
  sub_height :: u32
  sub_stride :: u32
  sub_number :: u64

definition submit :: "submission \<Rightarrow> display_frame_queue \<Rightarrow> display_frame_queue" where
  "submit s q = snd (display_frame_queue_push q True (Some (sub_source s)) (sub_width s) (sub_height s)
     (sub_stride s) VM_PIXEL_FORMAT_XRGB8888 (sub_number s))"

definition submission_valid :: "submission \<Rightarrow> bool" where
  "submission_valid s \<longleftrightarrow> frame_valid (sub_width s) (sub_height s) (sub_stride s) VM_PIXEL_FORMAT_XRGB8888"

definition submission_frame :: "submission \<Rightarrow> display_frame" where
  "submission_frame s = packed_frame (sub_source s) (sub_width s) (sub_height s) (sub_stride s)
     VM_PIXEL_FORMAT_XRGB8888 (sub_number s)"

lemma submit_frame:
  assumes "frame_queue_ok q" "submission_valid s"
  shows "frame_queue_ok (submit s q)"
    "queued_frames (submit s q) =
      (if frame_count q = DISPLAY_FRAME_QUEUE_CAPACITY then tl (queued_frames q) else queued_frames q) @ [submission_frame s]"
    "frames_dropped (submit s q) =
      (if frame_count q = DISPLAY_FRAME_QUEUE_CAPACITY then frames_dropped q + 1 else frames_dropped q)"
  using push_frame [OF assms(1) assms(2) [unfolded submission_valid_def], of "sub_source s" "sub_number s"]
  by (auto simp: submit_def submission_frame_def)

lemma frame_count_queued: "frame_count q = length (queued_frames q)"
  by (simp add: queued_frames_def)

lemma submit_all:
  assumes "frame_queue_ok q" "list_all submission_valid ss"
  shows "frame_queue_ok (fold submit ss q) \<and>
    (\<exists>old. queued_frames q @ map submission_frame ss = old @ queued_frames (fold submit ss q) \<and>
       frames_dropped (fold submit ss q) = frames_dropped q + of_nat (length old))"
  using assms
proof (induction ss arbitrary: q)
  case (Cons s ss)
  have s: "submission_valid s" and ss: "list_all submission_valid ss" using Cons.prems(2) by simp_all
  note sub = submit_frame [OF Cons.prems(1) s]
  obtain old where old: "queued_frames (submit s q) @ map submission_frame ss = old @ queued_frames (fold submit ss (submit s q))"
      "frames_dropped (fold submit ss (submit s q)) = frames_dropped (submit s q) + of_nat (length old)"
    and ok: "frame_queue_ok (fold submit ss (submit s q))"
    using Cons.IH [OF sub(1) ss] by blast
  show ?case
  proof (cases "frame_count q = DISPLAY_FRAME_QUEUE_CAPACITY")
    case True
    then obtain f fs where f: "queued_frames q = f # fs"
      using frame_count_queued [of q] capacity_3 by (cases "queued_frames q") auto
    show ?thesis
      using ok old sub(2,3) True f by (auto intro!: exI [of _ "f # old"])
  next
    case False
    then show ?thesis using ok old sub(2,3) by auto
  qed
qed (auto intro: exI [of _ "[]"])

text \<open>C32: The window always gets the most recent frame, and no frame disappears unaccounted. From
  the empty queue, after any number of valid submissions, taking the latest frame returns the
  last one submitted, with the padding of its rows removed; at most three frames were ever
  waiting, the queue is empty afterwards, and the dropped counter has counted every other
  frame.\<close>

theorem display_latest_frame:
  assumes "list_all submission_valid (ss @ [s])"
  shows "\<exists>q'. display_frame_queue_take_latest (fold submit (ss @ [s]) display_frame_queue_init) =
      (Some (submission_frame s), q') \<and>
    display_frame_queue_pending (fold submit (ss @ [s]) display_frame_queue_init) \<le> 3 \<and>
    display_frame_queue_pending q' = 0 \<and> display_frame_queue_dropped q' = of_nat (length ss)"
proof -
  let ?init = display_frame_queue_init and ?q = "fold submit (ss @ [s]) display_frame_queue_init"
  have init: "frame_queue_ok ?init" "queued_frames ?init = []" "frames_dropped ?init = 0"
    by (simp_all add: display_frame_queue_init_def frame_queue_ok_def queued_frames_def)
  from submit_all [OF init(1) assms] init obtain old where ok: "frame_queue_ok ?q"
    and old: "map submission_frame ss @ [submission_frame s] = old @ queued_frames ?q"
      "frames_dropped ?q = of_nat (length old)" by auto
  have valid: "list_all submission_valid ss" "submission_valid s" using assms by simp_all
  have "queued_frames ?q \<noteq> []"
    using submit_frame(2) [OF submit_all [OF init(1) valid(1), THEN conjunct1] valid(2)] by simp
  then obtain fs f where q: "queued_frames ?q = fs @ [f]" by (metis append_butlast_last_id)
  then have f: "f = submission_frame s" "map submission_frame ss = old @ fs" using old(1) by (metis append_assoc append1_eq_conv)+
  have "length ss = length old + length fs" using arg_cong [OF f(2), of length] by simp
  moreover have "pixels f \<noteq> None" by (simp add: f submission_frame_def packed_frame_def)
  moreover have "frame_count ?q \<le> 3" using ok by (simp add: frame_queue_ok_def DISPLAY_FRAME_QUEUE_CAPACITY_def)
  ultimately show ?thesis
    using take_latest [OF ok q] old(2) f(1)
    by (auto simp: display_frame_queue_pending_def display_frame_queue_dropped_def frame_count_queued)
qed

theorem display_latest_frame_witness:
  "\<exists>q'. display_frame_queue_take_latest
       (fold submit (replicate 4 \<lparr>sub_source = (\<lambda>_. 7), sub_width = 1, sub_height = 1, sub_stride = 8, sub_number = 9\<rparr>)
         display_frame_queue_init) =
     (Some \<lparr>pixels = Some [7, 7, 7, 7], frame_size = 4, frame_width = 1, frame_height = 1, frame_stride = 4,
        frame_format = 1, frame_number = 9\<rparr>, q') \<and> display_frame_queue_dropped q' = 3"
proof -
  let ?s = "\<lparr>sub_source = (\<lambda>_. 7), sub_width = 1, sub_height = 1, sub_stride = 8, sub_number = 9\<rparr>"
  have "submission_valid ?s" by (simp add: submission_valid_def frame_valid_def SIZE_MAX_def)
  then have "list_all submission_valid ([?s, ?s, ?s] @ [?s])" by simp
  moreover have "submission_frame ?s = \<lparr>pixels = Some [7, 7, 7, 7], frame_size = 4, frame_width = 1,
      frame_height = 1, frame_stride = 4, frame_format = 1, frame_number = 9\<rparr>"
    by (simp add: submission_frame_def packed_frame_def pack_rows_def VM_PIXEL_FORMAT_XRGB8888_def upt_rec)
  moreover have "replicate 4 ?s = [?s, ?s, ?s] @ [?s]" by (simp add: eval_nat_numeral)
  ultimately show ?thesis using display_latest_frame [of "[?s, ?s, ?s]" ?s] by auto
qed

end
