(* ===== verification/Vm.thy ===== *)
theory Vm
  imports Cpu Irq_Controller
begin

text \<open>
  The virtual machine (\<^verbatim>\<open>src/vm.c\<close>) with its core control device
  (\<^verbatim>\<open>src/core_control.c\<close>) and system control device (\<^verbatim>\<open>src/system_control.c\<close>).

  A machine has cores with hardware threads. The interrupt controller of a thread is the target
  of the router at the logical index of the thread. The virtual machine is part of the device
  world of the bus, because a store of a running thread to the core control device starts,
  stops or interrupts other threads: the state of a worker is a bus whose world is a pair of the
  machine and the remaining devices. Operations that fetch an instruction byte to validate an
  entry point take the answers of the bus as the argument \<open>fetchable\<close>. An operation is
  sequential here; \<open>Vm_Threads\<close> has the interleavings of its atomic accesses.
\<close>

section \<open>Threads, cores and the machine\<close>

definition VM_MAX_CORES :: nat where "VM_MAX_CORES = 64"
definition VM_MAX_THREADS_PER_CORE :: nat where "VM_MAX_THREADS_PER_CORE = 8"
definition INTERRUPT_IPI_LINE_BASE :: nat where "INTERRUPT_IPI_LINE_BASE = 48"

datatype hardware_thread_state =
  HARDWARE_THREAD_OFFLINE
| HARDWARE_THREAD_STARTING
| HARDWARE_THREAD_RUNNABLE
| HARDWARE_THREAD_HALTED
| HARDWARE_THREAD_WAITING

datatype vm_system_action =
  VM_SYSTEM_ACTION_NONE
| VM_SYSTEM_ACTION_SHUTDOWN
| VM_SYSTEM_ACTION_WARM_RESET

record hardware_thread =
  thread_cpu :: cpu
  thread_state :: hardware_thread_state
  thread_stop :: bool

record core =
  threads :: "hardware_thread list"
  next_thread :: nat

record vm =
  cores :: "core list"
  threads_per_core :: nat
  interrupt_router :: interrupt_router
  active_thread_count :: nat
  stop_requested :: bool
  failed :: bool
  system_action :: vm_system_action
  reset_vector :: u64

abbreviation core_count :: "vm \<Rightarrow> nat" where
  "core_count v \<equiv> length (cores v)"

definition logical_index :: "vm \<Rightarrow> nat \<Rightarrow> nat \<Rightarrow> nat" where
  "logical_index v c t = c * threads_per_core v + t"

definition vm_hardware_thread :: "vm \<Rightarrow> nat \<Rightarrow> nat \<Rightarrow> hardware_thread option" where
  "vm_hardware_thread v c t =
     (if c \<ge> core_count v \<or> t \<ge> threads_per_core v then None else Some (threads (cores v ! c) ! t))"

text \<open>The store through the pointer that \<open>vm_hardware_thread\<close> returns.\<close>

definition set_thread :: "vm \<Rightarrow> nat \<Rightarrow> nat \<Rightarrow> hardware_thread \<Rightarrow> vm" where
  "set_thread v c t th =
     v\<lparr>cores := (cores v)[c := (cores v ! c)\<lparr>threads := (threads (cores v ! c))[t := th]\<rparr>]\<rparr>"

definition thread_interrupts :: "vm \<Rightarrow> nat \<Rightarrow> nat \<Rightarrow> u64" where
  "thread_interrupts v c t = targets (interrupt_router v) ! logical_index v c t"

definition set_thread_interrupts :: "vm \<Rightarrow> nat \<Rightarrow> nat \<Rightarrow> u64 \<Rightarrow> vm" where
  "set_thread_interrupts v c t w =
     v\<lparr>interrupt_router := (interrupt_router v)
        \<lparr>targets := (targets (interrupt_router v))[logical_index v c t := w]\<rparr>\<rparr>"

definition fresh_thread :: "nat \<Rightarrow> nat \<Rightarrow> hardware_thread" where
  "fresh_thread c t =
     \<lparr>thread_cpu = cpu_init\<lparr>core_id := of_nat c, thread_id := of_nat t\<rparr>,
      thread_state = HARDWARE_THREAD_OFFLINE, thread_stop = False\<rparr>"

definition vm_init :: "nat \<Rightarrow> nat \<Rightarrow> vm option" where
  "vm_init core_number threads_number =
     (if core_number = 0 \<or> core_number > VM_MAX_CORES \<or> threads_number = 0 \<or>
         threads_number > VM_MAX_THREADS_PER_CORE
      then None
      else
        let machine_cores = map (\<lambda>c. \<lparr>threads = map (fresh_thread c) [0..<threads_number], next_thread = 0\<rparr>)
              [0..<core_number]
        in case interrupt_router_init (replicate (core_number * threads_number) interrupt_controller_init) of
             None \<Rightarrow> None
           | Some r \<Rightarrow>
               let v = \<lparr>cores = machine_cores, threads_per_core = threads_number, interrupt_router = r,
                        active_thread_count = 1, stop_requested = False, failed = False,
                        system_action = VM_SYSTEM_ACTION_NONE, reset_vector = 0\<rparr>
               in Some (set_thread v 0 0 ((fresh_thread 0 0)\<lparr>thread_state := HARDWARE_THREAD_RUNNABLE\<rparr>)))"

section \<open>Requests\<close>

definition vm_set_reset_vector :: "(u64 \<Rightarrow> bool) \<Rightarrow> vm \<Rightarrow> u64 \<Rightarrow> bool \<times> vm" where
  "vm_set_reset_vector fetchable v address =
     (if \<not> fetchable address then (False, v)
      else
        let v = v\<lparr>reset_vector := address\<rparr>
        in case vm_hardware_thread v 0 0 of
             None \<Rightarrow> (True, v)
           | Some th \<Rightarrow>
               (True, if thread_state th = HARDWARE_THREAD_RUNNABLE
                      then set_thread v 0 0 (th\<lparr>thread_cpu := (thread_cpu th)\<lparr>pc := address\<rparr>\<rparr>) else v))"

definition vm_request_system_action :: "vm \<Rightarrow> vm_system_action \<Rightarrow> bool \<times> vm" where
  "vm_request_system_action v action =
     (if action \<noteq> VM_SYSTEM_ACTION_SHUTDOWN \<and> action \<noteq> VM_SYSTEM_ACTION_WARM_RESET then (False, v)
      else if system_action v \<noteq> VM_SYSTEM_ACTION_NONE then (False, v)
      else (True, v\<lparr>system_action := action, stop_requested := True\<rparr>))"

definition vm_activate_hardware_thread ::
  "(u64 \<Rightarrow> bool) \<Rightarrow> vm \<Rightarrow> nat \<Rightarrow> nat \<Rightarrow> u64 \<Rightarrow> bool \<times> vm" where
  "vm_activate_hardware_thread fetchable v c t entry_address =
     (case vm_hardware_thread v c t of
        None \<Rightarrow> (False, v)
      | Some th \<Rightarrow>
          if \<not> fetchable entry_address \<or> stop_requested v then (False, v)
          else if thread_state th \<noteq> HARDWARE_THREAD_OFFLINE then (False, v)
          else
            let cpu = cpu_init\<lparr>core_id := core_id (thread_cpu th), thread_id := thread_id (thread_cpu th),
                               pc := entry_address\<rparr>;
                v = set_thread_interrupts v c t interrupt_controller_init;
                v = v\<lparr>active_thread_count := active_thread_count v + 1\<rparr>
            in (True, set_thread v c t \<lparr>thread_cpu = cpu, thread_state = HARDWARE_THREAD_RUNNABLE,
                                        thread_stop = False\<rparr>))"

definition vm_request_hardware_thread_stop :: "vm \<Rightarrow> nat \<Rightarrow> nat \<Rightarrow> bool \<times> vm" where
  "vm_request_hardware_thread_stop v c t =
     (case vm_hardware_thread v c t of
        None \<Rightarrow> (False, v)
      | Some th \<Rightarrow>
          if thread_state th \<noteq> HARDWARE_THREAD_RUNNABLE \<and> thread_state th \<noteq> HARDWARE_THREAD_WAITING
          then (False, v)
          else (True, set_thread v c t (th\<lparr>thread_stop := True\<rparr>)))"

definition vm_reset_hardware_thread :: "vm \<Rightarrow> nat \<Rightarrow> nat \<Rightarrow> bool \<times> vm" where
  "vm_reset_hardware_thread v c t =
     (case vm_hardware_thread v c t of
        None \<Rightarrow> (False, v)
      | Some th \<Rightarrow>
          if thread_state th \<noteq> HARDWARE_THREAD_OFFLINE \<and> thread_state th \<noteq> HARDWARE_THREAD_HALTED
          then (False, v)
          else
            let cpu = cpu_init\<lparr>core_id := core_id (thread_cpu th), thread_id := thread_id (thread_cpu th)\<rparr>;
                v = set_thread_interrupts v c t interrupt_controller_init
            in (True, set_thread v c t \<lparr>thread_cpu = cpu, thread_state = HARDWARE_THREAD_OFFLINE,
                                        thread_stop = False\<rparr>))"

definition vm_set_vector_base :: "'w bus \<Rightarrow> vm \<Rightarrow> nat \<Rightarrow> u64 \<Rightarrow> bool \<times> vm" where
  "vm_set_vector_base b v logical_processor address =
     (if logical_processor \<ge> core_count v * threads_per_core v then (False, v)
      else
        let c = logical_processor div threads_per_core v; t = logical_processor mod threads_per_core v
        in case vm_hardware_thread v c t of
             None \<Rightarrow> (False, v)
           | Some th \<Rightarrow>
               let (ok, m) = cpu_set_vector_base address \<lparr>cpu = thread_cpu th, bus = b\<rparr>
               in (ok \<noteq> None, set_thread v c t (th\<lparr>thread_cpu := cpu m\<rparr>)))"

definition vm_raise_hardware_thread_interrupt :: "vm \<Rightarrow> nat \<Rightarrow> nat \<Rightarrow> nat \<Rightarrow> bool \<times> vm" where
  "vm_raise_hardware_thread_interrupt v c t line =
     (case vm_hardware_thread v c t of
        None \<Rightarrow> (False, v)
      | Some th \<Rightarrow>
          if line < INTERRUPT_IPI_LINE_BASE \<or> line \<ge> INTERRUPT_LINE_COUNT then (False, v)
          else if thread_state th \<noteq> HARDWARE_THREAD_RUNNABLE \<and> thread_state th \<noteq> HARDWARE_THREAD_WAITING
          then (False, v)
          else let (raised, w) = interrupt_controller_raise (thread_interrupts v c t) line
               in (raised, set_thread_interrupts v c t w))"

definition vm_route_interrupt :: "vm \<Rightarrow> nat \<Rightarrow> nat \<Rightarrow> bool \<times> vm" where
  "vm_route_interrupt v line logical_processor =
     (let (ok, r) = interrupt_router_set_route (interrupt_router v) line logical_processor
      in (ok, v\<lparr>interrupt_router := r\<rparr>))"

section \<open>Workers\<close>

text \<open>The scan of \<open>select_hardware_thread\<close> with \<open>n\<close> threads left to check.\<close>

fun select_hardware_thread :: "nat \<Rightarrow> core \<Rightarrow> nat option \<times> core" where
  "select_hardware_thread 0 core = (None, core)"
| "select_hardware_thread (Suc n) core =
     (let index = next_thread core;
          core = core\<lparr>next_thread := (next_thread core + 1) mod length (threads core)\<rparr>
      in if thread_state (threads core ! index) = HARDWARE_THREAD_RUNNABLE then (Some index, core)
         else select_hardware_thread n core)"

definition finish_hardware_thread :: "vm \<Rightarrow> nat \<Rightarrow> nat \<Rightarrow> vm" where
  "finish_hardware_thread v c t =
     (let th = threads (cores v ! c) ! t
      in if thread_state th \<noteq> HARDWARE_THREAD_RUNNABLE \<and> thread_state th \<noteq> HARDWARE_THREAD_WAITING then v
         else
           let v = set_thread v c t
                 \<lparr>thread_cpu = (thread_cpu th)\<lparr>waiting := False, halted := True\<rparr>,
                  thread_state = HARDWARE_THREAD_HALTED, thread_stop = False\<rparr>;
               previous = active_thread_count v;
               v = v\<lparr>active_thread_count := active_thread_count v - 1\<rparr>
           in if previous = 1 then v\<lparr>stop_requested := True\<rparr> else v)"

text \<open>The world of the bus is the machine and the remaining devices.\<close>

type_synonym 'd system = "(vm \<times> 'd) bus"

abbreviation vm_of :: "'d system \<Rightarrow> vm" where
  "vm_of b \<equiv> fst (world b)"

definition set_vm :: "vm \<Rightarrow> 'd system \<Rightarrow> 'd system" where
  "set_vm v b = b\<lparr>world := (v, snd (world b))\<rparr>"

abbreviation bus_fetchable :: "'w bus \<Rightarrow> u64 \<Rightarrow> bool" where
  "bus_fetchable b address \<equiv> bus_fetch b address 1 \<noteq> None"

definition system_thread :: "'d system \<Rightarrow> nat \<Rightarrow> nat \<Rightarrow> hardware_thread" where
  "system_thread b c t = threads (cores (vm_of b) ! c) ! t"

definition set_system_thread :: "nat \<Rightarrow> nat \<Rightarrow> hardware_thread \<Rightarrow> 'd system \<Rightarrow> 'd system" where
  "set_system_thread c t th b = set_vm (set_thread (vm_of b) c t th) b"

text \<open>An operation of the processor of a thread, and the check of its interrupts.\<close>

definition on_thread ::
  "nat \<Rightarrow> nat \<Rightarrow> (unit, vm \<times> 'd) operation \<Rightarrow> 'd system \<Rightarrow> bool \<times> 'd system" where
  "on_thread c t f b =
     (let (ok, m) = f \<lparr>cpu = thread_cpu (system_thread b c t), bus = b\<rparr>
      in (ok \<noteq> None,
          set_system_thread c t ((system_thread (bus m) c t)\<lparr>thread_cpu := cpu m\<rparr>) (bus m)))"

definition check_thread_interrupt :: "nat \<Rightarrow> nat \<Rightarrow> 'd system \<Rightarrow> bool \<times> 'd system" where
  "check_thread_interrupt c t b =
     (let (ok, interrupts, m) = cpu_check_interrupt (thread_interrupts (vm_of b) c t)
            \<lparr>cpu = thread_cpu (system_thread b c t), bus = b\<rparr>;
          b = set_vm (set_thread_interrupts (vm_of (bus m)) c t interrupts) (bus m)
      in (ok \<noteq> None, set_system_thread c t ((system_thread b c t)\<lparr>thread_cpu := cpu m\<rparr>) b))"

text \<open>One turn of the loop of \<open>service_waiting_hardware_threads\<close>: \<open>None\<close> is the result \<open>-1\<close>.\<close>

definition service_waiting_thread :: "nat \<Rightarrow> nat \<Rightarrow> bool \<Rightarrow> 'd system \<Rightarrow> bool option \<times> 'd system" where
  "service_waiting_thread c index serviced b =
     (let th = system_thread b c index
      in if thread_state th \<noteq> HARDWARE_THREAD_WAITING then (Some serviced, b)
         else if thread_stop th then
           let b = set_system_thread c index (th\<lparr>thread_stop := False\<rparr>) b
           in (Some True, set_vm (finish_hardware_thread (vm_of b) c index) b)
         else
           case check_thread_interrupt c index b of
             (False, b) \<Rightarrow> (None, b)
           | (True, b) \<Rightarrow>
               let th = system_thread b c index
               in if \<not> waiting (thread_cpu th) \<and> thread_state th = HARDWARE_THREAD_WAITING
                  then (Some True, set_system_thread c index (th\<lparr>thread_state := HARDWARE_THREAD_RUNNABLE\<rparr>) b)
                  else (Some serviced, b))"

fun service_waiting_hardware_threads ::
  "nat \<Rightarrow> nat list \<Rightarrow> bool \<Rightarrow> 'd system \<Rightarrow> bool option \<times> 'd system" where
  "service_waiting_hardware_threads c [] serviced b = (Some serviced, b)"
| "service_waiting_hardware_threads c (index # indices) serviced b =
     (case service_waiting_thread c index serviced b of
        (None, b) \<Rightarrow> (None, b)
      | (Some serviced, b) \<Rightarrow> service_waiting_hardware_threads c indices serviced b)"

definition fail_vm :: "'d system \<Rightarrow> 'd system" where
  "fail_vm b = set_vm ((vm_of b)\<lparr>failed := True, stop_requested := True\<rparr>) b"

text \<open>The part of the body of \<open>core_worker\<close> after a thread was selected.\<close>

definition run_selected_thread :: "host_float \<Rightarrow> nat \<Rightarrow> nat \<Rightarrow> 'd system \<Rightarrow> bool \<times> 'd system" where
  "run_selected_thread host c t b =
     (let th = system_thread b c t
      in if thread_stop th then
           let b = set_system_thread c t (th\<lparr>thread_stop := False\<rparr>) b
           in (True, set_vm (finish_hardware_thread (vm_of b) c t) b)
         else
           let (stepped, b) = on_thread c t (cpu_step host) b;
               (ok, b) = (if stepped \<and> \<not> halted (thread_cpu (system_thread b c t))
                          then check_thread_interrupt c t b else (stepped, b))
           in if \<not> ok then (False, fail_vm b)
              else
                let th = system_thread b c t
                in if halted (thread_cpu th) then (True, set_vm (finish_hardware_thread (vm_of b) c t) b)
                   else if thread_stop th then
                     let b = set_system_thread c t (th\<lparr>thread_stop := False\<rparr>) b
                     in (True, set_vm (finish_hardware_thread (vm_of b) c t) b)
                   else if waiting (thread_cpu th) \<and> thread_state th = HARDWARE_THREAD_RUNNABLE
                   then (True, set_system_thread c t (th\<lparr>thread_state := HARDWARE_THREAD_WAITING\<rparr>) b)
                   else (True, b))"

text \<open>One turn of the loop of \<open>core_worker\<close> after the stop flag was found clear; the first
  component is false when the worker gives up.\<close>

definition core_worker_turn :: "host_float \<Rightarrow> nat \<Rightarrow> 'd system \<Rightarrow> bool \<times> 'd system" where
  "core_worker_turn host c b =
     (case service_waiting_hardware_threads c [0..<length (threads (cores (vm_of b) ! c))] False b of
        (None, b) \<Rightarrow> (False, fail_vm b)
      | (Some serviced, b) \<Rightarrow>
          let core = cores (vm_of b) ! c;
              (selected, core) = select_hardware_thread (length (threads core)) core;
              b = set_vm ((vm_of b)\<lparr>cores := list_update (cores (vm_of b)) c core\<rparr>) b
          in (case selected of None \<Rightarrow> (True, b) | Some t \<Rightarrow> run_selected_thread host c t b))"

definition prepare_warm_reset :: "'d system \<Rightarrow> 'd system" where
  "prepare_warm_reset b =
     (let b = bus_reset b; v = vm_of b;
          fresh = map (\<lambda>c. \<lparr>threads = map (fresh_thread c) [0..<length (threads (cores v ! c))], next_thread = 0\<rparr>)
                    [0..<core_count v];
          router = (interrupt_router v)\<lparr>targets := map (\<lambda>_. interrupt_controller_init) (targets (interrupt_router v))\<rparr>;
          v = v\<lparr>cores := fresh, interrupt_router := router\<rparr>;
          boot = (fresh_thread 0 0)
          in set_vm ((set_thread v 0 0
               (boot\<lparr>thread_cpu := (thread_cpu boot)\<lparr>pc := reset_vector v\<rparr>, thread_state := HARDWARE_THREAD_RUNNABLE\<rparr>))
               \<lparr>active_thread_count := 1, system_action := VM_SYSTEM_ACTION_NONE, stop_requested := False,
                failed := False\<rparr>) b)"

section \<open>Core control\<close>

definition CORE_CONTROL_TARGET_CORE_OFFSET :: u64 where "CORE_CONTROL_TARGET_CORE_OFFSET = 0"
definition CORE_CONTROL_TARGET_THREAD_OFFSET :: u64 where "CORE_CONTROL_TARGET_THREAD_OFFSET = 8"
definition CORE_CONTROL_ENTRY_PC_OFFSET :: u64 where "CORE_CONTROL_ENTRY_PC_OFFSET = 16"
definition CORE_CONTROL_COMMAND_OFFSET :: u64 where "CORE_CONTROL_COMMAND_OFFSET = 24"
definition CORE_CONTROL_STATUS_OFFSET :: u64 where "CORE_CONTROL_STATUS_OFFSET = 32"
definition CORE_CONTROL_RESULT_OFFSET :: u64 where "CORE_CONTROL_RESULT_OFFSET = 40"
definition CORE_CONTROL_IPI_LINE_OFFSET :: u64 where "CORE_CONTROL_IPI_LINE_OFFSET = 48"
definition CORE_CONTROL_COMMAND_NONE :: u64 where "CORE_CONTROL_COMMAND_NONE = 0"
definition CORE_CONTROL_COMMAND_START :: u64 where "CORE_CONTROL_COMMAND_START = 1"
definition CORE_CONTROL_COMMAND_STOP :: u64 where "CORE_CONTROL_COMMAND_STOP = 2"
definition CORE_CONTROL_COMMAND_RESET :: u64 where "CORE_CONTROL_COMMAND_RESET = 3"
definition CORE_CONTROL_COMMAND_IPI :: u64 where "CORE_CONTROL_COMMAND_IPI = 4"
definition CORE_CONTROL_STATUS_INVALID :: u64 where "CORE_CONTROL_STATUS_INVALID = UINT64_MAX"

datatype core_result =
  CORE_CONTROL_RESULT_NONE
| CORE_CONTROL_RESULT_SUCCESS
| CORE_CONTROL_RESULT_INVALID_TARGET
| CORE_CONTROL_RESULT_INVALID_ENTRY
| CORE_CONTROL_RESULT_INVALID_STATE
| CORE_CONTROL_RESULT_INVALID_COMMAND
| CORE_CONTROL_RESULT_INVALID_INTERRUPT

fun core_result_code :: "core_result \<Rightarrow> u64" where
  "core_result_code CORE_CONTROL_RESULT_NONE = 0"
| "core_result_code CORE_CONTROL_RESULT_SUCCESS = 1"
| "core_result_code CORE_CONTROL_RESULT_INVALID_TARGET = 2"
| "core_result_code CORE_CONTROL_RESULT_INVALID_ENTRY = 3"
| "core_result_code CORE_CONTROL_RESULT_INVALID_STATE = 4"
| "core_result_code CORE_CONTROL_RESULT_INVALID_COMMAND = 5"
| "core_result_code CORE_CONTROL_RESULT_INVALID_INTERRUPT = 6"

fun core_status_code :: "hardware_thread_state \<Rightarrow> u64" where
  "core_status_code HARDWARE_THREAD_OFFLINE = 0"
| "core_status_code HARDWARE_THREAD_STARTING = 1"
| "core_status_code HARDWARE_THREAD_RUNNABLE = 2"
| "core_status_code HARDWARE_THREAD_HALTED = 3"
| "core_status_code HARDWARE_THREAD_WAITING = 4"

record core_control_device =
  target_core :: u64
  target_thread :: u64
  entry_pc :: u64
  ipi_line :: u64
  core_last_command :: u64
  core_last_result :: core_result

definition selected_thread :: "core_control_device \<Rightarrow> vm \<Rightarrow> hardware_thread option" where
  "selected_thread device v = vm_hardware_thread v (unat (target_core device)) (unat (target_thread device))"

definition selected_status :: "core_control_device \<Rightarrow> vm \<Rightarrow> u64" where
  "selected_status device v =
     (case selected_thread device v of
        None \<Rightarrow> CORE_CONTROL_STATUS_INVALID
      | Some th \<Rightarrow> core_status_code (thread_state th))"

definition state_result :: "bool \<Rightarrow> core_result" where
  "state_result ok = (if ok then CORE_CONTROL_RESULT_SUCCESS else CORE_CONTROL_RESULT_INVALID_STATE)"

definition core_execute_command ::
  "(u64 \<Rightarrow> bool) \<Rightarrow> core_control_device \<Rightarrow> u64 \<Rightarrow> vm \<Rightarrow> core_control_device \<times> vm" where
  "core_execute_command fetchable device command v =
     (let th = selected_thread device v;
          c = unat (target_core device); t = unat (target_thread device);
          device = device\<lparr>core_last_command := command\<rparr>;
          answer = (\<lambda>(result, v). (device\<lparr>core_last_result := result\<rparr>, v))
      in answer
        (if command = CORE_CONTROL_COMMAND_NONE then (CORE_CONTROL_RESULT_NONE, v)
         else if th = None then (CORE_CONTROL_RESULT_INVALID_TARGET, v)
         else if command = CORE_CONTROL_COMMAND_START then
           if \<not> fetchable (entry_pc device) then (CORE_CONTROL_RESULT_INVALID_ENTRY, v)
           else apfst state_result (vm_activate_hardware_thread fetchable v c t (entry_pc device))
         else if command = CORE_CONTROL_COMMAND_STOP then
           apfst state_result (vm_request_hardware_thread_stop v c t)
         else if command = CORE_CONTROL_COMMAND_RESET then
           apfst state_result (vm_reset_hardware_thread v c t)
         else if command = CORE_CONTROL_COMMAND_IPI then
           if unat (ipi_line device) < INTERRUPT_IPI_LINE_BASE \<or> unat (ipi_line device) \<ge> INTERRUPT_LINE_COUNT
           then (CORE_CONTROL_RESULT_INVALID_INTERRUPT, v)
           else apfst state_result (vm_raise_hardware_thread_interrupt v c t (unat (ipi_line device)))
         else (CORE_CONTROL_RESULT_INVALID_COMMAND, v)))"

definition core_control_read :: "core_control_device \<Rightarrow> vm \<Rightarrow> u64 \<Rightarrow> nat \<Rightarrow> u64 option" where
  "core_control_read device v offset width =
     (if width \<noteq> 8 then None
      else if offset = CORE_CONTROL_TARGET_CORE_OFFSET then Some (target_core device)
      else if offset = CORE_CONTROL_TARGET_THREAD_OFFSET then Some (target_thread device)
      else if offset = CORE_CONTROL_ENTRY_PC_OFFSET then Some (entry_pc device)
      else if offset = CORE_CONTROL_COMMAND_OFFSET then Some (core_last_command device)
      else if offset = CORE_CONTROL_STATUS_OFFSET then Some (selected_status device v)
      else if offset = CORE_CONTROL_RESULT_OFFSET then Some (core_result_code (core_last_result device))
      else if offset = CORE_CONTROL_IPI_LINE_OFFSET then Some (ipi_line device)
      else None)"

definition core_control_write ::
  "(u64 \<Rightarrow> bool) \<Rightarrow> core_control_device \<Rightarrow> vm \<Rightarrow> u64 \<Rightarrow> nat \<Rightarrow> u64 \<Rightarrow> bool \<times> core_control_device \<times> vm" where
  "core_control_write fetchable device v offset width x =
     (if width \<noteq> 8 then (False, device, v)
      else if offset = CORE_CONTROL_TARGET_CORE_OFFSET then (True, device\<lparr>target_core := x\<rparr>, v)
      else if offset = CORE_CONTROL_TARGET_THREAD_OFFSET then (True, device\<lparr>target_thread := x\<rparr>, v)
      else if offset = CORE_CONTROL_ENTRY_PC_OFFSET then (True, device\<lparr>entry_pc := x\<rparr>, v)
      else if offset = CORE_CONTROL_IPI_LINE_OFFSET then (True, device\<lparr>ipi_line := x\<rparr>, v)
      else if offset = CORE_CONTROL_COMMAND_OFFSET then (True, core_execute_command fetchable device x v)
      else (False, device, v))"

definition core_control_device_init :: core_control_device where
  "core_control_device_init = \<lparr>target_core = 0, target_thread = 0, entry_pc = 0, ipi_line = 0,
     core_last_command = 0, core_last_result = CORE_CONTROL_RESULT_NONE\<rparr>"

definition core_control_reset :: "core_control_device \<Rightarrow> core_control_device" where
  "core_control_reset device = core_control_device_init"

section \<open>System control\<close>

definition SYSTEM_CONTROL_MAGIC :: u64 where "SYSTEM_CONTROL_MAGIC = 0x4C525443"
definition SYSTEM_CONTROL_VERSION :: u64 where "SYSTEM_CONTROL_VERSION = 1"
definition SYSTEM_CONTROL_COMMAND_NONE :: u64 where "SYSTEM_CONTROL_COMMAND_NONE = 0"
definition SYSTEM_CONTROL_COMMAND_SHUTDOWN :: u64 where "SYSTEM_CONTROL_COMMAND_SHUTDOWN = 1"
definition SYSTEM_CONTROL_COMMAND_WARM_RESET :: u64 where "SYSTEM_CONTROL_COMMAND_WARM_RESET = 2"
definition SYSTEM_CONTROL_COMMAND_OFFSET :: u64 where "SYSTEM_CONTROL_COMMAND_OFFSET = 0x18"

datatype system_status =
  SYSTEM_CONTROL_STATUS_RUNNING | SYSTEM_CONTROL_STATUS_SHUTDOWN_PENDING | SYSTEM_CONTROL_STATUS_RESET_PENDING

datatype system_result =
  SYSTEM_CONTROL_RESULT_NONE
| SYSTEM_CONTROL_RESULT_ACCEPTED
| SYSTEM_CONTROL_RESULT_BUSY
| SYSTEM_CONTROL_RESULT_INVALID_COMMAND

fun system_status_code :: "system_status \<Rightarrow> u64" where
  "system_status_code SYSTEM_CONTROL_STATUS_RUNNING = 0"
| "system_status_code SYSTEM_CONTROL_STATUS_SHUTDOWN_PENDING = 1"
| "system_status_code SYSTEM_CONTROL_STATUS_RESET_PENDING = 2"

fun system_result_code :: "system_result \<Rightarrow> u64" where
  "system_result_code SYSTEM_CONTROL_RESULT_NONE = 0"
| "system_result_code SYSTEM_CONTROL_RESULT_ACCEPTED = 1"
| "system_result_code SYSTEM_CONTROL_RESULT_BUSY = 2"
| "system_result_code SYSTEM_CONTROL_RESULT_INVALID_COMMAND = 3"

record system_control_device =
  sys_last_command :: u64
  sys_status :: system_status
  sys_last_result :: system_result
  reset_cause :: u64
  reset_count :: u64
  warm_reset_pending :: bool

definition system_execute_command ::
  "system_control_device \<Rightarrow> u64 \<Rightarrow> vm \<Rightarrow> system_control_device \<times> vm" where
  "system_execute_command device command v =
     (let device = device\<lparr>sys_last_command := command\<rparr>
      in if command = SYSTEM_CONTROL_COMMAND_NONE then (device\<lparr>sys_last_result := SYSTEM_CONTROL_RESULT_NONE\<rparr>, v)
         else if command = SYSTEM_CONTROL_COMMAND_SHUTDOWN then
           (case vm_request_system_action v VM_SYSTEM_ACTION_SHUTDOWN of
              (True, v) \<Rightarrow> (device\<lparr>sys_status := SYSTEM_CONTROL_STATUS_SHUTDOWN_PENDING,
                                   sys_last_result := SYSTEM_CONTROL_RESULT_ACCEPTED\<rparr>, v)
            | (False, v) \<Rightarrow> (device\<lparr>sys_last_result := SYSTEM_CONTROL_RESULT_BUSY\<rparr>, v))
         else if command = SYSTEM_CONTROL_COMMAND_WARM_RESET then
           (case vm_request_system_action v VM_SYSTEM_ACTION_WARM_RESET of
              (True, v) \<Rightarrow> (device\<lparr>warm_reset_pending := True, sys_status := SYSTEM_CONTROL_STATUS_RESET_PENDING,
                                   sys_last_result := SYSTEM_CONTROL_RESULT_ACCEPTED\<rparr>, v)
            | (False, v) \<Rightarrow> (device\<lparr>sys_last_result := SYSTEM_CONTROL_RESULT_BUSY\<rparr>, v))
         else (device\<lparr>sys_last_result := SYSTEM_CONTROL_RESULT_INVALID_COMMAND\<rparr>, v))"

text \<open>The eight registers in steps of eight bytes.\<close>

definition system_control_read :: "system_control_device \<Rightarrow> u64 \<Rightarrow> nat \<Rightarrow> u64 option" where
  "system_control_read device offset width =
     (if width \<noteq> 8 \<or> offset mod 8 \<noteq> 0 \<or> offset > 0x38 then None
      else Some ([SYSTEM_CONTROL_MAGIC, SYSTEM_CONTROL_VERSION, BIT 0 OR BIT 1, sys_last_command device,
                  system_status_code (sys_status device), system_result_code (sys_last_result device),
                  reset_cause device, reset_count device] ! unat (offset div 8)))"

definition system_control_write ::
  "system_control_device \<Rightarrow> vm \<Rightarrow> u64 \<Rightarrow> nat \<Rightarrow> u64 \<Rightarrow> bool \<times> system_control_device \<times> vm" where
  "system_control_write device v offset width x =
     (if width \<noteq> 8 \<or> offset \<noteq> SYSTEM_CONTROL_COMMAND_OFFSET then (False, device, v)
      else (True, system_execute_command device x v))"

definition system_control_reset :: "system_control_device \<Rightarrow> system_control_device" where
  "system_control_reset device =
     device\<lparr>reset_cause := (if warm_reset_pending device then 1 else reset_cause device),
            reset_count := (if warm_reset_pending device then reset_count device + 1 else reset_count device),
            sys_last_command := SYSTEM_CONTROL_COMMAND_NONE, sys_status := SYSTEM_CONTROL_STATUS_RUNNING,
            sys_last_result := SYSTEM_CONTROL_RESULT_NONE, warm_reset_pending := False\<rparr>"

definition system_control_device_init :: system_control_device where
  "system_control_device_init = \<lparr>sys_last_command = 0, sys_status = SYSTEM_CONTROL_STATUS_RUNNING,
     sys_last_result = SYSTEM_CONTROL_RESULT_NONE, reset_cause = 0, reset_count = 0, warm_reset_pending = False\<rparr>"

section \<open>Scheduling of the threads of a core\<close>

definition runnable :: "core \<Rightarrow> nat \<Rightarrow> bool" where
  "runnable core t \<longleftrightarrow> t < length (threads core) \<and> thread_state (threads core ! t) = HARDWARE_THREAD_RUNNABLE"

text \<open>How far the cursor is from a thread.\<close>

definition distance :: "core \<Rightarrow> nat \<Rightarrow> nat" where
  "distance core t = (t + length (threads core) - next_thread core) mod length (threads core)"

definition core_ok :: "core \<Rightarrow> bool" where
  "core_ok core \<longleftrightarrow> next_thread core < length (threads core)"

lemma cyclic_distance:
  fixes n :: nat
  assumes "t < n" "j < n"
  shows "(t + n - j) mod n = (if j \<le> t then t - j else t + n - j)"
proof (cases "j \<le> t")
  case True
  then have "t + n - j = (t - j) + n" using assms by simp
  then have "(t + n - j) mod n = (t - j) mod n" by (simp only: mod_add_self2)
  then show ?thesis using True assms by simp
qed (use assms in simp)

lemma cyclic_next:
  fixes n :: nat
  assumes "k < n"
  shows "(k + 1) mod n = (if k + 1 = n then 0 else k + 1)"
  using assms by auto

lemma distance_0:
  assumes "core_ok core" "t < length (threads core)"
  shows "distance core t = 0 \<longleftrightarrow> next_thread core = t"
  using assms cyclic_distance [OF assms(2), of "next_thread core"] by (auto simp: distance_def core_ok_def)

lemma distance_advance:
  assumes "core_ok core" "t < length (threads core)" "next_thread core \<noteq> t"
  shows "distance (core\<lparr>next_thread := (next_thread core + 1) mod length (threads core)\<rparr>) t = distance core t - 1"
proof -
  let ?n = "length (threads core)" and ?k = "next_thread core"
  have k: "?k < ?n" "(?k + 1) mod ?n < ?n" using assms(1) by (auto simp: core_ok_def intro: mod_less_divisor)
  show ?thesis
    using cyclic_distance [OF assms(2) k(1)] cyclic_distance [OF assms(2) k(2)] cyclic_next [OF k(1)] assms(2,3) k(1)
    by (cases "?k + 1 = ?n") (auto simp: distance_def)
qed

lemma select_reaches:
  assumes "core_ok core" "runnable core t" "distance core t < n"
  shows "\<exists>i. select_hardware_thread n core = (Some i, core\<lparr>next_thread := (i + 1) mod length (threads core)\<rparr>) \<and>
    runnable core i \<and>
    (i \<noteq> t \<longrightarrow> distance (core\<lparr>next_thread := (i + 1) mod length (threads core)\<rparr>) t < distance core t)"
  using assms
proof (induction n arbitrary: core)
  case (Suc n)
  let ?core = "core\<lparr>next_thread := (next_thread core + 1) mod length (threads core)\<rparr>"
  have t: "t < length (threads core)" using Suc.prems(2) by (simp add: runnable_def)
  show ?case
  proof (cases "runnable core (next_thread core)")
    case True
    have "distance ?core t < distance core t" if "next_thread core \<noteq> t"
      using distance_advance [OF Suc.prems(1) t that] distance_0 [OF Suc.prems(1) t] that by simp
    with True show ?thesis by (auto simp: runnable_def Let_def)
  next
    case False
    then have ne: "next_thread core \<noteq> t" and st: "thread_state (threads core ! next_thread core) \<noteq> HARDWARE_THREAD_RUNNABLE"
      using Suc.prems(1,2) by (auto simp: runnable_def core_ok_def)
    have adv: "distance ?core t = distance core t - 1" "0 < distance core t"
      using distance_advance [OF Suc.prems(1) t ne] distance_0 [OF Suc.prems(1) t] ne by auto
    have "core_ok ?core" "runnable ?core t" "distance ?core t < n"
      using Suc.prems t adv by (auto simp: core_ok_def runnable_def intro!: mod_less_divisor)
    from Suc.IH [OF this] obtain i where
      "select_hardware_thread n ?core = (Some i, ?core\<lparr>next_thread := (i + 1) mod length (threads ?core)\<rparr>)"
      "runnable ?core i"
      "i \<noteq> t \<longrightarrow> distance (?core\<lparr>next_thread := (i + 1) mod length (threads ?core)\<rparr>) t < distance ?core t"
      by blast
    then show ?thesis using st adv by (auto simp: Let_def runnable_def)
  qed
qed simp

text \<open>The threads a core selects in a row while their states do not change.\<close>

fun selections :: "nat \<Rightarrow> core \<Rightarrow> nat option list" where
  "selections 0 core = []"
| "selections (Suc k) core =
     (let (selected, core) = select_hardware_thread (length (threads core)) core
      in selected # selections k core)"

lemma selections_reach:
  assumes "core_ok core" "runnable core t" "distance core t < k"
  shows "Some t \<in> set (selections k core)"
  using assms
proof (induction k arbitrary: core)
  case (Suc k)
  have "0 < length (threads core)" using Suc.prems(1) by (auto simp: core_ok_def)
  then have "distance core t < length (threads core)" by (simp add: distance_def)
  from select_reaches [OF Suc.prems(1,2) this] obtain i where
    "select_hardware_thread (length (threads core)) core = (Some i, core\<lparr>next_thread := (i + 1) mod length (threads core)\<rparr>)"
    "i \<noteq> t \<longrightarrow> distance (core\<lparr>next_thread := (i + 1) mod length (threads core)\<rparr>) t < distance core t" by blast
  moreover have "core_ok (core\<lparr>next_thread := j mod length (threads core)\<rparr>)"
    "runnable (core\<lparr>next_thread := j mod length (threads core)\<rparr>) t" for j
    using Suc.prems(1,2) \<open>0 < length (threads core)\<close> by (simp_all add: core_ok_def runnable_def)
  ultimately show ?case using Suc.IH Suc.prems(3) by (cases "i = t") auto
qed simp

lemma select_runnable:
  "core_ok core \<Longrightarrow> select_hardware_thread n core = (Some i, core') \<Longrightarrow> runnable core i"
proof (induction n arbitrary: core)
  case (Suc n)
  let ?core = "core\<lparr>next_thread := (next_thread core + 1) mod length (threads core)\<rparr>"
  have "core_ok ?core" using Suc.prems(1) by (auto simp: core_ok_def intro!: mod_less_divisor)
  from Suc.IH [OF this] Suc.prems show ?case
    by (cases "runnable core (next_thread core)") (auto simp: runnable_def core_ok_def Let_def)
qed simp

text \<open>C22: The scheduling of hardware threads is fair. A core that selects as many times in a row as
  it has threads selects every thread that is runnable; every selected thread is runnable, and it
  selects none only when none is.\<close>

theorem core_selection_is_fair:
  assumes "core_ok core"
  shows "(\<forall>t. runnable core t \<longrightarrow> Some t \<in> set (selections (length (threads core)) core)) \<and>
    (\<forall>i core'. select_hardware_thread (length (threads core)) core = (Some i, core') \<longrightarrow> runnable core i) \<and>
    (\<forall>core'. select_hardware_thread (length (threads core)) core = (None, core') \<longrightarrow> (\<forall>t. \<not> runnable core t))"
proof -
  have n: "0 < length (threads core)" using assms by (auto simp: core_ok_def)
  then have d: "distance core t < length (threads core)" for t by (simp add: distance_def)
  show ?thesis
  proof (intro conjI allI impI)
    show "Some t \<in> set (selections (length (threads core)) core)" if "runnable core t" for t
      by (rule selections_reach [OF assms that d])
    show "runnable core i" if "select_hardware_thread (length (threads core)) core = (Some i, core')" for i core'
      by (rule select_runnable [OF assms that])
    show "\<not> runnable core t" if "select_hardware_thread (length (threads core)) core = (None, core')" for core' t
      using select_reaches [OF assms _ d [of t]] that by auto
  qed
qed

theorem core_selection_is_fair_witness:
  "\<exists>core. core_ok core \<and> runnable core 1 \<and> Some 1 \<in> set (selections 2 core)"
proof -
  let ?th = "\<lambda>x. \<lparr>thread_cpu = cpu_init, thread_state = x, thread_stop = False\<rparr>"
  let ?core = "\<lparr>threads = [?th HARDWARE_THREAD_RUNNABLE, ?th HARDWARE_THREAD_RUNNABLE], next_thread = 0\<rparr>"
  have "core_ok ?core" "runnable ?core 1" by (simp_all add: core_ok_def runnable_def)
  with core_selection_is_fair [of ?core] show ?thesis by (intro exI [of _ ?core]) (simp add: eval_nat_numeral)
qed

end
