(* ===== verification/Vm_Threads.thy ===== *)
theory Vm_Threads
  imports Vm
begin

text \<open>
  The atomic accesses of \<^verbatim>\<open>src/vm.c\<close> under interleaving. Every core has a worker, a host
  thread; a worker runs the hardware threads of its core and, while it executes an instruction of
  one of them, may start, stop or reset others through the core control device. The shared
  state is, for each hardware thread, its atomic state word, the halted flag of its processor and
  its stop flag, and for the machine the count of active threads, the stop flag, the failure flag
  and the requested system action. The device worker and the thread in \<open>run_workers\<close> are two more
  host threads. A host thread is at a location between two accesses; each rule is one access.
  \<open>owner\<close> gives the worker of a thread.
\<close>

section \<open>States and locations\<close>

record cell =
  c_state :: hardware_thread_state
  c_halted :: bool
  c_stop :: bool

text \<open>The first argument of a location is the hardware thread the worker runs, the second the
  target of a command.\<close>

datatype location =
  Loop
| Running nat
| Turn_End nat
| Finishing nat
| Marked nat
| Cpu_Stored nat
| Stop_Cleared nat
| Last
| Act_Checked nat nat
| Act_Starting nat nat
| Act_Init nat nat
| Act_Cleared nat nat
| Act_Counted nat nat
| Reset_Checked nat nat
| Reset_Starting nat nat
| Reset_Init nat nat
| Reset_Cleared nat nat
| Stop_Checked nat nat
| Action_Stored nat
| Fail_Stored
| Exited

record shared =
  cells :: "nat \<Rightarrow> cell"
  active_count :: nat
  all_stop :: bool
  run_failed :: bool
  action :: vm_system_action
  loc :: "nat \<Rightarrow> location"
  device_loc :: location
  main_loc :: location

definition go :: "nat \<Rightarrow> location \<Rightarrow> shared \<Rightarrow> shared" where
  "go w l s = s\<lparr>loc := (loc s)(w := l)\<rparr>"

definition put_state :: "nat \<Rightarrow> hardware_thread_state \<Rightarrow> shared \<Rightarrow> shared" where
  "put_state t x s = s\<lparr>cells := (cells s)(t := (cells s t)\<lparr>c_state := x\<rparr>)\<rparr>"

definition put_halted :: "nat \<Rightarrow> bool \<Rightarrow> shared \<Rightarrow> shared" where
  "put_halted t x s = s\<lparr>cells := (cells s)(t := (cells s t)\<lparr>c_halted := x\<rparr>)\<rparr>"

definition put_stop :: "nat \<Rightarrow> bool \<Rightarrow> shared \<Rightarrow> shared" where
  "put_stop t x s = s\<lparr>cells := (cells s)(t := (cells s t)\<lparr>c_stop := x\<rparr>)\<rparr>"

abbreviation state_of :: "shared \<Rightarrow> nat \<Rightarrow> hardware_thread_state" where
  "state_of s t \<equiv> c_state (cells s t)"

definition is_active :: "hardware_thread_state \<Rightarrow> bool" where
  "is_active x \<longleftrightarrow> x = HARDWARE_THREAD_RUNNABLE \<or> x = HARDWARE_THREAD_WAITING"

section \<open>The accesses\<close>

text \<open>The loop of \<open>core_worker\<close>: a runnable thread of the core is selected, executes, and at the
  end of its turn may be parked by a wait instruction or has to be finished; a waiting thread is
  woken by an interrupt or has to be finished on a stop request. Halting is an instruction of the
  thread. When an instruction cannot be completed or an interrupt of a waiting thread cannot be
  entered, the worker stores the failure flag, then the stop flag, and returns. It also returns
  when it finds the stop flag at the head of the loop; the other rules of the loop do not depend
  on the flag, because it may be set after the test.\<close>

inductive worker_access :: "nat \<Rightarrow> (nat \<Rightarrow> nat) \<Rightarrow> nat \<Rightarrow> shared \<Rightarrow> shared \<Rightarrow> bool" for number owner w where
  select: "loc s w = Loop \<Longrightarrow> t < number \<Longrightarrow> owner t = w \<Longrightarrow> state_of s t = HARDWARE_THREAD_RUNNABLE \<Longrightarrow>
    worker_access number owner w s (go w (Running t) s)"
| halt: "loc s w = Running t \<Longrightarrow> worker_access number owner w s (put_halted t True s)"
| turn_halted: "loc s w = Running t \<Longrightarrow> c_halted (cells s t) \<Longrightarrow> worker_access number owner w s (go w (Finishing t) s)"
| turn_stopped: "loc s w = Running t \<Longrightarrow> c_stop (cells s t) \<Longrightarrow>
    worker_access number owner w s (go w (Finishing t) (put_stop t False s))"
| turn_end: "loc s w = Running t \<Longrightarrow> \<not> c_halted (cells s t) \<Longrightarrow> \<not> c_stop (cells s t) \<Longrightarrow>
    worker_access number owner w s (go w (Turn_End t) s)"
| turn_done: "loc s w = Turn_End t \<Longrightarrow> worker_access number owner w s (go w Loop s)"
| park: "loc s w = Turn_End t \<Longrightarrow> state_of s t = HARDWARE_THREAD_RUNNABLE \<Longrightarrow>
    worker_access number owner w s (go w Loop (put_state t HARDWARE_THREAD_WAITING s))"
| wake: "loc s w = Loop \<Longrightarrow> t < number \<Longrightarrow> owner t = w \<Longrightarrow> state_of s t = HARDWARE_THREAD_WAITING \<Longrightarrow>
    worker_access number owner w s (put_state t HARDWARE_THREAD_RUNNABLE s)"
| stop_waiting: "loc s w = Loop \<Longrightarrow> t < number \<Longrightarrow> owner t = w \<Longrightarrow> state_of s t = HARDWARE_THREAD_WAITING \<Longrightarrow> c_stop (cells s t) \<Longrightarrow>
    worker_access number owner w s (go w (Finishing t) (put_stop t False s))"
| turn_failed: "loc s w = Running t \<Longrightarrow> worker_access number owner w s (go w Fail_Stored (s\<lparr>run_failed := True\<rparr>))"
| service_failed: "loc s w = Loop \<Longrightarrow> t < number \<Longrightarrow> owner t = w \<Longrightarrow> state_of s t = HARDWARE_THREAD_WAITING \<Longrightarrow>
    worker_access number owner w s (go w Fail_Stored (s\<lparr>run_failed := True\<rparr>))"
| fail_stop: "loc s w = Fail_Stored \<Longrightarrow> worker_access number owner w s (go w Exited (s\<lparr>all_stop := True\<rparr>))"
| leave: "loc s w = Loop \<Longrightarrow> all_stop s \<Longrightarrow> worker_access number owner w s (go w Exited s)"

text \<open>\<open>finish_hardware_thread\<close>: the compare-and-swap to halted, the store to the processor, the
  store to the stop flag, the decrement, and the stop of the machine after the last thread.\<close>

inductive finish_access :: "nat \<Rightarrow> shared \<Rightarrow> shared \<Rightarrow> bool" for w where
  not_active: "loc s w = Finishing t \<Longrightarrow> \<not> is_active (state_of s t) \<Longrightarrow> finish_access w s (go w Loop s)"
| mark: "loc s w = Finishing t \<Longrightarrow> is_active (state_of s t) \<Longrightarrow>
    finish_access w s (go w (Marked t) (put_state t HARDWARE_THREAD_HALTED s))"
| store_cpu: "loc s w = Marked t \<Longrightarrow> finish_access w s (go w (Cpu_Stored t) (put_halted t True s))"
| clear_stop: "loc s w = Cpu_Stored t \<Longrightarrow> finish_access w s (go w (Stop_Cleared t) (put_stop t False s))"
| decrement: "loc s w = Stop_Cleared t \<Longrightarrow>
    finish_access w s (go w (if active_count s = 1 then Last else Loop) (s\<lparr>active_count := active_count s - 1\<rparr>))"
| stop_machine: "loc s w = Last \<Longrightarrow> finish_access w s (go w Loop (s\<lparr>all_stop := True\<rparr>))"

text \<open>\<open>vm_activate_hardware_thread\<close>: the stop flag of the machine, the compare-and-swap to
  starting, the processor, the stop flag, the count and the state.\<close>

inductive activate_access :: "nat \<Rightarrow> nat \<Rightarrow> shared \<Rightarrow> shared \<Rightarrow> bool" for number w where
  check: "loc s w = Running t \<Longrightarrow> u < number \<Longrightarrow> \<not> all_stop s \<Longrightarrow> activate_access number w s (go w (Act_Checked t u) s)"
| refuse: "loc s w = Act_Checked t u \<Longrightarrow> state_of s u \<noteq> HARDWARE_THREAD_OFFLINE \<Longrightarrow>
    activate_access number w s (go w (Running t) s)"
| starting: "loc s w = Act_Checked t u \<Longrightarrow> state_of s u = HARDWARE_THREAD_OFFLINE \<Longrightarrow>
    activate_access number w s (go w (Act_Starting t u) (put_state u HARDWARE_THREAD_STARTING s))"
| init: "loc s w = Act_Starting t u \<Longrightarrow> activate_access number w s (go w (Act_Init t u) (put_halted u False s))"
| clear: "loc s w = Act_Init t u \<Longrightarrow> activate_access number w s (go w (Act_Cleared t u) (put_stop u False s))"
| increment: "loc s w = Act_Cleared t u \<Longrightarrow>
    activate_access number w s (go w (Act_Counted t u) (s\<lparr>active_count := active_count s + 1\<rparr>))"
| publish: "loc s w = Act_Counted t u \<Longrightarrow>
    activate_access number w s (go w (Running t) (put_state u HARDWARE_THREAD_RUNNABLE s))"

text \<open>\<open>vm_reset_hardware_thread\<close>.\<close>

inductive reset_access :: "nat \<Rightarrow> nat \<Rightarrow> shared \<Rightarrow> shared \<Rightarrow> bool" for number w where
  load: "loc s w = Running t \<Longrightarrow> u < number \<Longrightarrow> reset_access number w s (go w (Reset_Checked t u) s)"
| refuse: "loc s w = Reset_Checked t u \<Longrightarrow>
    state_of s u \<noteq> HARDWARE_THREAD_OFFLINE \<Longrightarrow> state_of s u \<noteq> HARDWARE_THREAD_HALTED \<Longrightarrow>
    reset_access number w s (go w (Running t) s)"
| starting: "loc s w = Reset_Checked t u \<Longrightarrow>
    state_of s u = HARDWARE_THREAD_OFFLINE \<or> state_of s u = HARDWARE_THREAD_HALTED \<Longrightarrow>
    reset_access number w s (go w (Reset_Starting t u) (put_state u HARDWARE_THREAD_STARTING s))"
| init: "loc s w = Reset_Starting t u \<Longrightarrow> reset_access number w s (go w (Reset_Init t u) (put_halted u False s))"
| clear: "loc s w = Reset_Init t u \<Longrightarrow> reset_access number w s (go w (Reset_Cleared t u) (put_stop u False s))"
| publish: "loc s w = Reset_Cleared t u \<Longrightarrow>
    reset_access number w s (go w (Running t) (put_state u HARDWARE_THREAD_OFFLINE s))"

text \<open>\<open>vm_request_hardware_thread_stop\<close>.\<close>

inductive stop_access :: "nat \<Rightarrow> nat \<Rightarrow> shared \<Rightarrow> shared \<Rightarrow> bool" for number w where
  load: "loc s w = Running t \<Longrightarrow> u < number \<Longrightarrow> is_active (state_of s u) \<Longrightarrow> stop_access number w s (go w (Stop_Checked t u) s)"
| store: "loc s w = Stop_Checked t u \<Longrightarrow> stop_access number w s (go w (Running t) (put_stop u True s))"

text \<open>\<open>vm_request_system_action\<close>: the compare-and-swap of the action, then the stop flag.\<close>

inductive action_access :: "nat \<Rightarrow> shared \<Rightarrow> shared \<Rightarrow> bool" for w where
  request: "loc s w = Running t \<Longrightarrow> action s = VM_SYSTEM_ACTION_NONE \<Longrightarrow>
    a = VM_SYSTEM_ACTION_SHUTDOWN \<or> a = VM_SYSTEM_ACTION_WARM_RESET \<Longrightarrow>
    action_access w s (go w (Action_Stored t) (s\<lparr>action := a\<rparr>))"
| refuse: "loc s w = Running t \<Longrightarrow> action s \<noteq> VM_SYSTEM_ACTION_NONE \<Longrightarrow> action_access w s s"
| stop: "loc s w = Action_Stored t \<Longrightarrow> action_access w s (go w (Running t) (s\<lparr>all_stop := True\<rparr>))"

definition access :: "nat \<Rightarrow> (nat \<Rightarrow> nat) \<Rightarrow> nat \<Rightarrow> shared \<Rightarrow> shared \<Rightarrow> bool" where
  "access number owner w s s' \<longleftrightarrow>
     worker_access number owner w s s' \<or> finish_access w s s' \<or> activate_access number w s s' \<or>
     reset_access number w s s' \<or> stop_access number w s s' \<or> action_access w s s'"

text \<open>\<open>device_worker\<close>: it fails when the timer of the host does, and returns when it finds the stop
  flag.\<close>

inductive device_access :: "shared \<Rightarrow> shared \<Rightarrow> bool" where
  fail: "device_loc s = Loop \<Longrightarrow> device_access s (s\<lparr>run_failed := True, device_loc := Fail_Stored\<rparr>)"
| fail_stop: "device_loc s = Fail_Stored \<Longrightarrow> device_access s (s\<lparr>all_stop := True, device_loc := Exited\<rparr>)"
| leave: "device_loc s = Loop \<Longrightarrow> all_stop s \<Longrightarrow> device_access s (s\<lparr>device_loc := Exited\<rparr>)"

text \<open>\<open>run_workers\<close> once the device worker is created: a worker that cannot be created or joined or
  that returns a failure makes the run fail; when the workers have returned, or after such a
  failure those that were created, the stop flag is stored.\<close>

inductive main_access :: "nat \<Rightarrow> shared \<Rightarrow> shared \<Rightarrow> bool" for workers where
  fail: "main_loc s = Loop \<Longrightarrow> main_access workers s (s\<lparr>run_failed := True, main_loc := Fail_Stored\<rparr>)"
| fail_stop: "main_loc s = Fail_Stored \<Longrightarrow> main_access workers s (s\<lparr>all_stop := True, main_loc := Loop\<rparr>)"
| joined: "main_loc s = Loop \<Longrightarrow> run_failed s \<or> (\<forall>w < workers. loc s w = Exited) \<Longrightarrow>
    main_access workers s (s\<lparr>all_stop := True, main_loc := Exited\<rparr>)"

text \<open>The machine \<open>vm_init\<close> leaves: thread 0 is runnable, the others are offline and one thread is
  active; every host thread is at its loop.\<close>

definition boot_cell :: "nat \<Rightarrow> cell" where
  "boot_cell t =
     \<lparr>c_state = (if t = 0 then HARDWARE_THREAD_RUNNABLE else HARDWARE_THREAD_OFFLINE),
      c_halted = False, c_stop = False\<rparr>"

definition boot_state :: shared where
  "boot_state =
     \<lparr>cells = boot_cell, active_count = 1, all_stop = False, run_failed = False,
      action = VM_SYSTEM_ACTION_NONE, loc = (\<lambda>_. Loop), device_loc = Loop, main_loc = Loop\<rparr>"

text \<open>\<open>prepare_warm_reset\<close> between two runs of the workers.\<close>

definition warm_reset :: "nat \<Rightarrow> shared \<Rightarrow> shared" where
  "warm_reset number s =
     s\<lparr>cells := (\<lambda>t. if t < number then boot_cell t else cells s t), active_count := 1,
       action := VM_SYSTEM_ACTION_NONE, all_stop := False, run_failed := False,
       loc := (\<lambda>_. Loop), device_loc := Loop, main_loc := Loop\<rparr>"

text \<open>Interleavings of \<open>workers\<close> workers over \<open>number\<close> threads, and the resets of \<open>vm_run\<close>.\<close>

inductive reachable :: "nat \<Rightarrow> (nat \<Rightarrow> nat) \<Rightarrow> nat \<Rightarrow> shared \<Rightarrow> bool" for number owner workers where
  boot: "reachable number owner workers boot_state"
| step: "reachable number owner workers s \<Longrightarrow> w < workers \<Longrightarrow> access number owner w s s' \<Longrightarrow>
    reachable number owner workers s'"
| device: "reachable number owner workers s \<Longrightarrow> device_access s s' \<Longrightarrow> reachable number owner workers s'"
| main: "reachable number owner workers s \<Longrightarrow> main_access workers s s' \<Longrightarrow> reachable number owner workers s'"
| reset: "reachable number owner workers s \<Longrightarrow> main_loc s = Exited \<Longrightarrow> device_loc s = Exited \<Longrightarrow>
    \<not> run_failed s \<Longrightarrow> action s = VM_SYSTEM_ACTION_WARM_RESET \<Longrightarrow>
    reachable number owner workers (warm_reset number s)"

section \<open>The active threads are counted\<close>

text \<open>The thread a worker runs, the thread it is about to count off or on.\<close>

fun runs :: "location \<Rightarrow> nat option" where
  "runs (Running t) = Some t"
| "runs (Turn_End t) = Some t"
| "runs (Act_Checked t u) = Some t"
| "runs (Act_Starting t u) = Some t"
| "runs (Act_Init t u) = Some t"
| "runs (Act_Cleared t u) = Some t"
| "runs (Act_Counted t u) = Some t"
| "runs (Reset_Checked t u) = Some t"
| "runs (Reset_Starting t u) = Some t"
| "runs (Reset_Init t u) = Some t"
| "runs (Reset_Cleared t u) = Some t"
| "runs (Stop_Checked t u) = Some t"
| "runs (Action_Stored t) = Some t"
| "runs _ = None"

fun starts :: "location \<Rightarrow> nat option" where
  "starts (Act_Starting t u) = Some u"
| "starts (Act_Init t u) = Some u"
| "starts (Act_Cleared t u) = Some u"
| "starts (Act_Counted t u) = Some u"
| "starts (Reset_Starting t u) = Some u"
| "starts (Reset_Init t u) = Some u"
| "starts (Reset_Cleared t u) = Some u"
| "starts _ = None"

fun finishes :: "location \<Rightarrow> nat option" where
  "finishes (Finishing t) = Some t"
| "finishes _ = None"

fun surplus :: "location \<Rightarrow> nat" where
  "surplus (Marked t) = 1"
| "surplus (Cpu_Stored t) = 1"
| "surplus (Stop_Cleared t) = 1"
| "surplus (Act_Counted t u) = 1"
| "surplus _ = 0"

definition active_threads :: "nat \<Rightarrow> shared \<Rightarrow> nat" where
  "active_threads number s = (\<Sum>t<number. if is_active (state_of s t) then 1 else 0)"

definition surplus_total :: "nat \<Rightarrow> shared \<Rightarrow> nat" where
  "surplus_total workers s = (\<Sum>w<workers. surplus (loc s w))"

text \<open>The stop flag is set, but neither a failure nor a system action is the reason.\<close>

abbreviation idle_stop :: "shared \<Rightarrow> bool" where
  "idle_stop s \<equiv> all_stop s \<and> \<not> run_failed s \<and> action s = VM_SYSTEM_ACTION_NONE"

definition threads_ok :: "nat \<Rightarrow> (nat \<Rightarrow> nat) \<Rightarrow> nat \<Rightarrow> shared \<Rightarrow> bool" where
  "threads_ok number owner workers s \<longleftrightarrow>
     active_count s = active_threads number s + surplus_total workers s \<and>
     (\<forall>w < workers. \<forall>t. runs (loc s w) = Some t \<longrightarrow>
        t < number \<and> owner t = w \<and> state_of s t = HARDWARE_THREAD_RUNNABLE) \<and>
     (\<forall>w < workers. \<forall>t. finishes (loc s w) = Some t \<longrightarrow> t < number \<and> owner t = w \<and> is_active (state_of s t)) \<and>
     (\<forall>w < workers. \<forall>u. starts (loc s w) = Some u \<longrightarrow> u < number \<and> state_of s u = HARDWARE_THREAD_STARTING) \<and>
     (\<forall>w < workers. \<forall>v < workers. \<forall>u. starts (loc s w) = Some u \<longrightarrow> starts (loc s v) = Some u \<longrightarrow> w = v) \<and>
     (\<forall>w < workers. \<forall>t u. loc s w \<in> {Act_Checked t u, Reset_Checked t u, Stop_Checked t u} \<longrightarrow> u < number) \<and>
     ((\<exists>w < workers. loc s w = Last) \<or> idle_stop s \<longrightarrow> active_count s = 0)"

text \<open>The reason of a stop is stored before the stop flag, and a worker returns only after a stop.\<close>

definition stops_ok :: "nat \<Rightarrow> shared \<Rightarrow> bool" where
  "stops_ok workers s \<longleftrightarrow>
     (\<forall>w < workers. loc s w = Fail_Stored \<longrightarrow> run_failed s) \<and>
     (device_loc s = Fail_Stored \<longrightarrow> run_failed s) \<and> (main_loc s = Fail_Stored \<longrightarrow> run_failed s) \<and>
     (\<forall>w < workers. \<forall>t. loc s w = Action_Stored t \<longrightarrow> action s \<noteq> VM_SYSTEM_ACTION_NONE) \<and>
     (\<forall>w < workers. loc s w = Exited \<longrightarrow> all_stop s)"

lemma sum_upd:
  fixes f g :: "nat \<Rightarrow> nat"
  assumes "x < n" "\<And>i. g i = (if i = x then y else f i)"
  shows "(\<Sum>i<n. g i) + f x = (\<Sum>i<n. f i) + y"
proof -
  have "(\<Sum>i<n. h i) = h x + (\<Sum>i\<in>{..<n} - {x}. h i)" for h :: "nat \<Rightarrow> nat"
    using assms(1) by (intro sum.remove) auto
  moreover have "(\<Sum>i\<in>{..<n} - {x}. g i) = (\<Sum>i\<in>{..<n} - {x}. f i)" by (rule sum.cong) (auto simp: assms(2))
  ultimately show ?thesis using assms(2) [of x] by simp
qed

lemma surplus_upd:
  assumes "w < workers" "loc s' = (loc s)(w := l)"
  shows "surplus_total workers s' + surplus (loc s w) = surplus_total workers s + surplus l"
  unfolding surplus_total_def by (rule sum_upd [OF assms(1)]) (simp add: assms(2))

definition weight :: "hardware_thread_state \<Rightarrow> nat" where
  "weight x = (if is_active x then 1 else 0)"

lemma active_upd:
  assumes "x < number \<or> y = state_of s x" "\<And>t. state_of s' t = (if t = x then y else state_of s t)"
  shows "active_threads number s' + weight (state_of s x) = active_threads number s + weight y"
proof (cases "x < number")
  case True
  then show ?thesis
    unfolding active_threads_def weight_def by (rule sum_upd) (simp add: assms(2))
next
  case False
  then have "state_of s' t = state_of s t" for t using assms by simp
  then show ?thesis using False assms(1) by (simp add: active_threads_def)
qed

lemma ok_runs:
  assumes "threads_ok number owner workers s" "w < workers" "runs (loc s w) = Some t"
  shows "t < number" "owner t = w" "state_of s t = HARDWARE_THREAD_RUNNABLE" "0 < active_count s"
proof -
  show t: "t < number" "owner t = w" "state_of s t = HARDWARE_THREAD_RUNNABLE"
    using assms by (auto simp: threads_ok_def)
  then have "0 < active_threads number s"
    unfolding active_threads_def by (intro sum_pos2 [of _ t]) (auto simp: is_active_def)
  then show "0 < active_count s" using assms(1) by (simp add: threads_ok_def)
qed

lemma ok_surplus:
  assumes "threads_ok number owner workers s" "w < workers" "surplus (loc s w) = 1"
  shows "0 < active_count s"
proof -
  have "0 < surplus_total workers s"
    using assms(2,3) unfolding surplus_total_def by (intro sum_pos2 [of _ w]) auto
  then show ?thesis using assms(1) by (simp add: threads_ok_def)
qed

lemma ok_finishes:
  assumes "threads_ok number owner workers s" "w < workers" "finishes (loc s w) = Some t"
  shows "t < number" "owner t = w" "is_active (state_of s t)"
  using assms by (auto simp: threads_ok_def)

lemma ok_starts:
  assumes "threads_ok number owner workers s" "w < workers" "starts (loc s w) = Some u"
  shows "u < number" "state_of s u = HARDWARE_THREAD_STARTING"
    "\<And>v. v < workers \<Longrightarrow> starts (loc s v) = Some u \<Longrightarrow> v = w"
  using assms by (auto simp: threads_ok_def)

lemma ok_checked:
  assumes "threads_ok number owner workers s" "w < workers"
    "loc s w \<in> {Act_Checked t u, Reset_Checked t u, Stop_Checked t u}"
  shows "u < number"
  using assms by (auto simp: threads_ok_def)

lemma ok_last:
  assumes "threads_ok number owner workers s" "(w < workers \<and> loc s w = Last) \<or> idle_stop s"
  shows "active_count s = 0"
  using assms by (auto simp: threads_ok_def)

lemma preserve:
  assumes ok: "threads_ok number owner workers s" and w: "w < workers" and x: "x < number \<or> y = state_of s x"
    and loc: "loc s' = (loc s)(w := l)" and st: "\<And>t. state_of s' t = (if t = x then y else state_of s t)"
    and count: "active_count s' + weight (state_of s x) + surplus (loc s w) = active_count s + weight y + surplus l"
    and runs: "\<And>t. runs l = Some t \<Longrightarrow> t < number \<and> owner t = w \<and> state_of s' t = HARDWARE_THREAD_RUNNABLE"
    and fin: "\<And>t. finishes l = Some t \<Longrightarrow> t < number \<and> owner t = w \<and> is_active (state_of s' t)"
    and starts: "\<And>u. starts l = Some u \<Longrightarrow> u < number \<and> state_of s' u = HARDWARE_THREAD_STARTING \<and>
        (starts (loc s w) = Some u \<or> state_of s u \<noteq> HARDWARE_THREAD_STARTING)"
    and chk: "\<And>t u. l \<in> {Act_Checked t u, Reset_Checked t u, Stop_Checked t u} \<Longrightarrow> u < number"
    and frame: "y \<noteq> state_of s x \<Longrightarrow> (owner x = w \<or> \<not> is_active (state_of s x)) \<and>
        (starts (loc s w) = Some x \<or> state_of s x \<noteq> HARDWARE_THREAD_STARTING)"
    and last: "l = Last \<or> idle_stop s' \<or> active_count s = 0 \<Longrightarrow> active_count s' = 0"
  shows "threads_ok number owner workers s'"
proof -
  have frame': "y = state_of s x \<or> (owner x = w \<or> \<not> is_active (state_of s x)) \<and>
      (starts (loc s w) = Some x \<or> state_of s x \<noteq> HARDWARE_THREAD_STARTING)" using frame by blast
  show ?thesis
    unfolding threads_ok_def
  proof (intro conjI allI impI)
  have "active_threads number s' + weight (state_of s x) = active_threads number s + weight y"
    "surplus_total workers s' + surplus (loc s w) = surplus_total workers s + surplus l"
    by (rule active_upd [OF x st], rule surplus_upd [OF w loc])
  then show "active_count s' = active_threads number s' + surplus_total workers s'"
    using ok count by (simp add: threads_ok_def)
next
  fix v t assume v: "v < workers" and r: "runs (loc s' v) = Some t"
  have "t < number \<and> owner t = v \<and> state_of s' t = HARDWARE_THREAD_RUNNABLE"
  proof (cases "v = w")
    case True
    then show ?thesis using runs r loc by simp
  next
    case False
    then have "runs (loc s v) = Some t" using r loc by simp
    from ok_runs(1,2,3) [OF ok v this] show ?thesis
      using frame' False by (auto simp: st is_active_def)
  qed
  then show "t < number" "owner t = v" "state_of s' t = HARDWARE_THREAD_RUNNABLE" by auto
next
  fix v t assume v: "v < workers" and r: "finishes (loc s' v) = Some t"
  have "t < number \<and> owner t = v \<and> is_active (state_of s' t)"
  proof (cases "v = w")
    case True
    then show ?thesis using fin r loc by simp
  next
    case False
    then have "finishes (loc s v) = Some t" using r loc by simp
    from ok_finishes [OF ok v this] show ?thesis using frame' False by (auto simp: st)
  qed
  then show "t < number" "owner t = v" "is_active (state_of s' t)" by auto
next
  fix v u assume v: "v < workers" and r: "starts (loc s' v) = Some u"
  have "u < number \<and> state_of s' u = HARDWARE_THREAD_STARTING"
  proof (cases "v = w")
    case True
    then show ?thesis using starts r loc by simp
  next
    case False
    then have "starts (loc s v) = Some u" using r loc by simp
    from ok_starts [OF ok v this] show ?thesis using frame' False w by (auto simp: st)
  qed
  then show "u < number" "state_of s' u = HARDWARE_THREAD_STARTING" by auto
next
  fix v z u assume vz: "v < workers" "z < workers" "starts (loc s' v) = Some u" "starts (loc s' z) = Some u"
  have other: False if "a < workers" "a \<noteq> w" "starts (loc s a) = Some u" "starts l = Some u" for a
    using ok_starts(2) [OF ok that(1,3)] ok_starts(3) [OF ok that(1,3) w] starts [OF that(4)] that(2) by blast
  show "v = z"
    proof (cases "v = w \<or> z = w")
    case True
    then show ?thesis using vz other [of v] other [of z] loc by (auto split: if_splits)
  next
    case False
    then have "starts (loc s v) = Some u" "starts (loc s z) = Some u" using vz loc by auto
    then show ?thesis using ok_starts(3) [OF ok vz(2)] vz(1) by blast
  qed
next
  fix v t u assume "v < workers" "loc s' v \<in> {Act_Checked t u, Reset_Checked t u, Stop_Checked t u}"
  then show "u < number"
    using ok_checked [OF ok, of v t u] chk [of t u] loc by (cases "v = w") auto
next
  assume "(\<exists>v<workers. loc s' v = Last) \<or> idle_stop s'"
  then show "active_count s' = 0"
    proof
    assume "\<exists>v<workers. loc s' v = Last"
    then obtain v where "v < workers" "loc s' v = Last" by blast
    then show ?thesis using ok_last [OF ok, of v] last loc by (cases "v = w") auto
  qed (use last in blast)
  qed
qed

lemmas effects = go_def put_state_def put_halted_def put_stop_def

lemma move_ok:
  assumes ok: "threads_ok number owner workers s" and w: "w < workers"
    and loc: "loc s' = (loc s)(w := l)" and st: "\<And>t. state_of s' t = state_of s t"
    and count: "active_count s' = active_count s" and stop: "idle_stop s' \<Longrightarrow> idle_stop s"
    and keep: "surplus l = surplus (loc s w)" "starts l = starts (loc s w)" "l \<noteq> Last"
    and runs: "\<And>t. runs l = Some t \<Longrightarrow> t < number \<and> owner t = w \<and> state_of s t = HARDWARE_THREAD_RUNNABLE"
    and fin: "\<And>t. finishes l = Some t \<Longrightarrow> t < number \<and> owner t = w \<and> is_active (state_of s t)"
    and chk: "\<And>t u. l \<in> {Act_Checked t u, Reset_Checked t u, Stop_Checked t u} \<Longrightarrow> u < number"
  shows "threads_ok number owner workers s'"
proof (rule preserve [OF ok w, where x = 0 and y = "state_of s 0" and l = l])
  show "l = Last \<or> idle_stop s' \<or> active_count s = 0 \<Longrightarrow> active_count s' = 0"
    using count stop keep(3) ok_last [OF ok] by auto
  show "\<And>u. starts l = Some u \<Longrightarrow> u < number \<and> state_of s' u = HARDWARE_THREAD_STARTING \<and>
        (starts (loc s w) = Some u \<or> state_of s u \<noteq> HARDWARE_THREAD_STARTING)"
    using ok_starts [OF ok w] keep(2) st by auto
qed (use assms in auto)

lemma worker_ok:
  assumes "worker_access number owner w s s'" and ok: "threads_ok number owner workers s" and w: "w < workers"
    and stops: "stops_ok workers s"
  shows "threads_ok number owner workers s'"
  using assms(1)
proof cases
  case (select t)
  then show ?thesis by (intro move_ok [OF ok w, where l = "Running t"]) (auto simp: effects)
next
  case (halt t)
  then show ?thesis
    using ok_runs [OF ok w] by (intro move_ok [OF ok w, where l = "Running t"]) (auto simp: effects)
next
  case (turn_halted t)
  then show ?thesis
    using ok_runs [OF ok w] by (intro move_ok [OF ok w, where l = "Finishing t"]) (auto simp: effects is_active_def)
next
  case (turn_stopped t)
  then show ?thesis
    using ok_runs [OF ok w] by (intro move_ok [OF ok w, where l = "Finishing t"]) (auto simp: effects is_active_def)
next
  case (turn_end t)
  then show ?thesis
    using ok_runs [OF ok w] by (intro move_ok [OF ok w, where l = "Turn_End t"]) (auto simp: effects)
next
  case (turn_done t)
  then show ?thesis by (intro move_ok [OF ok w, where l = Loop]) (auto simp: effects)
next
  case (park t)
  note t = ok_runs [OF ok w, of t]
  show ?thesis
    using park t ok_last [OF ok]
    by (intro preserve [OF ok w, where x = t and y = HARDWARE_THREAD_WAITING and l = Loop])
       (auto simp: effects weight_def is_active_def)
next
  case (wake t)
  then show ?thesis
    using ok_last [OF ok]
    by (intro preserve [OF ok w, where x = t and y = HARDWARE_THREAD_RUNNABLE and l = Loop])
       (auto simp: effects weight_def is_active_def)
next
  case (stop_waiting t)
  then show ?thesis by (intro move_ok [OF ok w, where l = "Finishing t"]) (auto simp: effects is_active_def)
next
  case (turn_failed t)
  then show ?thesis by (intro move_ok [OF ok w, where l = Fail_Stored]) (auto simp: effects)
next
  case (service_failed t)
  then show ?thesis by (intro move_ok [OF ok w, where l = Fail_Stored]) (auto simp: effects)
next
  case fail_stop
  then have "run_failed s" using stops w by (simp add: stops_ok_def)
  then show ?thesis using fail_stop by (intro move_ok [OF ok w, where l = Exited]) (auto simp: effects)
next
  case leave
  then show ?thesis by (intro move_ok [OF ok w, where l = Exited]) (auto simp: effects)
qed

lemma finish_ok:
  assumes "finish_access w s s'" and ok: "threads_ok number owner workers s" and w: "w < workers"
  shows "threads_ok number owner workers s'"
  using assms(1)
proof cases
  case (not_active t)
  then show ?thesis by (intro move_ok [OF ok w, where l = Loop]) (auto simp: effects)
next
  case (mark t)
  then show ?thesis
    using ok_finishes [OF ok w, of t] ok_last [OF ok]
    by (intro preserve [OF ok w, where x = t and y = HARDWARE_THREAD_HALTED and l = "Marked t"])
       (auto simp: effects weight_def is_active_def)
next
  case (store_cpu t)
  then show ?thesis by (intro move_ok [OF ok w, where l = "Cpu_Stored t"]) (auto simp: effects)
next
  case (clear_stop t)
  then show ?thesis by (intro move_ok [OF ok w, where l = "Stop_Cleared t"]) (auto simp: effects)
next
  case (decrement t)
  then have pos: "0 < active_count s" using ok_surplus [OF ok w] by simp
  show ?thesis
    using decrement pos ok_last [OF ok]
    by (intro preserve [OF ok w, where x = 0 and y = "state_of s 0"
          and l = "if active_count s = 1 then Last else Loop"])
       (auto simp: effects split: if_splits)
next
  case stop_machine
  then have "active_count s = 0" using ok_last [OF ok, of w] w by simp
  then show ?thesis
    using stop_machine
    by (intro preserve [OF ok w, where x = 0 and y = "state_of s 0" and l = Loop]) (auto simp: effects)
qed

lemma activate_ok:
  assumes "activate_access number w s s'" and ok: "threads_ok number owner workers s" and w: "w < workers"
  shows "threads_ok number owner workers s'"
  using assms(1)
proof cases
  case (check t u)
  then show ?thesis
    using ok_runs [OF ok w] by (intro move_ok [OF ok w, where l = "Act_Checked t u"]) (auto simp: effects)
next
  case (refuse t u)
  then show ?thesis
    using ok_runs [OF ok w] by (intro move_ok [OF ok w, where l = "Running t"]) (auto simp: effects)
next
  case (starting t u)
  have t: "state_of s t = HARDWARE_THREAD_RUNNABLE" "t < number" "owner t = w" "0 < active_count s" "u < number"
    using ok_runs [OF ok w, of t] ok_checked [OF ok w, of t u] starting by auto
  then show ?thesis
    using starting ok_last [OF ok]
    by (intro preserve [OF ok w, where x = u and y = HARDWARE_THREAD_STARTING and l = "Act_Starting t u"])
       (auto simp: effects weight_def is_active_def)
next
  case (init t u)
  then show ?thesis
    using ok_runs [OF ok w] by (intro move_ok [OF ok w, where l = "Act_Init t u"]) (auto simp: effects)
next
  case (clear t u)
  then show ?thesis
    using ok_runs [OF ok w] by (intro move_ok [OF ok w, where l = "Act_Cleared t u"]) (auto simp: effects)
next
  case (increment t u)
  have "state_of s t = HARDWARE_THREAD_RUNNABLE" "t < number" "owner t = w" "0 < active_count s"
    "u < number" "state_of s u = HARDWARE_THREAD_STARTING"
    using ok_runs [OF ok w, of t] ok_starts [OF ok w, of u] increment by auto
  then show ?thesis
    using increment ok_last [OF ok]
    by (intro preserve [OF ok w, where x = u and y = HARDWARE_THREAD_STARTING and l = "Act_Counted t u"])
       (auto simp: effects)
next
  case (publish t u)
  have "state_of s t = HARDWARE_THREAD_RUNNABLE" "t < number" "owner t = w" "0 < active_count s"
    "u < number" "state_of s u = HARDWARE_THREAD_STARTING"
    using ok_runs [OF ok w, of t] ok_starts [OF ok w, of u] publish by auto
  then show ?thesis
    using publish ok_last [OF ok]
    by (intro preserve [OF ok w, where x = u and y = HARDWARE_THREAD_RUNNABLE and l = "Running t"])
       (auto simp: effects weight_def is_active_def)
qed

lemma reset_access_ok:
  assumes "reset_access number w s s'" and ok: "threads_ok number owner workers s" and w: "w < workers"
  shows "threads_ok number owner workers s'"
  using assms(1)
proof cases
  case (load t u)
  then show ?thesis
    using ok_runs [OF ok w] by (intro move_ok [OF ok w, where l = "Reset_Checked t u"]) (auto simp: effects)
next
  case (refuse t u)
  then show ?thesis
    using ok_runs [OF ok w] by (intro move_ok [OF ok w, where l = "Running t"]) (auto simp: effects)
next
  case (starting t u)
  have t: "state_of s t = HARDWARE_THREAD_RUNNABLE" "t < number" "owner t = w" "0 < active_count s" "u < number"
    using ok_runs [OF ok w, of t] ok_checked [OF ok w, of t u] starting by auto
  then show ?thesis
    using starting ok_last [OF ok]
    by (intro preserve [OF ok w, where x = u and y = HARDWARE_THREAD_STARTING and l = "Reset_Starting t u"])
       (auto simp: effects weight_def is_active_def)
next
  case (init t u)
  then show ?thesis
    using ok_runs [OF ok w] by (intro move_ok [OF ok w, where l = "Reset_Init t u"]) (auto simp: effects)
next
  case (clear t u)
  then show ?thesis
    using ok_runs [OF ok w] by (intro move_ok [OF ok w, where l = "Reset_Cleared t u"]) (auto simp: effects)
next
  case (publish t u)
  have "state_of s t = HARDWARE_THREAD_RUNNABLE" "t < number" "owner t = w" "0 < active_count s"
    "u < number" "state_of s u = HARDWARE_THREAD_STARTING"
    using ok_runs [OF ok w, of t] ok_starts [OF ok w, of u] publish by auto
  then show ?thesis
    using publish ok_last [OF ok]
    by (intro preserve [OF ok w, where x = u and y = HARDWARE_THREAD_OFFLINE and l = "Running t"])
       (auto simp: effects weight_def is_active_def)
qed

lemma stop_ok:
  assumes "stop_access number w s s'" and ok: "threads_ok number owner workers s" and w: "w < workers"
  shows "threads_ok number owner workers s'"
  using assms(1)
proof cases
  case (load t u)
  then show ?thesis
    using ok_runs [OF ok w] by (intro move_ok [OF ok w, where l = "Stop_Checked t u"]) (auto simp: effects)
next
  case (store t u)
  then show ?thesis
    using ok_runs [OF ok w] by (intro move_ok [OF ok w, where l = "Running t"]) (auto simp: effects)
qed

lemma action_ok:
  assumes "action_access w s s'" and ok: "threads_ok number owner workers s" and w: "w < workers"
    and stops: "stops_ok workers s"
  shows "threads_ok number owner workers s'"
  using assms(1)
proof cases
  case (request t a)
  then show ?thesis
    using ok_runs [OF ok w] by (intro move_ok [OF ok w, where l = "Action_Stored t"]) (auto simp: effects)
next
  case (refuse t)
  then show ?thesis using ok by simp
next
  case (stop t)
  then have "action s \<noteq> VM_SYSTEM_ACTION_NONE" using stops w by (auto simp: stops_ok_def)
  then show ?thesis
    using stop ok_runs [OF ok w] by (intro move_ok [OF ok w, where l = "Running t"]) (auto simp: effects)
qed

lemma stops_move:
  assumes "stops_ok workers s" "\<And>v. v \<noteq> w \<Longrightarrow> loc s' v = loc s v"
    and "device_loc s' = device_loc s" "main_loc s' = main_loc s"
    and "run_failed s \<Longrightarrow> run_failed s'" "action s \<noteq> VM_SYSTEM_ACTION_NONE \<Longrightarrow> action s' \<noteq> VM_SYSTEM_ACTION_NONE"
    and "all_stop s \<Longrightarrow> all_stop s'" "loc s' w = Fail_Stored \<Longrightarrow> run_failed s'"
    and "\<And>t. loc s' w = Action_Stored t \<Longrightarrow> action s' \<noteq> VM_SYSTEM_ACTION_NONE" "loc s' w = Exited \<Longrightarrow> all_stop s'"
  shows "stops_ok workers s'"
proof -
  have "v < workers \<Longrightarrow> loc s' v = Fail_Stored \<Longrightarrow> run_failed s'"
    "v < workers \<Longrightarrow> loc s' v = Action_Stored t \<Longrightarrow> action s' \<noteq> VM_SYSTEM_ACTION_NONE"
    "v < workers \<Longrightarrow> loc s' v = Exited \<Longrightarrow> all_stop s'" for v t
    using assms by (cases "v = w"; force simp: stops_ok_def)+
  moreover have "device_loc s' = Fail_Stored \<Longrightarrow> run_failed s'" "main_loc s' = Fail_Stored \<Longrightarrow> run_failed s'"
    using assms(1,3,4,5) by (simp_all add: stops_ok_def)
  ultimately show ?thesis unfolding stops_ok_def by blast
qed

lemma access_stops:
  assumes "access number owner w s s'" and stops: "stops_ok workers s"
  shows "stops_ok workers s'"
proof -
  consider "worker_access number owner w s s'" | "finish_access w s s'" | "activate_access number w s s'"
    | "reset_access number w s s'" | "stop_access number w s s'" | "action_access w s s'"
    using assms(1) by (auto simp: access_def)
  then show ?thesis
  proof cases
    case 1
    then show ?thesis by cases (rule stops_move [OF stops, where w = w]; simp add: effects)+
  next
    case 2
    then show ?thesis by cases (rule stops_move [OF stops, where w = w]; simp add: effects split: if_splits)+
  next
    case 3
    then show ?thesis by cases (rule stops_move [OF stops, where w = w]; simp add: effects)+
  next
    case 4
    then show ?thesis by cases (rule stops_move [OF stops, where w = w]; simp add: effects)+
  next
    case 5
    then show ?thesis by cases (rule stops_move [OF stops, where w = w]; simp add: effects)+
  next
    case 6
    then show ?thesis by cases (rule stops_move [OF stops, where w = w]; auto simp: effects)+
  qed
qed

text \<open>The other host threads leave the locations of the workers, the count and the states.\<close>

lemma host_ok:
  assumes "threads_ok number owner workers s" "loc s' = loc s" "cells s' = cells s" "active_count s' = active_count s"
    and "idle_stop s' \<Longrightarrow> idle_stop s"
  shows "threads_ok number owner workers s'"
proof -
  have "active_threads number s' = active_threads number s" "surplus_total workers s' = surplus_total workers s"
    using assms by (simp_all add: active_threads_def surplus_total_def)
  moreover have "(\<exists>w < workers. loc s' w = Last) \<or> idle_stop s' \<longrightarrow> active_count s' = 0"
    using ok_last [OF assms(1)] assms by auto
  ultimately show ?thesis using assms(1-4) unfolding threads_ok_def by simp
qed

lemma device_ok:
  assumes "device_access s s'" and ok: "threads_ok number owner workers s" and stops: "stops_ok workers s"
  shows "threads_ok number owner workers s' \<and> stops_ok workers s'"
  using assms(1)
proof cases
  case fail
  then show ?thesis using stops by (auto intro!: host_ok [OF ok]) (auto simp: stops_ok_def)
next
  case fail_stop
  then have "run_failed s" using stops by (simp add: stops_ok_def)
  then show ?thesis using fail_stop stops by (auto intro!: host_ok [OF ok]) (auto simp: stops_ok_def)
next
  case leave
  then show ?thesis using stops by (auto intro!: host_ok [OF ok]) (auto simp: stops_ok_def)
qed

lemma main_ok:
  assumes "main_access workers s s'" and ok: "threads_ok number owner workers s" and stops: "stops_ok workers s"
    and "0 < workers"
  shows "threads_ok number owner workers s' \<and> stops_ok workers s'"
  using assms(1)
proof cases
  case fail
  then show ?thesis using stops by (auto intro!: host_ok [OF ok]) (auto simp: stops_ok_def)
next
  case fail_stop
  then have "run_failed s" using stops by (simp add: stops_ok_def)
  then show ?thesis using fail_stop stops by (auto intro!: host_ok [OF ok]) (auto simp: stops_ok_def)
next
  case joined
  then have "run_failed s \<or> all_stop s" using stops assms(4) by (auto simp: stops_ok_def)
  then show ?thesis using joined stops by (auto intro!: host_ok [OF ok]) (auto simp: stops_ok_def)
qed

lemma fresh_ok:
  assumes "0 < number" "\<And>t. t < number \<Longrightarrow> cells s t = boot_cell t" "active_count s = 1" "\<not> all_stop s"
    and "loc s = (\<lambda>_. Loop)" "device_loc s = Loop" "main_loc s = Loop"
  shows "threads_ok number owner workers s \<and> stops_ok workers s"
proof -
  have "(\<Sum>t<number. if t = 0 then 1 else 0 :: nat) = 1" using assms(1) by simp
  moreover have "active_threads number s = (\<Sum>t<number. if t = 0 then 1 else 0)"
    unfolding active_threads_def
    by (rule sum.cong) (auto simp: assms(2) boot_cell_def is_active_def)
  ultimately have "active_threads number s = 1" by simp
  with assms(3-) show ?thesis by (simp add: threads_ok_def stops_ok_def surplus_total_def)
qed

lemma reachable_ok:
  assumes "reachable number owner workers s" "0 < number" "0 < workers"
  shows "threads_ok number owner workers s \<and> stops_ok workers s"
  using assms(1)
proof (induction rule: reachable.induct)
  case boot
  then show ?case by (intro fresh_ok [OF assms(2)]) (simp_all add: boot_state_def)
next
  case (step s w s')
  then have ok: "threads_ok number owner workers s" and stops: "stops_ok workers s" by auto
  from step.hyps(3) have "threads_ok number owner workers s'"
    unfolding access_def
    using worker_ok [OF _ ok step.hyps(2) stops] finish_ok [OF _ ok step.hyps(2)] activate_ok [OF _ ok step.hyps(2)]
      reset_access_ok [OF _ ok step.hyps(2)] stop_ok [OF _ ok step.hyps(2)] action_ok [OF _ ok step.hyps(2) stops]
    by blast
  then show ?case using access_stops [OF step.hyps(3) stops] by blast
next
  case (device s s')
  then show ?case using device_ok by blast
next
  case (main s s')
  then show ?case using main_ok assms(3) by blast
next
  case (reset s)
  then show ?case by (intro fresh_ok [OF assms(2)]) (simp_all add: warm_reset_def)
qed

section \<open>Properties\<close>

text \<open>C20: The machine stops only for a reason. However the workers of any number of cores, the
  device worker and the main thread interleave their atomic accesses while threads start, stop,
  reset, wait and halt each other, across warm resets, the counter of active threads is never below
  their number. When the stop flag of the machine is set, a host thread has stored the failure
  flag, or a guest has requested a shutdown or a reset, or no thread is runnable or waiting and no
  worker is executing an instruction or activating a thread. A worker returns only after the flag
  is set.\<close>

theorem machine_stops_only_with_cause:
  assumes "reachable number owner workers s" and "0 < number" and "0 < workers"
  shows "active_threads number s \<le> active_count s \<and>
    (all_stop s \<longrightarrow>
      run_failed s \<or> action s \<noteq> VM_SYSTEM_ACTION_NONE \<or>
      (\<forall>t < number. \<not> is_active (state_of s t)) \<and>
      (\<forall>w < workers. runs (loc s w) = None \<and> starts (loc s w) = None)) \<and>
    ((\<exists>w < workers. loc s w = Exited) \<longrightarrow> all_stop s)"
proof -
  have ok: "threads_ok number owner workers s" and stops: "stops_ok workers s" using reachable_ok [OF assms] by auto
  have "active_threads number s \<le> active_count s" using ok by (simp add: threads_ok_def)
  moreover have "\<not> is_active (state_of s t)" if "idle_stop s" "t < number" for t
  proof -
    have "active_threads number s = 0" using ok that(1) by (simp add: threads_ok_def)
    then show ?thesis using that(2) by (auto simp: active_threads_def split: if_splits)
  qed
  moreover have "runs (loc s w) = None" if "idle_stop s" "w < workers" for w
    using ok_runs(4) [OF ok that(2)] ok_last [OF ok] that(1) by (cases "runs (loc s w)") auto
  moreover have "starts l = None" if "runs l = None" for l using that by (cases l) auto
  moreover have "(\<exists>w < workers. loc s w = Exited) \<longrightarrow> all_stop s" using stops by (auto simp: stops_ok_def)
  ultimately show ?thesis by blast
qed

text \<open>Without interference an activation and a reset have the effect of the sequential operations.\<close>

lemma access_any:
  "worker_access number owner w s s' \<Longrightarrow> access number owner w s s'"
  "finish_access w s s' \<Longrightarrow> access number owner w s s'"
  "activate_access number w s s' \<Longrightarrow> access number owner w s s'"
  "reset_access number w s s' \<Longrightarrow> access number owner w s s'"
  by (simp_all add: access_def)

lemma start_thread:
  assumes "reachable number owner workers s" "w < workers" "loc s w = Running t" "\<not> all_stop s" "u < number"
    "state_of s u = HARDWARE_THREAD_OFFLINE"
  shows "reachable number owner workers
    (s\<lparr>cells := (cells s)(u := \<lparr>c_state = HARDWARE_THREAD_RUNNABLE, c_halted = False, c_stop = False\<rparr>),
       active_count := active_count s + 1\<rparr>)"
proof -
  define s1 where "s1 = go w (Act_Checked t u) s"
  define s2 where "s2 = go w (Act_Starting t u) (put_state u HARDWARE_THREAD_STARTING s1)"
  define s3 where "s3 = go w (Act_Init t u) (put_halted u False s2)"
  define s4 where "s4 = go w (Act_Cleared t u) (put_stop u False s3)"
  define s5 where "s5 = go w (Act_Counted t u) (s4\<lparr>active_count := active_count s4 + 1\<rparr>)"
  define s6 where "s6 = go w (Running t) (put_state u HARDWARE_THREAD_RUNNABLE s5)"
  note defs = s1_def s2_def s3_def s4_def s5_def s6_def effects
  have "activate_access number w s s1" unfolding s1_def by (rule activate_access.check) (use assms in \<open>simp_all add: defs\<close>)
  note r1 = reachable.step [OF assms(1) assms(2) access_any(3) [OF this]]
  have "activate_access number w s1 s2" unfolding s2_def by (rule activate_access.starting) (use assms in \<open>simp_all add: defs\<close>)
  note r2 = reachable.step [OF r1 assms(2) access_any(3) [OF this]]
  have "activate_access number w s2 s3" unfolding s3_def by (rule activate_access.init) (use assms in \<open>simp_all add: defs\<close>)
  note r3 = reachable.step [OF r2 assms(2) access_any(3) [OF this]]
  have "activate_access number w s3 s4" unfolding s4_def by (rule activate_access.clear) (use assms in \<open>simp_all add: defs\<close>)
  note r4 = reachable.step [OF r3 assms(2) access_any(3) [OF this]]
  have "activate_access number w s4 s5" unfolding s5_def by (rule activate_access.increment) (use assms in \<open>simp_all add: defs\<close>)
  note r5 = reachable.step [OF r4 assms(2) access_any(3) [OF this]]
  have "activate_access number w s5 s6" unfolding s6_def by (rule activate_access.publish) (use assms in \<open>simp_all add: defs\<close>)
  note r6 = reachable.step [OF r5 assms(2) access_any(3) [OF this]]
  have "s6 = s\<lparr>cells := (cells s)(u := \<lparr>c_state = HARDWARE_THREAD_RUNNABLE, c_halted = False, c_stop = False\<rparr>),
       active_count := active_count s + 1\<rparr>"
    using assms(3) by (cases "cells s u") (simp add: defs fun_upd_idem)
  with r6 show ?thesis by simp
qed

lemma reset_thread:
  assumes "reachable number owner workers s" "w < workers" "loc s w = Running t" "u < number"
    "state_of s u = HARDWARE_THREAD_HALTED"
  shows "reachable number owner workers
    (s\<lparr>cells := (cells s)(u := \<lparr>c_state = HARDWARE_THREAD_OFFLINE, c_halted = False, c_stop = False\<rparr>)\<rparr>)"
proof -
  define s1 where "s1 = go w (Reset_Checked t u) s"
  define s2 where "s2 = go w (Reset_Starting t u) (put_state u HARDWARE_THREAD_STARTING s1)"
  define s3 where "s3 = go w (Reset_Init t u) (put_halted u False s2)"
  define s4 where "s4 = go w (Reset_Cleared t u) (put_stop u False s3)"
  define s5 where "s5 = go w (Running t) (put_state u HARDWARE_THREAD_OFFLINE s4)"
  note defs = s1_def s2_def s3_def s4_def s5_def effects
  have "reset_access number w s s1" unfolding s1_def by (rule reset_access.load) (use assms in \<open>simp_all add: defs\<close>)
  note r1 = reachable.step [OF assms(1) assms(2) access_any(4) [OF this]]
  have "reset_access number w s1 s2" unfolding s2_def by (rule reset_access.starting) (use assms in \<open>simp_all add: defs\<close>)
  note r2 = reachable.step [OF r1 assms(2) access_any(4) [OF this]]
  have "reset_access number w s2 s3" unfolding s3_def by (rule reset_access.init) (use assms in \<open>simp_all add: defs\<close>)
  note r3 = reachable.step [OF r2 assms(2) access_any(4) [OF this]]
  have "reset_access number w s3 s4" unfolding s4_def by (rule reset_access.clear) (use assms in \<open>simp_all add: defs\<close>)
  note r4 = reachable.step [OF r3 assms(2) access_any(4) [OF this]]
  have "reset_access number w s4 s5" unfolding s5_def by (rule reset_access.publish) (use assms in \<open>simp_all add: defs\<close>)
  note r5 = reachable.step [OF r4 assms(2) access_any(4) [OF this]]
  have "s5 = s\<lparr>cells := (cells s)(u := \<lparr>c_state = HARDWARE_THREAD_OFFLINE, c_halted = False, c_stop = False\<rparr>)\<rparr>"
    using assms(3) by (cases "cells s u") (simp add: defs fun_upd_idem)
  with r5 show ?thesis by simp
qed

theorem machine_stops_only_with_cause_witness:
  "\<exists>s. reachable 2 (\<lambda>_. 0) 2 s \<and> all_stop s \<and> \<not> is_active (state_of s 0) \<and> runs (loc s 0) = None"
proof -
  let ?R = "reachable 2 (\<lambda>_. 0) 2"
  note unfold = effects boot_state_def boot_cell_def is_active_def
  have run: "?R s'" if "?R s" "w < 2" "access 2 (\<lambda>_. 0) w s s'" for s w s' by (rule reachable.step [OF that])
  have r1: "?R (go 0 (Running 0) boot_state)"
    by (rule run [OF reachable.boot _ access_any(1) [OF worker_access.select]]) (simp_all add: unfold)
  note r2 = run [OF r1 _ access_any(1) [OF worker_access.halt [of _ 0 0]], simplified unfold, simplified]
  note r3 = run [OF r2 _ access_any(1) [OF worker_access.turn_halted [of _ 0 0]], simplified unfold, simplified]
  note r4 = run [OF r3 _ access_any(2) [OF finish_access.mark [of _ 0 0]], simplified unfold, simplified]
  note r5 = run [OF r4 _ access_any(2) [OF finish_access.store_cpu [of _ 0 0]], simplified unfold, simplified]
  note r6 = run [OF r5 _ access_any(2) [OF finish_access.clear_stop [of _ 0 0]], simplified unfold, simplified]
  note r7 = run [OF r6 _ access_any(2) [OF finish_access.decrement [of _ 0 0]], simplified unfold, simplified]
  have "\<exists>s. ?R s \<and> idle_stop s"
    using run [OF r7 _ access_any(2) [OF finish_access.stop_machine [of _ 0]], simplified unfold, simplified]
    by (intro exI conjI) auto
  then obtain s where "?R s" "idle_stop s" by blast
  with machine_stops_only_with_cause [of 2 "\<lambda>_. 0" 2 s] show ?thesis by auto
qed

text \<open>
  C21: The accesses of a finishing thread are not one step: its state is published as halted before
  the halted flag of its processor is stored. There is an interleaving in which another worker
  resets and restarts the thread in between, and the runnable thread is halted by the late store.
\<close>

theorem restarted_thread_is_halted:
  "\<exists>s. reachable 2 (\<lambda>t. t) 2 s \<and> state_of s 1 = HARDWARE_THREAD_RUNNABLE \<and> c_halted (cells s 1) \<and>
     loc s 0 = Running 0 \<and> loc s 1 = Cpu_Stored 1"
proof -
  let ?R = "reachable 2 (\<lambda>t. t) 2"
  note unfold = effects boot_state_def boot_cell_def is_active_def
  have run: "?R s'" if "?R s" "w < 2" "access 2 (\<lambda>t. t) w s s'" for s w s' by (rule reachable.step [OF that])
  have "?R (go 0 (Running 0) boot_state)"
    by (rule run [OF reachable.boot _ access_any(1) [OF worker_access.select]]) (simp_all add: unfold)
  note r1 = start_thread [OF this, of 0 0 1, simplified unfold, simplified]
  note r2 = run [OF r1 _ access_any(1) [OF worker_access.select [of _ 1 1]], simplified unfold, simplified]
  note r3 = run [OF r2 _ access_any(1) [OF worker_access.halt [of _ 1 1]], simplified unfold, simplified]
  note r4 = run [OF r3 _ access_any(1) [OF worker_access.turn_halted [of _ 1 1]], simplified unfold, simplified]
  note r5 = run [OF r4 _ access_any(2) [OF finish_access.mark [of _ 1 1]], simplified unfold, simplified]
  note r6 = reset_thread [OF r5, of 0 0 1, simplified unfold, simplified]
  note r7 = start_thread [OF r6, of 0 0 1, simplified unfold, simplified]
  note r8 = run [OF r7 _ access_any(2) [OF finish_access.store_cpu [of _ 1 1]], simplified unfold, simplified]
  show ?thesis by (intro exI conjI, rule r8) simp_all
qed

end
