(* ===== verification/Spec2Isabelle.thy ===== *)
theory Spec2Isabelle
  imports Mmu Kernel_Malloc Cpu_Isolation Uart Timer Irq_Controller Keyboard Display_Queue Vm_Threads
begin

text \<open>
  RISC-MV is a virtual machine for the 64-bit architecture RArchM64 with its devices, a kernel
  that runs on it and the tools that build programs for it. This development models the machine
  and the memory management of the kernel. File names below are relative to \<^verbatim>\<open>src/\<close>.

  \<^bold>\<open>The parts and how they interact.\<close> A core worker (\<^verbatim>\<open>src/vm.c\<close>) picks a hardware thread and
  executes one instruction (\<^verbatim>\<open>src/cpu.c\<close>, \<^verbatim>\<open>src/cpu_vector.c\<close>). The instruction translates its
  addresses (\<^verbatim>\<open>src/mmu.c\<close>) and accesses the bus (\<^verbatim>\<open>src/bus.c\<close>), which routes to the RAM
  (\<^verbatim>\<open>src/ram.c\<close>), the ROM or a device. Devices raise lines of the interrupt router
  (\<^verbatim>\<open>src/interrupt.c\<close>), which sets pending bits in the controller of a hardware thread; the worker
  checks them after each instruction. The kernel allocates pages (\<^verbatim>\<open>kernel/pmm.c\<close>), builds the
  tables that the MMU walks (\<^verbatim>\<open>kernel/mmu.c\<close>) and keeps a heap in a window of virtual pages
  (\<^verbatim>\<open>kernel/heap.c\<close>).

  \<^bold>\<open>Conventions.\<close> Integers have the width they have in C; \<^verbatim>\<open>size_t\<close> counts and indices that
  the code bounds are naturals. A structure is a record, an enumeration a datatype. A function
  that may fail returns an option, and one that changes state returns the new state; an operation
  of the processor takes a machine to an optional result and a machine, so that the state a failure
  leaves behind is part of the result. Loops without an evident bound are partial functions
  into options, and the theorems about them state that they return. Locked sections of a device
  or of the router are one step.

  \<^bold>\<open>Theories.\<close>
  \<^item> \<open>Prelude\<close>: word types, little-endian bytes, collections of rewrite rules. \<open>Invariant_Machine\<close>,
    \<open>Simulation\<close>, \<open>Memory\<close>, \<open>Ring_Buffer\<close>, \<open>Page_Pool\<close>: the contracts (locales) between the
    components and their clients, interpreted in the theories of the components.
  \<^item> \<open>Ram\<close> (\<^verbatim>\<open>src/ram.c\<close>): range checks, reads, writes, blocks, atomics, and the parser of the RAM
    size. The fast paths agree with the byte loops, a write is read back, a lock word is exclusive.
  \<^item> \<open>Interrupt\<close> (\<^verbatim>\<open>src/interrupt.c\<close>): the router and the controllers. No enabled interrupt is lost
    and two active lines never share a target. \<open>Irq_Controller\<close> (\<^verbatim>\<open>src/irq_controller.c\<close>,
    \<^verbatim>\<open>src/system_info.c\<close>): no store of a guest breaks that invariant.
  \<^item> \<open>Bus\<close> (\<^verbatim>\<open>src/bus.c\<close>): mapping and routing. RAM, ROM and devices stay disjoint. Device
    callbacks are parameters on a world of type \<open>'w\<close>.
  \<^item> \<open>Mmu\<close> (\<^verbatim>\<open>src/mmu.c\<close>): the walk; a translation is sound, constant on a page, and unaffected by
    stores outside the entries it reads.
  \<^item> \<open>Cpu_State\<close>, \<open>Cpu_Exec\<close>, \<open>Cpu_Float\<close>, \<open>Cpu_Vector\<close>, \<open>Cpu\<close>: the state of the processor, every
    instruction handler, \<open>cpu_step\<close> and \<open>cpu_check_interrupt\<close>. The IEEE arithmetic of the host is
    the record \<open>host_float\<close>, a parameter.
  \<^item> \<open>Cpu_Frame\<close>, \<open>Cpu_Trap\<close>: what all handlers leave alone, proved once for any suitable preorder,
    and a step as an instruction followed by a trap. \<open>Cpu_Precise\<close>: exceptions are precise.
    \<open>Cpu_Stack\<close>: \<^verbatim>\<open>IRET\<close> undoes the entry of a handler. \<open>Cpu_Isolation\<close>: a user program cannot
    change memory outside its pages, a device or the configuration, and enters the kernel only at an
    entry of the vector table.
  \<^item> \<open>Uart\<close>, \<open>Timer\<close>, \<open>Keyboard\<close>, \<open>Display_Queue\<close>, \<open>Device_Abi\<close>: the devices of \<^verbatim>\<open>src/uart.c\<close>,
    \<^verbatim>\<open>src/timer.c\<close>, \<^verbatim>\<open>src/vm_clock.c\<close>, \<^verbatim>\<open>src/keyboard_input.c\<close>, \<^verbatim>\<open>src/display_queue.c\<close> and
    \<^verbatim>\<open>devices/\<close>. The serial port refines a port with list queues, the timers keep time, key
    events come in order, the latest frame is the one shown.
  \<^item> \<open>Vm\<close> (\<^verbatim>\<open>src/vm.c\<close>, \<^verbatim>\<open>src/core_control.c\<close>, \<^verbatim>\<open>src/system_control.c\<close>): sequential operations and a
    turn of a worker. \<open>Vm_Threads\<close>: the same file as interleaved atomic accesses of the workers,
    the device worker and \<open>run_workers\<close>. The machine stops only when a host thread failed, a
    guest asked for it or no thread is active.
  \<^item> \<open>Kernel_Memory\<close>, \<open>Kernel_Pmm\<close> (\<^verbatim>\<open>kernel/pmm.c\<close>): pages are owned exclusively. \<open>Kernel_Mmu\<close>
    (\<^verbatim>\<open>kernel/mmu.c\<close>): mapping a range gives exactly the translations asked for in the walk of
    \<open>Mmu\<close>. \<open>Kernel_Virtual\<close>, \<open>Kernel_Heap\<close>, \<open>Kernel_Heap_Blocks\<close>, \<open>Kernel_Malloc\<close>
    (\<^verbatim>\<open>kernel/heap.c\<close>): blocks keep what is stored in them.

  \<^bold>\<open>Bounds.\<close> The loop that cuts an access into segments has two as its bound, the size of
  the array of the source: an access has at most 16 bytes and crosses at most one page boundary.
  The walk has three levels. Sequences of events, numbers of steps, workers and threads
  are arbitrary.

  \<^bold>\<open>Simplifications.\<close> Interleaving is modelled in \<open>Vm_Threads\<close> only: elsewhere an operation is
  one step, also the transmit loop of the serial port, which releases its lock between bytes.
  Atomic accesses are sequentially consistent. In \<open>Vm_Threads\<close> a worker may continue after the stop
  flag is set for as many turns as it likes. The instructions of a thread enter there as the
  free choice of accesses. The frontend checks of the keyboard are the answer of a
  service of the host. Diagnostic output is left out.

  \<^bold>\<open>Not modelled.\<close> The rest of the kernel (address spaces, scheduler, processes, system calls,
  file systems, drivers, loader, start), whose context switches are assembly; the block and
  display devices, the device manager and the host program, which are host I/O; the
  assembler, linker, compiler, translator and image tools, which are separate programs.
\<close>

end
